(* ===== verification/Py_Prelude.thy ===== *)
theory Py_Prelude
  imports Complex_Main "HOL-Library.AList"
begin

text \<open>
  The part of Python the backend relies on, shared by every component:
  results that may raise, ordered dictionaries, text, and the values a JSON document can
  hold.

  \<^item> A function that may raise returns \<open>'a res\<close>, a sum with the exception on the
    left. \<open>rbind\<close> and \<open>mapM\<close> sequence such calls in the order Python evaluates them,
    so the first exception wins.
  \<^item> A \<open>dict\<close> is an association list in insertion order. \<open>AList.update\<close> replaces
    in place or appends and \<open>AList.delete\<close> removes, as \<open>d[k] = v\<close> and
    \<open>d.pop(k, None)\<close> do.
  \<^item> Text is \<open>string\<close>. One \<open>char\<close> stands for one code point up to 255; code points
    beyond that are not represented.
  \<^item> A float is a binary64 value: \<open>Fin\<close> carries the exact rational it denotes. The
    two zeros are identified; no operation of the modelled code tells them apart.
\<close>

named_theorems res_simps \<open>rewriting of results that may raise\<close>
named_theorems depth_intros \<open>sub-documents are shallower than the document that holds them\<close>

subsection \<open>Exceptions and results\<close>

datatype py_error =
    CompileError string
  | EvaluationError string
  | DocumentError string string
  | KeyError
  | IndexError
  | TypeError
  | ValueError
  | OverflowError
  | AttributeError
  | AssertionError

type_synonym 'a res = "py_error + 'a"

definition rbind :: "'e + 'a \<Rightarrow> ('a \<Rightarrow> 'e + 'b) \<Rightarrow> 'e + 'b" where
  "rbind r f = (case r of Inl e \<Rightarrow> Inl e | Inr x \<Rightarrow> f x)"

primrec mapM :: "('a \<Rightarrow> 'e + 'b) \<Rightarrow> 'a list \<Rightarrow> 'e + 'b list" where
  "mapM f [] = Inr []"
| "mapM f (x # xs) = rbind (f x) (\<lambda>y. rbind (mapM f xs) (\<lambda>ys. Inr (y # ys)))"

primrec foldM :: "('s \<Rightarrow> 'a \<Rightarrow> 'e + 's) \<Rightarrow> 's \<Rightarrow> 'a list \<Rightarrow> 'e + 's" where
  "foldM f s [] = Inr s"
| "foldM f s (x # xs) = rbind (f s x) (\<lambda>s'. foldM f s' xs)"

primrec filterM :: "('a \<Rightarrow> 'e + bool) \<Rightarrow> 'a list \<Rightarrow> 'e + 'a list" where
  "filterM p [] = Inr []"
| "filterM p (x # xs) =
     rbind (p x) (\<lambda>b. rbind (filterM p xs) (\<lambda>ys. Inr (if b then x # ys else ys)))"

definition of_option :: "py_error \<Rightarrow> 'a option \<Rightarrow> 'a res" where
  "of_option e v = (case v of None \<Rightarrow> Inl e | Some x \<Rightarrow> Inr x)"

subsection \<open>Values of a JSON document\<close>

datatype pyfloat = Fin rat | PosInf | NegInf | NaN

datatype json =
    JNull
  | JBool bool
  | JInt int
  | JFloat pyfloat
  | JStr string
  | JList "json list"
  | JObj "(string \<times> json) list"

type_synonym dict = "(string \<times> json) list"

primrec depth :: "json \<Rightarrow> nat" where
  "depth JNull = 0"
| "depth (JBool b) = 0"
| "depth (JInt i) = 0"
| "depth (JFloat x) = 0"
| "depth (JStr s) = 0"
| "depth (JList xs) = Suc (Max (set (0 # map depth xs)))"
| "depth (JObj kvs) = Suc (Max (set (0 # map snd (map (map_prod id depth) kvs))))"

text \<open>\<open>node.get(key)\<close>, with a missing key and an explicit \<open>null\<close> both \<open>None\<close>.\<close>

definition jget :: "dict \<Rightarrow> string \<Rightarrow> json" where
  "jget d k = (case map_of d k of None \<Rightarrow> JNull | Some v \<Rightarrow> v)"

text \<open>\<open>node[key]\<close>.\<close>

definition jitem :: "dict \<Rightarrow> string \<Rightarrow> json res" where
  "jitem d k = of_option KeyError (map_of d k)"

text \<open>Python's truth of a value (\<open>x or default\<close>, \<open>if not x\<close>).\<close>

fun truthy :: "json \<Rightarrow> bool" where
  "truthy JNull = False"
| "truthy (JBool b) = b"
| "truthy (JInt i) = (i \<noteq> 0)"
| "truthy (JFloat x) = (x \<noteq> Fin 0)"
| "truthy (JStr s) = (s \<noteq> [])"
| "truthy (JList xs) = (xs \<noteq> [])"
| "truthy (JObj kvs) = (kvs \<noteq> [])"

text \<open>\<open>for x in v\<close>: a string yields its characters, a dictionary its keys.\<close>

fun py_iter :: "json \<Rightarrow> json list res" where
  "py_iter (JList xs) = Inr xs"
| "py_iter (JStr s) = Inr (map (\<lambda>c. JStr [c]) s)"
| "py_iter (JObj kvs) = Inr (map (\<lambda>kv. JStr (fst kv)) kvs)"
| "py_iter _ = Inl TypeError"

text \<open>\<open>v[i]\<close> for a literal non-negative \<open>i\<close>.\<close>

fun py_index :: "json \<Rightarrow> nat \<Rightarrow> json res" where
  "py_index (JList xs) i = (if i < length xs then Inr (xs ! i) else Inl IndexError)"
| "py_index (JStr s) i = (if i < length s then Inr (JStr [s ! i]) else Inl IndexError)"
| "py_index (JObj kvs) i = Inl KeyError"
| "py_index _ i = Inl TypeError"

fun is_dict :: "json \<Rightarrow> bool" where
  "is_dict (JObj kvs) = True"
| "is_dict _ = False"

fun is_list :: "json \<Rightarrow> bool" where
  "is_list (JList xs) = True"
| "is_list _ = False"

fun is_str :: "json \<Rightarrow> bool" where
  "is_str (JStr s) = True"
| "is_str _ = False"

text \<open>A value usable as a dictionary key or set member (lists and dictionaries are not).\<close>

definition hashable :: "json \<Rightarrow> bool" where
  "hashable v \<longleftrightarrow> \<not> is_list v \<and> \<not> is_dict v"

subsection \<open>Text\<close>

definition starts_with :: "string \<Rightarrow> string \<Rightarrow> bool" where
  "starts_with p s \<longleftrightarrow> take (length p) s = p"

definition ends_with :: "string \<Rightarrow> string \<Rightarrow> bool" where
  "ends_with p s \<longleftrightarrow> starts_with (rev p) (rev s)"

text \<open>\<open>s.split(sep, 1)\<close> for a separator that occurs: the text before and after its first
  occurrence, and \<open>None\<close> when it does not occur.\<close>

fun split_first :: "string \<Rightarrow> string \<Rightarrow> (string \<times> string) option" where
  "split_first sep [] = (if sep = [] then Some ([], []) else None)"
| "split_first sep (c # cs) =
     (if starts_with sep (c # cs) then Some ([], drop (length sep) (c # cs))
      else map_option (\<lambda>(a, b). (c # a, b)) (split_first sep cs))"

definition contains :: "string \<Rightarrow> string \<Rightarrow> bool" where
  "contains sep s \<longleftrightarrow> split_first sep s \<noteq> None"

definition split_before :: "string \<Rightarrow> string \<Rightarrow> string" where
  "split_before sep s = (case split_first sep s of None \<Rightarrow> s | Some (a, b) \<Rightarrow> a)"

definition is_space :: "char \<Rightarrow> bool" where
  "is_space c \<longleftrightarrow> (let n = (of_char c :: nat) in
     (9 \<le> n \<and> n \<le> 13) \<or> (28 \<le> n \<and> n \<le> 32) \<or> n = 133 \<or> n = 160)"

definition strip :: "string \<Rightarrow> string" where
  "strip s = rev (dropWhile is_space (rev (dropWhile is_space s)))"

definition digit_val :: "char \<Rightarrow> int" where
  "digit_val c = of_char c - 48"

definition is_digit :: "char \<Rightarrow> bool" where
  "is_digit c \<longleftrightarrow> (let n = (of_char c :: nat) in 48 \<le> n \<and> n \<le> 57)"

definition is_lower :: "char \<Rightarrow> bool" where
  "is_lower c \<longleftrightarrow> (let n = (of_char c :: nat) in 97 \<le> n \<and> n \<le> 122)"

text \<open>\<open>str.isdigit\<close>: the superscript digits count as digits, although \<open>int\<close> refuses
  them.\<close>

definition py_isdigit :: "string \<Rightarrow> bool" where
  "py_isdigit s \<longleftrightarrow> s \<noteq> [] \<and>
     list_all (\<lambda>c. is_digit c \<or> (of_char c :: nat) \<in> {178, 179, 185}) s"

primrec int_of_digits :: "int \<Rightarrow> string \<Rightarrow> int" where
  "int_of_digits acc [] = acc"
| "int_of_digits acc (c # cs) = int_of_digits (10 * acc + digit_val c) cs"

text \<open>Digits with single underscores between them, as \<open>int\<close> and \<open>float\<close> accept: the
  digits alone, or \<open>None\<close>.\<close>

fun digit_group :: "string \<Rightarrow> string option" where
  "digit_group [] = None"
| "digit_group [c] = (if is_digit c then Some [c] else None)"
| "digit_group (c # d # cs) =
     (if \<not> is_digit c then None
      else if d = CHR ''_'' then map_option (Cons c) (digit_group cs)
      else map_option (Cons c) (digit_group (d # cs)))"

definition py_int_of_str :: "string \<Rightarrow> int res" where
  "py_int_of_str s =
     (let t = strip s;
          neg = starts_with ''-'' t;
          u = (if starts_with ''-'' t \<or> starts_with ''+'' t then tl t else t)
      in case digit_group u of
           None \<Rightarrow> Inl ValueError
         | Some ds \<Rightarrow> Inr (if neg then - int_of_digits 0 ds else int_of_digits 0 ds))"

text \<open>\<open>str\<close> of an integer. \<open>digits_of\<close> is meant for non-negative arguments.\<close>

function digits_of :: "int \<Rightarrow> string" where
  "digits_of n =
     (if n < 10 then [char_of (48 + n)] else digits_of (n div 10) @ [char_of (48 + n mod 10)])"
  by pat_completeness auto
termination
  by (relation "measure nat") auto

declare digits_of.simps [simp del]

definition str_of_int :: "int \<Rightarrow> string" where
  "str_of_int i = (if i < 0 then CHR ''-'' # digits_of (- i) else digits_of i)"

text \<open>Order of text: code point by code point.\<close>

fun str_less :: "string \<Rightarrow> string \<Rightarrow> bool" where
  "str_less _ [] = False"
| "str_less [] (d # ds) = True"
| "str_less (c # cs) (d # ds) =
     ((of_char c :: nat) < of_char d \<or> (c = d \<and> str_less cs ds))"

definition str_le :: "string \<Rightarrow> string \<Rightarrow> bool" where
  "str_le s t \<longleftrightarrow> s = t \<or> str_less s t"

text \<open>\<open>sorted(...)\<close> of a duplicate-free list of strings.\<close>

primrec str_insert :: "string \<Rightarrow> string list \<Rightarrow> string list" where
  "str_insert s [] = [s]"
| "str_insert s (t # ts) = (if str_le s t then s # t # ts else t # str_insert s ts)"

definition str_sort :: "string list \<Rightarrow> string list" where
  "str_sort xs = foldr str_insert xs []"

subsection \<open>Results: laws\<close>

lemma rbind_simps [simp, res_simps]:
  "rbind (Inl e) f = Inl e"
  "rbind (Inr x) f = f x"
  by (simp_all add: rbind_def)

lemma rbind_Inr_iff [res_simps]: "rbind r f = Inr y \<longleftrightarrow> (\<exists>x. r = Inr x \<and> f x = Inr y)"
  by (cases r) simp_all

lemma rbind_Inl_iff [res_simps]:
  "rbind r f = Inl e \<longleftrightarrow> r = Inl e \<or> (\<exists>x. r = Inr x \<and> f x = Inl e)"
  by (cases r) simp_all

lemma rbind_assoc: "rbind (rbind r f) g = rbind r (\<lambda>x. rbind (f x) g)"
  by (cases r) simp_all

lemma rbind_cong [fundef_cong]:
  "r = r' \<Longrightarrow> (\<And>x. r' = Inr x \<Longrightarrow> f x = g x) \<Longrightarrow> rbind r f = rbind r' g"
  by (cases r') simp_all

lemma mapM_cong [fundef_cong]:
  "xs = ys \<Longrightarrow> (\<And>x. x \<in> set ys \<Longrightarrow> f x = g x) \<Longrightarrow> mapM f xs = mapM g ys"
  by (induction ys arbitrary: xs) auto

lemma filterM_cong [fundef_cong]:
  "xs = ys \<Longrightarrow> (\<And>x. x \<in> set ys \<Longrightarrow> f x = g x) \<Longrightarrow> filterM f xs = filterM g ys"
  by (induction ys arbitrary: xs) auto

lemma mapM_pure: "mapM (\<lambda>x. Inr (f x)) xs = Inr (map f xs)"
  by (induction xs) simp_all

lemma mapM_length: "mapM f xs = Inr ys \<Longrightarrow> length ys = length xs"
  by (induction xs arbitrary: ys) (auto simp: rbind_Inr_iff)

lemma mapM_Inl: "mapM f xs = Inl e \<Longrightarrow> \<exists>x \<in> set xs. f x = Inl e"
  by (induction xs) (auto simp: rbind_Inl_iff)

lemma mapM_set: "mapM f xs = Inr ys \<Longrightarrow> y \<in> set ys \<Longrightarrow> \<exists>x \<in> set xs. f x = Inr y"
  by (induction xs arbitrary: ys) (auto simp: rbind_Inr_iff)

lemma foldM_append: "foldM f s (xs @ ys) = rbind (foldM f s xs) (\<lambda>s'. foldM f s' ys)"
  by (induction xs arbitrary: s) (simp_all add: rbind_assoc)

lemma foldM_invariant:
  assumes "\<And>s x s'. I s \<Longrightarrow> f s x = Inr s' \<Longrightarrow> I s'"
    and "I s" and "foldM f s xs = Inr t"
  shows "I t"
  using assms(2,3)
proof (induction xs arbitrary: s)
  case Nil
  then show ?case by simp
next
  case (Cons x xs)
  then obtain s' where "f s x = Inr s'" and "foldM f s' xs = Inr t"
    by (auto simp: rbind_Inr_iff)
  with Cons assms(1) show ?case by blast
qed

lemma filterM_pure: "filterM (\<lambda>x. Inr (p x)) xs = Inr (filter p xs)"
  by (induction xs) simp_all

lemma filterM_subset: "filterM p xs = Inr ys \<Longrightarrow> set ys \<subseteq> set xs"
  by (induction xs arbitrary: ys) (auto simp: rbind_Inr_iff split: if_splits)

lemma filterM_sat:
  "filterM p xs = Inr ys \<Longrightarrow> y \<in> set ys \<longleftrightarrow> y \<in> set xs \<and> p y = Inr True"
  by (induction xs arbitrary: ys) (auto simp: rbind_Inr_iff split: if_splits)

lemma of_option_simps [simp, res_simps]:
  "of_option e None = Inl e"
  "of_option e (Some x) = Inr x"
  by (simp_all add: of_option_def)

lemma of_option_Inr_iff [res_simps]: "of_option e v = Inr x \<longleftrightarrow> v = Some x"
  by (cases v) simp_all

lemma rbind_Inr_right: "rbind r Inr = r"
  by (cases r) simp_all

lemma mapM_pointwise:
  "mapM f xs = Inr ys \<Longrightarrow> (\<forall>x \<in> set xs. \<exists>y. f x = Inr y) \<and> set ys = {y. \<exists>x \<in> set xs. f x = Inr y}"
  by (induction xs arbitrary: ys) (auto simp: rbind_Inr_iff)

lemma mapM_exists: "\<forall>x \<in> set xs. \<exists>y. f x = Inr y \<Longrightarrow> \<exists>ys. mapM f xs = Inr ys"
  by (induction xs) (auto simp: rbind_Inr_iff)

lemma filterM_filter:
  assumes "\<And>x. x \<in> set xs \<Longrightarrow> g x = rbind (f x) (\<lambda>k. Inr (p x \<and> k))"
    and "\<And>x. x \<in> set xs \<Longrightarrow> \<exists>b. f x = Inr b"
  shows "filterM f (filter p xs) = filterM g xs"
  using assms
proof (induction xs)
  case (Cons x xs)
  obtain b where "f x = Inr b" using Cons.prems(2) [of x] by auto
  with Cons show ?case by (simp add: rbind_Inr_right)
qed simp

lemma filterM_filter_Inr:
  "filterM f xs = Inr ys \<Longrightarrow> filterM f (filter p xs) = Inr (filter p ys)"
  by (induction xs arbitrary: ys) (auto simp: rbind_Inr_iff)

lemma set_str_insert [simp]: "set (str_insert s ts) = insert s (set ts)"
  by (induction ts) auto

lemma set_str_sort [simp]: "set (str_sort xs) = set xs"
  unfolding str_sort_def by (induction xs) auto

subsection \<open>Depth: laws\<close>

lemma depth_JList_elem [depth_intros]: "x \<in> set xs \<Longrightarrow> depth x < depth (JList xs)"
  by (simp add: less_Suc_eq_le)

lemma depth_JObj_elem: "(k, v) \<in> set kvs \<Longrightarrow> depth v < depth (JObj kvs)"
  by (force simp: less_Suc_eq_le intro: Max_ge)

lemma depth_map_of [depth_intros]: "map_of kvs k = Some v \<Longrightarrow> depth v < depth (JObj kvs)"
  by (rule depth_JObj_elem) (rule map_of_SomeD)

lemma depth_jitem [depth_intros]: "jitem kvs k = Inr v \<Longrightarrow> depth v < depth (JObj kvs)"
  by (auto simp: jitem_def of_option_Inr_iff intro: depth_map_of simp del: depth.simps)

lemma depth_jget [depth_intros]: "depth (jget kvs k) < depth (JObj kvs)"
  by (auto simp: jget_def split: option.split intro: depth_map_of simp del: depth.simps) simp

lemma depth_py_iter [depth_intros]: "py_iter v = Inr xs \<Longrightarrow> x \<in> set xs \<Longrightarrow> depth x \<le> depth v"
  by (cases v) (auto intro!: Max_ge le_SucI)

lemma depth_py_index [depth_intros]: "py_index v i = Inr x \<Longrightarrow> depth x \<le> depth v"
  by (cases v) (auto intro!: Max_ge le_SucI split: if_splits)

end
