(* ===== verification/Py_Number.thy ===== *)
theory Py_Number
  imports Py_Prelude
begin

text \<open>
  Python numbers: unbounded integers and binary64 floats, with the conversions and the
  operators the expression evaluator applies to them. Every float operation computes the
  exact rational result and rounds it to the nearest double, ties to even, as IEEE 754
  prescribes; a result too large for a double is an infinity. Converting an integer that
  no double can hold raises \<open>OverflowError\<close>, as \<open>float(10**400)\<close> does.
\<close>

datatype pynum = NInt int | NFloat pyfloat

subsection \<open>Rounding to binary64\<close>

definition pow2 :: "int \<Rightarrow> rat" where
  "pow2 e = (if 0 \<le> e then 2 ^ nat e else 1 / 2 ^ nat (- e))"

definition round_half_even :: "rat \<Rightarrow> int" where
  "round_half_even x =
     (let f = \<lfloor>x\<rfloor>; d = x - of_int f
      in if d < 1/2 then f else if 1/2 < d then f + 1 else if even f then f else f + 1)"

function ilog2 :: "int \<Rightarrow> int" where
  "ilog2 n = (if n < 2 then 0 else 1 + ilog2 (n div 2))"
  by pat_completeness auto
termination
  by (relation "measure nat") auto

declare ilog2.simps [simp del]

definition floor_log2 :: "rat \<Rightarrow> int" where
  "floor_log2 x =
     (let (p, q) = quotient_of x; k = ilog2 p - ilog2 q
      in if pow2 k \<le> x then k else k - 1)"

definition round_double :: "rat \<Rightarrow> pyfloat" where
  "round_double x =
     (if x = 0 then Fin 0
      else let e = max (- 1074) (floor_log2 \<bar>x\<bar> - 52);
               r = of_int (round_half_even (\<bar>x\<bar> / pow2 e)) * pow2 e
           in if 2 ^ 1024 \<le> r then (if 0 < x then PosInf else NegInf)
              else Fin (if 0 < x then r else - r))"

subsection \<open>Float operators\<close>

fun fneg :: "pyfloat \<Rightarrow> pyfloat" where
  "fneg (Fin a) = Fin (- a)"
| "fneg PosInf = NegInf"
| "fneg NegInf = PosInf"
| "fneg NaN = NaN"

fun fadd :: "pyfloat \<Rightarrow> pyfloat \<Rightarrow> pyfloat" where
  "fadd (Fin a) (Fin b) = round_double (a + b)"
| "fadd NaN y = NaN"
| "fadd x NaN = NaN"
| "fadd PosInf NegInf = NaN"
| "fadd NegInf PosInf = NaN"
| "fadd PosInf y = PosInf"
| "fadd NegInf y = NegInf"
| "fadd x y = y"

definition fsub :: "pyfloat \<Rightarrow> pyfloat \<Rightarrow> pyfloat" where
  "fsub x y = fadd x (fneg y)"

fun fsign :: "pyfloat \<Rightarrow> int" where
  "fsign (Fin a) = (if a < 0 then - 1 else if a = 0 then 0 else 1)"
| "fsign PosInf = 1"
| "fsign NegInf = - 1"
| "fsign NaN = 0"

definition finf :: "int \<Rightarrow> pyfloat" where
  "finf s = (if s = 0 then NaN else if 0 < s then PosInf else NegInf)"

fun fmul :: "pyfloat \<Rightarrow> pyfloat \<Rightarrow> pyfloat" where
  "fmul (Fin a) (Fin b) = round_double (a * b)"
| "fmul NaN y = NaN"
| "fmul x NaN = NaN"
| "fmul x y = finf (fsign x * fsign y)"

text \<open>Division by a non-zero float.\<close>

fun fdiv :: "pyfloat \<Rightarrow> pyfloat \<Rightarrow> pyfloat" where
  "fdiv (Fin a) (Fin b) = round_double (a / b)"
| "fdiv NaN y = NaN"
| "fdiv x NaN = NaN"
| "fdiv (Fin a) y = Fin 0"
| "fdiv x (Fin b) = finf (fsign x * (if b < 0 then - 1 else 1))"
| "fdiv x y = NaN"

fun fless :: "pyfloat \<Rightarrow> pyfloat \<Rightarrow> bool" where
  "fless (Fin a) (Fin b) = (a < b)"
| "fless NaN y = False"
| "fless x NaN = False"
| "fless x PosInf = (x \<noteq> PosInf)"
| "fless x NegInf = False"
| "fless PosInf y = False"
| "fless NegInf y = True"

definition feq :: "pyfloat \<Rightarrow> pyfloat \<Rightarrow> bool" where
  "feq x y \<longleftrightarrow> x = y \<and> x \<noteq> NaN"

definition trunc :: "rat \<Rightarrow> int" where
  "trunc x = (if x < 0 then \<lceil>x\<rceil> else \<lfloor>x\<rfloor>)"

text \<open>\<open>float.is_integer\<close>, \<open>int(x)\<close>, \<open>math.floor\<close> and \<open>math.ceil\<close>.\<close>

fun is_integer :: "pyfloat \<Rightarrow> bool" where
  "is_integer (Fin a) = (of_int \<lfloor>a\<rfloor> = a)"
| "is_integer x = False"

fun float_round_with :: "(rat \<Rightarrow> int) \<Rightarrow> pyfloat \<Rightarrow> int res" where
  "float_round_with f (Fin a) = Inr (f a)"
| "float_round_with f NaN = Inl ValueError"
| "float_round_with f x = Inl OverflowError"

abbreviation int_of_float :: "pyfloat \<Rightarrow> int res" where
  "int_of_float \<equiv> float_round_with trunc"

definition float_of_int :: "int \<Rightarrow> pyfloat res" where
  "float_of_int i = (case round_double (of_int i) of
     Fin r \<Rightarrow> Inr (Fin r) | _ \<Rightarrow> Inl OverflowError)"

text \<open>C's \<open>fmod\<close>: exact, with the sign of the dividend.\<close>

fun c_fmod :: "pyfloat \<Rightarrow> pyfloat \<Rightarrow> pyfloat" where
  "c_fmod (Fin a) (Fin b) = Fin (a - b * of_int (trunc (a / b)))"
| "c_fmod NaN y = NaN"
| "c_fmod x NaN = NaN"
| "c_fmod (Fin a) y = Fin a"
| "c_fmod x y = NaN"

text \<open>Python's \<open>divmod\<close> on floats with a non-zero divisor.\<close>

definition float_divmod :: "pyfloat \<Rightarrow> pyfloat \<Rightarrow> pyfloat \<times> pyfloat" where
  "float_divmod vx wx =
     (let md = c_fmod vx wx;
          dv = fdiv (fsub vx md) wx;
          (md', dv') =
            (if feq md (Fin 0) then (Fin 0, dv)
             else if (fsign wx < 0) \<noteq> (fsign md < 0) then (fadd md wx, fsub dv (Fin 1))
             else (md, dv));
          fl = (case dv' of
                  Fin d \<Rightarrow>
                    (if d = 0 then Fin 0
                     else let f = of_int \<lfloor>d\<rfloor>
                          in if fless (Fin (1/2)) (fsub (Fin d) (Fin f)) then fadd (Fin f) (Fin 1)
                             else Fin f)
                | x \<Rightarrow> x)
      in (fl, md'))"

subsection \<open>Mixed operators\<close>

fun to_float :: "pynum \<Rightarrow> pyfloat res" where
  "to_float (NInt i) = float_of_int i"
| "to_float (NFloat x) = Inr x"

text \<open>The value a number denotes, for comparison: Python compares an integer with a float
  exactly, without converting.\<close>

fun num_key :: "pynum \<Rightarrow> pyfloat" where
  "num_key (NInt i) = Fin (of_int i)"
| "num_key (NFloat x) = x"

definition num_less :: "pynum \<Rightarrow> pynum \<Rightarrow> bool" where
  "num_less a b = fless (num_key a) (num_key b)"

definition num_eq :: "pynum \<Rightarrow> pynum \<Rightarrow> bool" where
  "num_eq a b = feq (num_key a) (num_key b)"

definition num_le :: "pynum \<Rightarrow> pynum \<Rightarrow> bool" where
  "num_le a b \<longleftrightarrow> num_less a b \<or> num_eq a b"

definition num_is_zero :: "pynum \<Rightarrow> bool" where
  "num_is_zero a \<longleftrightarrow> num_key a = Fin 0"

definition float_op :: "(pyfloat \<Rightarrow> pyfloat \<Rightarrow> pyfloat) \<Rightarrow> pynum \<Rightarrow> pynum \<Rightarrow> pynum res" where
  "float_op f a b = rbind (to_float a) (\<lambda>x. rbind (to_float b) (\<lambda>y. Inr (NFloat (f x y))))"

definition arith_op ::
  "(int \<Rightarrow> int \<Rightarrow> int) \<Rightarrow> (pyfloat \<Rightarrow> pyfloat \<Rightarrow> pyfloat) \<Rightarrow> pynum \<Rightarrow> pynum \<Rightarrow> pynum res" where
  "arith_op g f a b = (case (a, b) of
     (NInt i, NInt j) \<Rightarrow> Inr (NInt (g i j))
   | _ \<Rightarrow> float_op f a b)"

definition num_add :: "pynum \<Rightarrow> pynum \<Rightarrow> pynum res" where
  "num_add = arith_op (+) fadd"

definition num_sub :: "pynum \<Rightarrow> pynum \<Rightarrow> pynum res" where
  "num_sub = arith_op (-) fsub"

definition num_mul :: "pynum \<Rightarrow> pynum \<Rightarrow> pynum res" where
  "num_mul = arith_op (*) fmul"

definition num_mod :: "pynum \<Rightarrow> pynum \<Rightarrow> pynum res" where
  "num_mod = arith_op (mod) (\<lambda>x y. snd (float_divmod x y))"

definition num_floordiv :: "pynum \<Rightarrow> pynum \<Rightarrow> pynum res" where
  "num_floordiv = arith_op (div) (\<lambda>x y. fst (float_divmod x y))"

text \<open>\<open>a / b\<close>: two integers divide to the nearest double, and raise when none is near.\<close>

definition num_truediv :: "pynum \<Rightarrow> pynum \<Rightarrow> pynum res" where
  "num_truediv a b = (case (a, b) of
     (NInt i, NInt j) \<Rightarrow>
       (case round_double (of_int i / of_int j) of
          Fin r \<Rightarrow> Inr (NFloat (Fin r)) | _ \<Rightarrow> Inl OverflowError)
   | _ \<Rightarrow> float_op fdiv a b)"

fun num_neg :: "pynum \<Rightarrow> pynum" where
  "num_neg (NInt i) = NInt (- i)"
| "num_neg (NFloat x) = NFloat (fneg x)"

fun num_to_int :: "pynum \<Rightarrow> int res" where
  "num_to_int (NInt i) = Inr i"
| "num_to_int (NFloat x) = int_of_float x"

subsection \<open>Parsing a float\<close>

definition ascii_lower :: "string \<Rightarrow> string" where
  "ascii_lower s = map (\<lambda>c. let n = (of_char c :: nat) in
     if 65 \<le> n \<and> n \<le> 90 then char_of (n + 32) else c) s"

text \<open>An optional exponent part: the value after \<open>e\<close>.\<close>

definition parse_exponent :: "string \<Rightarrow> int option" where
  "parse_exponent s =
     (let neg = starts_with ''-'' s;
          u = (if starts_with ''-'' s \<or> starts_with ''+'' s then tl s else s)
      in map_option (\<lambda>ds. if neg then - int_of_digits 0 ds else int_of_digits 0 ds)
           (digit_group u))"

text \<open>\<open>digits\<close>, \<open>digits.\<close>, \<open>digits.digits\<close> or \<open>.digits\<close> as an exact rational.\<close>

definition parse_mantissa :: "string \<Rightarrow> rat option" where
  "parse_mantissa s =
     (case split_first ''.'' s of
        None \<Rightarrow> map_option (\<lambda>ds. of_int (int_of_digits 0 ds)) (digit_group s)
      | Some (a, b) \<Rightarrow>
          (let whole = (if a = [] then Some [] else digit_group a);
               part = (if b = [] then Some [] else digit_group b)
           in if a = [] \<and> b = [] then None
              else case (whole, part) of
                (Some w, Some p) \<Rightarrow>
                  Some (of_int (int_of_digits 0 (w @ p)) / 10 ^ length p)
              | _ \<Rightarrow> None))"

definition parse_decimal :: "string \<Rightarrow> rat option" where
  "parse_decimal s =
     (case split_first ''e'' s of
        None \<Rightarrow> parse_mantissa s
      | Some (m, e) \<Rightarrow>
          (case (parse_mantissa m, parse_exponent e) of
             (Some r, Some k) \<Rightarrow>
               Some (if 0 \<le> k then r * 10 ^ nat k else r / 10 ^ nat (- k))
           | _ \<Rightarrow> None))"

definition py_float_of_str :: "string \<Rightarrow> pyfloat option" where
  "py_float_of_str s =
     (let t = ascii_lower (strip s);
          neg = starts_with ''-'' t;
          u = (if starts_with ''-'' t \<or> starts_with ''+'' t then tl t else t);
          sign = (\<lambda>x. if neg then fneg x else x)
      in if u = ''inf'' \<or> u = ''infinity'' then Some (sign PosInf)
         else if u = ''nan'' then Some NaN
         else map_option (\<lambda>r. sign (round_double r)) (parse_decimal u))"

subsection \<open>Sums\<close>

text \<open>
  The built-in \<open>sum\<close> of Python 3.12: exact while every item is an integer, then, from the
  first float on, a float total with Neumaier's compensation. The total leaves the fast
  integer path as soon as it no longer fits a C \<open>long\<close>; from there items are added one by
  one with no compensation.
\<close>

datatype sum_state = SumInt int | SumFloat pyfloat pyfloat | SumGeneric pynum

definition fabs :: "pyfloat \<Rightarrow> pyfloat" where
  "fabs x = (if fless x (Fin 0) then fneg x else x)"

definition fits_long :: "int \<Rightarrow> bool" where
  "fits_long i \<longleftrightarrow> - (2 ^ 63) \<le> i \<and> i < 2 ^ 63"

definition compensate :: "pyfloat \<Rightarrow> pyfloat \<Rightarrow> pyfloat" where
  "compensate f c = (case c of Fin r \<Rightarrow> if r = 0 then f else fadd f c | _ \<Rightarrow> f)"

fun sum_step :: "sum_state \<Rightarrow> pynum \<Rightarrow> sum_state res" where
  "sum_step (SumInt i) (NInt j) =
     Inr (if fits_long j \<and> fits_long (i + j) then SumInt (i + j) else SumGeneric (NInt (i + j)))"
| "sum_step (SumInt i) (NFloat x) =
     rbind (float_of_int i) (\<lambda>f. Inr (SumFloat (fadd f x) (Fin 0)))"
| "sum_step (SumFloat f c) (NFloat x) =
     Inr (let t = fadd f x
          in if \<not> fless (fabs f) (fabs x) \<and> f \<noteq> NaN \<and> x \<noteq> NaN
             then SumFloat t (fadd c (fadd (fsub f t) x))
             else SumFloat t (fadd c (fadd (fsub x t) f)))"
| "sum_step (SumFloat f c) (NInt j) =
     (if fits_long j then rbind (float_of_int j) (\<lambda>y. Inr (SumFloat (fadd f y) c))
      else rbind (num_add (NFloat (compensate f c)) (NInt j)) (\<lambda>n. Inr (SumGeneric n)))"
| "sum_step (SumGeneric n) m = rbind (num_add n m) (\<lambda>k. Inr (SumGeneric k))"

fun sum_result :: "sum_state \<Rightarrow> pynum" where
  "sum_result (SumInt i) = NInt i"
| "sum_result (SumFloat f c) = NFloat (compensate f c)"
| "sum_result (SumGeneric n) = n"

definition py_sum :: "pynum list \<Rightarrow> pynum res" where
  "py_sum ns = rbind (foldM sum_step (SumInt 0) ns) (\<lambda>s. Inr (sum_result s))"

text \<open>\<open>min\<close> and \<open>max\<close> keep the first of equal items.\<close>

definition py_min :: "pynum \<Rightarrow> pynum list \<Rightarrow> pynum" where
  "py_min n ns = foldl (\<lambda>m k. if num_less k m then k else m) n ns"

definition py_max :: "pynum \<Rightarrow> pynum list \<Rightarrow> pynum" where
  "py_max n ns = foldl (\<lambda>m k. if num_less m k then k else m) n ns"

subsection \<open>Equality of values\<close>

text \<open>The number a value is under \<open>==\<close>: there, and only there, a boolean is 0 or 1.\<close>

fun eq_num :: "json \<Rightarrow> pynum option" where
  "eq_num (JBool b) = Some (NInt (if b then 1 else 0))"
| "eq_num (JInt i) = Some (NInt i)"
| "eq_num (JFloat x) = Some (NFloat x)"
| "eq_num _ = None"

function py_eq :: "json \<Rightarrow> json \<Rightarrow> bool" where
  "py_eq a b =
     (case (a, b) of
        (JNull, JNull) \<Rightarrow> True
      | (JStr s, JStr t) \<Rightarrow> s = t
      | (JList xs, JList ys) \<Rightarrow>
          length xs = length ys \<and> list_all (\<lambda>(x, y). py_eq x y) (zip xs ys)
      | (JObj d, JObj e) \<Rightarrow>
          length d = length e \<and>
          list_all (\<lambda>(k, v). case map_of e k of None \<Rightarrow> False | Some w \<Rightarrow> py_eq v w) d
      | _ \<Rightarrow> (case (eq_num a, eq_num b) of (Some x, Some y) \<Rightarrow> num_eq x y | _ \<Rightarrow> False))"
  by pat_completeness auto
termination
  by (relation "measure (depth \<circ> fst)")
    (auto dest!: set_zip_leftD intro: depth_JList_elem depth_JObj_elem simp del: depth.simps)

declare py_eq.simps [simp del]

lemma py_eq_atoms [simp]:
  "py_eq JNull JNull"
  "py_eq (JStr s) (JStr t) = (s = t)"
  "py_eq (JInt i) (JInt j) = (i = j)"
  "py_eq (JBool b) (JBool c) = (b = c)"
  "py_eq JNull (JStr s) = False"
  "py_eq (JStr s) JNull = False"
  by (auto simp: py_eq.simps num_eq_def feq_def)

end
