(* ===== verification/Py_Date.thy ===== *)
theory Py_Date
  imports Py_Prelude
begin

text \<open>
  The calendar of Python's \<open>datetime.date\<close>: the proleptic Gregorian calendar from year 1
  to year 9999, its ordinals, and the ISO 8601 forms \<open>date.fromisoformat\<close> reads
  (Python 3.11 and later: calendar dates and week dates, each in the extended and in the
  basic spelling). The evaluator's date functions are built on this theory; the two round
  trips at its end are what makes them agree with each other.
\<close>

record date =
  d_year :: int
  d_month :: int
  d_day :: int

definition mk_date :: "int \<Rightarrow> int \<Rightarrow> int \<Rightarrow> date" where
  "mk_date y m d = \<lparr>d_year = y, d_month = m, d_day = d\<rparr>"

definition is_leap :: "int \<Rightarrow> bool" where
  "is_leap y \<longleftrightarrow> y mod 4 = 0 \<and> (y mod 100 \<noteq> 0 \<or> y mod 400 = 0)"

text \<open>Days in the months before month \<open>m\<close> of a common year.\<close>

definition days_before :: "int \<Rightarrow> int" where
  "days_before m =
     (if m \<le> 1 then 0 else if m = 2 then 31 else if m = 3 then 59 else if m = 4 then 90
      else if m = 5 then 120 else if m = 6 then 151 else if m = 7 then 181
      else if m = 8 then 212 else if m = 9 then 243 else if m = 10 then 273
      else if m = 11 then 304 else 334)"

definition days_in_month :: "int \<Rightarrow> int \<Rightarrow> int" where
  "days_in_month y m =
     (if m = 2 then (if is_leap y then 29 else 28)
      else if m \<in> {4, 6, 9, 11} then 30 else 31)"

definition valid_date :: "date \<Rightarrow> bool" where
  "valid_date d \<longleftrightarrow>
     1 \<le> d_year d \<and> d_year d \<le> 9999 \<and> 1 \<le> d_month d \<and> d_month d \<le> 12 \<and>
     1 \<le> d_day d \<and> d_day d \<le> days_in_month (d_year d) (d_month d)"

definition days_before_year :: "int \<Rightarrow> int" where
  "days_before_year y =
     (let z = y - 1 in z * 365 + z div 4 - z div 100 + z div 400)"

definition toordinal :: "date \<Rightarrow> int" where
  "toordinal d =
     days_before_year (d_year d) + days_before (d_month d) +
     (if 2 < d_month d \<and> is_leap (d_year d) then 1 else 0) + d_day d"

definition max_ordinal :: int where
  "max_ordinal = 3652059"

text \<open>Month and day from a zero-based day of the year.\<close>

definition month_day :: "bool \<Rightarrow> int \<Rightarrow> int \<times> int" where
  "month_day leap n =
     (let m = (n + 50) div 32;
          pre = days_before m + (if 2 < m \<and> leap then 1 else 0)
      in if n < pre
         then (m - 1, n - (days_before (m - 1) + (if 2 < m - 1 \<and> leap then 1 else 0)) + 1)
         else (m, n - pre + 1))"

definition fromordinal :: "int \<Rightarrow> date" where
  "fromordinal ord =
     (let n = ord - 1;
          n400 = n div 146097; r400 = n mod 146097;
          n100 = r400 div 36524; r100 = r400 mod 36524;
          n4 = r100 div 1461; r4 = r100 mod 1461;
          n1 = r4 div 365; r1 = r4 mod 365;
          y = n400 * 400 + n100 * 100 + n4 * 4 + n1 + 1
      in if n1 = 4 \<or> n100 = 4 then mk_date (y - 1) 12 31
         else let (m, d) = month_day (n1 = 3 \<and> (n4 \<noteq> 24 \<or> n100 = 3)) r1
              in mk_date y m d)"

text \<open>\<open>d + timedelta(days=n)\<close>; both ways of leaving the calendar raise \<open>OverflowError\<close>.\<close>

definition add_days :: "date \<Rightarrow> int \<Rightarrow> date res" where
  "add_days d n =
     (if 999999999 < \<bar>n\<bar> then Inl OverflowError
      else let k = toordinal d + n
           in if 0 < k \<and> k \<le> max_ordinal then Inr (fromordinal k) else Inl OverflowError)"

subsection \<open>ISO 8601\<close>

definition pad2 :: "int \<Rightarrow> string" where
  "pad2 n = [char_of (48 + n div 10), char_of (48 + n mod 10)]"

definition isoformat :: "date \<Rightarrow> string" where
  "isoformat d =
     pad2 (d_year d div 100) @ pad2 (d_year d mod 100) @ ''-'' @
     pad2 (d_month d) @ ''-'' @ pad2 (d_day d)"

definition digits_value :: "string \<Rightarrow> int option" where
  "digits_value s = (if s \<noteq> [] \<and> list_all is_digit s then Some (int_of_digits 0 s) else None)"

definition checked_date :: "int \<Rightarrow> int \<Rightarrow> int \<Rightarrow> date option" where
  "checked_date y m d =
     (if valid_date (mk_date y m d) then Some (mk_date y m d) else None)"

definition checked_digits :: "string \<Rightarrow> string \<Rightarrow> string \<Rightarrow> date option" where
  "checked_digits y m d = (case (digits_value y, digits_value m, digits_value d) of
     (Some y', Some m', Some d') \<Rightarrow> checked_date y' m' d'
   | _ \<Rightarrow> None)"

text \<open>The ordinal of the Monday that starts ISO week 1 of a year.\<close>

definition iso_week1_monday :: "int \<Rightarrow> int" where
  "iso_week1_monday y =
     (let first = days_before_year y + 1; wd = (first + 6) mod 7; mon = first - wd
      in if 3 < wd then mon + 7 else mon)"

definition week_date :: "string \<Rightarrow> string \<Rightarrow> string \<Rightarrow> date option" where
  "week_date y w d = (case (digits_value y, digits_value w, digits_value d) of
     (Some y', Some w', Some d') \<Rightarrow>
       (let first_weekday = (days_before_year y' + 1 + 6) mod 7;
            long = (first_weekday = 3 \<or> (first_weekday = 2 \<and> is_leap y'));
            k = iso_week1_monday y' + (w' - 1) * 7 + (d' - 1)
        in if 1 \<le> y' \<and> y' \<le> 9999 \<and> 1 \<le> w' \<and> w' \<le> (if long then 53 else 52) \<and>
              1 \<le> d' \<and> d' \<le> 7 \<and> 0 < k \<and> k \<le> max_ordinal
           then Some (fromordinal k) else None)
   | _ \<Rightarrow> None)"

definition fromisoformat :: "string \<Rightarrow> date option" where
  "fromisoformat s =
     (let n = length s; y = take 4 s; dash = (\<lambda>i. s ! i = CHR ''-''); w = (\<lambda>i. s ! i = CHR ''W'')
      in if n = 10 \<and> dash 4 \<and> w 5 \<and> dash 8 then week_date y (take 2 (drop 6 s)) (drop 9 s)
         else if n = 10 \<and> dash 4 \<and> dash 7 then checked_digits y (take 2 (drop 5 s)) (drop 8 s)
         else if n = 8 \<and> dash 4 \<and> w 5 then week_date y (drop 6 s) ''1''
         else if n = 8 \<and> w 4 then week_date y (take 2 (drop 5 s)) (drop 7 s)
         else if n = 8 then checked_digits y (take 2 (drop 4 s)) (drop 6 s)
         else if n = 7 \<and> w 4 then week_date y (drop 5 s) ''1''
         else None)"

subsection \<open>Round trips\<close>

lemma div_block:
  fixes n q r :: int
  assumes "0 \<le> r" "r < n"
  shows "(n * q + r) div n = q" and "(n * q + r) mod n = r"
  using assms by simp_all

lemma mod_block_0:
  fixes n q r :: int
  assumes "0 < r" "r \<le> n"
  shows "(n * q + r) mod n = 0 \<longleftrightarrow> r = n"
  using assms by (cases "r = n") auto

lemma days_before_year_cycles:
  assumes "0 \<le> b" "b \<le> 3" "0 \<le> c" "c \<le> 24" "0 \<le> d" "d \<le> 3"
  shows "days_before_year (400 * a + 100 * b + 4 * c + d + 1)
           = 146097 * a + 36524 * b + 1461 * c + 365 * d"
proof -
  let ?z = "400 * a + 100 * b + 4 * c + d"
  have "(4 * (100 * a + 25 * b + c) + d) div 4 = 100 * a + 25 * b + c"
    using assms by (intro div_block) auto
  then have "?z div 4 = 100 * a + 25 * b + c" by (simp add: algebra_simps)
  moreover have "(100 * (4 * a + b) + (4 * c + d)) div 100 = 4 * a + b"
    using assms by (intro div_block) auto
  then have "?z div 100 = 4 * a + b" by (simp add: algebra_simps)
  moreover have "(400 * a + (100 * b + 4 * c + d)) div 400 = a"
    using assms by (intro div_block) auto
  then have "?z div 400 = a" by (simp add: algebra_simps)
  ultimately show ?thesis by (simp add: days_before_year_def Let_def)
qed

lemma is_leap_cycles:
  assumes "0 \<le> b" "b \<le> 3" "0 \<le> c" "c \<le> 24" "0 \<le> d" "d \<le> 3"
  shows "is_leap (400 * a + 100 * b + 4 * c + d + 1) \<longleftrightarrow> d = 3 \<and> (c \<noteq> 24 \<or> b = 3)"
proof -
  let ?y = "400 * a + 100 * b + 4 * c + d + 1"
  have "(4 * (100 * a + 25 * b + c) + (d + 1)) mod 4 = 0 \<longleftrightarrow> d + 1 = 4"
    using assms by (intro mod_block_0) auto
  then have m4: "?y mod 4 = 0 \<longleftrightarrow> d = 3" by (simp add: algebra_simps)
  have "(100 * (4 * a + b) + (4 * c + d + 1)) mod 100 = 0 \<longleftrightarrow> 4 * c + d + 1 = 100"
    using assms by (intro mod_block_0) auto
  then have m100: "?y mod 100 = 0 \<longleftrightarrow> 4 * c + d = 99" by (simp add: algebra_simps)
  have "(400 * a + (100 * b + 4 * c + d + 1)) mod 400 = 0 \<longleftrightarrow> 100 * b + 4 * c + d + 1 = 400"
    using assms by (intro mod_block_0) auto
  then have m400: "?y mod 400 = 0 \<longleftrightarrow> 100 * b + 4 * c + d = 399" by (simp add: algebra_simps)
  show ?thesis unfolding is_leap_def m4 m100 m400 using assms by arith
qed

definition month_days_ok :: "bool \<Rightarrow> int \<Rightarrow> bool" where
  "month_days_ok leap n \<longleftrightarrow> (case month_day leap n of (m, d) \<Rightarrow>
     1 \<le> m \<and> m \<le> 12 \<and> 1 \<le> d \<and>
     d \<le> (if m = 2 then (if leap then 29 else 28) else if m \<in> {4, 6, 9, 11} then 30 else 31) \<and>
     days_before m + (if 2 < m \<and> leap then 1 else 0) + d = n + 1)"

lemma month_days_ok_all:
  "list_all (month_days_ok False) [0..364]" "list_all (month_days_ok True) [0..365]"
  by code_simp+

lemma month_day_ok:
  assumes "0 \<le> n" "n < (if leap then 366 else 365)"
  shows "month_days_ok leap n"
  using month_days_ok_all assms by (cases leap) (auto simp: list_all_iff)

lemma month_day_last: "month_day True 365 = (12, 31)"
  by code_simp

lemma fromordinal_cycles:
  obtains a b c d r where
    "k - 1 = 146097 * a + 36524 * b + 1461 * c + 365 * d + r" "a = (k - 1) div 146097"
    "0 \<le> b" "b \<le> 3" "0 \<le> c" "c \<le> 24" "0 \<le> d" "d \<le> 3"
    "0 \<le> r" "r < (if d = 3 \<and> (c \<noteq> 24 \<or> b = 3) then 366 else 365)"
    "fromordinal k =
       (case month_day (d = 3 \<and> (c \<noteq> 24 \<or> b = 3)) r of (m, e) \<Rightarrow>
          mk_date (400 * a + 100 * b + 4 * c + d + 1) m e)"
proof -
  define n where "n = k - 1"
  define a where "a = n div 146097"
  define r400 where "r400 = n mod 146097"
  define b where "b = r400 div 36524"
  define r100 where "r100 = r400 mod 36524"
  define c where "c = r100 div 1461"
  define r4 where "r4 = r100 mod 1461"
  define d where "d = r4 div 365"
  define r where "r = r4 mod 365"
  note defs = n_def a_def r400_def b_def r100_def c_def r4_def d_def r_def
  have n: "n = 146097 * a + r400" and r400: "0 \<le> r400" "r400 < 146097"
    by (simp_all add: a_def r400_def)
  have eq400: "r400 = 36524 * b + r100" and r100: "0 \<le> r100" "r100 < 36524"
    by (simp_all add: b_def r100_def)
  have eq100: "r100 = 1461 * c + r4" and r4: "0 \<le> r4" "r4 < 1461"
    by (simp_all add: c_def r4_def)
  have eq4: "r4 = 365 * d + r" and r: "0 \<le> r" "r < 365"
    by (simp_all add: d_def r_def)
  have bounds: "0 \<le> b" "b \<le> 4" "0 \<le> c" "c \<le> 24" "0 \<le> d" "d \<le> 4"
    using r400 eq400 r100 eq100 r4 eq4 r by linarith+
  have fo: "fromordinal k =
      (if d = 4 \<or> b = 4 then mk_date (400 * a + 100 * b + 4 * c + d) 12 31
       else case month_day (d = 3 \<and> (c \<noteq> 24 \<or> b = 3)) r of (m, e) \<Rightarrow>
              mk_date (400 * a + 100 * b + 4 * c + d + 1) m e)"
    by (simp add: fromordinal_def Let_def defs [symmetric] mult.commute)
  consider (century) "b = 4" | (year) "b \<le> 3" "d = 4" | (plain) "b \<le> 3" "d \<le> 3"
    using bounds by linarith
  then show thesis
  proof cases
    case century
    then have "r100 = 0" using r400 eq400 r100 by linarith
    then have "c = 0" "d = 0" "r = 0" by (simp_all add: c_def r4_def d_def r_def)
    with century n eq400 \<open>r100 = 0\<close> show thesis
      by (intro that [of a 3 24 3 365]) (simp_all add: fo month_day_last n_def a_def algebra_simps)
  next
    case year
    then have "c \<noteq> 24" "r = 0" using eq4 r4 r eq100 r100 by linarith+
    with year n eq400 eq100 eq4 bounds show thesis
      by (intro that [of a b c 3 365]) (simp_all add: fo month_day_last n_def a_def algebra_simps)
  next
    case plain
    with n eq400 eq100 eq4 bounds r show thesis
      by (intro that [of a b c d r]) (auto simp add: fo n_def a_def)
  qed
qed

theorem toordinal_fromordinal: "toordinal (fromordinal k) = k"
proof -
  obtain a b c d r where k: "k - 1 = 146097 * a + 36524 * b + 1461 * c + 365 * d + r"
    and b: "0 \<le> b" "b \<le> 3" "0 \<le> c" "c \<le> 24" "0 \<le> d" "d \<le> 3"
    and r: "0 \<le> r" "r < (if d = 3 \<and> (c \<noteq> 24 \<or> b = 3) then 366 else 365)"
    and fo: "fromordinal k =
       (case month_day (d = 3 \<and> (c \<noteq> 24 \<or> b = 3)) r of (m, e) \<Rightarrow>
          mk_date (400 * a + 100 * b + 4 * c + d + 1) m e)"
    by (rule fromordinal_cycles)
  obtain m e where me: "month_day (d = 3 \<and> (c \<noteq> 24 \<or> b = 3)) r = (m, e)"
    by (cases "month_day (d = 3 \<and> (c \<noteq> 24 \<or> b = 3)) r")
  have date: "fromordinal k = mk_date (400 * a + 100 * b + 4 * c + d + 1) m e"
    unfolding fo me by (rule prod.case)
  from month_day_ok [OF r] me
  have "days_before m + (if 2 < m \<and> d = 3 \<and> (c \<noteq> 24 \<or> b = 3) then 1 else 0) + e = r + 1"
    by (simp add: month_days_ok_def)
  with k show ?thesis
    unfolding date toordinal_def mk_date_def date.simps
    by (simp add: days_before_year_cycles [OF b] is_leap_cycles [OF b])
qed

theorem valid_fromordinal:
  assumes "0 < k" "k \<le> max_ordinal"
  shows "valid_date (fromordinal k)"
proof -
  obtain a b c d r where k: "k - 1 = 146097 * a + 36524 * b + 1461 * c + 365 * d + r"
    and b: "0 \<le> b" "b \<le> 3" "0 \<le> c" "c \<le> 24" "0 \<le> d" "d \<le> 3"
    and r: "0 \<le> r" "r < (if d = 3 \<and> (c \<noteq> 24 \<or> b = 3) then 366 else 365)"
    and a: "a = (k - 1) div 146097"
    and fo: "fromordinal k =
       (case month_day (d = 3 \<and> (c \<noteq> 24 \<or> b = 3)) r of (m, e) \<Rightarrow>
          mk_date (400 * a + 100 * b + 4 * c + d + 1) m e)"
    by (rule fromordinal_cycles)
  obtain m e where me: "month_day (d = 3 \<and> (c \<noteq> 24 \<or> b = 3)) r = (m, e)"
    by (cases "month_day (d = 3 \<and> (c \<noteq> 24 \<or> b = 3)) r")
  let ?y = "400 * a + 100 * b + 4 * c + d + 1"
  have date: "fromordinal k = mk_date ?y m e"
    unfolding fo me by (rule prod.case)
  have "0 \<le> a" using assms a by simp
  then have "1 \<le> ?y" using b by linarith
  moreover have "?y \<le> 9999"
  proof (cases "a \<le> 23")
    case True
    with b show ?thesis by linarith
  next
    case False
    with k b r assms(2) have "36524 * b + 1461 * c + 365 * d < 3652059 - 146097 * 24" "a = 24"
      unfolding max_ordinal_def by linarith+
    moreover have "\<not> (b = 3 \<and> c = 24 \<and> d = 3)"
      using calculation k r assms(2) unfolding max_ordinal_def by auto
    ultimately show ?thesis using b by linarith
  qed
  moreover note month_day_ok [OF r]
  ultimately show ?thesis
    unfolding date valid_date_def mk_date_def date.simps days_in_month_def is_leap_cycles [OF b]
    using me by (simp only: month_days_ok_def prod.case)
qed

subsection \<open>ISO text\<close>

lemma digit_char:
  fixes q :: int
  assumes "0 \<le> q" "q \<le> 9"
  shows "digit_val (char_of (48 + q)) = q" "is_digit (char_of (48 + q))"
proof -
  have "of_char (char_of (48 + q) :: char) = 48 + q" using assms by simp
  then show "digit_val (char_of (48 + q)) = q" by (simp add: digit_val_def)
  have "(of_char (char_of (48 + q) :: char) :: nat) = nat (48 + q)"
    using assms by (simp add: nat_of_char [symmetric] del: nat_of_char)
  then show "is_digit (char_of (48 + q))"
    using assms by (simp add: is_digit_def Let_def nat_le_iff le_nat_iff)
qed

lemma int_of_digits_append: "int_of_digits acc (xs @ ys) = int_of_digits (int_of_digits acc xs) ys"
  by (induction xs arbitrary: acc) auto

lemma digits_of_props:
  "0 \<le> n \<Longrightarrow> int_of_digits 0 (digits_of n) = n \<and> digits_of n \<noteq> [] \<and> list_all is_digit (digits_of n)"
proof (induction n rule: digits_of.induct)
  case (1 n)
  show ?case
  proof (cases "n < 10")
    case True
    then show ?thesis using 1 digit_char [of n] by (subst (1 2 3) digits_of.simps) simp
  next
    case False
    then have IH: "int_of_digits 0 (digits_of (n div 10)) = n div 10 \<and> list_all is_digit (digits_of (n div 10))"
      using 1 by simp
    have "digit_val (char_of (48 + n mod 10)) = n mod 10" "is_digit (char_of (48 + n mod 10))"
      using digit_char [of "n mod 10"] 1 by auto
    then show ?thesis
      using False IH by (subst (1 2 3) digits_of.simps) (simp add: int_of_digits_append)
  qed
qed

lemma pad2_digits:
  assumes "0 \<le> n" "n \<le> 99"
  shows "list_all is_digit (pad2 n)" "int_of_digits acc (pad2 n) = 100 * acc + n"
  using assms digit_char [of "n div 10"] digit_char [of "n mod 10"] by (auto simp: pad2_def)

lemma digits_value_pad2: "0 \<le> n \<Longrightarrow> n \<le> 99 \<Longrightarrow> digits_value (pad2 n) = Some n"
  using pad2_digits(1) [of n] pad2_digits(2) [of n 0] by (auto simp: digits_value_def pad2_def)

lemma digits_value_year:
  assumes "0 \<le> y" "y \<le> 9999"
  shows "digits_value (pad2 (y div 100) @ pad2 (y mod 100)) = Some y"
proof -
  have append: "int_of_digits acc (xs @ ys) = int_of_digits (int_of_digits acc xs) ys" for acc xs ys
    by (induction xs arbitrary: acc) simp_all
  have "0 \<le> y div 100" "y div 100 \<le> 99" "0 \<le> y mod 100" "y mod 100 \<le> 99"
    using assms by auto
  then show ?thesis
    using pad2_digits(1) [of "y div 100"] pad2_digits(1) [of "y mod 100"]
      pad2_digits(2) [of "y div 100" 0] pad2_digits(2) [of "y mod 100" "y div 100"]
    by (auto simp: digits_value_def append) (simp add: pad2_def)
qed

lemma length_pad2 [simp]: "length (pad2 n) = 2"
  by (simp add: pad2_def)

theorem fromisoformat_isoformat:
  assumes "valid_date d"
  shows "fromisoformat (isoformat d) = Some d"
proof -
  obtain y m e where d: "d = mk_date y m e"
    by (cases d) (auto simp: mk_date_def)
  let ?y = "pad2 (y div 100) @ pad2 (y mod 100)"
  let ?s = "?y @ ''-'' @ pad2 m @ ''-'' @ pad2 e"
  have dim: "days_in_month y m \<le> 31" by (simp add: days_in_month_def)
  have b: "1 \<le> y" "y \<le> 9999" "1 \<le> m" "m \<le> 12" "1 \<le> e" "e \<le> 31"
    using assms dim by (auto simp: d mk_date_def valid_date_def)
  have iso: "isoformat d = ?s" by (simp add: d isoformat_def mk_date_def)
  have m0: "?s ! 5 = char_of (48 + m div 10)" by (simp add: nth_append pad2_def)
  have "is_digit (?s ! 5)"
    unfolding m0 using b by (intro digit_char) auto
  then have "?s ! 5 \<noteq> CHR ''W''" by (auto simp: is_digit_def)
  moreover have "length ?s = 10" "?s ! 4 = CHR ''-''" "?s ! 7 = CHR ''-''"
    by (simp_all add: nth_append)
  ultimately have "fromisoformat ?s = checked_digits (take 4 ?s) (take 2 (drop 5 ?s)) (drop 8 ?s)"
    by (simp add: fromisoformat_def Let_def)
  moreover have "take 4 ?s = ?y" "take 2 (drop 5 ?s) = pad2 m" "drop 8 ?s = pad2 e"
    by simp_all
  moreover have "checked_digits ?y (pad2 m) (pad2 e) = checked_date y m e"
    using b digits_value_year [of y] digits_value_pad2 [of m] digits_value_pad2 [of e]
    by (simp add: checked_digits_def)
  ultimately show ?thesis
    using assms iso by (simp add: checked_date_def d)
qed

end
