(* ===== verification/Expression.thy ===== *)
theory Expression
  imports Py_Number Py_Date
begin

text \<open>
  The expression evaluator of the Form IR
  (\<open>backend/app/modules/form_engine/expression.py\<close>): the null-aware primitives, the
  function table, reference resolution, \<open>evaluate\<close>, and the static analyses over an
  expression.

  An expression is the JSON the document holds, so a malformed node is a value of the
  model too, and every exception Python would raise is an \<open>Inl\<close>. Dates travel as ISO
  text, as they do on the wire. What CPython computes and this development does not (case
  mapping, regular expressions, \<open>repr\<close> of a float or a container, the C mathematical library) is the
  record \<open>pylib\<close> that the definitions take as an argument. The static analyses read a
  node whose \<open>args\<close> is not iterable, or whose \<open>path\<close> is not text, as having no
  arguments or the empty path, where Python would raise.
\<close>

named_theorems expr_defs \<open>unfolding of the evaluator's functions\<close>

record pylib =
  py_upper :: "string \<Rightarrow> string"
  py_lower :: "string \<Rightarrow> string"
  py_re_search :: "string \<Rightarrow> string \<Rightarrow> bool option"
  py_float_repr :: "pyfloat \<Rightarrow> string"
  py_repr :: "json \<Rightarrow> string"
  m_sqrt :: "pyfloat \<Rightarrow> pyfloat res"
  m_sin :: "pyfloat \<Rightarrow> pyfloat res"
  m_cos :: "pyfloat \<Rightarrow> pyfloat res"
  m_tan :: "pyfloat \<Rightarrow> pyfloat res"
  m_atan :: "pyfloat \<Rightarrow> pyfloat res"
  m_asin :: "pyfloat \<Rightarrow> pyfloat res"
  m_radians :: "pyfloat \<Rightarrow> pyfloat res"

type_synonym dataset_source = "string \<Rightarrow> dict \<Rightarrow> (string \<times> json) option \<Rightarrow> dict list"

record eval_ctx =
  c_values :: dict
  c_today :: date
  c_now :: string
  c_row :: "dict option"
  c_metadata :: "dict option"
  c_scope :: "(string \<times> string) option"
  c_instances :: "(string \<times> string list) list option"
  c_datasets :: "dataset_source option"

definition INT_MIN :: int where "INT_MIN = - (2 ^ 63)"
definition INT_MAX :: int where "INT_MAX = 2 ^ 63 - 1"

subsection \<open>Null-aware primitives\<close>

fun is_null :: "json \<Rightarrow> bool" where
  "is_null JNull = True"
| "is_null _ = False"

fun v_text :: "json \<Rightarrow> string option" where
  "v_text (JStr s) = Some s"
| "v_text _ = None"

fun number :: "json \<Rightarrow> pynum option" where
  "number (JInt i) = Some (NInt i)"
| "number (JFloat x) = Some (NFloat x)"
| "number _ = None"

fun of_num :: "pynum \<Rightarrow> json" where
  "of_num (NInt i) = JInt i"
| "of_num (NFloat x) = JFloat x"

definition integer :: "json \<Rightarrow> int option" where
  "integer v = (case number v of
     None \<Rightarrow> None
   | Some (NFloat x) \<Rightarrow>
       (if is_integer x then (case x of Fin r \<Rightarrow> Some (trunc r) | _ \<Rightarrow> None) else None)
   | Some (NInt i) \<Rightarrow> Some i)"

definition date_or_none :: "json \<Rightarrow> date option" where
  "date_or_none v = (case v of JStr s \<Rightarrow> fromisoformat s | _ \<Rightarrow> None)"

definition arith :: "(pynum \<Rightarrow> pynum \<Rightarrow> pynum res) \<Rightarrow> json \<Rightarrow> json \<Rightarrow> json res" where
  "arith f a b = (case (number a, number b) of
     (Some x, Some y) \<Rightarrow> rbind (f x y) (\<lambda>r. case r of
        NInt i \<Rightarrow> if i < INT_MIN \<or> INT_MAX < i then Inl (EvaluationError ''integer overflow'')
                  else Inr (JInt i)
      | NFloat z \<Rightarrow> Inr (JFloat z))
   | _ \<Rightarrow> Inr JNull)"

datatype cmp = Lt | Lte | Gt | Gte

fun cmp_num :: "cmp \<Rightarrow> pynum \<Rightarrow> pynum \<Rightarrow> bool" where
  "cmp_num Lt x y = num_less x y"
| "cmp_num Lte x y = num_le x y"
| "cmp_num Gt x y = num_less y x"
| "cmp_num Gte x y = num_le y x"

fun cmp_str :: "cmp \<Rightarrow> string \<Rightarrow> string \<Rightarrow> bool" where
  "cmp_str Lt x y = str_less x y"
| "cmp_str Lte x y = str_le x y"
| "cmp_str Gt x y = str_less y x"
| "cmp_str Gte x y = str_le y x"

definition ordered :: "cmp \<Rightarrow> json \<Rightarrow> json \<Rightarrow> json" where
  "ordered c a b =
     (if is_null a \<or> is_null b then JNull
      else case (number a, number b) of
        (Some x, Some y) \<Rightarrow> JBool (cmp_num c x y)
      | _ \<Rightarrow> (case (v_text a, v_text b) of
          (Some s, Some t) \<Rightarrow> JBool (cmp_str c s t)
        | _ \<Rightarrow> JNull))"

fun is_bool :: "json \<Rightarrow> bool" where
  "is_bool (JBool b) = True"
| "is_bool _ = False"

fun py_type :: "json \<Rightarrow> nat" where
  "py_type JNull = 0"
| "py_type (JBool b) = 1"
| "py_type (JInt i) = 2"
| "py_type (JFloat x) = 3"
| "py_type (JStr s) = 4"
| "py_type (JList xs) = 5"
| "py_type (JObj d) = 6"

definition v_equal :: "json \<Rightarrow> json \<Rightarrow> json" where
  "v_equal a b =
     (if is_null a \<or> is_null b then JNull
      else if is_bool a \<noteq> is_bool b then JBool False
      else case (number a, number b) of
        (Some x, Some y) \<Rightarrow> JBool (num_eq x y)
      | _ \<Rightarrow> (if py_type a \<noteq> py_type b \<and> \<not> (is_str a \<and> is_str b) then JBool False
              else JBool (py_eq a b)))"

definition text1 :: "(string \<Rightarrow> string) \<Rightarrow> json \<Rightarrow> json" where
  "text1 f a = (case v_text a of None \<Rightarrow> JNull | Some s \<Rightarrow> JStr (f s))"

definition text2 :: "(string \<Rightarrow> string \<Rightarrow> bool) \<Rightarrow> json \<Rightarrow> json \<Rightarrow> json" where
  "text2 f a b = (case (v_text a, v_text b) of
     (Some s, Some t) \<Rightarrow> JBool (f s t) | _ \<Rightarrow> JNull)"

definition v_mod :: "json \<Rightarrow> json \<Rightarrow> json res" where
  "v_mod a b = (case (number a, number b) of
     (Some x, Some y) \<Rightarrow>
       if num_is_zero y then Inr JNull else rbind (num_mod x y) (\<lambda>r. Inr (of_num r))
   | _ \<Rightarrow> Inr JNull)"

fun boolean :: "json \<Rightarrow> bool option" where
  "boolean (JBool b) = Some b"
| "boolean _ = None"

definition v_and :: "json list \<Rightarrow> json" where
  "v_and args = (let vs = map boolean args in
     if Some False \<in> set vs then JBool False
     else if None \<in> set vs then JNull
     else JBool True)"

definition v_or :: "json list \<Rightarrow> json" where
  "v_or args = (let vs = map boolean args in
     if Some True \<in> set vs then JBool True
     else if None \<in> set vs then JNull
     else JBool False)"

definition v_not :: "json \<Rightarrow> json" where
  "v_not a = (case boolean a of None \<Rightarrow> JNull | Some b \<Rightarrow> JBool (\<not> b))"

fun coerce_boolean :: "bool \<Rightarrow> json \<Rightarrow> bool res" where
  "coerce_boolean null_is JNull = Inr null_is"
| "coerce_boolean null_is (JBool b) = Inr b"
| "coerce_boolean null_is _ = Inl (EvaluationError ''expected boolean at boundary'')"

subsection \<open>Functions\<close>

fun seq :: "json \<Rightarrow> json list" where
  "seq JNull = []"
| "seq (JList xs) = xs"
| "seq v = [v]"

definition non_null :: "json list \<Rightarrow> json list" where
  "non_null vs = filter (\<lambda>v. \<not> is_null v) vs"

definition numbers :: "json \<Rightarrow> pynum list" where
  "numbers v = List.map_filter number (seq v)"

text \<open>\<open>args[i]\<close> inside a function, which runs only after the arity check.\<close>

definition arg :: "json list \<Rightarrow> nat \<Rightarrow> json" where
  "arg args i = (if i < length args then args ! i else JNull)"

definition fn_count :: "json list \<Rightarrow> json" where
  "fn_count args = JInt (int (length (non_null (seq (arg args 0)))))"

definition fn_sum :: "json list \<Rightarrow> json res" where
  "fn_sum args = (let vs = numbers (arg args 0) in
     if vs = [] then Inr (JInt 0) else rbind (py_sum vs) (\<lambda>r. Inr (of_num r)))"

definition fn_min :: "json list \<Rightarrow> json" where
  "fn_min args = (case numbers (arg args 0) of [] \<Rightarrow> JNull | n # ns \<Rightarrow> of_num (py_min n ns))"

definition fn_max :: "json list \<Rightarrow> json" where
  "fn_max args = (case numbers (arg args 0) of [] \<Rightarrow> JNull | n # ns \<Rightarrow> of_num (py_max n ns))"

definition fn_count_selected :: "json list \<Rightarrow> json" where
  "fn_count_selected args =
     (if is_null (arg args 0) then JInt 0 else JInt (int (length (seq (arg args 0)))))"

definition fn_coalesce :: "json list \<Rightarrow> json" where
  "fn_coalesce args = (case non_null args of [] \<Rightarrow> JNull | v # _ \<Rightarrow> v)"

definition fn_today :: "eval_ctx \<Rightarrow> json" where
  "fn_today ctx = JStr (isoformat (c_today ctx))"

definition fn_now :: "eval_ctx \<Rightarrow> json" where
  "fn_now ctx = JStr (c_now ctx)"

definition fn_age_years :: "eval_ctx \<Rightarrow> json list \<Rightarrow> json" where
  "fn_age_years ctx args =
     (let years = (\<lambda>born ref.
            d_year ref - d_year born -
            (if d_month ref < d_month born \<or>
                (d_month ref = d_month born \<and> d_day ref < d_day born) then 1 else 0))
      in case date_or_none (arg args 0) of
           None \<Rightarrow> JNull
         | Some born \<Rightarrow>
             (if 1 < length args \<and> \<not> is_null (arg args 1)
              then (case date_or_none (arg args 1) of
                      None \<Rightarrow> JNull | Some ref \<Rightarrow> JInt (years born ref))
              else JInt (years born (c_today ctx))))"

definition fn_date_diff_days :: "json list \<Rightarrow> json" where
  "fn_date_diff_days args =
     (case (date_or_none (arg args 0), date_or_none (arg args 1)) of
        (Some a, Some b) \<Rightarrow> JInt (toordinal a - toordinal b)
      | _ \<Rightarrow> JNull)"

definition fn_date_add_days :: "json list \<Rightarrow> json" where
  "fn_date_add_days args =
     (case (date_or_none (arg args 0), integer (arg args 1)) of
        (Some a, Some n) \<Rightarrow>
          (case add_days a n of Inr d \<Rightarrow> JStr (isoformat d) | Inl e \<Rightarrow> JNull)
      | _ \<Rightarrow> JNull)"

definition fn_len :: "json list \<Rightarrow> json" where
  "fn_len args = (case v_text (arg args 0) of
     None \<Rightarrow> JNull | Some s \<Rightarrow> JInt (int (length s)))"

definition cast_str :: "pylib \<Rightarrow> json \<Rightarrow> json" where
  "cast_str L v = (case v of
     JNull \<Rightarrow> JNull
   | JBool b \<Rightarrow> JStr (if b then ''true'' else ''false'')
   | JFloat x \<Rightarrow>
       (case x of
          Fin r \<Rightarrow> if is_integer x then JStr (str_of_int (trunc r)) else JStr (py_float_repr L x)
        | _ \<Rightarrow> JStr (py_float_repr L x))
   | JInt i \<Rightarrow> JStr (str_of_int i)
   | JStr s \<Rightarrow> JStr s
   | JList xs \<Rightarrow> JNull
   | JObj d \<Rightarrow> JNull)"

definition fn_concat :: "pylib \<Rightarrow> json list \<Rightarrow> json" where
  "fn_concat L args =
     JStr (concat (map (\<lambda>a. case cast_str L a of JStr s \<Rightarrow> s | _ \<Rightarrow> []) args))"

text \<open>\<open>s[start:stop]\<close>, negative positions counting from the end.\<close>

definition clip :: "string \<Rightarrow> int \<Rightarrow> nat" where
  "clip s i = (let n = int (length s) in nat (if i < 0 then max 0 (n + i) else min n i))"

definition py_slice :: "string \<Rightarrow> int \<Rightarrow> int option \<Rightarrow> string" where
  "py_slice s start stop =
     (let lo = clip s start; hi = (case stop of None \<Rightarrow> length s | Some e \<Rightarrow> clip s e)
      in drop lo (take hi s))"

definition fn_substr :: "json list \<Rightarrow> json" where
  "fn_substr args =
     (case (v_text (arg args 0), integer (arg args 1)) of
        (Some s, Some start) \<Rightarrow>
          (if 2 < length args \<and> \<not> is_null (arg args 2)
           then (case integer (arg args 2) of
                   None \<Rightarrow> JNull | Some n \<Rightarrow> JStr (py_slice s start (Some (start + n))))
           else JStr (py_slice s start None))
      | _ \<Rightarrow> JNull)"

definition FORBIDDEN_REGEX_FEATURES :: "string list" where
  "FORBIDDEN_REGEX_FEATURES =
     [''(?='', ''(?!'', ''(?<='', ''(?<!'', [CHR 0x5C, CHR ''1''], [CHR 0x5C, CHR ''2'']]"

definition forbidden_regex_feature :: "string \<Rightarrow> string option" where
  "forbidden_regex_feature pattern =
     List.find (\<lambda>f. contains f pattern) FORBIDDEN_REGEX_FEATURES"

definition fn_regex :: "pylib \<Rightarrow> json list \<Rightarrow> json" where
  "fn_regex L args =
     (case (v_text (arg args 0), v_text (arg args 1)) of
        (Some subject, Some pattern) \<Rightarrow>
          (if forbidden_regex_feature pattern \<noteq> None then JNull
           else case py_re_search L pattern subject of
                  None \<Rightarrow> JNull | Some b \<Rightarrow> JBool b)
      | _ \<Rightarrow> JNull)"

definition MAX_ROUND_DIGITS :: int where "MAX_ROUND_DIGITS = 15"

text \<open>\<open>10**digits\<close>: an integer, or a float for a negative exponent.\<close>

definition ten_power :: "int \<Rightarrow> pynum" where
  "ten_power d = (if 0 \<le> d then NInt (10 ^ nat d) else NFloat (round_double (1 / 10 ^ nat (- d))))"

definition fn_round :: "json list \<Rightarrow> json res" where
  "fn_round args =
     (case number (arg args 0) of
        None \<Rightarrow> Inr JNull
      | Some n \<Rightarrow>
          (case (if 1 < length args \<and> \<not> is_null (arg args 1)
                 then (case integer (arg args 1) of
                         None \<Rightarrow> None
                       | Some d \<Rightarrow> if MAX_ROUND_DIGITS < \<bar>d\<bar> then None else Some d)
                 else Some 0) of
             None \<Rightarrow> Inr JNull
           | Some digits \<Rightarrow>
               rbind (num_mul n (ten_power digits)) (\<lambda>scaled.
               rbind (if num_le (NInt 0) scaled
                      then rbind (num_add scaled (NFloat (Fin (1/2))))
                             (\<lambda>x. rbind (to_float x) (float_round_with floor))
                      else rbind (num_sub scaled (NFloat (Fin (1/2))))
                             (\<lambda>x. rbind (to_float x) (float_round_with ceiling))) (\<lambda>rounded.
               if 0 < digits
               then rbind (num_truediv (NInt rounded) (ten_power digits)) (\<lambda>r. Inr (of_num r))
               else Inr (JInt rounded)))))"

definition fn_sqrt :: "pylib \<Rightarrow> json list \<Rightarrow> json res" where
  "fn_sqrt L args =
     (case number (arg args 0) of
        None \<Rightarrow> Inr JNull
      | Some n \<Rightarrow> if num_less n (NInt 0) then Inr JNull
                  else rbind (to_float n) (\<lambda>x. rbind (m_sqrt L x) (\<lambda>y. Inr (JFloat y))))"

definition trig :: "(pyfloat \<Rightarrow> pyfloat res) \<Rightarrow> json list \<Rightarrow> json res" where
  "trig f args =
     (case number (arg args 0) of
        None \<Rightarrow> Inr JNull
      | Some n \<Rightarrow> rbind (to_float n) (\<lambda>x. rbind (f x) (\<lambda>y. Inr (JFloat y))))"

definition fn_pulldata :: "eval_ctx \<Rightarrow> json list \<Rightarrow> json" where
  "fn_pulldata ctx args =
     (case (v_text (arg args 0), v_text (arg args 1), v_text (arg args 2)) of
        (Some dataset, Some column, Some key_column) \<Rightarrow>
          (case c_datasets ctx of
             None \<Rightarrow> JNull
           | Some source \<Rightarrow>
               (if is_null (arg args 3) then JNull
                else case source dataset [(key_column, arg args 3)] None of
                       [] \<Rightarrow> JNull | row # _ \<Rightarrow> jget row column))
      | _ \<Rightarrow> JNull)"

text \<open>A coordinate is an \<open>int\<close> or a \<open>float\<close>; here Python's booleans count as integers.\<close>

definition geopoint :: "json \<Rightarrow> (pynum \<times> pynum) option" where
  "geopoint v = (case v of
     JObj d \<Rightarrow> (case (eq_num (jget d ''lat''), eq_num (jget d ''lon'')) of
        (Some lat, Some lon) \<Rightarrow> Some (lat, lon) | _ \<Rightarrow> None)
   | _ \<Rightarrow> None)"

definition radians :: "pylib \<Rightarrow> pynum \<Rightarrow> pyfloat res" where
  "radians L n = rbind (to_float n) (m_radians L)"

definition fsquare :: "pyfloat \<Rightarrow> pyfloat" where
  "fsquare x = fmul x x"

definition round3 :: "pyfloat \<Rightarrow> pyfloat" where
  "round3 x = (case x of Fin r \<Rightarrow> round_double (of_int (round_half_even (r * 1000)) / 1000) | _ \<Rightarrow> x)"

definition fn_distance :: "pylib \<Rightarrow> json list \<Rightarrow> json res" where
  "fn_distance L args =
     (case (geopoint (arg args 0), geopoint (arg args 1)) of
        (Some (alat, alon), Some (blat, blon)) \<Rightarrow>
          rbind (radians L alat) (\<lambda>lat1. rbind (radians L alon) (\<lambda>lon1.
          rbind (radians L blat) (\<lambda>lat2. rbind (radians L blon) (\<lambda>lon2.
          let dlat = fsub lat2 lat1; dlon = fsub lon2 lon1 in
          rbind (m_sin L (fdiv dlat (Fin 2))) (\<lambda>s1. rbind (m_cos L lat1) (\<lambda>c1.
          rbind (m_cos L lat2) (\<lambda>c2. rbind (m_sin L (fdiv dlon (Fin 2))) (\<lambda>s2.
          let h = fadd (fsquare s1) (fmul (fmul c1 c2) (fsquare s2)) in
          rbind (m_sqrt L h) (\<lambda>q. rbind (m_asin L q) (\<lambda>a.
          Inr (JFloat (round3 (fmul (fmul (Fin 2) (round_double (63710088 / 10))) a)))))))))))))
      | _ \<Rightarrow> Inr JNull)"

definition as_number :: "json \<Rightarrow> pyfloat option res" where
  "as_number v = (case v of
     JInt i \<Rightarrow> rbind (float_of_int i) (\<lambda>x. Inr (Some x))
   | JFloat x \<Rightarrow> Inr (Some x)
   | JStr s \<Rightarrow> Inr (py_float_of_str s)
   | _ \<Rightarrow> Inr None)"

definition cast_int :: "json list \<Rightarrow> json res" where
  "cast_int args =
     (if is_null (arg args 0) then Inr JNull
      else rbind (as_number (arg args 0)) (\<lambda>n. case n of
             None \<Rightarrow> Inr JNull
           | Some x \<Rightarrow> rbind (int_of_float x) (\<lambda>i. Inr (JInt i))))"

definition cast_dec :: "json list \<Rightarrow> json res" where
  "cast_dec args =
     (if is_null (arg args 0) then Inr JNull
      else rbind (as_number (arg args 0)) (\<lambda>n. Inr (case n of None \<Rightarrow> JNull | Some x \<Rightarrow> JFloat x)))"

text \<open>The table \<open>FUNCTIONS\<close>: arities, and the call itself.\<close>

definition fn_arity :: "(string \<times> nat \<times> nat) list" where
  "fn_arity =
     [(''count'', 1, 1), (''sum'', 1, 1), (''min'', 1, 1), (''max'', 1, 1),
      (''count_selected'', 1, 1), (''coalesce'', 1, 99), (''today'', 0, 0), (''now'', 0, 0),
      (''age_years'', 1, 2), (''date_diff_days'', 2, 2), (''date_add_days'', 2, 2),
      (''len'', 1, 1), (''upper'', 1, 1), (''lower'', 1, 1), (''trim'', 1, 1),
      (''concat'', 1, 99), (''substr'', 2, 3), (''contains'', 2, 2), (''starts_with'', 2, 2),
      (''ends_with'', 2, 2), (''regex'', 2, 2), (''round'', 1, 2), (''int'', 1, 1),
      (''dec'', 1, 1), (''str'', 1, 1), (''distance'', 2, 2), (''pulldata'', 4, 4),
      (''sqrt'', 1, 1), (''sin'', 1, 1), (''cos'', 1, 1), (''tan'', 1, 1), (''atan'', 1, 1),
      (''is_null'', 1, 1), (''is_not_null'', 1, 1)]"

definition fn_call :: "pylib \<Rightarrow> eval_ctx \<Rightarrow> string \<Rightarrow> json list \<Rightarrow> json res" where
  "fn_call L ctx fn args =
     (if fn = ''count'' then Inr (fn_count args)
      else if fn = ''sum'' then fn_sum args
      else if fn = ''min'' then Inr (fn_min args)
      else if fn = ''max'' then Inr (fn_max args)
      else if fn = ''count_selected'' then Inr (fn_count_selected args)
      else if fn = ''coalesce'' then Inr (fn_coalesce args)
      else if fn = ''today'' then Inr (fn_today ctx)
      else if fn = ''now'' then Inr (fn_now ctx)
      else if fn = ''age_years'' then Inr (fn_age_years ctx args)
      else if fn = ''date_diff_days'' then Inr (fn_date_diff_days args)
      else if fn = ''date_add_days'' then Inr (fn_date_add_days args)
      else if fn = ''len'' then Inr (fn_len args)
      else if fn = ''upper'' then Inr (text1 (py_upper L) (arg args 0))
      else if fn = ''lower'' then Inr (text1 (py_lower L) (arg args 0))
      else if fn = ''trim'' then Inr (text1 strip (arg args 0))
      else if fn = ''concat'' then Inr (fn_concat L args)
      else if fn = ''substr'' then Inr (fn_substr args)
      else if fn = ''contains'' then Inr (text2 (\<lambda>x y. contains y x) (arg args 0) (arg args 1))
      else if fn = ''starts_with''
        then Inr (text2 (\<lambda>x y. starts_with y x) (arg args 0) (arg args 1))
      else if fn = ''ends_with'' then Inr (text2 (\<lambda>x y. ends_with y x) (arg args 0) (arg args 1))
      else if fn = ''regex'' then Inr (fn_regex L args)
      else if fn = ''round'' then fn_round args
      else if fn = ''int'' then cast_int args
      else if fn = ''dec'' then cast_dec args
      else if fn = ''str'' then Inr (cast_str L (arg args 0))
      else if fn = ''distance'' then fn_distance L args
      else if fn = ''pulldata'' then Inr (fn_pulldata ctx args)
      else if fn = ''sqrt'' then fn_sqrt L args
      else if fn = ''sin'' then trig (m_sin L) args
      else if fn = ''cos'' then trig (m_cos L) args
      else if fn = ''tan'' then trig (m_tan L) args
      else if fn = ''atan'' then trig (m_atan L) args
      else if fn = ''is_null'' then Inr (JBool (is_null (arg args 0)))
      else if fn = ''is_not_null'' then Inr (JBool (\<not> is_null (arg args 0)))
      else Inl KeyError)"

subsection \<open>References\<close>

definition inst_path :: "string \<Rightarrow> string \<Rightarrow> string \<Rightarrow> string" where
  "inst_path repeat iid field = repeat @ ''['' @ iid @ ''].'' @ field"

definition ctx_instances :: "eval_ctx \<Rightarrow> string \<Rightarrow> string list" where
  "ctx_instances ctx r = (case c_instances ctx of
     None \<Rightarrow> [] | Some m \<Rightarrow> (case map_of m r of None \<Rightarrow> [] | Some xs \<Rightarrow> xs))"

definition resolve_positional :: "string \<Rightarrow> eval_ctx \<Rightarrow> json res" where
  "resolve_positional path ctx =
     (case split_first ''['' path of
        None \<Rightarrow> Inl ValueError
      | Some (repeat, rest) \<Rightarrow>
          (case split_first ''].'' rest of
             None \<Rightarrow> Inl ValueError
           | Some (index_text, suffix) \<Rightarrow>
               (if index_text = ''.''
                then (case c_scope ctx of
                        None \<Rightarrow> Inl (CompileError ''[.] reference outside its repeat'')
                      | Some (r, iid) \<Rightarrow>
                          (if r \<noteq> repeat then Inl (CompileError ''[.] reference outside its repeat'')
                           else Inr (jget (c_values ctx) (inst_path repeat iid suffix))))
                else rbind (py_int_of_str index_text) (\<lambda>i.
                  let ids = ctx_instances ctx repeat in
                  if i < 0 \<or> int (length ids) \<le> i then Inr JNull
                  else Inr (jget (c_values ctx) (inst_path repeat (ids ! nat i) suffix))))))"

definition resolve_bare :: "string \<Rightarrow> eval_ctx \<Rightarrow> json res" where
  "resolve_bare path ctx =
     (case (case c_scope ctx of
              None \<Rightarrow> None
            | Some (r, iid) \<Rightarrow> map_of (c_values ctx) (inst_path r iid path)) of
        Some v \<Rightarrow> Inr v
      | None \<Rightarrow> of_option (CompileError ''unresolvable reference'') (map_of (c_values ctx) path))"

definition resolve :: "string \<Rightarrow> eval_ctx \<Rightarrow> json res" where
  "resolve path ctx =
     (if starts_with ''$row.'' path then
        (case c_row ctx of
           None \<Rightarrow> Inl (CompileError ''$row reference outside a choice filter'')
         | Some row \<Rightarrow> Inr (jget row (drop 5 path)))
      else if starts_with ''_metadata.'' path then
        Inr (jget (case c_metadata ctx of None \<Rightarrow> [] | Some m \<Rightarrow> m) (drop 10 path))
      else case split_first ''[].'' path of
        Some (repeat, suffix) \<Rightarrow>
          Inr (JList (map (\<lambda>iid. jget (c_values ctx) (inst_path repeat iid suffix))
                        (ctx_instances ctx repeat)))
      | None \<Rightarrow>
          (if contains ''['' path \<and> contains ''].'' path then resolve_positional path ctx
           else resolve_bare path ctx))"

subsection \<open>The evaluator\<close>

definition node_arg :: "dict \<Rightarrow> nat \<Rightarrow> json res" where
  "node_arg kvs i = rbind (jitem kvs ''args'') (\<lambda>a. py_index a i)"

definition node_args :: "dict \<Rightarrow> json list res" where
  "node_args kvs = rbind (jitem kvs ''args'') py_iter"

text \<open>\<open>expr.get("args", [])\<close>\<close>

definition node_args_or_empty :: "dict \<Rightarrow> json list res" where
  "node_args_or_empty kvs = (case map_of kvs ''args'' of None \<Rightarrow> Inr [] | Some a \<Rightarrow> py_iter a)"

definition binary_op :: "string \<Rightarrow> (json \<Rightarrow> json \<Rightarrow> json res) option" where
  "binary_op op =
     (if op = ''add'' then Some (arith num_add)
      else if op = ''sub'' then Some (arith num_sub)
      else if op = ''mul'' then Some (arith num_mul)
      else if op = ''mod'' then Some v_mod
      else if op = ''eq'' then Some (\<lambda>a b. Inr (v_equal a b))
      else if op = ''ne'' then Some (\<lambda>a b. Inr (v_not (v_equal a b)))
      else if op = ''lt'' then Some (\<lambda>a b. Inr (ordered Lt a b))
      else if op = ''lte'' then Some (\<lambda>a b. Inr (ordered Lte a b))
      else if op = ''gt'' then Some (\<lambda>a b. Inr (ordered Gt a b))
      else if op = ''gte'' then Some (\<lambda>a b. Inr (ordered Gte a b))
      else None)"

definition v_div :: "json \<Rightarrow> json \<Rightarrow> json res" where
  "v_div a b = (case (number a, number b) of
     (Some x, Some y) \<Rightarrow>
       if num_is_zero y then Inr JNull else rbind (num_truediv x y) (\<lambda>r. Inr (of_num r))
   | _ \<Rightarrow> Inr JNull)"

definition v_idiv :: "json \<Rightarrow> json \<Rightarrow> json res" where
  "v_idiv a b = (case (number a, number b) of
     (Some x, Some y) \<Rightarrow>
       if num_is_zero y then Inr JNull
       else rbind (num_floordiv x y) (\<lambda>r. rbind (num_to_int r) (\<lambda>i. Inr (JInt i)))
   | _ \<Rightarrow> Inr JNull)"

definition v_neg :: "json \<Rightarrow> json" where
  "v_neg a = (case number a of None \<Rightarrow> JNull | Some n \<Rightarrow> of_num (num_neg n))"

text \<open>Membership by \<open>eq\<close>'s rule: null when either side is.\<close>

definition v_member :: "json \<Rightarrow> json \<Rightarrow> json" where
  "v_member haystack needle =
     (if is_null haystack \<or> is_null needle then JNull
      else JBool (list_ex (\<lambda>item. v_equal item needle = JBool True) (seq haystack)))"

definition apply_call :: "pylib \<Rightarrow> eval_ctx \<Rightarrow> string \<Rightarrow> json list \<Rightarrow> json res" where
  "apply_call L ctx fn args =
     (case map_of fn_arity fn of
        None \<Rightarrow> Inl (CompileError ''unknown function'')
      | Some (lo, hi) \<Rightarrow>
          (if lo \<le> length args \<and> length args \<le> hi then fn_call L ctx fn args
           else Inl (CompileError ''wrong number of arguments'')))"

text \<open>\<open>fn not in FUNCTIONS\<close>, before any argument is evaluated.\<close>

definition call_name :: "dict \<Rightarrow> string res" where
  "call_name kvs = rbind (jitem kvs ''fn'') (\<lambda>fn. case fn of
     JStr s \<Rightarrow> if map_of fn_arity s = None then Inl (CompileError ''unknown function'') else Inr s
   | v \<Rightarrow> if hashable v then Inl (CompileError ''unknown function'') else Inl TypeError)"

definition ref_path :: "dict \<Rightarrow> string res" where
  "ref_path kvs = rbind (jitem kvs ''path'') (\<lambda>p. case p of
     JStr s \<Rightarrow> Inr s | _ \<Rightarrow> Inl AttributeError)"

lemma depth_node_arg [depth_intros]: "node_arg kvs i = Inr x \<Longrightarrow> depth x < depth (JObj kvs)"
  by (auto simp: node_arg_def rbind_Inr_iff simp del: depth.simps
      dest!: depth_jitem depth_py_index)

lemma depth_node_args [depth_intros]:
  "node_args kvs = Inr xs \<Longrightarrow> x \<in> set xs \<Longrightarrow> depth x < depth (JObj kvs)"
  by (auto simp: node_args_def rbind_Inr_iff simp del: depth.simps
      dest!: depth_jitem depth_py_iter)

lemma depth_node_args_or_empty [depth_intros]:
  "node_args_or_empty kvs = Inr xs \<Longrightarrow> x \<in> set xs \<Longrightarrow> depth x < depth (JObj kvs)"
  by (auto simp: node_args_or_empty_def simp del: depth.simps split: option.splits
      dest!: depth_map_of depth_py_iter)

function evaluate :: "pylib \<Rightarrow> eval_ctx \<Rightarrow> json \<Rightarrow> json res" where
  "evaluate L ctx (JObj kvs) =
     (case map_of kvs ''op'' of
        None \<Rightarrow> Inl (CompileError ''malformed expression node'')
      | Some (JStr op) \<Rightarrow>
          (if op = ''lit'' then jitem kvs ''value''
           else if op = ''ref'' then rbind (ref_path kvs) (\<lambda>p. resolve p ctx)
           else if op = ''if'' then
             rbind (rbind (node_arg kvs 0) (evaluate L ctx)) (\<lambda>c. case boolean c of
               None \<Rightarrow> Inr JNull
             | Some b \<Rightarrow> rbind (node_arg kvs (if b then 1 else 2)) (evaluate L ctx))
           else if op = ''and'' then
             rbind (node_args kvs) (\<lambda>as. rbind (mapM (evaluate L ctx) as) (\<lambda>vs. Inr (v_and vs)))
           else if op = ''or'' then
             rbind (node_args kvs) (\<lambda>as. rbind (mapM (evaluate L ctx) as) (\<lambda>vs. Inr (v_or vs)))
           else if op = ''not'' then
             rbind (rbind (node_arg kvs 0) (evaluate L ctx)) (\<lambda>a. Inr (v_not a))
           else if op = ''neg'' then
             rbind (rbind (node_arg kvs 0) (evaluate L ctx)) (\<lambda>a. Inr (v_neg a))
           else if op = ''div'' then
             rbind (rbind (node_arg kvs 0) (evaluate L ctx)) (\<lambda>a.
             rbind (rbind (node_arg kvs 1) (evaluate L ctx)) (\<lambda>b. v_div a b))
           else if op = ''idiv'' then
             rbind (rbind (node_arg kvs 0) (evaluate L ctx)) (\<lambda>a.
             rbind (rbind (node_arg kvs 1) (evaluate L ctx)) (\<lambda>b. v_idiv a b))
           else case binary_op op of
             Some f \<Rightarrow>
               rbind (rbind (node_arg kvs 0) (evaluate L ctx)) (\<lambda>a.
               rbind (rbind (node_arg kvs 1) (evaluate L ctx)) (\<lambda>b. f a b))
           | None \<Rightarrow>
             (if op = ''selected'' then
                rbind (rbind (node_arg kvs 0) (evaluate L ctx)) (\<lambda>haystack.
                rbind (rbind (node_arg kvs 1) (evaluate L ctx)) (\<lambda>needle.
                  Inr (v_member haystack needle)))
              else if op = ''in'' then
                rbind (rbind (node_arg kvs 0) (evaluate L ctx)) (\<lambda>needle.
                rbind (rbind (node_arg kvs 1) (evaluate L ctx)) (\<lambda>haystack.
                  Inr (v_member haystack needle)))
              else if op = ''call'' then
                rbind (call_name kvs) (\<lambda>fn.
                rbind (node_args_or_empty kvs) (\<lambda>as.
                rbind (mapM (evaluate L ctx) as) (\<lambda>vs. apply_call L ctx fn vs)))
              else Inl (CompileError ''unknown operator'')))
      | Some op \<Rightarrow>
          (if hashable op then Inl (CompileError ''unknown operator'') else Inl TypeError))"
| "evaluate L ctx JNull = Inl (CompileError ''malformed expression node'')"
| "evaluate L ctx (JBool b) = Inl (CompileError ''malformed expression node'')"
| "evaluate L ctx (JInt i) = Inl (CompileError ''malformed expression node'')"
| "evaluate L ctx (JFloat x) = Inl (CompileError ''malformed expression node'')"
| "evaluate L ctx (JStr s) = Inl (CompileError ''malformed expression node'')"
| "evaluate L ctx (JList xs) = Inl (CompileError ''malformed expression node'')"
  by pat_completeness auto
termination
  by (relation "measure (\<lambda>(L, ctx, e). depth e)")
    (auto intro: depth_intros simp del: depth.simps)

declare evaluate.simps(1) [simp del]

subsection \<open>Static analyses\<close>

text \<open>\<open>expr.get("args") or []\<close>.\<close>

definition args_of :: "dict \<Rightarrow> json list" where
  "args_of kvs = (case py_iter (jget kvs ''args'') of Inr xs \<Rightarrow> xs | Inl e \<Rightarrow> [])"

definition path_of :: "dict \<Rightarrow> string" where
  "path_of kvs = (case jget kvs ''path'' of JStr s \<Rightarrow> s | _ \<Rightarrow> [])"

lemma depth_args_of [depth_intros]: "x \<in> set (args_of kvs) \<Longrightarrow> depth x < depth (JObj kvs)"
  by (cases "py_iter (jget kvs ''args'')")
    (auto simp: args_of_def simp del: depth.simps intro: le_less_trans [OF depth_py_iter depth_jget])

text \<open>The field a reference depends on: \<open>members[].age\<close>, \<open>members[0].age\<close> and
  \<open>members[.].age\<close> all depend on \<open>age\<close>.\<close>

definition ref_target :: "string \<Rightarrow> string" where
  "ref_target path = (case split_first ''].'' path of Some (a, b) \<Rightarrow> b | None \<Rightarrow> path)"

function collect_refs :: "json \<Rightarrow> string list" where
  "collect_refs (JObj kvs) =
     (if jget kvs ''op'' = JStr ''ref''
      then (if starts_with ''$row.'' (path_of kvs) \<or> starts_with ''_metadata.'' (path_of kvs) then []
            else [ref_target (path_of kvs)])
      else []) @ concat (map collect_refs (args_of kvs))"
| "collect_refs JNull = []"
| "collect_refs (JBool b) = []"
| "collect_refs (JInt i) = []"
| "collect_refs (JFloat x) = []"
| "collect_refs (JStr s) = []"
| "collect_refs (JList xs) = []"
  by pat_completeness auto
termination
  by (relation "measure depth") (auto intro: depth_intros simp del: depth.simps)

text \<open>Every reference path, the \<open>$row.\<close> ones included (\<open>_paths\<close> of \<open>runtime.py\<close>).\<close>

function paths :: "json \<Rightarrow> string list" where
  "paths (JObj kvs) =
     (if jget kvs ''op'' = JStr ''ref'' then [path_of kvs] else []) @
     concat (map paths (args_of kvs))"
| "paths JNull = []"
| "paths (JBool b) = []"
| "paths (JInt i) = []"
| "paths (JFloat x) = []"
| "paths (JStr s) = []"
| "paths (JList xs) = []"
  by pat_completeness auto
termination
  by (relation "measure depth") (auto intro: depth_intros simp del: depth.simps)

function paths_any :: "json \<Rightarrow> bool" where
  "paths_any (JObj kvs) =
     (jget kvs ''op'' = JStr ''ref'' \<or> list_ex paths_any (args_of kvs))"
| "paths_any JNull = False"
| "paths_any (JBool b) = False"
| "paths_any (JInt i) = False"
| "paths_any (JFloat x) = False"
| "paths_any (JStr s) = False"
| "paths_any (JList xs) = False"
  by pat_completeness auto
termination
  by (relation "measure depth") (auto intro: depth_intros simp del: depth.simps)

text \<open>Whether the expression calls a function of the given kind.\<close>

function calls :: "(string \<Rightarrow> bool) \<Rightarrow> json \<Rightarrow> bool" where
  "calls p (JObj kvs) =
     ((jget kvs ''op'' = JStr ''call'' \<and>
       (case jget kvs ''fn'' of JStr f \<Rightarrow> p f | _ \<Rightarrow> False)) \<or>
      list_ex (calls p) (args_of kvs))"
| "calls p JNull = False"
| "calls p (JBool b) = False"
| "calls p (JInt i) = False"
| "calls p (JFloat x) = False"
| "calls p (JStr s) = False"
| "calls p (JList xs) = False"
  by pat_completeness auto
termination
  by (relation "measure (\<lambda>(p, e). depth e)") (auto intro: depth_intros simp del: depth.simps)

declare collect_refs.simps(1) [simp del] paths.simps(1) [simp del]
  paths_any.simps(1) [simp del] calls.simps(1) [simp del]

definition calls_clock :: "json \<Rightarrow> bool" where
  "calls_clock e = calls (\<lambda>f. f = ''today'' \<or> f = ''now'') e"

definition is_static :: "json \<Rightarrow> bool" where
  "is_static e =
     (if \<not> is_dict e then False
      else if collect_refs e \<noteq> [] \<or> paths_any e then False
      else \<not> calls_clock e)"

definition static_ctx :: eval_ctx where
  "static_ctx = \<lparr>c_values = [], c_today = mk_date 2000 1 1, c_now = ''2000-01-01T00:00:00+00:00'',
     c_row = None, c_metadata = None, c_scope = None, c_instances = None, c_datasets = None\<rparr>"

definition static_value :: "pylib \<Rightarrow> json \<Rightarrow> json res" where
  "static_value L e = evaluate L static_ctx e"

definition statically_false :: "pylib \<Rightarrow> json \<Rightarrow> bool res" where
  "statically_false L e =
     (if is_static e then rbind (static_value L e) (\<lambda>v. Inr (v = JBool False)) else Inr False)"

end
