(* ===== verification/Expression_Laws.thy ===== *)
theory Expression_Laws
  imports Expression
begin

text \<open>
  What the evaluator of \<open>Expression\<close> guarantees: which parts of its context a result can
  depend on, that a static expression has one value, that a well-formed expression fails
  for arithmetic reasons only, which fragment never fails, and the laws of its arithmetic,
  connectives and dates. The last section states where the code and its documentation part.

  The safety results share one locale, \<open>primitive_contract\<close>: the evaluator lifts whatever
  its primitives promise to whole expressions. It is interpreted twice on the model's own
  primitives, once for structural exceptions and once for totality.
\<close>

subsection \<open>What an evaluation reads\<close>

lemma node_arg_mem: "node_arg kvs i = Inr x \<Longrightarrow> x \<in> set (args_of kvs)"
  by (auto simp: node_arg_def args_of_def jitem_def jget_def rbind_Inr_iff of_option_Inr_iff
      elim!: py_index.elims split: if_splits)

lemma node_args_eq: "node_args kvs = Inr xs \<Longrightarrow> xs = args_of kvs"
  by (auto simp: node_args_def args_of_def jitem_def jget_def rbind_Inr_iff of_option_Inr_iff)

lemma node_args_or_empty_eq: "node_args_or_empty kvs = Inr xs \<Longrightarrow> xs = args_of kvs"
  by (auto simp: node_args_or_empty_def args_of_def jget_def split: option.splits)

lemma ref_path_eq: "ref_path kvs = Inr p \<Longrightarrow> p = path_of kvs"
  by (cases "map_of kvs ''path''"; simp add: ref_path_def path_of_def jitem_def jget_def)
    (simp split: json.splits)

lemma call_name_eq: "call_name kvs = Inr f \<Longrightarrow> jget kvs ''fn'' = JStr f \<and> map_of fn_arity f \<noteq> None"
  by (cases "map_of kvs ''fn''"; simp add: call_name_def jitem_def jget_def)
    (simp split: json.splits if_splits)

definition reads_today :: "string \<Rightarrow> bool" where
  "reads_today f \<longleftrightarrow> f = ''today'' \<or> f = ''age_years''"

lemma fn_age_years_cong: "c_today c = c_today c' \<Longrightarrow> fn_age_years c vs = fn_age_years c' vs"
  unfolding fn_age_years_def by (erule subst) (rule refl)

lemma fn_pulldata_cong: "c_datasets c = c_datasets c' \<Longrightarrow> fn_pulldata c vs = fn_pulldata c' vs"
  unfolding fn_pulldata_def by (erule subst) (rule refl)

lemma apply_call_cong:
  assumes "reads_today f \<Longrightarrow> c_today c = c_today c'"
    and "f = ''now'' \<Longrightarrow> c_now c = c_now c'"
    and "f = ''pulldata'' \<Longrightarrow> c_datasets c = c_datasets c'"
  shows "apply_call L c f vs = apply_call L c' f vs"
proof -
  consider "f = ''today''" | "f = ''age_years''" | "f = ''now''" | "f = ''pulldata''"
    | "f \<noteq> ''today''" "f \<noteq> ''age_years''" "f \<noteq> ''now''" "f \<noteq> ''pulldata''" by blast
  then have "fn_call L c f vs = fn_call L c' f vs"
    using assms fn_age_years_cong [of c c' vs] fn_pulldata_cong [of c c' vs]
    by cases (simp_all add: fn_call_def fn_today_def fn_now_def reads_today_def)
  then show ?thesis by (simp add: apply_call_def split: option.split)
qed

lemma evaluate_cong:
  assumes "\<And>p. p \<in> set (paths e) \<Longrightarrow> resolve p c = resolve p c'"
    and "calls reads_today e \<Longrightarrow> c_today c = c_today c'"
    and "calls (\<lambda>f. f = ''now'') e \<Longrightarrow> c_now c = c_now c'"
    and "calls (\<lambda>f. f = ''pulldata'') e \<Longrightarrow> c_datasets c = c_datasets c'"
  shows "evaluate L c e = evaluate L c' e"
  using assms
proof (induction e rule: measure_induct_rule [where f = depth])
  case (less e)
  show ?case
  proof (cases e)
    case (JObj kvs)
    have sub: "evaluate L c x = evaluate L c' x" if x: "x \<in> set (args_of kvs)" for x
    proof (rule less.IH)
      show "depth x < depth e" using x JObj by (simp add: depth_args_of del: depth.simps)
      show "resolve p c = resolve p c'" if "p \<in> set (paths x)" for p
        using less.prems(1) x that unfolding JObj paths.simps by auto
    qed (use x less.prems(2-4) in \<open>auto simp: JObj calls.simps list_ex_iff simp del: depth.simps\<close>)
    have arg: "rbind (node_arg kvs i) (evaluate L c) = rbind (node_arg kvs i) (evaluate L c')" for i
      by (rule rbind_cong) (auto dest: node_arg_mem intro: sub)
    have margs: "rbind (node_args kvs) (\<lambda>as. rbind (mapM (evaluate L c) as) g)
        = rbind (node_args kvs) (\<lambda>as. rbind (mapM (evaluate L c') as) g)" for g
      by (intro rbind_cong refl mapM_cong) (auto dest: node_args_eq intro: sub)
    have ref: "rbind (ref_path kvs) (\<lambda>p. resolve p c) = rbind (ref_path kvs) (\<lambda>p. resolve p c')"
      if "map_of kvs ''op'' = Some (JStr ''ref'')"
      using that less.prems(1) JObj
      by (intro rbind_cong refl) (auto dest!: ref_path_eq simp: paths.simps jget_def)
    have call: "rbind (call_name kvs) (\<lambda>fn. rbind (node_args_or_empty kvs) (\<lambda>as.
          rbind (mapM (evaluate L c) as) (\<lambda>vs. apply_call L c fn vs)))
        = rbind (call_name kvs) (\<lambda>fn. rbind (node_args_or_empty kvs) (\<lambda>as.
          rbind (mapM (evaluate L c') as) (\<lambda>vs. apply_call L c' fn vs)))"
      if "map_of kvs ''op'' = Some (JStr ''call'')"
    proof (intro rbind_cong refl mapM_cong apply_call_cong)
      fix fn as x assume "node_args_or_empty kvs = Inr as" "x \<in> set as"
      then show "evaluate L c x = evaluate L c' x" by (auto dest: node_args_or_empty_eq intro: sub)
    qed (use that less.prems(2-4) JObj in \<open>auto dest!: call_name_eq simp: calls.simps jget_def\<close>)
    show ?thesis
    proof (cases "map_of kvs ''op''")
      case (Some v)
      show ?thesis
      proof (cases v)
        case (JStr op)
        note eqs = JObj evaluate.simps(1) Some JStr option.case json.case
        consider "op = ''ref''" | "op = ''call''" | "op \<noteq> ''ref''" "op \<noteq> ''call''" by blast
        then show ?thesis
        proof cases
          case 1
          with ref Some JStr show ?thesis by (simp add: eqs)
        next
          case 2
          with call Some JStr show ?thesis by (simp add: eqs binary_op_def)
        next
          case 3
          then show ?thesis unfolding eqs arg margs by (simp split: option.split)
        qed
      qed (simp_all add: JObj evaluate.simps(1) Some)
    qed (simp add: JObj evaluate.simps(1))
  qed simp_all
qed

subsection \<open>Frame: only the collected references matter\<close>

text \<open>A reference whose target, as \<open>collect_refs\<close> records it, is the field \<open>resolve\<close> reads.
  Every path made of identifiers and one pair of brackets is.\<close>

definition plain_path :: "string \<Rightarrow> bool" where
  "plain_path p =
     (case split_first ''[].'' p of
        Some (r, s) \<Rightarrow> ref_target p = s
      | None \<Rightarrow>
          (if contains ''['' p \<and> contains ''].'' p
           then (case split_first ''['' p of
                   None \<Rightarrow> False
                 | Some (r, rest) \<Rightarrow>
                     (case split_first ''].'' rest of None \<Rightarrow> False | Some (i, s) \<Rightarrow> ref_target p = s))
           else ref_target p = p))"

definition same_field :: "string \<Rightarrow> dict \<Rightarrow> dict \<Rightarrow> bool" where
  "same_field f v w \<longleftrightarrow>
     map_of v f = map_of w f \<and> (\<forall>r i. map_of v (inst_path r i f) = map_of w (inst_path r i f))"

definition same_frame :: "eval_ctx \<Rightarrow> eval_ctx \<Rightarrow> bool" where
  "same_frame c c' \<longleftrightarrow> c' = c\<lparr>c_values := c_values c'\<rparr>"

lemma same_frameD:
  assumes "same_frame c c'"
  shows "c_today c' = c_today c" "c_now c' = c_now c" "c_row c' = c_row c"
    "c_metadata c' = c_metadata c" "c_scope c' = c_scope c" "c_instances c' = c_instances c"
    "c_datasets c' = c_datasets c" "ctx_instances c' = ctx_instances c"
  using arg_cong [OF assms [unfolded same_frame_def], of c_today]
    arg_cong [OF assms [unfolded same_frame_def], of c_now]
    arg_cong [OF assms [unfolded same_frame_def], of c_row]
    arg_cong [OF assms [unfolded same_frame_def], of c_metadata]
    arg_cong [OF assms [unfolded same_frame_def], of c_scope]
    arg_cong [OF assms [unfolded same_frame_def], of c_instances]
    arg_cong [OF assms [unfolded same_frame_def], of c_datasets]
  by (simp_all add: ctx_instances_def fun_eq_iff)

lemma same_field_jget:
  assumes "same_field f v w"
  shows "jget v (inst_path r i f) = jget w (inst_path r i f)"
  using assms by (simp add: same_field_def jget_def)

lemma resolve_frame:
  assumes frame: "same_frame c c'" and plain: "plain_path p"
    and same: "\<not> starts_with ''$row.'' p \<Longrightarrow> \<not> starts_with ''_metadata.'' p \<Longrightarrow>
      same_field (ref_target p) (c_values c) (c_values c')"
  shows "resolve p c = resolve p c'"
proof (cases "starts_with ''$row.'' p \<or> starts_with ''_metadata.'' p")
  case True
  then show ?thesis by (auto simp: resolve_def same_frameD [OF frame])
next
  case False
  with same have f: "same_field (ref_target p) (c_values c) (c_values c')" by blast
  have pos: "resolve_positional p c = resolve_positional p c'"
    if "contains ''['' p" "contains ''].'' p" "split_first ''[].'' p = None"
    using that plain f
    by (auto simp: Let_def resolve_positional_def plain_path_def same_frameD [OF frame] same_field_jget
        split: option.splits prod.splits if_splits intro!: rbind_cong)
  have bare: "resolve_bare p c = resolve_bare p c'" if "ref_target p = p"
    using that f by (auto simp: resolve_bare_def same_field_def same_frameD [OF frame] split: option.split)
  show ?thesis
    using False f plain pos bare
    by (auto simp: resolve_def plain_path_def same_frameD [OF frame] same_field_jget
        split: option.splits if_splits)
qed

lemma paths_collect:
  assumes "p \<in> set (paths e)" "\<not> starts_with ''$row.'' p" "\<not> starts_with ''_metadata.'' p"
  shows "ref_target p \<in> set (collect_refs e)"
  using assms(1)
  by (induction e rule: paths.induct)
    (use assms(2,3) in \<open>auto simp: paths.simps collect_refs.simps split: if_splits\<close>)

lemma evaluate_frame:
  assumes "same_frame c c'"
    and "list_all plain_path (paths e)"
    and "\<forall>f \<in> set (collect_refs e). same_field f (c_values c) (c_values c')"
  shows "evaluate L c e = evaluate L c' e"
proof (rule evaluate_cong)
  fix p assume "p \<in> set (paths e)"
  with assms show "resolve p c = resolve p c'"
    by (intro resolve_frame) (auto simp: list_all_iff dest: paths_collect)
qed (simp_all add: same_frameD [OF assms(1)])

subsection \<open>Static expressions\<close>

lemma paths_any_iff: "paths_any e \<longleftrightarrow> paths e \<noteq> []"
  by (induction e rule: paths.induct) (auto simp: paths.simps paths_any.simps list_ex_iff)

lemma calls_or: "calls (\<lambda>f. p f \<or> q f) e \<longleftrightarrow> calls p e \<or> calls q e"
  by (induction p e rule: calls.induct) (auto simp: calls.simps list_ex_iff split: json.splits)

lemma static_value_any_context:
  assumes "is_static e"
    and "\<not> calls (\<lambda>f. f = ''age_years'') e" and "\<not> calls (\<lambda>f. f = ''pulldata'') e"
  shows "evaluate L c e = static_value L e"
proof -
  have "paths e = []" "\<not> calls (\<lambda>f. f = ''today'') e" "\<not> calls (\<lambda>f. f = ''now'') e"
    using assms(1) by (auto simp: is_static_def calls_clock_def calls_or paths_any_iff split: if_splits)
  moreover have "\<not> calls reads_today e"
    using calculation(2) assms(2) by (simp add: reads_today_def [abs_def] calls_or)
  ultimately show ?thesis
    unfolding static_value_def using assms(3) by (intro evaluate_cong) simp_all
qed

subsection \<open>Well-formed expressions do not go wrong\<close>

definition op_arity :: "string \<Rightarrow> nat option" where
  "op_arity op =
     (if op = ''if'' then Some 3
      else if op = ''and'' \<or> op = ''or'' then Some 0
      else if op = ''not'' \<or> op = ''neg'' then Some 1
      else if op = ''div'' \<or> op = ''idiv'' \<or> op = ''selected'' \<or> op = ''in'' then Some 2
      else map_option (\<lambda>f. 2) (binary_op op))"

function wf_expr :: "json \<Rightarrow> bool" where
  "wf_expr (JObj kvs) =
     (case map_of kvs ''op'' of
        Some (JStr op) \<Rightarrow>
          (if op = ''lit'' then map_of kvs ''value'' \<noteq> None
           else if op = ''ref'' then is_str (jget kvs ''path'')
           else if op = ''call'' then
             (case jget kvs ''fn'' of
                JStr f \<Rightarrow>
                  (case map_of fn_arity f of
                     None \<Rightarrow> False
                   | Some (lo, hi) \<Rightarrow>
                       (map_of kvs ''args'' = None \<or> is_list (jget kvs ''args'')) \<and>
                       lo \<le> length (args_of kvs) \<and> length (args_of kvs) \<le> hi)
              | _ \<Rightarrow> False) \<and> list_all wf_expr (args_of kvs)
           else
             (case op_arity op of
                None \<Rightarrow> False
              | Some n \<Rightarrow> is_list (jget kvs ''args'') \<and> n \<le> length (args_of kvs)) \<and>
             list_all wf_expr (args_of kvs))
      | _ \<Rightarrow> False)"
| "wf_expr JNull = False"
| "wf_expr (JBool b) = False"
| "wf_expr (JInt i) = False"
| "wf_expr (JFloat x) = False"
| "wf_expr (JStr s) = False"
| "wf_expr (JList xs) = False"
  by pat_completeness auto
termination
  by (relation "measure depth") (auto intro: depth_intros simp del: depth.simps)

declare wf_expr.simps(1) [simp del]

text \<open>The exceptions that say a document, not a number, is wrong.\<close>

fun structural :: "py_error \<Rightarrow> bool" where
  "structural (EvaluationError s) = False"
| "structural ValueError = False"
| "structural OverflowError = False"
| "structural _ = True"

definition safe :: "(py_error \<Rightarrow> bool) \<Rightarrow> 'a res \<Rightarrow> bool" where
  "safe bad r \<longleftrightarrow> (\<forall>e. r = Inl e \<longrightarrow> \<not> bad e)"

abbreviation soft :: "'a res \<Rightarrow> bool" where
  "soft \<equiv> safe structural"

definition lib_ok :: "pylib \<Rightarrow> bool" where
  "lib_ok L \<longleftrightarrow> (\<forall>x. soft (m_sqrt L x) \<and> soft (m_sin L x) \<and> soft (m_cos L x) \<and> soft (m_tan L x) \<and>
     soft (m_atan L x) \<and> soft (m_asin L x) \<and> soft (m_radians L x))"

named_theorems soft_intros \<open>results that raise no structural exception\<close>

lemma safe_Inr [soft_intros, simp]: "safe bad (Inr x)"
  by (simp add: safe_def)

lemma safe_Inl [simp]: "safe bad (Inl e) \<longleftrightarrow> \<not> bad e"
  by (simp add: safe_def)

lemma safe_rbind [soft_intros]:
  "safe bad r \<Longrightarrow> (\<And>x. r = Inr x \<Longrightarrow> safe bad (f x)) \<Longrightarrow> safe bad (rbind r f)"
  by (cases r) simp_all

lemma safe_mapM [soft_intros]: "(\<And>x. x \<in> set xs \<Longrightarrow> safe bad (f x)) \<Longrightarrow> safe bad (mapM f xs)"
  by (induction xs) (auto intro!: safe_rbind)

lemma safe_foldM [soft_intros]: "(\<And>s x. safe bad (f s x)) \<Longrightarrow> safe bad (foldM f s xs)"
  by (induction xs arbitrary: s) (auto intro!: safe_rbind)

lemma soft_float_of_int [soft_intros]: "soft (float_of_int i)"
  by (simp add: float_of_int_def split: pyfloat.split)

lemma soft_to_float [soft_intros]: "soft (to_float n)"
  by (cases n) (simp_all add: soft_float_of_int)

lemma soft_float_round [soft_intros]: "soft (float_round_with f x)"
  by (cases x) simp_all

lemma soft_num_to_int [soft_intros]: "soft (num_to_int n)"
  by (cases n) (simp_all add: soft_float_round)

lemma soft_arith_op [soft_intros]: "soft (arith_op g f a b)"
  by (auto simp: arith_op_def float_op_def split: pynum.split intro!: soft_intros)

lemma soft_nums [soft_intros]:
  "soft (num_add a b)" "soft (num_sub a b)" "soft (num_mul a b)" "soft (num_mod a b)"
  "soft (num_floordiv a b)"
  by (simp_all add: num_add_def num_sub_def num_mul_def num_mod_def num_floordiv_def soft_arith_op)

lemma soft_num_truediv [soft_intros]: "soft (num_truediv a b)"
  by (auto simp: num_truediv_def float_op_def split: pynum.split pyfloat.split intro!: soft_intros)

lemma soft_sum_step [soft_intros]: "soft (sum_step s n)"
  by (cases "(s, n)" rule: sum_step.cases) (auto intro!: soft_intros)

lemma soft_py_sum [soft_intros]: "soft (py_sum ns)"
  by (auto simp: py_sum_def intro!: soft_intros)

lemma soft_as_number [soft_intros]: "soft (as_number v)"
  by (cases v) (auto simp: as_number_def intro!: soft_intros)

lemma soft_casts [soft_intros]: "soft (cast_int args)" "soft (cast_dec args)"
  by (auto simp: cast_int_def cast_dec_def split: option.split intro!: soft_intros)

lemma soft_fn_sum [soft_intros]: "soft (fn_sum args)"
  by (auto simp: fn_sum_def Let_def intro!: soft_intros)

lemma soft_fn_round [soft_intros]: "soft (fn_round args)"
  by (auto simp: fn_round_def split: option.split if_split intro!: soft_intros)

lemma soft_fn_sqrt [soft_intros]: "lib_ok L \<Longrightarrow> soft (fn_sqrt L args)"
  by (auto simp: fn_sqrt_def lib_ok_def split: option.split intro!: soft_intros)

lemma soft_trig [soft_intros]: "(\<And>x. soft (f x)) \<Longrightarrow> soft (trig f args)"
  by (auto simp: trig_def split: option.split intro!: soft_intros)

lemma soft_radians [soft_intros]: "lib_ok L \<Longrightarrow> soft (radians L n)"
  by (auto simp: radians_def lib_ok_def intro!: soft_intros)

lemma soft_fn_distance [soft_intros]: "lib_ok L \<Longrightarrow> soft (fn_distance L args)"
  by (auto simp: fn_distance_def Let_def split: option.split intro!: soft_intros)
    (auto simp: lib_ok_def)

lemma soft_binary: "binary_op op = Some f \<Longrightarrow> soft (f a b)"
  by (auto simp: binary_op_def arith_def v_mod_def split: if_splits option.split pynum.split
      intro!: soft_intros)

lemma soft_div_idiv [soft_intros]: "soft (v_div a b)" "soft (v_idiv a b)"
  by (auto simp: v_div_def v_idiv_def split: option.split intro!: soft_intros)

lemma soft_fn_call:
  assumes "lib_ok L" "map_of fn_arity f \<noteq> None"
  shows "soft (fn_call L c f vs)"
proof -
  have f: "f \<in> set (map fst fn_arity)" using assms(2) by (auto simp: map_of_eq_None_iff)
  have lib: "\<And>x. soft (m_sin L x)" "\<And>x. soft (m_cos L x)" "\<And>x. soft (m_tan L x)"
    "\<And>x. soft (m_atan L x)" using assms(1) by (simp_all add: lib_ok_def)
  show ?thesis
    using f unfolding fn_arity_def
    by (simp only: list.map fst_conv list.set insert_iff empty_iff)
      (elim disjE; simp add: fn_call_def soft_intros lib assms(1))
qed

lemma node_arg_wf:
  assumes "is_list (jget kvs ''args'')" "i < length (args_of kvs)"
  shows "node_arg kvs i = Inr (args_of kvs ! i)"
  using assms by (cases "map_of kvs ''args''"; cases "the (map_of kvs ''args'')")
    (auto simp: node_arg_def args_of_def jitem_def jget_def)

lemma node_args_wf: "is_list (jget kvs ''args'') \<Longrightarrow> node_args kvs = Inr (args_of kvs)"
  by (cases "map_of kvs ''args''"; cases "the (map_of kvs ''args'')")
    (auto simp: node_args_def args_of_def jitem_def jget_def)

lemma node_args_or_empty_wf:
  "map_of kvs ''args'' = None \<or> is_list (jget kvs ''args'') \<Longrightarrow> node_args_or_empty kvs = Inr (args_of kvs)"
  by (cases "map_of kvs ''args''"; cases "the (map_of kvs ''args'')")
    (auto simp: node_args_or_empty_def args_of_def jget_def)

function all_ops :: "(string \<Rightarrow> bool) \<Rightarrow> json \<Rightarrow> bool" where
  "all_ops p (JObj kvs) =
     ((case jget kvs ''op'' of JStr op \<Rightarrow> p op | _ \<Rightarrow> True) \<and> list_all (all_ops p) (args_of kvs))"
| "all_ops p JNull = True"
| "all_ops p (JBool b) = True"
| "all_ops p (JInt i) = True"
| "all_ops p (JFloat x) = True"
| "all_ops p (JStr s) = True"
| "all_ops p (JList xs) = True"
  by pat_completeness auto
termination
  by (relation "measure (\<lambda>(p, e). depth e)") (auto intro: depth_intros simp del: depth.simps)

declare all_ops.simps(1) [simp del]

lemma wf_subexpr: "wf_expr (JObj kvs) \<Longrightarrow> x \<in> set (args_of kvs) \<Longrightarrow>
    jget kvs ''op'' \<noteq> JStr ''lit'' \<Longrightarrow> jget kvs ''op'' \<noteq> JStr ''ref'' \<Longrightarrow> wf_expr x"
  by (auto simp: wf_expr.simps jget_def list_all_iff split: option.splits json.splits if_splits)

lemma all_ops_True: "all_ops (\<lambda>op. True) e"
  by (induction "\<lambda>op::string. True" e rule: all_ops.induct)
    (simp_all add: all_ops.simps list_all_iff split: json.split)

lemma calls_none: "\<not> calls (\<lambda>f. False) e"
  by (induction "\<lambda>f::string. False" e rule: calls.induct)
    (simp_all add: calls.simps list_ex_iff split: json.split)

lemma binary_op_names:
  assumes "binary_op op = Some f"
  shows "op \<noteq> ''lit''" "op \<noteq> ''ref''" "op \<noteq> ''if''" "op \<noteq> ''and''" "op \<noteq> ''or''" "op \<noteq> ''not''"
    "op \<noteq> ''neg''" "op \<noteq> ''div''" "op \<noteq> ''idiv''" "op \<noteq> ''selected''" "op \<noteq> ''in''" "op \<noteq> ''call''"
  by (rule notI; use assms in \<open>simp add: binary_op_def\<close>)+

lemma op_arity_cases:
  assumes "op_arity op = Some n" "op \<noteq> ''lit''" "op \<noteq> ''ref''" "op \<noteq> ''call''"
  obtains (If) "op = ''if''" "n = 3" | (And) "op = ''and''" | (Or) "op = ''or''"
    | (Not) "op = ''not''" "n = 1" | (Neg) "op = ''neg''" "n = 1"
    | (Div) "op = ''div''" "n = 2" | (Idiv) "op = ''idiv''" "n = 2"
    | (Selected) "op = ''selected''" "n = 2" | (In) "op = ''in''" "n = 2"
    | (Binary) g where "binary_op op = Some g" "n = 2"
proof (cases "binary_op op")
  case None
  have "op \<in> {''if'', ''and'', ''or'', ''not'', ''neg'', ''div'', ''idiv'', ''selected'', ''in''}"
    by (rule ccontr) (use assms(1) None in \<open>simp add: op_arity_def\<close>)
  then show thesis using assms(1) that by (auto simp: op_arity_def)
next
  case (Some g)
  then show thesis using assms(1) binary_op_names [OF Some] Binary [OF Some] by (simp add: op_arity_def)
qed

text \<open>
  What the evaluator asks of its primitives: with the operators and functions the client
  allows, none of them raises an exception the client calls bad. The evaluator passes the
  promise on to whole expressions.
\<close>

locale primitive_contract =
  fixes bad :: "py_error \<Rightarrow> bool" and op_ok :: "string \<Rightarrow> bool" and fn_ok :: "string \<Rightarrow> bool"
  assumes binary_safe: "op_ok op \<Longrightarrow> binary_op op = Some g \<Longrightarrow> safe bad (g a b)"
    and div_safe: "op_ok ''div'' \<Longrightarrow> safe bad (v_div a b)"
    and idiv_safe: "op_ok ''idiv'' \<Longrightarrow> safe bad (v_idiv a b)"
    and call_safe: "fn_ok f \<Longrightarrow> map_of fn_arity f \<noteq> None \<Longrightarrow> lib_ok L \<Longrightarrow>
      safe bad (fn_call L c f vs)"
begin

lemma evaluate_safe:
  assumes "lib_ok L" and "wf_expr e" and "all_ops op_ok e" and "\<not> calls (\<lambda>f. \<not> fn_ok f) e"
    and "\<forall>p \<in> set (paths e). safe bad (resolve p c)"
  shows "safe bad (evaluate L c e)"
  using assms(2-5)
proof (induction e rule: measure_induct_rule [where f = depth])
  case (less e)
  from less.prems(1) obtain kvs op where e: "e = JObj kvs" and op: "map_of kvs ''op'' = Some (JStr op)"
    by (cases e) (auto simp: wf_expr.simps split: option.splits json.splits)
  note wf = less.prems(1) [unfolded e wf_expr.simps op option.case json.case]
  note eqs = e evaluate.simps(1) op option.case json.case
  have ok: "op_ok op" using less.prems(2) op by (simp add: e all_ops.simps jget_def)
  have sub: "safe bad (evaluate L c x)"
    if "x \<in> set (args_of kvs)" "op \<noteq> ''lit''" "op \<noteq> ''ref''" for x
    using that less.prems wf_subexpr [of kvs x] op
    by (intro less.IH)
      (auto simp: e depth_args_of paths.simps all_ops.simps calls.simps list_all_iff list_ex_iff
        jget_def simp del: depth.simps)
  consider (lit) "op = ''lit''" | (ref) "op = ''ref''" | (call) "op = ''call''"
    | (other) "op \<noteq> ''lit''" "op \<noteq> ''ref''" "op \<noteq> ''call''" by blast
  then show ?case
  proof cases
    case lit
    with wf show ?thesis by (auto simp: eqs jitem_def)
  next
    case ref
    with wf have "ref_path kvs = Inr (path_of kvs)"
      by (cases "map_of kvs ''path''"; cases "the (map_of kvs ''path'')")
        (auto simp: ref_path_def path_of_def jitem_def jget_def)
    with ref op less.prems(4) show ?thesis by (auto simp: eqs paths.simps jget_def)
  next
    case call
    from wf call obtain f where f: "jget kvs ''fn'' = JStr f" "map_of fn_arity f \<noteq> None"
      and args: "node_args_or_empty kvs = Inr (args_of kvs)"
      and n: "length (args_of kvs) \<ge> fst (the (map_of fn_arity f))"
        "length (args_of kvs) \<le> snd (the (map_of fn_arity f))"
      by (auto split: json.splits option.splits simp: node_args_or_empty_wf)
    have "call_name kvs = Inr f"
      using f by (cases "map_of kvs ''fn''") (auto simp: call_name_def jitem_def jget_def)
    moreover have "fn_ok f" using less.prems(3) f(1) op call by (auto simp: e calls.simps jget_def)
    ultimately show ?thesis
      using call f n args sub assms(1) call_safe
      by (auto simp: eqs binary_op_def apply_call_def dest!: mapM_length intro!: safe_rbind safe_mapM)
  next
    case other
    from wf other obtain n where n: "op_arity op = Some n" "n \<le> length (args_of kvs)"
      and l: "is_list (jget kvs ''args'')" by (auto split: option.splits)
    have node: "node_arg kvs i = Inr (args_of kvs ! i)" if "i < n" for i
      using that n(2) by (intro node_arg_wf [OF l]) simp
    have arg: "safe bad (evaluate L c (args_of kvs ! i))" if "i < n" for i
      using that n(2) sub other by simp
    from n(1) other show ?thesis
    proof (cases rule: op_arity_cases)
      case If
      with node arg show ?thesis by (auto simp: eqs intro!: safe_rbind split: option.split)
    next
      case (Binary g)
      with node arg show ?thesis
        by (auto simp: eqs binary_op_names intro!: safe_rbind binary_safe [OF ok Binary(1)])
    qed (use node arg ok sub in \<open>auto simp: eqs node_args_wf [OF l] binary_op_def
        intro!: safe_rbind safe_mapM div_safe idiv_safe\<close>)
  qed
qed

end

interpretation wellformed: primitive_contract structural "\<lambda>op. True" "\<lambda>f. True"
  by unfold_locales (auto intro: soft_binary soft_div_idiv soft_fn_call)

text \<open>Operators and functions that answer on every input, null included.\<close>

definition total_op :: "string \<Rightarrow> bool" where
  "total_op op \<longleftrightarrow> op \<in> {''lit'', ''ref'', ''if'', ''and'', ''or'', ''not'', ''neg'', ''eq'', ''ne'',
     ''lt'', ''lte'', ''gt'', ''gte'', ''selected'', ''in'', ''call''}"

definition total_fn :: "string \<Rightarrow> bool" where
  "total_fn f \<longleftrightarrow> f \<notin> {''sum'', ''round'', ''int'', ''dec'', ''distance'', ''sqrt'', ''sin'', ''cos'',
     ''tan'', ''atan''}"

lemma total_fn_call:
  assumes "total_fn f" "map_of fn_arity f \<noteq> None"
  shows "safe (\<lambda>e. True) (fn_call L c f vs)"
proof -
  have f: "f \<in> set (map fst fn_arity)" using assms(2) by (auto simp: map_of_eq_None_iff)
  show ?thesis
    using f assms(1) unfolding fn_arity_def
    by (simp only: list.map fst_conv list.set insert_iff empty_iff)
      (elim disjE; simp add: fn_call_def total_fn_def)
qed

lemma total_binary: "total_op op \<Longrightarrow> binary_op op = Some f \<Longrightarrow> safe (\<lambda>e. True) (f a b)"
  by (auto simp: total_op_def binary_op_def split: if_splits)

interpretation total: primitive_contract "\<lambda>e. True" total_op total_fn
  by unfold_locales (auto intro: total_fn_call total_binary simp: total_op_def)

subsection \<open>Concrete expressions\<close>

text \<open>Builders for expression nodes, and a library record, for concrete inputs.\<close>

definition e_lit :: "json \<Rightarrow> json" where
  "e_lit v = JObj [(''op'', JStr ''lit''), (''value'', v)]"

definition e_ref :: "string \<Rightarrow> json" where
  "e_ref p = JObj [(''op'', JStr ''ref''), (''path'', JStr p)]"

definition e_op :: "string \<Rightarrow> json list \<Rightarrow> json" where
  "e_op op xs = JObj [(''op'', JStr op), (''args'', JList xs)]"

definition e_call :: "string \<Rightarrow> json list \<Rightarrow> json" where
  "e_call f xs = JObj [(''op'', JStr ''call''), (''fn'', JStr f), (''args'', JList xs)]"

lemmas e_defs = e_lit_def e_ref_def e_op_def e_call_def

definition sample_lib :: pylib where
  "sample_lib = \<lparr>py_upper = id, py_lower = id, py_re_search = (\<lambda>p s. Some (contains p s)),
     py_float_repr = (\<lambda>x. ''0.5''), py_repr = (\<lambda>x. ''[]''), m_sqrt = Inr, m_sin = Inr, m_cos = Inr, m_tan = Inr,
     m_atan = Inr, m_asin = Inr, m_radians = Inr\<rparr>"

lemma lib_ok_sample [simp]: "lib_ok sample_lib"
  by (simp add: lib_ok_def sample_lib_def)

definition sample_ctx :: "dict \<Rightarrow> eval_ctx" where
  "sample_ctx v = \<lparr>c_values = v, c_today = mk_date 2026 6 15, c_now = ''2026-06-15T09:00:00'',
     c_row = None, c_metadata = None, c_scope = None, c_instances = None, c_datasets = None\<rparr>"

lemma e_simps [simp]:
  "args_of [(''op'', JStr ''lit''), (''value'', v)] = []"
  "args_of [(''op'', JStr ''ref''), (''path'', v)] = []"
  "args_of [(''op'', JStr op), (''args'', JList xs)] = xs"
  "args_of [(''op'', JStr ''call''), (''fn'', v), (''args'', JList xs)] = xs"
  by (simp_all add: args_of_def jget_def)

lemma evaluate_e_lit [simp]: "evaluate L c (e_lit v) = Inr v"
  by (simp add: e_lit_def evaluate.simps jitem_def)

lemma evaluate_e_ref [simp]: "evaluate L c (e_ref p) = resolve p c"
  by (simp add: e_ref_def evaluate.simps jitem_def ref_path_def)

lemma evaluate_e_call:
  "map_of fn_arity f \<noteq> None \<Longrightarrow>
   evaluate L c (e_call f xs) = rbind (mapM (evaluate L c) xs) (\<lambda>vs. apply_call L c f vs)"
  by (auto simp: e_call_def evaluate.simps jitem_def call_name_def node_args_or_empty_def binary_op_def)

lemma evaluate_e_binary:
  "binary_op op = Some f \<Longrightarrow>
   evaluate L c (e_op op [x, y]) =
     rbind (evaluate L c x) (\<lambda>a. rbind (evaluate L c y) (\<lambda>b. f a b))"
  by (simp add: e_op_def evaluate.simps jitem_def node_arg_def binary_op_names)

lemma evaluate_e_not: "evaluate L c (e_op ''not'' [x]) = rbind (evaluate L c x) (\<lambda>a. Inr (v_not a))"
  by (simp add: e_op_def evaluate.simps jitem_def node_arg_def)

lemma evaluate_e_and:
  "evaluate L c (e_op ''and'' xs) = rbind (mapM (evaluate L c) xs) (\<lambda>vs. Inr (v_and vs))"
  by (simp add: e_op_def evaluate.simps jitem_def node_args_def)

lemma evaluate_e_or:
  "evaluate L c (e_op ''or'' xs) = rbind (mapM (evaluate L c) xs) (\<lambda>vs. Inr (v_or vs))"
  by (simp add: e_op_def evaluate.simps jitem_def node_args_def)

lemmas evaluate_e = evaluate_e_lit evaluate_e_ref evaluate_e_call evaluate_e_binary evaluate_e_not
  evaluate_e_and evaluate_e_or

lemma inst_path_bracket: "CHR ''['' \<in> set (inst_path r i f)"
  by (simp add: inst_path_def)

lemma map_of_inst_path:
  "(\<And>k. k \<in> fst ` set v \<Longrightarrow> CHR ''['' \<notin> set k) \<Longrightarrow> map_of v (inst_path r i f) = None"
  using inst_path_bracket by (metis map_of_eq_None_iff)

subsection \<open>Properties of the evaluator\<close>

text \<open>C24: an expression's value depends only on the fields \<open>collect_refs\<close> reports. Two sets
  of answers that agree on those fields, in every repeat instance, evaluate it to the same
  result, exception included. This is what makes the dependency graph of a form sound.\<close>

theorem evaluate_depends_on_refs:
  assumes "list_all plain_path (paths e)"
    and "\<forall>f \<in> set (collect_refs e). same_field f v w"
  shows "evaluate L (c\<lparr>c_values := v\<rparr>) e = evaluate L (c\<lparr>c_values := w\<rparr>) e"
  using assms by (intro evaluate_frame) (simp_all add: same_frame_def)

theorem evaluate_depends_on_refs_witness:
  "evaluate sample_lib (sample_ctx [(''a'', JInt 1), (''b'', JInt 2)]) (e_op ''add'' [e_ref ''a'', e_lit (JInt 1)])
   = evaluate sample_lib (sample_ctx [(''b'', JInt 5), (''a'', JInt 1)]) (e_op ''add'' [e_ref ''a'', e_lit (JInt 1)])"
proof -
  let ?e = "e_op ''add'' [e_ref ''a'', e_lit (JInt 1)]"
  let ?v = "[(''a'', JInt 1), (''b'', JInt 2)]" and ?w = "[(''b'', JInt 5), (''a'', JInt 1)]"
  have p: "paths ?e = [''a'']" and r: "collect_refs ?e = [''a'']"
    by (simp_all add: e_defs paths.simps collect_refs.simps jget_def path_of_def ref_target_def
        starts_with_def)
  have "plain_path ''a''" by code_simp
  moreover have "same_field ''a'' ?v ?w"
    unfolding same_field_def by (auto simp: inst_path_def append_eq_Cons_conv)
  ultimately show ?thesis
    using evaluate_depends_on_refs [of ?e ?v ?w sample_lib "sample_ctx []"]
    by (simp add: p r sample_ctx_def)
qed

text \<open>C25: a static expression that calls neither \<open>age_years\<close> nor \<open>pulldata\<close> has one value, the
  one \<open>static_value\<close> computes, in every context: every clock, every set of answers, every
  data source. The publish gate may decide it from the document alone.\<close>

theorem static_value_context_free:
  assumes "is_static e"
    and "\<not> calls (\<lambda>f. f = ''age_years'' \<or> f = ''pulldata'') e"
  shows "evaluate L c e = static_value L e"
  using assms by (intro static_value_any_context) (auto simp: calls_or)

theorem static_value_context_free_witness:
  "evaluate sample_lib (sample_ctx [(''a'', JInt 1)]) (e_op ''lt'' [e_lit (JInt 2), e_lit (JInt 1)])
   = static_value sample_lib (e_op ''lt'' [e_lit (JInt 2), e_lit (JInt 1)])"
  by (rule static_value_context_free)
    (simp_all add: is_static_def e_defs collect_refs.simps paths_any.simps calls_clock_def calls.simps
      jget_def)

text \<open>a well-formed expression whose references resolve never fails for a structural
  reason: no unknown operator, wrong arity, missing key, bad index or type error. What is
  left are the arithmetic exceptions.\<close>

theorem evaluate_well_formed:
  assumes "lib_ok L" and "wf_expr e" and "\<forall>p \<in> set (paths e). soft (resolve p c)"
    and "evaluate L c e = Inl err"
  shows "err = ValueError \<or> err = OverflowError \<or> (\<exists>m. err = EvaluationError m)"
proof -
  have "\<not> structural err"
    using wellformed.evaluate_safe [of L e c] assms
    by (simp add: safe_def calls_none all_ops_True)
  then show ?thesis by (cases err) simp_all
qed

text \<open>The one hypothesis on the references is needed: this expression reads none.\<close>

theorem evaluate_well_formed_witness:
  "evaluate sample_lib (sample_ctx []) (e_call ''int'' [e_lit (JStr ''nan'')]) = Inl ValueError \<and>
   (ValueError = ValueError \<or> ValueError = OverflowError \<or> (\<exists>m. ValueError = EvaluationError m))"
proof -
  let ?e = "e_call ''int'' [e_lit (JStr ''nan'')]"
  have ar: "map_of fn_arity ''int'' = Some (1, 1)" by code_simp
  have "cast_int [JStr ''nan''] = Inl ValueError" by code_simp
  then have ev: "evaluate sample_lib (sample_ctx []) ?e = Inl ValueError"
    using ar by (simp add: evaluate_e apply_call_def fn_call_def)
  have "wf_expr ?e" using ar by (simp add: e_defs wf_expr.simps jget_def)
  moreover have "paths ?e = []" by (simp add: e_defs paths.simps jget_def)
  ultimately show ?thesis
    using evaluate_well_formed [OF lib_ok_sample _ _ ev] ev by simp
qed

text \<open>Logic, comparison, membership, dates, text and look-ups are total. A well-formed
  expression that uses only those operators and functions, over references that resolve,
  yields a value on every input.\<close>

theorem evaluate_total:
  assumes "lib_ok L" and "wf_expr e" and "all_ops total_op e" and "\<not> calls (\<lambda>f. \<not> total_fn f) e"
    and "\<forall>p \<in> set (paths e). \<exists>v. resolve p c = Inr v"
  shows "\<exists>v. evaluate L c e = Inr v"
proof -
  have "safe (\<lambda>e. True) (evaluate L c e)"
    using assms by (intro total.evaluate_safe) (auto simp: safe_def)
  then show ?thesis by (cases "evaluate L c e") (simp_all add: safe_def)
qed

theorem evaluate_total_witness:
  "\<exists>v. evaluate sample_lib (sample_ctx [(''a'', JNull)]) (e_op ''gt'' [e_ref ''a'', e_lit (JStr ''x'')]) = Inr v"
proof (rule evaluate_total)
  let ?e = "e_op ''gt'' [e_ref ''a'', e_lit (JStr ''x'')]"
  have "binary_op ''gt'' \<noteq> None" by (simp add: binary_op_def)
  then show "wf_expr ?e" by (auto simp: e_defs wf_expr.simps jget_def op_arity_def)
  show "all_ops total_op ?e" by (simp add: e_defs all_ops.simps jget_def total_op_def)
  show "\<not> calls (\<lambda>f. \<not> total_fn f) ?e" by (simp add: e_defs calls.simps jget_def)
  have "resolve ''a'' (sample_ctx [(''a'', JNull)]) = Inr JNull" by code_simp
  then show "\<forall>p \<in> set (paths ?e). \<exists>v. resolve p (sample_ctx [(''a'', JNull)]) = Inr v"
    by (simp add: e_defs paths.simps jget_def path_of_def)
qed simp



lemma boolean_v_not_iff:
  "boolean (v_not a) = Some b \<longleftrightarrow> boolean a = Some (\<not> b)"
  "boolean (v_not a) = None \<longleftrightarrow> boolean a = None"
  by (cases "boolean a"; auto simp: v_not_def)+

lemma boolean_v_not_mem:
  "Some b \<in> (\<lambda>a. boolean (v_not a)) ` set xs \<longleftrightarrow> Some (\<not> b) \<in> boolean ` set xs"
  "None \<in> (\<lambda>a. boolean (v_not a)) ` set xs \<longleftrightarrow> None \<in> boolean ` set xs"
  unfolding image_iff eq_commute [of "Some b"] eq_commute [of None] eq_commute [of "Some (\<not> b)"]
    boolean_v_not_iff by (rule refl)+

text \<open>The three-valued connectives are dual (Kleene's logic with non-booleans as null):
  negating a conjunction is the disjunction of the negations, on any list of values, and the
  other way round.\<close>

theorem connectives_dual:
  "v_not (v_and xs) = v_or (map v_not xs) \<and> v_not (v_or xs) = v_and (map v_not xs)"
  by (simp add: v_and_def v_or_def v_not_def [of JNull] v_not_def [of "JBool b" for b] Let_def
      boolean_v_not_mem image_image)

text \<open>Adding days and taking the difference undo each other. Whenever the sum stays in
  the calendar, the difference between the new date and the old one is the number of days
  added, whatever spelling of the number the expression used.\<close>

theorem date_add_then_diff:
  assumes "valid_date d" and "integer n = Some k"
    and "0 < toordinal d + k" and "toordinal d + k \<le> max_ordinal" and "\<bar>k\<bar> \<le> 999999999"
  shows "fn_date_diff_days [fn_date_add_days [JStr (isoformat d), n], JStr (isoformat d)] = JInt k"
proof -
  have "fn_date_add_days [JStr (isoformat d), n] = JStr (isoformat (fromordinal (toordinal d + k)))"
    using assms
    by (simp add: fn_date_add_days_def arg_def date_or_none_def fromisoformat_isoformat add_days_def Let_def)
  then show ?thesis
    using assms
    by (simp add: fn_date_diff_days_def arg_def date_or_none_def fromisoformat_isoformat
        valid_fromordinal toordinal_fromordinal)
qed

theorem date_add_then_diff_witness:
  "fn_date_diff_days [fn_date_add_days [JStr ''2024-02-28'', JFloat (Fin 2)], JStr ''2024-02-28''] = JInt 2"
proof -
  have "isoformat (mk_date 2024 2 28) = ''2024-02-28''" by code_simp
  moreover have "valid_date (mk_date 2024 2 28)" by code_simp
  moreover have "integer (JFloat (Fin 2)) = Some 2" by code_simp
  moreover have "0 < toordinal (mk_date 2024 2 28) + 2" "toordinal (mk_date 2024 2 28) + 2 \<le> max_ordinal"
    by code_simp+
  ultimately show ?thesis
    using date_add_then_diff [of "mk_date 2024 2 28" "JFloat (Fin 2)" 2] by simp
qed

subsection \<open>Where the code departs from what it says\<close>

text \<open>
  \<open>is_static\<close> promises an expression that can be decided without a clock, but the
  one-argument \<open>age_years\<close> reads today's date and is not on its list. The expression below
  counts as statically false (its static value is taken on 1 January 2000), and it is true
  on any day from 1 January 2008 on.
\<close>

definition adult_expr :: json where
  "adult_expr = e_op ''gte'' [e_call ''age_years'' [e_lit (JStr ''1990-01-01'')], e_lit (JInt 18)]"

theorem static_age_years_reads_clock:
  "statically_false L adult_expr = Inr True \<and>
   evaluate L (sample_ctx []) adult_expr = Inr (JBool True)"
proof -
  have ar: "map_of fn_arity ''age_years'' = Some (1, 2)" by code_simp
  have "fn_age_years static_ctx [JStr ''1990-01-01''] = JInt 10"
    "fn_age_years (sample_ctx []) [JStr ''1990-01-01''] = JInt 36" by code_simp+
  then have "evaluate L static_ctx adult_expr = Inr (JBool False)"
    "evaluate L (sample_ctx []) adult_expr = Inr (JBool True)"
    using ar by (simp_all add: adult_expr_def evaluate_e binary_op_def apply_call_def fn_call_def
        ordered_def num_le_def num_less_def num_eq_def feq_def)
  moreover have "is_static adult_expr"
    by (simp add: adult_expr_def is_static_def e_defs collect_refs.simps paths_any.simps
        calls_clock_def calls.simps jget_def)
  ultimately show ?thesis by (simp add: statically_false_def static_value_def)
qed

text \<open>
  \<open>pulldata\<close> is static to the same check, although its value comes from a data set. A group
  shown when a look-up finds a row is refused as never shown, whatever the data set holds.
\<close>

definition lookup_expr :: json where
  "lookup_expr = e_call ''is_not_null''
     [e_call ''pulldata'' [e_lit (JStr ''villages''), e_lit (JStr ''name''), e_lit (JStr ''id''), e_lit (JStr ''v1'')]]"

theorem static_pulldata_reads_data:
  "statically_false L lookup_expr = Inr True \<and>
   evaluate L ((sample_ctx [])\<lparr>c_datasets := Some (\<lambda>d sel eq. [[(''id'', JStr ''v1''), (''name'', JStr ''Bela'')]])\<rparr>)
     lookup_expr = Inr (JBool True)"
proof -
  have ar: "map_of fn_arity ''pulldata'' = Some (4, 4)" "map_of fn_arity ''is_not_null'' = Some (1, 1)"
    by code_simp+
  have "is_static lookup_expr"
    by (simp add: lookup_expr_def is_static_def e_defs collect_refs.simps paths_any.simps
        calls_clock_def calls.simps jget_def)
  then show ?thesis
    using ar by (simp add: statically_false_def static_value_def lookup_expr_def evaluate_e
        apply_call_def fn_call_def fn_pulldata_def arg_def static_ctx_def sample_ctx_def jget_def)
qed

text \<open>
  Evaluation is documented to raise for integer overflow only. \<open>int\<close> of text that spells
  an infinity or a NaN raises as well, and so does \<open>round\<close> of the float it denotes.
\<close>

theorem cast_int_raises_on_special_text:
  "cast_int [JStr ''inf''] = Inl OverflowError \<and> cast_int [JStr ''nan''] = Inl ValueError \<and>
   fn_round [JFloat PosInf] = Inl OverflowError"
  by code_simp

lemma round_ex_scale: "round_double (1/100) = Fin (5764607523034235/576460752303423488)"
  by code_simp

lemma round_ex_product: "round_double (1234 * (5764607523034235/576460752303423488)) = Fin (3473401212609495/281474976710656)"
  by code_simp

lemma round_ex_half: "round_double (3473401212609495/281474976710656 + 1/2) = Fin (3614138700964823/281474976710656)"
  by code_simp

lemma round_ex_int: "round_double 1234 = Fin 1234"
  by code_simp

lemma round_ex_ten_power: "ten_power (-2) = NFloat (Fin (5764607523034235/576460752303423488))"
  unfolding ten_power_def using round_ex_scale by simp

lemma round_ex_mul: "num_mul (NInt 1234) (ten_power (-2)) = Inr (NFloat (Fin (3473401212609495/281474976710656)))"
  by (simp add: round_ex_ten_power num_mul_def arith_op_def float_op_def float_of_int_def round_ex_int round_ex_product[simplified])

lemma round_ex_add: "num_add (NFloat (Fin (3473401212609495/281474976710656))) (NFloat (Fin (1/2))) = Inr (NFloat (Fin (3614138700964823/281474976710656)))"
  by (simp add: num_add_def arith_op_def float_op_def round_ex_half[simplified])

lemma round_ex_floor: "\<lfloor>3614138700964823/281474976710656 :: rat\<rfloor> = 12"
  by (simp add: floor_eq_iff)

text \<open>
  \<open>round\<close> with a negative digit count scales down and never scales back up: rounding 1234 to
  hundreds answers 12.
\<close>

theorem round_negative_digits_not_rescaled: "fn_round [JInt 1234, JInt (- 2)] = Inr (JInt 12)"
  by (simp add: fn_round_def round_ex_mul round_ex_add round_ex_floor integer_def arg_def MAX_ROUND_DIGITS_def num_le_def num_less_def num_eq_def)
end
