(* ===== verification/Datasets.thy ===== *)
theory Datasets
  imports Expression_Laws
begin

text \<open>
  Choice lists backed by a data set and by the rows of a repeat
  (\<open>form_engine/datasets.py\<close>, \<open>form_engine/rows.py\<close>): the decomposition of a filter into
  a selector a store can answer from an index and a residual, and the in-memory source that is
  the reference for every other source.

  The locale \<open>source_contract\<close> states what \<open>DatasetSource\<close> promises its callers: it
  answers exactly the matching rows, in order. The choice list an engine resolves through any
  such source is the rows of the table that satisfy the whole filter.
\<close>

subsection \<open>Decomposing a filter\<close>

definition ROW_PREFIX :: string where "ROW_PREFIX = ''$row.''"

text \<open>\<open>str(v)\<close>.\<close>

fun py_str :: "pylib \<Rightarrow> json \<Rightarrow> string" where
  "py_str L (JStr s) = s"
| "py_str L JNull = ''None''"
| "py_str L (JBool b) = (if b then ''True'' else ''False'')"
| "py_str L (JInt i) = str_of_int i"
| "py_str L (JFloat x) = py_float_repr L x"
| "py_str L v = py_repr L v"

fun row_column :: "json \<Rightarrow> string option" where
  "row_column (JObj kvs) =
     (if jget kvs ''op'' \<noteq> JStr ''ref'' then None
      else if starts_with ROW_PREFIX (path_of kvs)
      then Some (drop (length ROW_PREFIX) (path_of kvs)) else None)"
| "row_column _ = None"

function mentions_row :: "json \<Rightarrow> bool" where
  "mentions_row (JObj kvs) =
     (if jget kvs ''op'' = JStr ''ref'' \<and> starts_with ROW_PREFIX (path_of kvs) then True
      else list_ex mentions_row (args_of kvs))"
| "mentions_row (JList xs) = list_ex mentions_row xs"
| "mentions_row JNull = False"
| "mentions_row (JBool b) = False"
| "mentions_row (JInt i) = False"
| "mentions_row (JFloat x) = False"
| "mentions_row (JStr s) = False"
  by pat_completeness auto
termination
  by (relation "measure depth") (auto intro: depth_intros simp del: depth.simps)

function conjuncts :: "json \<Rightarrow> json list" where
  "conjuncts (JObj kvs) =
     (if jget kvs ''op'' = JStr ''and'' then concat (map conjuncts (args_of kvs)) else [JObj kvs])"
| "conjuncts JNull = [JNull]"
| "conjuncts (JBool b) = [JBool b]"
| "conjuncts (JInt i) = [JInt i]"
| "conjuncts (JFloat x) = [JFloat x]"
| "conjuncts (JStr s) = [JStr s]"
| "conjuncts (JList xs) = [JList xs]"
  by pat_completeness auto
termination
  by (relation "measure depth") (auto intro: depth_intros simp del: depth.simps)

declare mentions_row.simps(1) [simp del] conjuncts.simps(1) [simp del]

record choice_query =
  q_dataset :: string
  q_value_column :: string
  q_label_columns :: dict
  q_selector :: dict
  q_residual :: "json option"

definition scans :: "choice_query \<Rightarrow> bool" where
  "scans q \<longleftrightarrow> q_selector q = []"

text \<open>\<open>(column, expression)\<close> when the conjunct is \<open>$row.col = <no $row>\<close>, either way
  round; the left side is tried first.\<close>

fun selector_term :: "json \<Rightarrow> (string \<times> json) option" where
  "selector_term (JObj kvs) =
     (if jget kvs ''op'' \<noteq> JStr ''eq'' then None
      else case args_of kvs of
        [a, b] \<Rightarrow>
          (case row_column a of
             Some c \<Rightarrow> if \<not> mentions_row b then Some (c, b)
                      else (case row_column b of
                              Some d \<Rightarrow> if \<not> mentions_row a then Some (d, a) else None
                            | None \<Rightarrow> None)
           | None \<Rightarrow> (case row_column b of
                       Some d \<Rightarrow> if \<not> mentions_row a then Some (d, a) else None
                     | None \<Rightarrow> None))
      | _ \<Rightarrow> None)"
| "selector_term _ = None"

text \<open>The loop of \<open>compile_choices\<close>: the first binding of a column wins, everything else is
  residual.\<close>

definition split_step :: "dict \<times> json list \<Rightarrow> json \<Rightarrow> dict \<times> json list" where
  "split_step acc conjunct =
     (case selector_term conjunct of
        Some (c, e) \<Rightarrow> (if c \<notin> fst ` set (fst acc) then (fst acc @ [(c, e)], snd acc)
                       else (fst acc, snd acc @ [conjunct]))
      | None \<Rightarrow> (fst acc, snd acc @ [conjunct]))"

definition split_filter :: "json \<Rightarrow> dict \<times> json list" where
  "split_filter flt = foldl split_step ([], []) (if truthy flt then conjuncts flt else [])"

definition join_residual :: "json list \<Rightarrow> json option" where
  "join_residual rs = (case rs of
     [] \<Rightarrow> None
   | [r] \<Rightarrow> Some r
   | _ \<Rightarrow> Some (JObj [(''op'', JStr ''and''), (''args'', JList rs)]))"

definition sort_selector :: "dict \<Rightarrow> dict" where
  "sort_selector sel = map (\<lambda>k. (k, jget sel k)) (str_sort (map fst sel))"

text \<open>\<open>choices.get(key, "")\<close> as text.\<close>

definition get_str :: "pylib \<Rightarrow> dict \<Rightarrow> string \<Rightarrow> string" where
  "get_str L d k = (case map_of d k of None \<Rightarrow> [] | Some v \<Rightarrow> py_str L v)"

text \<open>\<open>dict(x or {})\<close>. A truthy value that is no dictionary is refused; Python would
  accept a list of pairs there.\<close>

definition dict_or_empty :: "json \<Rightarrow> dict res" where
  "dict_or_empty v = (case v of
     JObj d \<Rightarrow> Inr d | _ \<Rightarrow> if truthy v then Inl TypeError else Inr [])"

definition compile_choices :: "pylib \<Rightarrow> dict \<Rightarrow> choice_query option res" where
  "compile_choices L choices =
     (if jget choices ''kind'' \<noteq> JStr ''dataset'' then Inr None
      else rbind (dict_or_empty (jget choices ''labelColumn'')) (\<lambda>labels.
        let (sel, rs) = split_filter (jget choices ''filter'')
        in Inr (Some \<lparr>q_dataset = get_str L choices ''dataset'',
                      q_value_column = get_str L choices ''valueColumn'',
                      q_label_columns = labels,
                      q_selector = sort_selector sel,
                      q_residual = join_residual rs\<rparr>)))"

subsection \<open>The in-memory source\<close>

definition plain :: "pylib \<Rightarrow> pynum \<Rightarrow> string" where
  "plain L n = (case n of
     NInt i \<Rightarrow> str_of_int i
   | NFloat x \<Rightarrow> (case x of
       Fin r \<Rightarrow> if is_integer x then str_of_int (trunc r) else py_float_repr L x
     | _ \<Rightarrow> py_float_repr L x))"

definition same :: "pylib \<Rightarrow> json \<Rightarrow> json \<Rightarrow> bool" where
  "same L cell v =
     (if py_eq cell v then True
      else if is_null cell \<or> is_null v then False
      else if is_bool v \<or> is_bool cell then False
      else case (number v, cell) of
        (Some n, JStr s) \<Rightarrow> s = plain L n
      | _ \<Rightarrow> (case (number cell, v) of
           (Some n, JStr s) \<Rightarrow> s = plain L n
         | _ \<Rightarrow> False))"

definition matches :: "pylib \<Rightarrow> dict \<Rightarrow> dict \<Rightarrow> bool" where
  "matches L row selector = list_all (\<lambda>(c, v). same L (jget row c) v) selector"

definition memory_rows :: "pylib \<Rightarrow> (string \<times> dict list) list \<Rightarrow> dataset_source" where
  "memory_rows L datasets ds selector equals =
     (case map_of datasets ds of
        None \<Rightarrow> []
      | Some found \<Rightarrow>
          (let matched = filter (\<lambda>row. matches L row selector) found
           in case equals of
                None \<Rightarrow> matched
              | Some (c, v) \<Rightarrow> filter (\<lambda>row. same L (jget row c) v) matched))"

subsection \<open>Rows of a repeat\<close>

record rows_query =
  r_repeat :: string
  r_exclude_self :: bool
  r_filter :: "json option"

definition compile_rows_choices :: "pylib \<Rightarrow> dict \<Rightarrow> rows_query option" where
  "compile_rows_choices L choices =
     (if jget choices ''kind'' \<noteq> JStr ''rows'' then None
      else Some \<lparr>r_repeat = get_str L choices ''repeat'',
                 r_exclude_self = (jget choices ''excludeSelf'' = JBool True),
                 r_filter = (if is_null (jget choices ''filter'') then None
                             else Some (jget choices ''filter''))\<rparr>)"

subsection \<open>Asking a source\<close>

text \<open>\<open>FormInstance._selector_values\<close> and the test \<open>_rows_after_residual\<close> applies to a
  candidate row.\<close>

definition selector_values :: "pylib \<Rightarrow> eval_ctx \<Rightarrow> choice_query \<Rightarrow> dict res" where
  "selector_values L ctx q =
     mapM (\<lambda>(c, e). rbind (evaluate L ctx e) (\<lambda>v. Inr (c, v))) (q_selector q)"

definition residual_keeps :: "pylib \<Rightarrow> eval_ctx \<Rightarrow> choice_query \<Rightarrow> dict \<Rightarrow> bool res" where
  "residual_keeps L ctx q row = (case q_residual q of
     None \<Rightarrow> Inr True
   | Some e \<Rightarrow> rbind (evaluate L (ctx\<lparr>c_row := Some row\<rparr>) e) (coerce_boolean False))"

subsection \<open>The selector and the residual together are the filter\<close>

lemma mentions_row_paths:
  "\<not> mentions_row e \<Longrightarrow> p \<in> set (paths e) \<Longrightarrow> \<not> starts_with ROW_PREFIX p"
  by (induction e rule: paths.induct)
    (auto simp: mentions_row.simps paths.simps list_ex_iff split: if_splits)

lemma evaluate_row_irrelevant:
  assumes "\<not> mentions_row e"
  shows "evaluate L (c\<lparr>c_row := r\<rparr>) e = evaluate L c e"
proof (rule evaluate_cong)
  fix p assume "p \<in> set (paths e)"
  then have "\<not> starts_with ''$row.'' p"
    using mentions_row_paths [OF assms] by (simp add: ROW_PREFIX_def)
  then show "resolve p (c\<lparr>c_row := r\<rparr>) = resolve p c"
    by (simp add: resolve_def resolve_positional_def resolve_bare_def ctx_instances_def Let_def
        cong: if_cong option.case_cong prod.case_cong)
qed simp_all

lemma v_and_True: "v_and vs = JBool True \<longleftrightarrow> (\<forall>v \<in> set vs. v = JBool True)"
proof -
  have "boolean v = Some True \<longleftrightarrow> v = JBool True" for v by (cases v) auto
  moreover have "(Some False \<notin> set (map boolean vs) \<and> None \<notin> set (map boolean vs)) \<longleftrightarrow>
      (\<forall>v \<in> set vs. boolean v = Some True)"
    by (auto simp: image_iff) (metis (full_types) option.exhaust)
  ultimately show ?thesis by (auto simp: v_and_def Let_def)
qed

lemma v_and_bool_or_null: "v_and vs = JBool True \<or> v_and vs = JBool False \<or> v_and vs = JNull"
  by (simp add: v_and_def Let_def)

lemma evaluate_and_node:
  assumes "jget kvs ''op'' = JStr ''and''" and "evaluate L c (JObj kvs) = Inr v"
  shows "\<exists>vs. mapM (evaluate L c) (args_of kvs) = Inr vs \<and> v = v_and vs"
  using assms
  by (auto simp: evaluate.simps jget_def rbind_Inr_iff dest: node_args_eq split: option.splits)

lemma conjuncts_evaluate:
  assumes "evaluate L c f = Inr v"
  shows "(\<forall>g \<in> set (conjuncts f). \<exists>w. evaluate L c g = Inr w) \<and>
    (v = JBool True \<longleftrightarrow> (\<forall>g \<in> set (conjuncts f). evaluate L c g = Inr (JBool True)))"
  using assms
proof (induction f arbitrary: v rule: conjuncts.induct)
  case (1 kvs)
  show ?case
  proof (cases "jget kvs ''op'' = JStr ''and''")
    case True
    then obtain vs where vs: "mapM (evaluate L c) (args_of kvs) = Inr vs" and v: "v = v_and vs"
      using evaluate_and_node 1 by blast
    note pw = mapM_pointwise [OF vs]
    then have IH: "\<And>x w. x \<in> set (args_of kvs) \<Longrightarrow> evaluate L c x = Inr w \<Longrightarrow>
        (\<forall>g \<in> set (conjuncts x). \<exists>w. evaluate L c g = Inr w) \<and>
        (w = JBool True \<longleftrightarrow> (\<forall>g \<in> set (conjuncts x). evaluate L c g = Inr (JBool True)))"
      using 1 True by blast
    have "v = JBool True \<longleftrightarrow> (\<forall>x \<in> set (args_of kvs). evaluate L c x = Inr (JBool True))"
      using pw by (auto simp: v v_and_True)
    then show ?thesis
      using IH pw True by (auto simp: conjuncts.simps)
  next
    case False
    then show ?thesis using 1 by (auto simp: conjuncts.simps)
  qed
qed simp_all

lemma split_step_mono: "set (fst acc) \<subseteq> set (fst (split_step acc g))"
  by (auto simp: split_step_def split: option.split)

lemma split_foldl_mono: "set (fst acc) \<subseteq> set (fst (foldl split_step acc gs))"
  by (induction gs arbitrary: acc) (use split_step_mono in fastforce)+

lemma split_foldl:
  assumes "\<And>g ce. g \<in> set gs \<Longrightarrow> selector_term g = Some ce \<Longrightarrow>
      ce \<in> set (fst (foldl split_step acc gs)) \<Longrightarrow> P g \<longleftrightarrow> Q ce"
  shows "(\<forall>ce \<in> set (fst (foldl split_step acc gs)). Q ce) \<and> (\<forall>r \<in> set (snd (foldl split_step acc gs)). P r)
    \<longleftrightarrow> (\<forall>ce \<in> set (fst acc). Q ce) \<and> (\<forall>r \<in> set (snd acc). P r) \<and> (\<forall>g \<in> set gs. P g)"
  using assms
proof (induction gs arbitrary: acc)
  case (Cons g gs)
  have "ce \<in> set (fst (foldl split_step (split_step acc g) gs))" if "ce \<in> set (fst (split_step acc g))" for ce
    using split_foldl_mono that by blast
  then have new: "P g \<longleftrightarrow> Q ce" if "selector_term g = Some ce" "ce \<in> set (fst (split_step acc g))" for ce
    using Cons.prems [of g ce] that by simp
  have "(\<forall>ce \<in> set (fst (split_step acc g)). Q ce) \<and> (\<forall>r \<in> set (snd (split_step acc g)). P r)
      \<longleftrightarrow> (\<forall>ce \<in> set (fst acc). Q ce) \<and> (\<forall>r \<in> set (snd acc). P r) \<and> P g"
  proof (cases "selector_term g")
    case None
    then show ?thesis by (auto simp: split_step_def)
  next
    case (Some ce)
    then show ?thesis
      using new [OF Some] by (cases ce; cases "fst ce \<in> fst ` set (fst acc)") (auto simp: split_step_def)
  qed
  then show ?case
    using Cons.IH [of "split_step acc g"] Cons.prems by simp blast
qed simp

lemma split_foldl_distinct:
  "distinct (map fst (fst acc)) \<Longrightarrow> distinct (map fst (fst (foldl split_step acc gs)))"
  by (induction gs arbitrary: acc) (auto simp: split_step_def split: option.split)

lemma split_foldl_residual:
  "r \<in> set (snd (foldl split_step acc gs)) \<Longrightarrow> r \<in> set (snd acc) \<or> r \<in> set gs"
  by (induction gs arbitrary: acc) (force simp: split_step_def split: option.splits if_splits)+

lemma jget_in: "distinct (map fst d) \<Longrightarrow> (k, v) \<in> set d \<Longrightarrow> jget d k = v"
  by (simp add: jget_def)

lemma set_sort_selector: "distinct (map fst sel) \<Longrightarrow> set (sort_selector sel) = set sel"
  by (force simp: sort_selector_def jget_in image_iff)

lemma row_columnD:
  "row_column a = Some c \<Longrightarrow>
   evaluate L (ctx\<lparr>c_row := Some row\<rparr>) a = Inr v \<Longrightarrow> v = jget row c"
proof (induction a rule: row_column.induct)
  case (1 kvs)
  then have op: "map_of kvs ''op'' = Some (JStr ''ref'')" and st: "starts_with ''$row.'' (path_of kvs)"
    and c: "c = drop 5 (path_of kvs)"
    by (auto simp: jget_def ROW_PREFIX_def eval_nat_numeral split: if_splits option.splits)
  from 1(2) op obtain p where "ref_path kvs = Inr p" "resolve p (ctx\<lparr>c_row := Some row\<rparr>) = Inr v"
    by (auto simp: evaluate.simps rbind_Inr_iff)
  then show ?case using st c ref_path_eq by (auto simp: resolve_def)
qed simp_all

lemma v_equal_text:
  "number v = None \<Longrightarrow> (v_equal (JStr s) v = JBool True) = (v = JStr s)"
  "number v = None \<Longrightarrow> (v_equal v (JStr s) = JBool True) = (v = JStr s)"
  by (cases v; auto simp: v_equal_def)+

lemma same_text: "number v = None \<Longrightarrow> same L (JStr s) v = (v = JStr s)"
  by (cases v) (auto simp: same_def py_eq.simps)

lemma evaluate_eq_node:
  assumes "jget kvs ''op'' = JStr ''eq''" "args_of kvs = [a, b]"
    and "evaluate L c (JObj kvs) = Inr w"
  shows "\<exists>x y. evaluate L c a = Inr x \<and> evaluate L c b = Inr y \<and> w = v_equal x y"
proof -
  have op: "map_of kvs ''op'' = Some (JStr ''eq'')"
    using assms(1) by (auto simp: jget_def split: option.splits)
  have bin: "binary_op ''eq'' = Some (\<lambda>a b. Inr (v_equal a b))" by (simp add: binary_op_def)
  from assms(3) op bin obtain a' b' x y where ab: "node_arg kvs 0 = Inr a'" "node_arg kvs 1 = Inr b'"
    and xy: "evaluate L c a' = Inr x" "evaluate L c b' = Inr y" "w = v_equal x y"
    by (auto simp: evaluate.simps rbind_Inr_iff)
  have "a' = a \<and> b' = b"
    using ab assms(2)
    by (auto simp: node_arg_def args_of_def jitem_def jget_def rbind_Inr_iff of_option_Inr_iff
        elim!: py_index.elims split: if_splits)
  with xy show ?thesis by blast
qed

lemma selector_term_evaluate:
  assumes "selector_term g = Some (col, e)"
    and "evaluate L (ctx\<lparr>c_row := Some row\<rparr>) g = Inr w"
    and "jget row col = JStr s" and "\<And>v. evaluate L ctx e = Inr v \<Longrightarrow> number v = None"
  shows "\<exists>v. evaluate L ctx e = Inr v \<and> (w = JBool True \<longleftrightarrow> same L (jget row col) v)"
proof -
  obtain kvs a b where g: "g = JObj kvs" and eq: "jget kvs ''op'' = JStr ''eq''" and ab: "args_of kvs = [a, b]"
    and sides: "(row_column a = Some col \<and> e = b \<or> row_column b = Some col \<and> e = a) \<and> \<not> mentions_row e"
    using assms(1) by (cases g) (auto split: if_splits list.splits option.splits)
  obtain x y where xy: "evaluate L (ctx\<lparr>c_row := Some row\<rparr>) a = Inr x"
      "evaluate L (ctx\<lparr>c_row := Some row\<rparr>) b = Inr y" "w = v_equal x y"
    using evaluate_eq_node [OF eq ab] assms(2) g by blast
  show ?thesis
    using sides xy assms(3,4) row_columnD [of a col] row_columnD [of b col]
    by (auto simp: evaluate_row_irrelevant v_equal_text same_text)
qed


text \<open>A cell of a selector column is text, and what it is compared with is no number.\<close>

definition text_selected :: "pylib \<Rightarrow> eval_ctx \<Rightarrow> choice_query \<Rightarrow> dict \<Rightarrow> bool" where
  "text_selected L ctx q row \<longleftrightarrow>
     (\<forall>(c, e) \<in> set (q_selector q). is_str (jget row c) \<and>
        (case evaluate L ctx e of Inr v \<Rightarrow> number v = None | Inl _ \<Rightarrow> True))"

text \<open>Every conjunct answers true, false or null, so no boundary coercion raises.\<close>

definition tri :: "json res \<Rightarrow> bool" where
  "tri r = (case r of Inr v \<Rightarrow> is_null v \<or> is_bool v | Inl _ \<Rightarrow> False)"

definition decidable :: "pylib \<Rightarrow> eval_ctx \<Rightarrow> json \<Rightarrow> bool" where
  "decidable L ctx f \<longleftrightarrow>
     tri (evaluate L ctx f) \<and> list_all (\<lambda>g. tri (evaluate L ctx g)) (conjuncts f)"

lemma tri_iff: "tri r \<longleftrightarrow> (\<exists>v. r = Inr v \<and> (is_null v \<or> is_bool v))"
  by (cases r) (auto simp: tri_def)

lemma decidable_evaluates:
  "decidable L ctx f \<Longrightarrow> \<exists>v. evaluate L ctx f = Inr v \<and> (is_null v \<or> is_bool v)"
  by (simp add: decidable_def tri_iff)

lemma decidable_conjunct:
  "decidable L ctx f \<Longrightarrow> g \<in> set (conjuncts f) \<Longrightarrow> evaluate L ctx g = Inr w \<Longrightarrow> is_null w \<or> is_bool w"
  by (force simp: decidable_def tri_iff list_all_iff)

lemma coerce_false: "is_null v \<or> is_bool v \<Longrightarrow> coerce_boolean False v = Inr (v = JBool True)"
  by (cases v) auto

lemma join_residual_evaluate:
  assumes "\<forall>r \<in> set rs. \<exists>w. evaluate L c r = Inr w \<and> (is_null w \<or> is_bool w)"
  shows "(case join_residual rs of None \<Rightarrow> Inr True
      | Some e \<Rightarrow> rbind (evaluate L c e) (coerce_boolean False))
    = Inr (\<forall>r \<in> set rs. evaluate L c r = Inr (JBool True))"
proof -
  consider "rs = []" | r where "rs = [r]" | r1 r2 rest where "rs = r1 # r2 # rest"
    by (cases rs rule: remdups_adj.cases) auto
  then show ?thesis
  proof cases
    case 3
    obtain ws where ws: "mapM (evaluate L c) rs = Inr ws" using mapM_exists [of rs "evaluate L c"] assms by fast
    have "is_null (v_and ws) \<or> is_bool (v_and ws)" by (rule v_and_bool_or_null [of ws, THEN disjE]) auto
    moreover have "v_and ws = JBool True \<longleftrightarrow> (\<forall>r \<in> set rs. evaluate L c r = Inr (JBool True))"
      using mapM_pointwise [OF ws] by (auto simp: v_and_True)
    moreover have "evaluate L c (JObj [(''op'', JStr ''and''), (''args'', JList rs)]) = Inr (v_and ws)"
      using ws evaluate_e_and [of L c rs] by (simp add: e_op_def)
    ultimately show ?thesis using 3 by (simp add: join_residual_def coerce_false)
  qed (use assms in \<open>auto simp: join_residual_def coerce_false\<close>)
qed

lemma compile_choices_parts:
  assumes "compile_choices L choices = Inr (Some q)"
  shows "q_selector q = sort_selector (fst (split_filter (jget choices ''filter'')))"
    and "q_residual q = join_residual (snd (split_filter (jget choices ''filter'')))"
  using assms by (cases "split_filter (jget choices ''filter'')";
      auto simp: compile_choices_def rbind_Inr_iff split: if_splits)+

lemma set_q_selector:
  assumes "compile_choices L choices = Inr (Some q)"
  shows "set (q_selector q) = set (fst (split_filter (jget choices ''filter'')))"
  unfolding compile_choices_parts(1) [OF assms]
  by (rule set_sort_selector) (simp add: split_filter_def split_foldl_distinct)

lemma selector_values_matches:
  assumes "selector_values L ctx q = Inr sel"
  shows "matches L row sel \<longleftrightarrow>
    (\<forall>(c, e) \<in> set (q_selector q). \<exists>v. evaluate L ctx e = Inr v \<and> same L (jget row c) v)"
proof -
  have "set sel = {y. \<exists>x \<in> set (q_selector q). (case x of (c, e) \<Rightarrow> rbind (evaluate L ctx e) (\<lambda>v. Inr (c, v))) = Inr y}"
    and "\<forall>x \<in> set (q_selector q). \<exists>y. (case x of (c, e) \<Rightarrow> rbind (evaluate L ctx e) (\<lambda>v. Inr (c, v))) = Inr y"
    using mapM_pointwise [OF assms [unfolded selector_values_def]] by simp_all
  then show ?thesis
    unfolding matches_def list_all_iff by (fastforce simp: rbind_Inr_iff)
qed

lemma decomposition_row:
  assumes q: "compile_choices L choices = Inr (Some q)" and t: "truthy (jget choices ''filter'')"
    and sel: "selector_values L ctx q = Inr sel"
    and dec: "decidable L (ctx\<lparr>c_row := Some row\<rparr>) (jget choices ''filter'')"
    and cells: "text_selected L ctx q row"
  shows "rbind (evaluate L (ctx\<lparr>c_row := Some row\<rparr>) (jget choices ''filter'')) (coerce_boolean False)
    = rbind (residual_keeps L ctx q row) (\<lambda>k. Inr (matches L row sel \<and> k))"
proof -
  let ?c = "ctx\<lparr>c_row := Some row\<rparr>" and ?f = "jget choices ''filter''"
  let ?P = "\<lambda>g. evaluate L ?c g = Inr (JBool True)"
  let ?Q = "\<lambda>(c, e). \<exists>v. evaluate L ctx e = Inr v \<and> same L (jget row c) v"
  obtain v where v: "evaluate L ?c ?f = Inr v" and vb: "is_null v \<or> is_bool v"
    using decidable_evaluates [OF dec] by blast
  note conj = conjuncts_evaluate [OF v]
  have sp: "split_filter ?f = foldl split_step ([], []) (conjuncts ?f)"
    using t by (simp add: split_filter_def)
  have term_iff: "?P g \<longleftrightarrow> ?Q ce"
    if "g \<in> set (conjuncts ?f)" "selector_term g = Some ce" "ce \<in> set (q_selector q)" for g ce
  proof -
    note prems = that
    obtain c e where ce: "ce = (c, e)" by force
    obtain w where w: "evaluate L ?c g = Inr w" using bspec [OF conjunct1 [OF conj] prems(1)] ..
    obtain s where s: "jget row c = JStr s"
      using cells prems(3) ce by (cases "jget row c") (auto simp: text_selected_def)
    have n: "number v = None" if "evaluate L ctx e = Inr v" for v
      using cells \<open>ce \<in> set (q_selector q)\<close> ce that
      by (auto simp: text_selected_def split: sum.splits)
    show ?thesis
      using selector_term_evaluate [OF that(2) [unfolded ce] w s n] w by (auto simp: ce)
  qed
  have res: "\<forall>r \<in> set (snd (split_filter ?f)). \<exists>w. evaluate L ?c r = Inr w \<and> (is_null w \<or> is_bool w)"
  proof
    fix r assume "r \<in> set (snd (split_filter ?f))"
    then have r: "r \<in> set (conjuncts ?f)" using split_foldl_residual [of r "([], [])"] by (simp add: sp)
    obtain w where w: "evaluate L ?c r = Inr w" using bspec [OF conjunct1 [OF conj] r] ..
    with r dec show "\<exists>w. evaluate L ?c r = Inr w \<and> (is_null w \<or> is_bool w)"
      using decidable_conjunct by blast
  qed
  have "residual_keeps L ctx q row = Inr (\<forall>r \<in> set (snd (split_filter ?f)). ?P r)"
    using join_residual_evaluate [OF res] by (simp add: residual_keeps_def compile_choices_parts(2) [OF q])
  moreover have "matches L row sel \<longleftrightarrow> (\<forall>ce \<in> set (fst (split_filter ?f)). ?Q ce)"
    by (simp add: selector_values_matches [OF sel] set_q_selector [OF q])
  moreover have "v = JBool True \<longleftrightarrow>
      (\<forall>ce \<in> set (fst (split_filter ?f)). ?Q ce) \<and> (\<forall>r \<in> set (snd (split_filter ?f)). ?P r)"
    using conj split_foldl [of "conjuncts ?f" "([], [])" ?P ?Q] term_iff
    unfolding sp set_q_selector [OF q] by simp
  ultimately show ?thesis using v vb by (simp add: coerce_false)
qed

subsection \<open>What a source promises\<close>

locale source_contract =
  fixes L :: pylib and rows :: dataset_source and table :: "string \<Rightarrow> dict list"
  assumes rows_select: "rows ds sel None = filter (\<lambda>row. matches L row sel) (table ds)"
    and rows_equals: "rows ds sel (Some (c, v)) = filter (\<lambda>row. same L (jget row c) v) (rows ds sel None)"
begin

text \<open>The choice list of a field: the rows of the selector, less those the residual drops.\<close>

definition resolved :: "eval_ctx \<Rightarrow> choice_query \<Rightarrow> (string \<times> json) option \<Rightarrow> dict list res" where
  "resolved ctx q eq = rbind (selector_values L ctx q) (\<lambda>sel.
     filterM (residual_keeps L ctx q) (rows (q_dataset q) sel eq))"

lemma rows_sub: "set (rows ds sel eq) \<subseteq> set (table ds)"
  by (cases eq) (auto simp: rows_select rows_equals split: prod.splits)

lemma rows_equals_as_selector: "rows ds sel (Some (c, v)) = rows ds (sel @ [(c, v)]) None"
  by (simp add: rows_select rows_equals matches_def conj_commute)

lemma resolved_is_filter:
  assumes q: "compile_choices L choices = Inr (Some q)" and t: "truthy (jget choices ''filter'')"
    and sel: "selector_values L ctx q = Inr sel"
    and rws: "\<forall>row \<in> set (table (q_dataset q)). text_selected L ctx q row \<and>
      decidable L (ctx\<lparr>c_row := Some row\<rparr>) (jget choices ''filter'')"
  shows "resolved ctx q None = filterM (\<lambda>row. rbind (evaluate L (ctx\<lparr>c_row := Some row\<rparr>)
    (jget choices ''filter'')) (coerce_boolean False)) (table (q_dataset q))"
proof -
  note dr = decomposition_row [OF q t sel]
  have "\<exists>b. residual_keeps L ctx q row = Inr b" if "row \<in> set (table (q_dataset q))" for row
  proof (cases "residual_keeps L ctx q row")
    case (Inl e)
    have "decidable L (ctx\<lparr>c_row := Some row\<rparr>) (jget choices ''filter'')" using rws that by blast
    then obtain v where "evaluate L (ctx\<lparr>c_row := Some row\<rparr>) (jget choices ''filter'') = Inr v"
        "is_null v \<or> is_bool v"
      using decidable_evaluates by blast
    with dr [of row] rws that Inl show ?thesis by (simp add: coerce_false)
  qed simp
  then show ?thesis
    unfolding resolved_def sel rows_select rbind_simps
    by (intro filterM_filter) (use dr rws in auto)
qed

text \<open>Membership is one question to the source: asking for the value's row and asking whether
  the list holds it agree.\<close>

lemma membership_lookup:
  assumes "resolved ctx q None = Inr options"
  shows "resolved ctx q (Some (q_value_column q, v)) =
    Inr (filter (\<lambda>row. same L (jget row (q_value_column q)) v) options)"
  using assms by (auto simp: resolved_def rows_equals rbind_Inr_iff filterM_filter_Inr)

end

definition memory_table :: "(string \<times> dict list) list \<Rightarrow> string \<Rightarrow> dict list" where
  "memory_table datasets ds = (case map_of datasets ds of None \<Rightarrow> [] | Some rs \<Rightarrow> rs)"

interpretation memory: source_contract L "memory_rows L datasets" "memory_table datasets"
  for L datasets
  by unfold_locales (auto simp: memory_rows_def memory_table_def split: option.split)

subsection \<open>Properties of dataset-backed choices\<close>

definition village_rows :: "(string \<times> dict list) list" where
  "village_rows = [(''villages'',
     [[(''id'', JStr ''v1''), (''district'', JStr ''d1'')],
      [(''id'', JStr ''v2''), (''district'', JStr ''d2'')],
      [(''id'', JStr ''v9''), (''district'', JStr ''d1'')]])]"

definition village_filter :: json where
  "village_filter = e_op ''and'' [e_op ''eq'' [e_ref ''$row.district'', e_ref ''district''],
     e_op ''ne'' [e_ref ''$row.id'', e_lit (JStr ''v9'')]]"

definition village_choices :: dict where
  "village_choices = [(''kind'', JStr ''dataset''), (''dataset'', JStr ''villages''),
     (''valueColumn'', JStr ''id''), (''filter'', village_filter)]"

definition village_query :: choice_query where
  "village_query = \<lparr>q_dataset = ''villages'', q_value_column = ''id'', q_label_columns = [],
     q_selector = [(''district'', e_ref ''district'')],
     q_residual = Some (e_op ''ne'' [e_ref ''$row.id'', e_lit (JStr ''v9'')])\<rparr>"

lemma village_compiled: "compile_choices sample_lib village_choices = Inr (Some village_query)"
  by code_simp

lemma village_decidable:
  "list_all (\<lambda>row. text_selected sample_lib (sample_ctx [(''district'', JStr ''d1'')]) village_query row \<and>
     decidable sample_lib ((sample_ctx [(''district'', JStr ''d1'')])\<lparr>c_row := Some row\<rparr>) village_filter)
     (memory_table village_rows ''villages'')"
  by code_simp


text \<open>Asking the source for the row of one value gives exactly the options of the list with that
  value: the membership check by lookup never disagrees with the list that is shown.
\<close>

theorem membership_is_lookup:
  assumes "selector_values L ctx q = Inr sel"
    and "filterM (residual_keeps L ctx q) (memory_rows L datasets (q_dataset q) sel None) = Inr options"
  shows "filterM (residual_keeps L ctx q)
      (memory_rows L datasets (q_dataset q) sel (Some (q_value_column q, v))) =
    Inr (filter (\<lambda>row. same L (jget row (q_value_column q)) v) options)"
  using memory.membership_lookup [of L datasets ctx q options v] assms by (simp add: memory.resolved_def)

theorem membership_is_lookup_witness:
  "filterM (residual_keeps sample_lib (sample_ctx [(''district'', JStr ''d1'')]) village_query)
     (memory_rows sample_lib village_rows ''villages'' [(''district'', JStr ''d1'')] (Some (''id'', JStr ''v9''))) = Inr []"
proof -
  have "selector_values sample_lib (sample_ctx [(''district'', JStr ''d1'')]) village_query = Inr [(''district'', JStr ''d1'')]"
    "filterM (residual_keeps sample_lib (sample_ctx [(''district'', JStr ''d1'')]) village_query)
     (memory_rows sample_lib village_rows (q_dataset village_query) [(''district'', JStr ''d1'')] None) =
     Inr [[(''id'', JStr ''v1''), (''district'', JStr ''d1'')]]"
    by code_simp+
  from membership_is_lookup [OF this, of "JStr ''v9''"] show ?thesis
    by (simp add: village_query_def same_def jget_def)
qed

text \<open>
  The equality of the expression language says a number never equals text; the selector's equality
  says \<open>5\<close> matches the cell \<open>5\<close>. A filter on a number therefore selects rows it would
  have dropped had it been evaluated as an expression.
\<close>

theorem selector_matches_number_as_text:
  "v_equal (JStr ''5'') (JInt 5) = JBool False \<and> same L (JStr ''5'') (JInt 5) \<and>
   memory_rows L [(''plots'', [[(''size'', JStr ''5'')]])] ''plots'' [(''size'', JInt 5)] None = [[(''size'', JStr ''5'')]]"
proof -
  have "str_of_int 5 = ''5''" by code_simp
  then show ?thesis
    by (simp add: v_equal_def same_def py_eq.simps plain_def memory_rows_def matches_def jget_def)
qed
end
