(* ===== verification/Text_Render.thy ===== *)
theory Text_Render
  imports Datasets
begin

text \<open>
  Interpolated labels and messages (\<open>form_engine/text.py\<close>). The regular expression of the
  slots is the scanner \<open>scan\<close>; the two invisible directional isolates that wrap an
  interpolated value lie outside the range of \<open>char\<close>, so rendered text is a list of
  \<open>glyph\<close>s.
\<close>

datatype glyph = Ch char | FSI | PDI

datatype token = Lit char | Brace char | Slot nat

text \<open>\<open>_SLOT = re.compile("{{|}}|{(digits)}")\<close> run over the template by \<open>finditer\<close> or
  \<open>sub\<close>: a doubled brace, a slot, or a character no alternative matches.\<close>

definition slot_at :: "string \<Rightarrow> (nat \<times> string) option" where
  "slot_at cs =
     (let ds = takeWhile is_digit cs; rest = dropWhile is_digit cs
      in if ds \<noteq> [] \<and> starts_with ''}'' rest then Some (nat (int_of_digits 0 ds), tl rest) else None)"

lemma slot_at_length: "slot_at cs = Some (i, rest) \<Longrightarrow> length rest < length cs"
proof -
  assume "slot_at cs = Some (i, rest)"
  then have "rest = tl (dropWhile is_digit cs)" "takeWhile is_digit cs \<noteq> []"
    by (auto simp: slot_at_def Let_def split: if_splits)
  then show ?thesis
    using length_dropWhile_le [of is_digit cs] by (cases cs) (auto simp: less_Suc_eq_le)
qed

function scan :: "string \<Rightarrow> token list" where
  "scan [] = []"
| "scan (c # cs) =
     (if c = CHR ''{'' \<and> starts_with ''{'' cs then Brace c # scan (tl cs)
      else if c = CHR ''}'' \<and> starts_with ''}'' cs then Brace c # scan (tl cs)
      else if c = CHR ''{'' then
        (case slot_at cs of Some (i, rest) \<Rightarrow> Slot i # scan rest | None \<Rightarrow> Lit c # scan cs)
      else Lit c # scan cs)"
  by pat_completeness auto
termination
  by (relation "measure length") (auto dest: slot_at_length)

declare scan.simps(2) [simp del]

fun slot_of :: "token \<Rightarrow> nat option" where
  "slot_of (Slot i) = Some i"
| "slot_of _ = None"

definition slot_indices :: "string \<Rightarrow> nat list" where
  "slot_indices template = remdups (List.map_filter slot_of (scan template))"

definition isolate :: "string \<Rightarrow> glyph list" where
  "isolate text = (if text = [] then [] else FSI # map Ch text @ [PDI])"

fun fill :: "string list \<Rightarrow> token \<Rightarrow> glyph list" where
  "fill vs (Lit c) = [Ch c]"
| "fill vs (Brace c) = [Ch c]"
| "fill vs (Slot i) = (if i < length vs then isolate (vs ! i) else [])"

definition render :: "string \<Rightarrow> string list \<Rightarrow> glyph list" where
  "render template vs = concat (map (fill vs) (scan template))"

text \<open>\<open>"" if rendered is None else str(rendered)\<close> of a cast value.\<close>

definition shown :: "pylib \<Rightarrow> json \<Rightarrow> string" where
  "shown L v = (case cast_str L v of JStr s \<Rightarrow> s | _ \<Rightarrow> [])"

definition render_field_text ::
  "pylib \<Rightarrow> dict \<Rightarrow> string \<Rightarrow> string \<Rightarrow> string \<Rightarrow> eval_ctx \<Rightarrow> glyph list option res" where
  "render_field_text L node key args_key language ctx =
     (case jget node key of
        JObj strings \<Rightarrow>
          (case jget strings language of
             JStr template \<Rightarrow>
               (if \<not> truthy (jget node args_key) then Inr (Some (map Ch template))
                else rbind (py_iter (jget node args_key)) (\<lambda>args.
                     rbind (mapM (\<lambda>e. rbind (evaluate L ctx e) (\<lambda>v. Inr (shown L v))) args) (\<lambda>vs.
                       Inr (Some (render template vs)))))
           | _ \<Rightarrow> Inr None)
      | _ \<Rightarrow> Inr None)"

subsection \<open>Laws\<close>

text \<open>An isolate opens and closes without nesting: what a bidirectional renderer needs.\<close>

fun well_isolated :: "bool \<Rightarrow> glyph list \<Rightarrow> bool" where
  "well_isolated inside [] = (\<not> inside)"
| "well_isolated inside (Ch c # gs) = well_isolated inside gs"
| "well_isolated inside (FSI # gs) = (\<not> inside \<and> well_isolated True gs)"
| "well_isolated inside (PDI # gs) = (inside \<and> well_isolated False gs)"

fun erase :: "glyph list \<Rightarrow> string" where
  "erase [] = []"
| "erase (Ch c # gs) = c # erase gs"
| "erase (FSI # gs) = erase gs"
| "erase (PDI # gs) = erase gs"

lemma well_isolated_Ch [simp]: "well_isolated b (map Ch s @ gs) = well_isolated b gs"
  by (induction s) auto

lemma well_isolated_isolate [simp]: "well_isolated False (isolate s @ gs) = well_isolated False gs"
  by (simp add: isolate_def)

lemma erase_append [simp]: "erase (gs @ hs) = erase gs @ erase hs"
  by (induction gs rule: erase.induct) auto

lemma erase_Ch [simp]: "erase (map Ch s) = s"
  by (induction s) auto

lemma erase_isolate [simp]: "erase (isolate s) = s"
  by (simp add: isolate_def)

lemma well_isolated_fill: "well_isolated False (fill vs t @ gs) = well_isolated False gs"
  by (cases t) auto

lemma well_isolated_render: "well_isolated False (concat (map (fill vs) ts))"
  by (induction ts) (simp_all add: well_isolated_fill)

fun plain_fill :: "string list \<Rightarrow> token \<Rightarrow> string" where
  "plain_fill vs (Lit c) = [c]"
| "plain_fill vs (Brace c) = [c]"
| "plain_fill vs (Slot i) = (if i < length vs then vs ! i else [])"

lemma erase_fill: "erase (fill vs t) = plain_fill vs t"
  by (cases t) auto

text \<open>Doubling the braces of any text.\<close>

fun escape :: "string \<Rightarrow> string" where
  "escape [] = []"
| "escape (c # cs) = (if c = CHR ''{'' \<or> c = CHR ''}'' then c # c # escape cs else c # escape cs)"

lemma scan_escape: "concat (map (fill vs) (scan (escape s))) = map Ch s"
  by (induction s) (auto simp: scan.simps starts_with_def)

lemma map_filter_mem: "y \<in> set (List.map_filter f xs) \<longleftrightarrow> (\<exists>x \<in> set xs. f x = Some y)"
  by (force simp: List.map_filter_def)

lemma slot_indices_mem: "i \<in> set (slot_indices t) \<longleftrightarrow> Slot i \<in> set (scan t)"
proof -
  have "slot_of x = Some i \<longleftrightarrow> x = Slot i" for x by (cases x) auto
  then show ?thesis by (simp add: slot_indices_def map_filter_mem)
qed

lemma fill_cong:
  assumes "\<And>i. t = Slot i \<Longrightarrow> i < length vs \<and> i < length ws \<and> vs ! i = ws ! i"
  shows "fill vs t = fill ws t"
  using assms by (cases t) auto

subsection \<open>Properties of interpolation\<close>

text \<open>
  A rendered text is well isolated (every interpolated value sits between its own pair of
  isolates, never nested and never left open), and without the isolates it is the template with
  its doubled braces halved and its slots replaced.
\<close>

theorem render_isolates:
  "well_isolated False (render template vs) \<and>
   erase (render template vs) = concat (map (plain_fill vs) (scan template))"
proof -
  have "erase (concat (map (fill vs) ts)) = concat (map (plain_fill vs) ts)" for ts
    by (induction ts) (simp_all add: erase_fill)
  then show ?thesis by (simp add: render_def well_isolated_render)
qed

text \<open>Any text can be written literally: a text with its braces doubled renders as itself,
  whatever the arguments, and refers to no slot.
\<close>

theorem render_escape: "render (escape s) vs = map Ch s \<and> slot_indices (escape s) = []"
proof -
  have "Slot i \<notin> set (scan (escape s))" for i
    by (induction s) (auto simp: scan.simps starts_with_def)
  then have "slot_indices (escape s) = []"
    using slot_indices_mem by (metis list.set_intros(1) neq_Nil_conv)
  then show ?thesis by (simp add: render_def scan_escape)
qed

text \<open>The slots the compiler collects are the slots the renderer fills: two argument lists that
  agree on them render the same text.
\<close>

theorem render_reads_slots:
  assumes "\<forall>i \<in> set (slot_indices template). i < length vs \<and> i < length ws \<and> vs ! i = ws ! i"
  shows "render template vs = render template ws"
  unfolding render_def using assms
  by (intro arg_cong [of _ _ concat] map_cong refl fill_cong) (auto simp: slot_indices_mem)

theorem render_reads_slots_witness:
  "render ''{1} of {{x}}'' [''a'', ''7''] = render ''{1} of {{x}}'' [''b'', ''7''] \<and>
   render ''{1} of {{x}}'' [''a'', ''7''] = FSI # Ch CHR ''7'' # PDI # map Ch '' of {x}''"
proof
  have "slot_indices ''{1} of {{x}}'' = [1]" by code_simp
  then show "render ''{1} of {{x}}'' [''a'', ''7''] = render ''{1} of {{x}}'' [''b'', ''7'']"
    by (intro render_reads_slots) simp
qed code_simp

end
