(* ===== verification/Document.thy ===== *)
theory Document
  imports Datasets
begin

text \<open>
  Document-shape validation (\<open>form_engine/document.py\<close>): whether a JSON value is a Form IR
  document at all. \<open>DocumentError\<close> carries the reason and the place the code reports; the
  sentence it formats is left out.
\<close>

definition SUPPORTED_IR_VERSION :: "int \<times> int" where "SUPPORTED_IR_VERSION = (0, 1)"

definition NODE_TYPES :: "string list" where "NODE_TYPES = [''question'', ''group'', ''repeat'']"

fun is_int :: "json \<Rightarrow> bool" where
  "is_int (JInt i) = True"
| "is_int _ = False"

text \<open>\<open>_require\<close>. The kind is the type test; an integer excludes booleans.\<close>

definition doc_require :: "dict \<Rightarrow> string \<Rightarrow> (json \<Rightarrow> bool) \<Rightarrow> string \<Rightarrow> json res" where
  "doc_require node key kind here =
     (case map_of node key of
        None \<Rightarrow> Inl (DocumentError ''missing_field'' (here @ key))
      | Some v \<Rightarrow> if kind v then Inr v else Inl (DocumentError ''wrong_type'' (here @ key)))"

text \<open>\<open>raw.split(".")\<close>.\<close>

fun split_on :: "char \<Rightarrow> string \<Rightarrow> string list" where
  "split_on d [] = [[]]"
| "split_on d (c # cs) =
     (if c = d then [] # split_on d cs
      else case split_on d cs of [] \<Rightarrow> [[c]] | p # ps \<Rightarrow> (c # p) # ps)"

definition check_ir_version :: "string \<Rightarrow> unit res" where
  "check_ir_version raw =
     (case split_on CHR ''.'' raw of
        major_text # minor_text # _ \<Rightarrow>
          (case (py_int_of_str major_text, py_int_of_str minor_text) of
             (Inr major, Inr minor) \<Rightarrow>
               (if major \<noteq> fst SUPPORTED_IR_VERSION \<or> snd SUPPORTED_IR_VERSION < minor
                then Inl (DocumentError ''unknown_ir_version'' ''irVersion'') else Inr ())
           | _ \<Rightarrow> Inl (DocumentError ''unknown_ir_version'' ''irVersion''))
      | _ \<Rightarrow> Inl (DocumentError ''unknown_ir_version'' ''irVersion''))"

definition at_index :: "string \<Rightarrow> nat \<Rightarrow> string" where
  "at_index here i = here @ ''['' @ str_of_int (int i) @ '']''"

lemma enumerate_mem: "(i, x) \<in> set (enumerate n xs) \<Longrightarrow> x \<in> set xs"
  by (induction xs arbitrary: n) auto

function check_children :: "json \<Rightarrow> string \<Rightarrow> unit res" where
  "check_children children here =
     (case children of
        JList nodes \<Rightarrow>
          rbind (mapM (\<lambda>(i, node).
            case node of
              JObj kvs \<Rightarrow>
                rbind (doc_require kvs ''type'' is_str (at_index here i @ ''.'')) (\<lambda>node_type.
                if node_type \<notin> set (map JStr NODE_TYPES)
                then Inl (DocumentError ''unknown_node_type'' (at_index here i @ ''.type''))
                else rbind (doc_require kvs ''id'' is_str (at_index here i @ ''.'')) (\<lambda>_.
                  if node_type = JStr ''question''
                  then rbind (doc_require kvs ''dataType'' is_str (at_index here i @ ''.'')) (\<lambda>_. Inr ())
                  else (case map_of kvs ''children'' of
                          None \<Rightarrow> Inr ()
                        | Some c \<Rightarrow> check_children c (at_index here i @ ''.children''))))
            | _ \<Rightarrow> Inl (DocumentError ''not_an_object'' (at_index here i)))
            (enumerate 0 nodes)) (\<lambda>_. Inr ())
      | _ \<Rightarrow> Inl (DocumentError ''wrong_type'' here))"
  by pat_completeness auto
termination
proof (relation "measure (depth \<circ> fst)", goal_cases)
  case (2 children here nodes x i node kvs node_type y c)
  then have "node \<in> set nodes" by (metis enumerate_mem)
  with 2 have "depth c < depth (JObj kvs)" "depth (JObj kvs) < depth (JList nodes)"
    by (auto intro: depth_intros simp del: depth.simps)
  with 2 show ?case by (simp del: depth.simps)
qed simp

declare check_children.simps [simp del]

definition check_document :: "json \<Rightarrow> unit res" where
  "check_document ir =
     (case ir of
        JObj kvs \<Rightarrow>
          rbind (doc_require kvs ''irVersion'' is_str '''') (\<lambda>v.
          rbind (case v of JStr raw \<Rightarrow> check_ir_version raw | _ \<Rightarrow> Inl AttributeError) (\<lambda>_.
          rbind (doc_require kvs ''formId'' is_str '''') (\<lambda>_.
          rbind (doc_require kvs ''version'' is_int '''') (\<lambda>_.
            case map_of kvs ''children'' of
              None \<Rightarrow> Inr ()
            | Some c \<Rightarrow> check_children c ''children''))))
      | _ \<Rightarrow> Inl (DocumentError ''not_an_object'' ''''))"

subsection \<open>What a document is\<close>

text \<open>The declarative reading: a tree of nodes, each with its keys.\<close>

definition key_ok :: "dict \<Rightarrow> string \<Rightarrow> (json \<Rightarrow> bool) \<Rightarrow> bool" where
  "key_ok kvs k kind = (case map_of kvs k of None \<Rightarrow> False | Some v \<Rightarrow> kind v)"

function node_ok :: "json \<Rightarrow> bool" where
  "node_ok (JObj kvs) =
     (key_ok kvs ''type'' (\<lambda>t. t \<in> set (map JStr NODE_TYPES)) \<and> key_ok kvs ''id'' is_str \<and>
      (if jget kvs ''type'' = JStr ''question'' then key_ok kvs ''dataType'' is_str
       else (case map_of kvs ''children'' of
               None \<Rightarrow> True
             | Some c \<Rightarrow> (case c of JList nodes \<Rightarrow> list_all node_ok nodes | _ \<Rightarrow> False))))"
| "node_ok (JList xs) = False"
| "node_ok JNull = False"
| "node_ok (JBool b) = False"
| "node_ok (JInt i) = False"
| "node_ok (JFloat x) = False"
| "node_ok (JStr s) = False"
  by pat_completeness auto
termination
proof (relation "measure depth", goal_cases)
  case (2 kvs c nodes z)
  then have "depth z < depth (JList nodes)" "depth (JList nodes) < depth (JObj kvs)"
    by (auto intro: depth_intros simp del: depth.simps)
  then show ?case by (simp del: depth.simps)
qed simp

declare node_ok.simps(1) [simp del]

definition nodes_ok :: "json \<Rightarrow> bool" where
  "nodes_ok c = (case c of JList nodes \<Rightarrow> list_all node_ok nodes | _ \<Rightarrow> False)"

definition version_ok :: "json \<Rightarrow> bool" where
  "version_ok v = (case v of JStr raw \<Rightarrow> check_ir_version raw = Inr () | _ \<Rightarrow> False)"

definition document_ok :: "json \<Rightarrow> bool" where
  "document_ok ir = (case ir of
     JObj kvs \<Rightarrow> key_ok kvs ''irVersion'' version_ok \<and> key_ok kvs ''formId'' is_str \<and>
       key_ok kvs ''version'' is_int \<and>
       (case map_of kvs ''children'' of None \<Rightarrow> True | Some c \<Rightarrow> nodes_ok c)
   | _ \<Rightarrow> False)"

lemma doc_require_Inr: "doc_require kvs k kind h = Inr v \<longleftrightarrow> map_of kvs k = Some v \<and> kind v"
  by (auto simp: doc_require_def split: option.split)

lemma mapM_unit: "rbind (mapM f xs) (\<lambda>_. Inr ()) = Inr () \<longleftrightarrow> (\<forall>x \<in> set xs. \<exists>y. f x = Inr y)"
  using mapM_exists [of xs f] by (auto simp: rbind_Inr_iff dest: mapM_pointwise)

lemma in_enumerate: "(\<forall>(i, x) \<in> set (enumerate n xs). P x) \<longleftrightarrow> list_all P xs"
  by (induction xs arbitrary: n) auto

lemma check_children_iff: "check_children c h = Inr () \<longleftrightarrow> nodes_ok c"
proof (induction c h rule: check_children.induct)
  case (1 children here)
  show ?case
  proof (cases children)
    case (JList nodes)
    let ?f = "\<lambda>i node. case node of
              JObj kvs \<Rightarrow>
                rbind (doc_require kvs ''type'' is_str (at_index here i @ ''.'')) (\<lambda>node_type.
                if node_type \<notin> set (map JStr NODE_TYPES)
                then Inl (DocumentError ''unknown_node_type'' (at_index here i @ ''.type''))
                else rbind (doc_require kvs ''id'' is_str (at_index here i @ ''.'')) (\<lambda>_.
                  if node_type = JStr ''question''
                  then rbind (doc_require kvs ''dataType'' is_str (at_index here i @ ''.'')) (\<lambda>_. Inr ())
                  else (case map_of kvs ''children'' of
                          None \<Rightarrow> Inr ()
                        | Some c \<Rightarrow> check_children c (at_index here i @ ''.children''))))
            | _ \<Rightarrow> Inl (DocumentError ''not_an_object'' (at_index here i))"
    have point: "(\<exists>y. ?f i node = Inr y) \<longleftrightarrow> node_ok node" if node: "(i, node) \<in> set (enumerate 0 nodes)" for i node
    proof (cases node)
      case (JObj kvs)
      note IH = 1 [OF JList node refl JObj]
      show ?thesis
      proof (cases "\<exists>t. map_of kvs ''type'' = Some (JStr t) \<and> t \<in> set NODE_TYPES")
        case False
        then have "\<not> key_ok kvs ''type'' (\<lambda>t. t \<in> set (map JStr NODE_TYPES))"
          by (auto simp: key_ok_def split: option.splits)
        moreover have "\<not> (\<exists>y. ?f i node = Inr y)"
          using False by (auto simp: JObj rbind_Inr_iff doc_require_Inr split: if_splits)
        ultimately show ?thesis by (simp add: JObj node_ok.simps)
      next
        case True
        then obtain t where t: "map_of kvs ''type'' = Some (JStr t)" "t \<in> set NODE_TYPES" by blast
        then have rq: "doc_require kvs ''type'' is_str h = Inr (JStr t)" for h
          by (simp add: doc_require_Inr)
        have keyD: "doc_require kvs k is_str h = Inr y \<Longrightarrow> key_ok kvs k is_str"
          and keyE: "key_ok kvs k is_str \<Longrightarrow> \<exists>y. doc_require kvs k is_str h = Inr y" for k h y
          by (auto simp: doc_require_Inr key_ok_def split: option.splits)
        have kids: "(\<exists>y. check_children c (at_index here i @ ''.children'') = Inr y) \<longleftrightarrow> nodes_ok c"
          if "map_of kvs ''children'' = Some c" "t \<noteq> ''question''" "doc_require kvs ''id'' is_str h = Inr y" for c h y
          using IH [of "JStr t" y c] rq t that by (auto simp: doc_require_Inr)
        have "(\<exists>y. ?f i node = Inr y) \<longleftrightarrow> key_ok kvs ''id'' is_str \<and>
          (if t = ''question'' then key_ok kvs ''dataType'' is_str
           else (case map_of kvs ''children'' of None \<Rightarrow> True | Some c \<Rightarrow> nodes_ok c))"
          using t(2) kids
          by (cases "t = ''question''"; cases "map_of kvs ''children''")
            (auto simp: JObj rq rbind_Inr_iff dest: keyD keyE [of _ "at_index here i @ ''.''"])
        then show ?thesis
          using t by (simp add: JObj node_ok.simps jget_def key_ok_def [of _ "''type''"] nodes_ok_def cong: option.case_cong)
      qed
    qed simp_all
    have "(\<forall>x \<in> set (enumerate 0 nodes). \<exists>y. (case x of (i, node) \<Rightarrow> ?f i node) = Inr y) \<longleftrightarrow>
        (\<forall>x \<in> set (enumerate 0 nodes). case x of (i, node) \<Rightarrow> node_ok node)"
    proof (rule ball_cong [OF refl])
      fix x assume "x \<in> set (enumerate 0 nodes)"
      moreover obtain i n where "x = (i, n)" by force
      ultimately show "(\<exists>y. (case x of (i, node) \<Rightarrow> ?f i node) = Inr y) \<longleftrightarrow> (case x of (i, node) \<Rightarrow> node_ok node)"
        using point [of i n] by (simp only: prod.case)
    qed
    then show ?thesis
      unfolding JList nodes_ok_def json.case in_enumerate [symmetric, of node_ok nodes 0]
      by (subst check_children.simps) (simp only: json.case mapM_unit)
  qed (simp_all add: check_children.simps nodes_ok_def)
qed

lemma check_document_iff: "check_document ir = Inr () \<longleftrightarrow> document_ok ir"
  by (cases ir)
    (auto simp: check_document_def document_ok_def key_ok_def version_ok_def rbind_Inr_iff doc_require_Inr
      check_children_iff split: option.splits json.splits)

subsection \<open>Refusals\<close>

fun is_document_error :: "py_error \<Rightarrow> bool" where
  "is_document_error (DocumentError r w) = True"
| "is_document_error _ = False"

abbreviation documentary :: "'a res \<Rightarrow> bool" where
  "documentary \<equiv> safe (\<lambda>e. \<not> is_document_error e)"

lemma documentary_require: "documentary (doc_require kvs k kind h)"
  by (simp add: doc_require_def split: option.split)

lemma documentary_version: "documentary (check_ir_version raw)"
  by (simp add: check_ir_version_def split: list.split sum.split)

lemma documentary_children: "documentary (check_children c h)"
proof (induction c h rule: check_children.induct)
  case (1 children here)
  show ?case
  proof (cases children)
    case (JList nodes)
    show ?thesis
      unfolding JList check_children.simps [of "JList nodes"] json.case
      using 1 [OF JList]
      by (intro safe_rbind safe_mapM)
        (auto split: json.splits option.splits if_splits intro!: safe_rbind documentary_require)
  qed (simp_all add: check_children.simps)
qed

lemma documentary_document: "documentary (check_document ir)"
  by (auto simp: check_document_def doc_require_Inr documentary_require documentary_version documentary_children
      split: json.split option.split intro!: safe_rbind elim: is_str.elims)

subsection \<open>Properties of the document gate\<close>


text \<open>
  The minor version is read by \<open>int\<close>, so a version that is no version number passes the
  check of Form IR section 9 when \<open>int\<close> accepts its parts and the minor part is small.
\<close>

theorem negative_minor_version_accepted:
  "check_ir_version ''0.-7'' = Inr () \<and> check_ir_version '' 0 .1.garbage'' = Inr () \<and>
   check_ir_version ''0.2'' = Inl (DocumentError ''unknown_ir_version'' ''irVersion'')"
  by code_simp

end
