(* ===== verification/Compile.thy ===== *)
theory Compile
  imports Text_Render Document
begin

text \<open>
  The form compiler (\<open>CompiledForm\<close> of \<open>form_engine/runtime.py\<close>): the walk over the
  document, the semantic refusals, the dependency sets, the topological order and the lint.

  A \<open>CompileError\<close> carries the fixed part of the sentence the code raises, and a warning is
  a constructor with the values its sentence interpolates. The sets \<open>depends_on\<close> and
  \<open>seen\<close> are lists without order or multiplicity meaning.
\<close>

named_theorems compile_simps \<open>unfolding of the compiler's steps\<close>

subsection \<open>Reading a node\<close>

definition str_item :: "dict \<Rightarrow> string \<Rightarrow> string res" where
  "str_item d k = rbind (jitem d k) (\<lambda>v. case v of JStr s \<Rightarrow> Inr s | _ \<Rightarrow> Inl TypeError)"

definition int_item :: "dict \<Rightarrow> string \<Rightarrow> int res" where
  "int_item d k = rbind (jitem d k) (\<lambda>v. case v of JInt i \<Rightarrow> Inr i | _ \<Rightarrow> Inl TypeError)"

text \<open>\<open>for x in (v or [])\<close>.\<close>

definition list_or_empty :: "json \<Rightarrow> json list res" where
  "list_or_empty v = (if truthy v then py_iter v else Inr [])"

text \<open>\<open>(v or {}).items()\<close>.\<close>

definition items_or_empty :: "json \<Rightarrow> dict res" where
  "items_or_empty v = (case v of
     JObj d \<Rightarrow> Inr d | _ \<Rightarrow> if truthy v then Inl AttributeError else Inr [])"

definition str_list :: "json list \<Rightarrow> string list res" where
  "str_list xs = mapM (\<lambda>x. case x of JStr s \<Rightarrow> Inr s | _ \<Rightarrow> Inl TypeError) xs"

definition is_container :: "json \<Rightarrow> bool" where
  "is_container t \<longleftrightarrow> t = JStr ''group'' \<or> t = JStr ''repeat''"

definition children_of :: "dict \<Rightarrow> json" where
  "children_of kvs = (case map_of kvs ''children'' of None \<Rightarrow> JList [] | Some c \<Rightarrow> c)"

lemma depth_children_of: "children_of kvs \<noteq> JList [] \<Longrightarrow> depth (children_of kvs) < depth (JObj kvs)"
  by (auto simp: children_of_def simp del: depth.simps split: option.splits intro: depth_intros)

text \<open>\<open>^[a-z][a-z0-9_]*$\<close> under \<open>re.match\<close>: the \<open>$\<close> also matches before a final
  newline.\<close>

definition plain_id :: "string \<Rightarrow> bool" where
  "plain_id s \<longleftrightarrow> (case s of
     [] \<Rightarrow> False
   | c # cs \<Rightarrow> is_lower c \<and> list_all (\<lambda>d. is_lower d \<or> is_digit d \<or> d = CHR ''_'') cs)"

definition id_pattern :: "string \<Rightarrow> bool" where
  "id_pattern s \<longleftrightarrow> plain_id s \<or> (s \<noteq> [] \<and> last s = CHR 0x0A \<and> plain_id (butlast s))"

text \<open>\<open>_walk\<close>: the nodes in document order, each with its ancestor chain.\<close>

function walk :: "json \<Rightarrow> string list \<Rightarrow> (dict \<times> string list) list res" where
  "walk children ancestors =
     rbind (py_iter children) (\<lambda>nodes.
     rbind (mapM (\<lambda>node.
       case node of
         JObj kvs \<Rightarrow>
           rbind (jitem kvs ''type'') (\<lambda>t.
           if is_container t
           then rbind (str_item kvs ''id'') (\<lambda>node_id.
                if children_of kvs = JList [] then Inr [(kvs, ancestors)]
                else rbind (walk (children_of kvs) (ancestors @ [node_id])) (\<lambda>below.
                  Inr ((kvs, ancestors) # below)))
           else Inr [(kvs, ancestors)])
       | _ \<Rightarrow> Inl TypeError) nodes) (\<lambda>parts. Inr (concat parts)))"
  by pat_completeness auto
termination
proof (relation "measure (depth \<circ> fst)", goal_cases)
  case (2 children ancestors nodes node kvs t node_id)
  then have "depth (JObj kvs) \<le> depth children"
    using depth_py_iter by blast
  moreover have "depth (children_of kvs) < depth (JObj kvs)"
    using 2 by (intro depth_children_of) simp
  ultimately show ?case by (simp del: depth.simps)
qed simp

declare walk.simps [simp del]

subsection \<open>The compiled form\<close>

datatype warning =
    UnfilledSlots string string string "nat list" nat
  | MissingTranslation string "string list"
  | DecimalEquality string
  | UnreachableRelevance string
  | RowsWithoutSummary string string

record compiled_field =
  f_id :: string
  f_node :: dict
  f_data_type :: string
  f_depends_on :: "string list"
  f_ancestors :: "string list"
  f_repeat :: "string option"
  f_choice_query :: "choice_query option"
  f_rows_query :: "rows_query option"

record cform =
  cf_ir :: dict
  cf_form_id :: string
  cf_version :: int
  cf_fields :: "(string \<times> compiled_field) list"
  cf_containers :: "(string \<times> dict) list"
  cf_container_ancestors :: "(string \<times> string list) list"
  cf_repeats :: "(string \<times> dict) list"
  cf_expr_deps :: "(string \<times> (string \<times> string list) list) list"
  cf_warnings :: "warning list"
  cf_order :: "string list"
  cf_topo_order :: "string list"

abbreviation has_key :: "('k \<times> 'v) list \<Rightarrow> 'k \<Rightarrow> bool" where
  "has_key d k \<equiv> map_of d k \<noteq> None"

definition own_fields :: "dict \<Rightarrow> string list res" where
  "own_fields node =
     rbind (walk (children_of node) []) (\<lambda>nodes.
     rbind (mapM (\<lambda>(child, _). rbind (jitem child ''type'') (\<lambda>t.
       if t = JStr ''question'' then rbind (str_item child ''id'') (\<lambda>i. Inr [i]) else Inr [])) nodes)
       (\<lambda>ids. Inr (concat ids)))"

text \<open>\<open>_check_row_source\<close>: the refusals of a repeat's \<open>rowSource\<close>.\<close>

definition check_bind :: "string list \<Rightarrow> string \<times> json \<Rightarrow> unit res" where
  "check_bind own bound =
     (if fst bound \<notin> set own then Inl (CompileError ''binds what is not a question inside it'')
      else if snd bound = JStr ''label'' then Inl (CompileError ''binds to an inline row's label'')
      else if snd bound \<noteq> JStr ''value'' then Inl (CompileError ''an inline row has only value'')
      else Inr ())"

definition check_row_source :: "dict \<Rightarrow> unit res" where
  "check_row_source node =
     (case jget node ''rowSource'' of
        JNull \<Rightarrow> Inr ()
      | JObj source \<Rightarrow>
          (if \<not> is_null (jget node ''countExpr'')
           then Inl (CompileError ''carries both countExpr and rowSource'')
           else if jget source ''kind'' = JStr ''dataset''
           then Inl (CompileError ''rowSource kind dataset is not yet implemented'')
           else if jget source ''kind'' \<noteq> JStr ''inline''
           then Inl (CompileError ''unknown rowSource kind'')
           else rbind (own_fields node) (\<lambda>own.
                rbind (items_or_empty (jget source ''bind'')) (\<lambda>bind.
                rbind (mapM (check_bind own) bind) (\<lambda>_. Inr ()))))
      | _ \<Rightarrow> if \<not> is_null (jget node ''countExpr'')
             then Inl (CompileError ''carries both countExpr and rowSource'')
             else Inl AttributeError)"

subsection \<open>Dependencies\<close>

definition refs_if_dict :: "json \<Rightarrow> string list" where
  "refs_if_dict e = (if is_dict e then collect_refs e else [])"

definition DEP_KEYS :: "string list" where
  "DEP_KEYS = [''relevant'', ''constraint'', ''calculate'', ''required'', ''readOnly'', ''default'']"

definition arg_deps :: "dict \<Rightarrow> string \<Rightarrow> string list res" where
  "arg_deps node args_key =
     rbind (list_or_empty (jget node args_key)) (\<lambda>es. Inr (concat (map refs_if_dict es)))"

definition ancestor_deps :: "(string \<times> dict) list \<Rightarrow> string \<Rightarrow> string list" where
  "ancestor_deps containers anc =
     (case map_of containers anc of
        None \<Rightarrow> [] | Some n \<Rightarrow> refs_if_dict (jget n ''relevant''))"

text \<open>A filter over the rows of a repeat reads the candidate's answers and the answering
  scope's, and the field depends on both.\<close>

definition row_filter_deps :: "json \<Rightarrow> string list" where
  "row_filter_deps e =
     collect_refs e @ map (drop (length ROW_PREFIX)) (filter (starts_with ROW_PREFIX) (paths e))"

definition query_deps :: "choice_query \<Rightarrow> string list" where
  "query_deps q = concat (map (collect_refs \<circ> snd) (q_selector q)) @
     (case q_residual q of None \<Rightarrow> [] | Some e \<Rightarrow> collect_refs e)"

definition repeat_deps :: "dict \<Rightarrow> (string \<times> string list) list res" where
  "repeat_deps node =
     rbind (arg_deps node ''summaryLabelArgs'') (\<lambda>summary.
       let count = refs_if_dict (jget node ''countExpr'')
       in Inr ((if count \<noteq> [] then [(''countExpr'', count)] else []) @
               (if summary \<noteq> [] then [(''summaryLabelArgs'', summary)] else [])))"

subsection \<open>One node\<close>

definition enclosing_repeats :: "cform \<Rightarrow> string list \<Rightarrow> string list" where
  "enclosing_repeats F ancestors = filter (has_key (cf_repeats F)) ancestors"

definition in_field_list :: "cform \<Rightarrow> string \<Rightarrow> bool" where
  "in_field_list F anc = (case map_of (cf_containers F) anc of
     None \<Rightarrow> False | Some n \<Rightarrow> jget n ''appearance'' = JStr ''field-list'')"

definition compile_repeat :: "cform \<Rightarrow> string \<Rightarrow> dict \<Rightarrow> string list \<Rightarrow> cform res" where
  "compile_repeat F node_id node ancestors =
     (if enclosing_repeats F ancestors \<noteq> []
      then Inl (CompileError ''nested repeats are not supported in IR v0.1'')
      else if list_ex (in_field_list F) ancestors
      then Inl (CompileError ''a repeat cannot appear inside a field-list group'')
      else rbind (check_row_source node) (\<lambda>_.
           rbind (repeat_deps node) (\<lambda>deps.
             Inr (F\<lparr>cf_repeats := cf_repeats F @ [(node_id, node)],
                    cf_containers := cf_containers F @ [(node_id, node)],
                    cf_container_ancestors := cf_container_ancestors F @ [(node_id, ancestors)],
                    cf_expr_deps := (if deps \<noteq> [] then cf_expr_deps F @ [(node_id, deps)]
                                     else cf_expr_deps F)\<rparr>))))"

definition compile_group :: "cform \<Rightarrow> string \<Rightarrow> dict \<Rightarrow> string list \<Rightarrow> cform" where
  "compile_group F node_id node ancestors =
     F\<lparr>cf_containers := cf_containers F @ [(node_id, node)],
       cf_container_ancestors := cf_container_ancestors F @ [(node_id, ancestors)]\<rparr>"

definition compile_question :: "pylib \<Rightarrow> cform \<Rightarrow> string \<Rightarrow> dict \<Rightarrow> string list \<Rightarrow> cform res" where
  "compile_question L F node_id node ancestors =
     (let enclosing = enclosing_repeats F ancestors;
          own = concat (map (\<lambda>k. refs_if_dict (jget node k)) DEP_KEYS);
          above = concat (map (ancestor_deps (cf_containers F)) ancestors)
      in rbind (arg_deps node ''labelArgs'') (\<lambda>label_deps.
         rbind (arg_deps node ''constraintMessageArgs'') (\<lambda>message_deps.
         rbind (case jget node ''choices'' of
                  JObj c \<Rightarrow> compile_choices L c | _ \<Rightarrow> Inr None) (\<lambda>query.
         let rows = (case jget node ''choices'' of
                       JObj c \<Rightarrow> compile_rows_choices L c | _ \<Rightarrow> None)
         in if (case rows of None \<Rightarrow> False
                | Some r \<Rightarrow> r_exclude_self r \<and> r_repeat r \<notin> set enclosing)
            then Inl (CompileError ''choices.excludeSelf outside the repeat'')
            else rbind (str_item node ''dataType'') (\<lambda>data_type.
              Inr (F\<lparr>cf_fields := cf_fields F @ [(node_id,
                       \<lparr>f_id = node_id, f_node = node, f_data_type = data_type,
                        f_depends_on = remdups (own @ label_deps @ message_deps @ above @
                          (case rows of None \<Rightarrow> []
                           | Some r \<Rightarrow> (case r_filter r of None \<Rightarrow> [] | Some e \<Rightarrow> row_filter_deps e)) @
                          (case query of None \<Rightarrow> [] | Some q \<Rightarrow> query_deps q)),
                        f_ancestors = ancestors,
                        f_repeat = (case enclosing of [] \<Rightarrow> None | r # _ \<Rightarrow> Some r),
                        f_choice_query = query, f_rows_query = rows\<rparr>)],
                     cf_order := cf_order F @ [node_id]\<rparr>))))))"

definition compile_node ::
  "pylib \<Rightarrow> string list \<times> cform \<Rightarrow> dict \<times> string list \<Rightarrow> (string list \<times> cform) res" where
  "compile_node L acc item =
     (case (acc, item) of ((seen, F), (node, ancestors)) \<Rightarrow>
        rbind (str_item node ''id'') (\<lambda>node_id.
        if \<not> id_pattern node_id then Inl (CompileError ''invalid id format'')
        else if node_id \<in> set seen then Inl (CompileError ''duplicate id'')
        else if 1 < length (enclosing_repeats F ancestors)
        then Inl (CompileError ''nested repeats are not supported in IR v0.1'')
        else rbind (jitem node ''type'') (\<lambda>t.
          if t = JStr ''repeat'' then
            rbind (compile_repeat F node_id node ancestors) (\<lambda>F'. Inr (node_id # seen, F'))
          else if t = JStr ''group'' then
            Inr (node_id # seen, compile_group F node_id node ancestors)
          else rbind (compile_question L F node_id node ancestors) (\<lambda>F'. Inr (node_id # seen, F')))))"

subsection \<open>After the walk\<close>

definition link_rows :: "cform \<Rightarrow> string \<times> compiled_field \<Rightarrow> (string \<times> compiled_field) res" where
  "link_rows F entry =
     (case f_rows_query (snd entry) of
        None \<Rightarrow> Inr entry
      | Some r \<Rightarrow>
          (if \<not> has_key (cf_repeats F) (r_repeat r)
           then Inl (CompileError ''choices name what is not a repeat in this form'')
           else let summary = (case map_of (cf_expr_deps F) (r_repeat r) of
                       None \<Rightarrow> []
                     | Some m \<Rightarrow> (case map_of m ''summaryLabelArgs'' of None \<Rightarrow> [] | Some ds \<Rightarrow> ds))
                in Inr (fst entry, (snd entry)\<lparr>f_depends_on :=
                          remdups (f_depends_on (snd entry) @ summary)\<rparr>)))"

definition link_rows_choices :: "cform \<Rightarrow> cform res" where
  "link_rows_choices F = rbind (mapM (link_rows F) (cf_fields F)) (\<lambda>fs. Inr (F\<lparr>cf_fields := fs\<rparr>))"

definition missing_slots :: "nat \<Rightarrow> json \<Rightarrow> nat list" where
  "missing_slots n template = (case template of
     JStr t \<Rightarrow> filter (\<lambda>i. n \<le> i) (slot_indices t) | _ \<Rightarrow> [])"

definition warn_unfilled_slots ::
  "string \<Rightarrow> string \<Rightarrow> string \<Rightarrow> dict \<Rightarrow> nat \<Rightarrow> warning list" where
  "warn_unfilled_slots node_id key args_key strings arg_count =
     (let missing = remdups (concat (map (missing_slots arg_count \<circ> snd) strings))
      in if missing = [] then []
         else [UnfilledSlots node_id key args_key (sort missing) arg_count])"

definition check_texts :: "string \<Rightarrow> dict \<Rightarrow> string \<Rightarrow> string \<Rightarrow> warning list res" where
  "check_texts node_id node key args_key =
     rbind (list_or_empty (jget node args_key)) (\<lambda>args.
     rbind (items_or_empty (jget node key)) (\<lambda>strings.
       if args = [] then Inr (warn_unfilled_slots node_id key args_key strings 0)
       else if list_ex (\<lambda>(language, t). missing_slots (length args) t \<noteq> []) strings
       then Inl (CompileError ''a text uses a slot with no argument'')
       else if list_ex (\<lambda>e. list_ex (starts_with ROW_PREFIX) (paths e)) args
       then Inl (CompileError ''a label has no candidate row'')
       else Inr []))"

definition check_interpolation :: "cform \<Rightarrow> cform res" where
  "check_interpolation F =
     rbind (mapM (\<lambda>(i, f). rbind (check_texts i (f_node f) ''label'' ''labelArgs'') (\<lambda>a.
       rbind (check_texts i (f_node f) ''constraintMessage'' ''constraintMessageArgs'') (\<lambda>b.
         Inr (a @ b)))) (cf_fields F)) (\<lambda>ws.
     rbind (mapM (\<lambda>(i, node). check_texts i node ''summaryLabel'' ''summaryLabelArgs'')
       (cf_repeats F)) (\<lambda>vs.
       Inr (F\<lparr>cf_warnings := cf_warnings F @ concat ws @ concat vs\<rparr>)))"

definition base_of :: "string \<Rightarrow> string" where
  "base_of dep = split_before ''.'' (split_before ''['' dep)"

definition check_references :: "cform \<Rightarrow> unit res" where
  "check_references F =
     (if list_all (\<lambda>(i, f). list_all (\<lambda>dep.
           has_key (cf_fields F) (base_of dep) \<or> has_key (cf_containers F) (base_of dep))
           (f_depends_on f)) (cf_fields F)
      then Inr () else Inl (CompileError ''unresolvable reference''))"

subsection \<open>Topological order\<close>

text \<open>Kahn's algorithm. The dictionaries \<open>indegree\<close> and \<open>dependents\<close> are association
  lists over the field ids; the heap of ready positions is a list from which the least position
  is taken.\<close>

definition edges_into :: "(string \<times> compiled_field) list \<Rightarrow> string \<Rightarrow> compiled_field \<Rightarrow> string list" where
  "edges_into fs path f =
     filter (\<lambda>b. has_key fs b \<and> b \<noteq> path) (map base_of (f_depends_on f))"

definition indegrees :: "(string \<times> compiled_field) list \<Rightarrow> (string \<times> int) list" where
  "indegrees fs = map (\<lambda>(p, f). (p, int (length (edges_into fs p f)))) fs"

definition dependents :: "(string \<times> compiled_field) list \<Rightarrow> string \<Rightarrow> string list" where
  "dependents fs b =
     concat (map (\<lambda>(p, f). map (\<lambda>_. p) (filter (\<lambda>c. c = b) (edges_into fs p f))) fs)"

definition decrement :: "(string \<times> int) list \<Rightarrow> string \<Rightarrow> (string \<times> int) list" where
  "decrement deg p = map (\<lambda>(k, n). (k, if k = p then n - 1 else n)) deg"

fun index_of :: "string list \<Rightarrow> string \<Rightarrow> nat" where
  "index_of [] x = 0"
| "index_of (y # ys) x = (if x = y then 0 else Suc (index_of ys x))"

text \<open>\<open>for dep in dependents[current]\<close>.\<close>

definition release :: "string list \<Rightarrow> (string \<times> int) list \<times> nat list \<Rightarrow> string
    \<Rightarrow> (string \<times> int) list \<times> nat list" where
  "release order st dep =
     (let deg = decrement (fst st) dep
      in (deg, if map_of deg dep = Some 0 then snd st @ [index_of order dep] else snd st))"

definition pending :: "(string \<times> int) list \<Rightarrow> nat" where
  "pending deg = length (filter (\<lambda>(k, n). 0 < n) deg)"

lemma pending_Cons: "pending ((k, n) # deg) = (if 0 < n then Suc (pending deg) else pending deg)"
  by (simp add: pending_def)

lemma decrement_Cons: "decrement ((k, n) # deg) p = (k, if k = p then n - 1 else n) # decrement deg p"
  by (simp add: decrement_def)

lemma pending_decrement: "pending (decrement deg p) \<le> pending deg"
  by (induction deg) (auto simp: pending_Cons decrement_Cons, simp_all add: decrement_def pending_def)

lemma pending_decrement_strict:
  "map_of (decrement deg p) p = Some 0 \<Longrightarrow> pending (decrement deg p) < pending deg"
proof (induction deg)
  case (Cons kn deg)
  then show ?case
    using pending_decrement [of deg p]
    by (cases kn) (auto simp: pending_Cons decrement_Cons split: if_splits)
qed (simp add: decrement_def)

lemma pending_release:
  "length (snd (release order st dep)) + pending (fst (release order st dep))
     \<le> length (snd st) + pending (fst st)"
  using pending_decrement [of "fst st" dep] pending_decrement_strict [of "fst st" dep]
  by (auto simp: release_def Let_def)

lemma pending_releases:
  "length (snd (foldl (release order) st deps)) + pending (fst (foldl (release order) st deps))
     \<le> length (snd st) + pending (fst st)"
proof (induction deps arbitrary: st)
  case (Cons d deps)
  show ?case using Cons.IH [of "release order st d"] pending_release [of order st d] by simp
qed simp

text \<open>\<open>while ready\<close>: each round pops the least position and releases what depended on it.\<close>

function kahn :: "(string \<times> compiled_field) list \<Rightarrow> string list \<Rightarrow> (string \<times> int) list \<Rightarrow> nat list
    \<Rightarrow> string list" where
  "kahn fs order deg ready =
     (if ready = [] then []
      else let pos = Min (set ready);
               current = order ! pos;
               st = foldl (release order) (deg, remove1 pos ready) (dependents fs current)
           in current # kahn fs order (fst st) (snd st))"
  by pat_completeness auto
termination
proof (relation "measure (\<lambda>(fs, order, deg, ready). length ready + pending deg)", goal_cases)
  case (2 fs order deg ready pos current st)
  then have "length (remove1 pos ready) < length ready"
    using Min_in [of "set ready"] by (simp add: length_remove1)
  then show ?case
    using pending_releases [of order "(deg, remove1 pos ready)" "dependents fs current"] 2(4)
    by (simp add: case_prod_beta)
qed simp

declare kahn.simps [simp del]

definition topological_order :: "cform \<Rightarrow> string list res" where
  "topological_order F =
     (let fs = cf_fields F; order = cf_order F; deg = indegrees fs;
          ready = map (index_of order) (filter (\<lambda>p. map_of deg p = Some 0) order);
          result = kahn fs order deg ready
      in if length result \<noteq> length fs then Inl (CompileError ''dependency cycle'') else Inr result)"

subsection \<open>Lint and the whole compilation\<close>

definition lint_field :: "pylib \<Rightarrow> cform \<Rightarrow> string list \<Rightarrow> string \<times> compiled_field \<Rightarrow> warning list res" where
  "lint_field L F languages entry =
     (case entry of (i, f) \<Rightarrow>
        rbind (list_or_empty (jget (f_node f) ''label'')) (\<lambda>label.
        rbind (str_list label) (\<lambda>translated.
        let missing = filter (\<lambda>l. l \<notin> set translated) languages in
        rbind (statically_false L (jget (f_node f) ''relevant'')) (\<lambda>unreachable.
          Inr ((if missing \<noteq> [] then [MissingTranslation i (str_sort missing)] else []) @
               (if f_data_type f = ''decimal'' \<and>
                   (case jget (f_node f) ''constraint'' of
                      JObj c \<Rightarrow> jget c ''op'' = JStr ''eq'' | _ \<Rightarrow> False)
                then [DecimalEquality i] else []) @
               (if unreachable then [UnreachableRelevance i] else []) @
               (case f_rows_query f of
                  None \<Rightarrow> []
                | Some r \<Rightarrow>
                    (if truthy (jget (case map_of (cf_repeats F) (r_repeat r) of None \<Rightarrow> [] | Some n \<Rightarrow> n)
                          ''summaryLabel'')
                     then [] else [RowsWithoutSummary i (r_repeat r)])))))))"

definition lint :: "pylib \<Rightarrow> cform \<Rightarrow> cform res" where
  "lint L F =
     rbind (case map_of (cf_ir F) ''languages'' of None \<Rightarrow> Inr [] | Some v \<Rightarrow> py_iter v) (\<lambda>ls.
     rbind (str_list ls) (\<lambda>languages.
     rbind (mapM (lint_field L F (remdups languages)) (cf_fields F)) (\<lambda>ws.
       Inr (F\<lparr>cf_warnings := cf_warnings F @ concat ws\<rparr>))))"

definition empty_form :: "dict \<Rightarrow> string \<Rightarrow> int \<Rightarrow> cform" where
  "empty_form ir form_id version =
     \<lparr>cf_ir = ir, cf_form_id = form_id, cf_version = version, cf_fields = [], cf_containers = [],
      cf_container_ancestors = [], cf_repeats = [], cf_expr_deps = [], cf_warnings = [],
      cf_order = [], cf_topo_order = []\<rparr>"

definition compile_nodes :: "pylib \<Rightarrow> cform \<Rightarrow> (dict \<times> string list) list \<Rightarrow> cform res" where
  "compile_nodes L F nodes = rbind (foldM (compile_node L) ([], F) nodes) (\<lambda>acc. Inr (snd acc))"

definition finish_compile :: "pylib \<Rightarrow> cform \<Rightarrow> cform res" where
  "finish_compile L F =
     rbind (link_rows_choices F) (\<lambda>F.
     rbind (check_interpolation F) (\<lambda>F.
     rbind (check_references F) (\<lambda>_.
     rbind (topological_order F) (\<lambda>topo.
       lint L (F\<lparr>cf_topo_order := topo\<rparr>)))))"

definition compile_form :: "pylib \<Rightarrow> json \<Rightarrow> cform res" where
  "compile_form L ir =
     rbind (check_document ir) (\<lambda>_.
     case ir of
       JObj kvs \<Rightarrow>
         rbind (str_item kvs ''formId'') (\<lambda>form_id.
         rbind (int_item kvs ''version'') (\<lambda>version.
         rbind (walk (children_of kvs) []) (\<lambda>nodes.
         rbind (compile_nodes L (empty_form kvs form_id version) nodes) (\<lambda>F.
           finish_compile L F))))
     | _ \<Rightarrow> Inl TypeError)"

end
