(* ===== verification/Compile_Laws.thy ===== *)
theory Compile_Laws
  imports Compile
begin

text \<open>
  Laws of the compiler: the heap-based topological order computes the reference order, the
  reference order is topological, complete and tie-broken by document order, and a compiled form
  satisfies the invariant the runtime relies on.
\<close>

subsection \<open>The reference order\<close>

text \<open>The incoming edges of a field, and the fields all of whose dependencies are placed.\<close>

definition edges :: "(string \<times> compiled_field) list \<Rightarrow> string \<Rightarrow> string list" where
  "edges fs p = (case map_of fs p of None \<Rightarrow> [] | Some f \<Rightarrow> edges_into fs p f)"

definition available :: "(string \<times> compiled_field) list \<Rightarrow> string list \<Rightarrow> string list \<Rightarrow> string list" where
  "available fs order placed =
     filter (\<lambda>p. p \<notin> set placed \<and> list_all (\<lambda>b. b \<in> set placed) (edges fs p)) order"

text \<open>What the order is meant to be: again and again the first field in document order whose
  dependencies have all been placed.\<close>

function greedy :: "(string \<times> compiled_field) list \<Rightarrow> string list \<Rightarrow> string list \<Rightarrow> string list" where
  "greedy fs order placed = (case available fs order placed of
     [] \<Rightarrow> [] | p # _ \<Rightarrow> p # greedy fs order (placed @ [p]))"
  by pat_completeness auto
termination
proof (relation "measure (\<lambda>(fs, order, placed). length (filter (\<lambda>p. p \<notin> set placed) order))", goal_cases)
  case (2 fs order placed p ps)
  then have "p \<in> set (available fs order placed)" by simp
  then have p: "p \<in> set order" "p \<notin> set placed" by (auto simp: available_def)
  have "filter (\<lambda>q. q \<notin> set (placed @ [p])) order = filter (\<lambda>q. q \<noteq> p) (filter (\<lambda>q. q \<notin> set placed) order)"
    by (auto intro: filter_cong)
  then show ?case
    using p length_filter_less [of p "filter (\<lambda>q. q \<notin> set placed) order" "\<lambda>q. q \<noteq> p"] by simp
qed simp

declare greedy.simps [simp del]

lemma index_of_nth: "distinct xs \<Longrightarrow> i < length xs \<Longrightarrow> index_of xs (xs ! i) = i"
  by (induction xs arbitrary: i) (auto simp: nth_Cons split: nat.split)

lemma nth_index_of [simp]: "x \<in> set xs \<Longrightarrow> xs ! index_of xs x = x"
  by (induction xs) auto

lemma index_of_inj: "x \<in> set xs \<Longrightarrow> y \<in> set xs \<Longrightarrow> index_of xs x = index_of xs y \<longleftrightarrow> x = y"
  by (metis nth_index_of)

lemma index_of_filter_hd:
  "filter P xs = p # ps \<Longrightarrow> q \<in> set xs \<Longrightarrow> P q \<Longrightarrow> index_of xs p \<le> index_of xs q"
  by (induction xs) (auto split: if_splits)

lemma map_of_decrement: "map_of (decrement deg p) q = map_option (\<lambda>n. if q = p then n - 1 else n) (map_of deg q)"
  by (induction deg) (auto simp: decrement_def)

lemma map_of_releases:
  "map_of (fst (foldl (release order) st ds)) q =
     map_option (\<lambda>n. n - int (count_list ds q)) (map_of (fst st) q)"
proof (induction ds arbitrary: st)
  case (Cons d ds)
  show ?case
    using Cons.IH [of "release order st d"]
    by (cases "map_of (fst st) q") (auto simp: release_def Let_def map_of_decrement)
qed (simp add: option.map_ident)

text \<open>The positions a round pushes: the fields whose count reaches zero in it.\<close>

lemma set_releases:
  assumes "\<And>p n. map_of (fst st) p = Some n \<Longrightarrow> int (count_list ds p) \<le> n"
    and "set ds \<subseteq> dom (map_of (fst st))"
  shows "set (snd (foldl (release order) st ds)) =
    set (snd st) \<union> index_of order ` {p \<in> set ds. map_of (fst st) p = Some (int (count_list ds p))}"
  using assms
proof (induction ds arbitrary: st)
  case (Cons d ds)
  let ?st = "release order st d"
  obtain n where n: "map_of (fst st) d = Some n" using Cons.prems(2) by auto
  have deg: "map_of (fst ?st) p = map_option (\<lambda>n. if p = d then n - 1 else n) (map_of (fst st) p)" for p
    by (simp add: release_def Let_def map_of_decrement)
  have "set (snd (foldl (release order) ?st ds)) =
      set (snd ?st) \<union> index_of order ` {p \<in> set ds. map_of (fst ?st) p = Some (int (count_list ds p))}"
  proof (rule Cons.IH)
    show "int (count_list ds p) \<le> m" if "map_of (fst ?st) p = Some m" for p m
      using Cons.prems(1) [of p] that by (auto simp: deg split: if_splits)
    show "set ds \<subseteq> dom (map_of (fst ?st))" using Cons.prems(2) by (auto simp: deg)
  qed
  moreover have "set (snd ?st) = set (snd st) \<union> (if n = 1 then {index_of order d} else {})"
    using n by (auto simp: release_def Let_def map_of_decrement)
  moreover have "{p \<in> set (d # ds). map_of (fst st) p = Some (int (count_list (d # ds) p))} =
      (if n = 1 then {d} else {}) \<union> {p \<in> set ds. map_of (fst ?st) p = Some (int (count_list ds p))}"
    using Cons.prems(1) [OF n] n by (auto simp: deg count_list_0_iff split: if_splits)
  ultimately show ?case by auto
qed simp

lemma distinct_releases:
  assumes "\<And>p n. map_of (fst st) p = Some n \<Longrightarrow> int (count_list ds p) \<le> n"
    and "set ds \<subseteq> dom (map_of (fst st))" "set ds \<subseteq> set order"
    and "distinct (snd st)"
    and "\<And>p. p \<in> set ds \<Longrightarrow> index_of order p \<notin> set (snd st)"
  shows "distinct (snd (foldl (release order) st ds))"
  using assms
proof (induction ds arbitrary: st)
  case (Cons d ds)
  let ?st = "release order st d"
  obtain n where n: "map_of (fst st) d = Some n" using Cons.prems(2) by auto
  have deg: "map_of (fst ?st) p = map_option (\<lambda>n. if p = d then n - 1 else n) (map_of (fst st) p)" for p
    by (simp add: release_def Let_def map_of_decrement)
  have snd: "snd ?st = snd st @ (if n = 1 then [index_of order d] else [])"
    using n by (auto simp: release_def Let_def map_of_decrement)
  have "distinct (snd (foldl (release order) ?st ds))"
  proof (rule Cons.IH)
    show "int (count_list ds p) \<le> m" if "map_of (fst ?st) p = Some m" for p m
      using Cons.prems(1) [of p] that by (auto simp: deg split: if_splits)
    show "set ds \<subseteq> dom (map_of (fst ?st))" using Cons.prems(2) by (auto simp: deg)
    show "set ds \<subseteq> set order" using Cons.prems(3) by simp
    show "distinct (snd ?st)" using Cons.prems(4) Cons.prems(5) [of d] by (simp add: snd)
    show "index_of order p \<notin> set (snd ?st)" if p: "p \<in> set ds" for p
    proof
      assume "index_of order p \<in> set (snd ?st)"
      then have "n = 1" "index_of order p = index_of order d"
        using Cons.prems(5) [of p] p by (auto simp: snd split: if_splits)
      then have "p = d" using Cons.prems(3) p index_of_inj [of p order d] by auto
      with p have "1 \<le> count_list ds d" by (simp add: Suc_le_eq count_list_0_iff neq0_conv [symmetric])
      with Cons.prems(1) [OF n] \<open>n = 1\<close> show False by simp
    qed
  qed
  then show ?case by simp
qed simp

subsection \<open>The heap algorithm computes the reference order\<close>

lemma edges_map_of: "distinct (map fst fs) \<Longrightarrow> (p, f) \<in> set fs \<Longrightarrow> edges fs p = edges_into fs p f"
  by (simp add: edges_def)

lemma edges_known: "b \<in> set (edges fs p) \<Longrightarrow> b \<in> set (map fst fs) \<and> b \<noteq> p"
  by (auto simp: edges_def edges_into_def split: option.splits dest: map_of_SomeD)
    (metis fst_conv image_eqI map_of_SomeD)

lemma count_list_replicate: "count_list (map (\<lambda>_. p) xs) q = (if p = q then length xs else 0)"
  by (induction xs) auto

lemma count_list_concat: "count_list (concat xss) q = sum_list (map (\<lambda>xs. count_list xs q) xss)"
  by (induction xss) auto

lemma count_edges_other:
  "p \<notin> set (map fst fs) \<Longrightarrow> sum_list (map (\<lambda>(q, f). if q = p then g q f else 0) fs) = (0 :: nat)"
  by (induction fs) auto

lemma count_dependents:
  assumes "distinct (map fst fs)" "p \<in> set (map fst fs)"
  shows "count_list (dependents fs b) p = count_list (edges fs p) b"
proof -
  have one: "sum_list (map (\<lambda>(q, f). if q = p then g q f else 0) gs) = (g p (the (map_of gs p)) :: nat)"
    if "distinct (map fst gs)" "p \<in> set (map fst gs)" for g and gs :: "(string \<times> compiled_field) list"
    using that
  proof (induction gs)
    case (Cons qf gs)
    obtain q f where qf: "qf = (q, f)" by force
    show ?case
    proof (cases "q = p")
      case True
      then show ?thesis using count_edges_other [of p gs g] Cons.prems by (simp add: qf)
    next
      case False
      then show ?thesis using Cons by (simp add: qf)
    qed
  qed simp
  have "count_list (dependents fs b) p =
      sum_list (map (\<lambda>(q, f). if q = p then count_list (edges_into fs q f) b else 0) fs)"
    unfolding dependents_def count_list_concat map_map
    by (rule arg_cong [of _ _ sum_list], rule map_cong [OF refl])
      (auto simp: count_list_replicate count_list_eq_length_filter intro!: arg_cong [of _ _ length] filter_cong)
  also have "\<dots> = count_list (edges_into fs p (the (map_of fs p))) b"
    using one [OF assms, of "\<lambda>q f. count_list (edges_into fs q f) b"] by simp
  also have "\<dots> = count_list (edges fs p) b"
    using assms(2) by (auto simp: edges_def dest!: weak_map_of_SomeI split: option.split)
  finally show ?thesis .
qed

lemma set_dependents: "distinct (map fst fs) \<Longrightarrow> set (dependents fs b) = {p \<in> set (map fst fs). b \<in> set (edges fs p)}"
  by (force simp: dependents_def edges_map_of)

text \<open>What a round of the loop knows.\<close>

definition kahn_inv :: "(string \<times> compiled_field) list \<Rightarrow> string list \<Rightarrow> (string \<times> int) list \<Rightarrow> nat list \<Rightarrow> bool" where
  "kahn_inv fs placed deg ready \<longleftrightarrow>
     (\<forall>p. map_of deg p = (if p \<in> set (map fst fs)
        then Some (int (length (filter (\<lambda>b. b \<notin> set placed) (edges fs p)))) else None)) \<and>
     (\<forall>p \<in> set placed. \<forall>b \<in> set (edges fs p). b \<in> set placed) \<and>
     distinct ready \<and>
     set ready = index_of (map fst fs) ` set (available fs (map fst fs) placed)"

lemma filter_not_placed:
  "c \<notin> set placed \<Longrightarrow> length (filter (\<lambda>b. b \<notin> set placed) es) =
     length (filter (\<lambda>b. b \<notin> set (placed @ [c])) es) + count_list es c"
  by (induction es) auto

lemma kahn_round:
  assumes d: "distinct (map fst fs)" and inv: "kahn_inv fs placed deg ready"
    and av: "available fs (map fst fs) placed = c # rest"
  shows "Min (set ready) = index_of (map fst fs) c"
    and "kahn_inv fs (placed @ [c])
      (fst (foldl (release (map fst fs)) (deg, remove1 (index_of (map fst fs) c) ready) (dependents fs c)))
      (snd (foldl (release (map fst fs)) (deg, remove1 (index_of (map fst fs) c) ready) (dependents fs c)))"
proof -
  let ?o = "map fst fs" and ?ds = "dependents fs c"
  let ?st = "(deg, remove1 (index_of ?o c) ready)"
  have "c \<in> set (available fs ?o placed)" using av by simp
  then have c: "c \<in> set ?o" "c \<notin> set placed" "\<forall>b \<in> set (edges fs c). b \<in> set placed"
    by (auto simp: available_def list_all_iff)
  have least: "index_of ?o c \<le> index_of ?o q" if "q \<in> set (available fs ?o placed)" for q
    using that index_of_filter_hd [OF av [unfolded available_def]] by (auto simp: available_def)
  show "Min (set ready) = index_of ?o c"
    using inv least c av by (intro Min_eqI) (auto simp: kahn_inv_def)
  have deg: "map_of deg p = (if p \<in> set ?o then Some (int (length (filter (\<lambda>b. b \<notin> set placed) (edges fs p)))) else None)" for p
    using inv by (simp add: kahn_inv_def)
  have cnt: "count_list ?ds p = count_list (edges fs p) c" if "p \<in> set ?o" for p
    using count_dependents [OF d that] .
  have le: "int (count_list ?ds p) \<le> n" if "map_of (fst ?st) p = Some n" for p n
    using that cnt [of p] filter_not_placed [OF c(2), of "edges fs p"] by (auto simp: deg split: if_splits)
  have dom: "set ?ds \<subseteq> dom (map_of (fst ?st))" "set ?ds \<subseteq> set ?o"
    by (force simp: set_dependents [OF d] deg)+
  have closed: "\<forall>p \<in> set placed. \<forall>b \<in> set (edges fs p). b \<in> set placed"
    using inv by (simp add: kahn_inv_def)
  have ready: "set ready = index_of ?o ` set (available fs ?o placed)" "distinct ready"
    using inv by (simp_all add: kahn_inv_def)
  have rest: "set (remove1 (index_of ?o c) ready) = index_of ?o ` (set (available fs ?o placed) - {c})"
  proof -
    have "index_of ?o q \<noteq> index_of ?o c" if "q \<in> set (available fs ?o placed)" "q \<noteq> c" for q
      using that c(1) index_of_inj [of q ?o c] by (auto simp: available_def)
    then show ?thesis using ready by auto
  qed
  have fresh: "index_of ?o p \<notin> set (snd ?st)" if "p \<in> set ?ds" for p
  proof
    assume "index_of ?o p \<in> set (snd ?st)"
    then obtain q where q: "q \<in> set (available fs ?o placed)" "index_of ?o p = index_of ?o q"
      using rest by auto
    then have "q = p" using that dom(2) index_of_inj [of p ?o q] by (auto simp: available_def)
    then show False using q that c(2) set_dependents [OF d] by (auto simp: available_def list_all_iff)
  qed
  have pushed: "{p \<in> set ?ds. map_of deg p = Some (int (count_list ?ds p))} =
      {p \<in> set ?o. c \<in> set (edges fs p) \<and> (\<forall>b \<in> set (edges fs p). b \<in> set (placed @ [c]))}"
    using filter_not_placed [OF c(2)] cnt
    by (auto simp: set_dependents [OF d] deg filter_empty_conv split: if_splits)
  have avail: "set (available fs ?o (placed @ [c])) = (set (available fs ?o placed) - {c}) \<union>
      {p \<in> set ?o. c \<in> set (edges fs p) \<and> (\<forall>b \<in> set (edges fs p). b \<in> set (placed @ [c]))}"
  proof -
    have "p \<notin> set placed \<and> p \<noteq> c" if "p \<in> set ?o" "c \<in> set (edges fs p)" "\<forall>b \<in> set (edges fs p). b \<in> set (placed @ [c])" for p
      using that c edges_known [of c fs p] closed by auto
    then show ?thesis by (auto simp: available_def list_all_iff)
  qed
  show "kahn_inv fs (placed @ [c]) (fst (foldl (release ?o) ?st ?ds)) (snd (foldl (release ?o) ?st ?ds))"
    unfolding kahn_inv_def
  proof (intro conjI allI)
    show "map_of (fst (foldl (release ?o) ?st ?ds)) p = (if p \<in> set ?o
        then Some (int (length (filter (\<lambda>b. b \<notin> set (placed @ [c])) (edges fs p)))) else None)" for p
      using filter_not_placed [OF c(2), of "edges fs p"] cnt [of p] by (simp add: map_of_releases deg)
    show "\<forall>p \<in> set (placed @ [c]). \<forall>b \<in> set (edges fs p). b \<in> set (placed @ [c])"
      using closed c(3) by auto
    show "distinct (snd (foldl (release ?o) ?st ?ds))"
      by (rule distinct_releases [OF le dom]) (use ready fresh in \<open>auto simp: distinct_remove1\<close>)
    show "set (snd (foldl (release ?o) ?st ?ds)) = index_of ?o ` set (available fs ?o (placed @ [c]))"
      using set_releases [OF le dom(1), of ?o] rest pushed avail by (simp add: image_Un)
  qed
qed

lemma kahn_greedy:
  assumes "distinct (map fst fs)" and "kahn_inv fs placed deg ready"
  shows "kahn fs (map fst fs) deg ready = greedy fs (map fst fs) placed"
proof -
  have "order = map fst fs \<Longrightarrow> kahn_inv fs placed deg ready \<Longrightarrow> distinct (map fst fs) \<Longrightarrow>
      kahn fs order deg ready = greedy fs order placed" for order
  proof (induction fs order placed arbitrary: deg ready rule: greedy.induct)
    case (1 fs order placed)
    note inv = 1(3) and d = 1(4) and o = 1(2)
    have ready: "ready = [] \<longleftrightarrow> available fs (map fst fs) placed = []"
      using inv unfolding kahn_inv_def by (metis image_is_empty set_empty)
    show ?case
    proof (cases "available fs order placed")
      case Nil
      then show ?thesis using ready o by (simp add: kahn.simps greedy.simps)
    next
      case (Cons c rest)
      note round = kahn_round [OF d inv Cons [unfolded o]]
      have "c \<in> set (available fs order placed)" using Cons by simp
      then have c: "c \<in> set (map fst fs)" using o by (simp add: available_def)
      have "ready \<noteq> []" using ready Cons o by simp
      then show ?thesis
        using 1(1) [OF Cons o _ d] round nth_index_of [OF c] Cons
        by (subst kahn.simps) (simp add: Let_def greedy.simps [of fs "map fst fs" placed] o)
    qed
  qed
  then show ?thesis using assms by blast
qed

lemma map_of_indegrees:
  "map_of (indegrees fs) p =
     (if p \<in> set (map fst fs) then Some (int (length (edges fs p))) else None)"
proof -
  have "map_of (map (\<lambda>(k, v). (k, h k v)) gs) p = map_option (h p) (map_of gs p)"
    for h :: "string \<Rightarrow> compiled_field \<Rightarrow> int" and gs
    by (induction gs) auto
  then show ?thesis
    by (cases "map_of fs p")
      (auto simp: indegrees_def edges_def map_of_eq_None_iff dest: map_of_SomeD intro: rev_image_eqI)
qed

lemma kahn_inv_start:
  assumes "distinct (map fst fs)"
  shows "kahn_inv fs [] (indegrees fs)
    (map (index_of (map fst fs)) (filter (\<lambda>p. map_of (indegrees fs) p = Some 0) (map fst fs)))"
proof -
  let ?P = "\<lambda>p. map_of (indegrees fs) p = Some 0"
  have P: "filter ?P (map fst fs) = available fs (map fst fs) []"
    unfolding available_def by (rule filter_cong) (auto simp: map_of_indegrees list_all_iff simp del: set_map)
  have "inj_on (index_of (map fst fs)) (set (map fst fs))"
    using index_of_inj [of _ "map fst fs"] by (auto simp: inj_on_def simp del: set_map)
  then have "distinct (map (index_of (map fst fs)) (filter ?P (map fst fs)))"
    using assms by (simp add: distinct_map inj_on_subset del: set_map filter.simps)
  then show ?thesis
    by (simp add: kahn_inv_def P) (simp add: map_of_indegrees)
qed

lemma topological_order_greedy:
  assumes "distinct (map fst (cf_fields F))" and "cf_order F = map fst (cf_fields F)"
  shows "topological_order F =
    (let result = greedy (cf_fields F) (cf_order F) []
     in if length result \<noteq> length (cf_order F) then Inl (CompileError ''dependency cycle'') else Inr result)"
  using kahn_greedy [OF assms(1) kahn_inv_start [OF assms(1)]] assms(2)
  by (simp add: topological_order_def Let_def)

subsection \<open>The reference order is topological\<close>

lemma greedy_sound:
  assumes "distinct placed" "set placed \<subseteq> set order"
    and "\<forall>i < length placed. \<forall>b \<in> set (edges fs (placed ! i)). b \<in> set (take i placed)"
  defines "result \<equiv> placed @ greedy fs order placed"
  shows "distinct result" "set result \<subseteq> set order"
    "\<forall>i < length result. \<forall>b \<in> set (edges fs (result ! i)). b \<in> set (take i result)"
    "available fs order result = []"
proof -
  have "distinct (placed @ greedy fs order placed) \<and> set (placed @ greedy fs order placed) \<subseteq> set order \<and>
      (\<forall>i < length (placed @ greedy fs order placed). \<forall>b \<in> set (edges fs ((placed @ greedy fs order placed) ! i)).
         b \<in> set (take i (placed @ greedy fs order placed))) \<and>
      available fs order (placed @ greedy fs order placed) = []"
    using assms(1-3)
  proof (induction fs order placed rule: greedy.induct)
    case (1 fs order placed)
    show ?case
    proof (cases "available fs order placed")
      case Nil
      then show ?thesis using 1 by (simp add: greedy.simps [of fs order placed])
    next
      case (Cons c rest)
      have "c \<in> set (available fs order placed)" using Cons by simp
      then have c: "c \<in> set order" "c \<notin> set placed" "\<forall>b \<in> set (edges fs c). b \<in> set placed"
        by (auto simp: available_def list_all_iff)
      have eq: "placed @ greedy fs order placed = (placed @ [c]) @ greedy fs order (placed @ [c])"
        using Cons by (simp add: greedy.simps [of fs order placed])
      have "\<forall>i < length (placed @ [c]). \<forall>b \<in> set (edges fs ((placed @ [c]) ! i)). b \<in> set (take i (placed @ [c]))"
        using 1(4) c(3) by (auto simp: nth_append less_Suc_eq)
      then show ?thesis
        unfolding eq using 1(1) [OF Cons] 1(2,3) c by simp
    qed
  qed
  then show "distinct result" "set result \<subseteq> set order"
    "\<forall>i < length result. \<forall>b \<in> set (edges fs (result ! i)). b \<in> set (take i result)"
    "available fs order result = []"
    by (simp_all add: result_def)
qed

text \<open>At every position, the field placed there is the first one that could be.\<close>

lemma greedy_first:
  assumes "i < length (greedy fs order placed)"
  shows "\<exists>rest. available fs order (placed @ take i (greedy fs order placed)) = greedy fs order placed ! i # rest"
  using assms
proof (induction fs order placed arbitrary: i rule: greedy.induct)
  case (1 fs order placed)
  show ?case
  proof (cases "available fs order placed")
    case Nil
    then show ?thesis using 1(2) by (simp add: greedy.simps [of fs order placed])
  next
    case (Cons c rest)
    then have eq: "greedy fs order placed = c # greedy fs order (placed @ [c])"
      by (simp add: greedy.simps [of fs order placed])
    then show ?thesis
      using 1(1) [OF Cons, of "i - 1"] 1(2) Cons by (cases i) auto
  qed
qed

text \<open>Fields that each wait for another one of them: what a dependency cycle is.\<close>

definition stuck_set :: "(string \<times> compiled_field) list \<Rightarrow> string set \<Rightarrow> bool" where
  "stuck_set fs S \<longleftrightarrow> S \<noteq> {} \<and> S \<subseteq> set (map fst fs) \<and> (\<forall>p \<in> S. \<exists>b \<in> set (edges fs p). b \<in> S)"

lemma greedy_complete:
  assumes "distinct (map fst fs)"
  shows "set (greedy fs (map fst fs) []) = set (map fst fs) \<longleftrightarrow> (\<nexists>S. stuck_set fs S)"
proof -
  let ?r = "greedy fs (map fst fs) []"
  have sound: "distinct ?r" "set ?r \<subseteq> set (map fst fs)"
      "\<forall>i < length ?r. \<forall>b \<in> set (edges fs (?r ! i)). b \<in> set (take i ?r)"
      "available fs (map fst fs) ?r = []"
    using greedy_sound [of "[]" "map fst fs" fs] by simp_all
  show ?thesis
  proof
    assume all: "set ?r = set (map fst fs)"
    show "\<nexists>S. stuck_set fs S"
    proof
      assume "\<exists>S. stuck_set fs S"
      then obtain S where S: "stuck_set fs S" ..
      then have "\<exists>i < length ?r. ?r ! i \<in> S"
        using all unfolding stuck_set_def by (metis all_not_in_conv in_set_conv_nth subsetD)
      then obtain i where i: "i < length ?r" "?r ! i \<in> S" "\<forall>j < i. \<not> (j < length ?r \<and> ?r ! j \<in> S)"
        using exists_least_iff [of "\<lambda>i. i < length ?r \<and> ?r ! i \<in> S"] by auto
      then obtain b where "b \<in> set (take i ?r)" "b \<in> S"
        using S sound(3) unfolding stuck_set_def by blast
      then show False using i by (auto simp: in_set_conv_nth)
    qed
  next
    assume none: "\<nexists>S. stuck_set fs S"
    have "stuck_set fs (set (map fst fs) - set ?r)" if "set (map fst fs) - set ?r \<noteq> {}"
      using that sound(4) edges_known [of _ fs]
      by (auto simp: stuck_set_def available_def filter_empty_conv list_all_iff simp del: set_map)
    then show "set ?r = set (map fst fs)" using none sound(2) by blast
  qed
qed

subsection \<open>The invariant of a compiled form\<close>

definition ids_of :: "cform \<Rightarrow> string list" where
  "ids_of F = map fst (cf_fields F) @ map fst (cf_containers F)"

definition field_ok :: "cform \<Rightarrow> string \<times> compiled_field \<Rightarrow> bool" where
  "field_ok F entry \<longleftrightarrow> f_id (snd entry) = fst entry \<and> id_pattern (fst entry) \<and>
     (case f_repeat (snd entry) of None \<Rightarrow> True
      | Some r \<Rightarrow> has_key (cf_repeats F) r \<and> r \<in> set (f_ancestors (snd entry)))"

definition form_ok :: "cform \<Rightarrow> bool" where
  "form_ok F \<longleftrightarrow> distinct (ids_of F) \<and> cf_order F = map fst (cf_fields F) \<and>
     list_all (field_ok F) (cf_fields F) \<and> list_all (\<lambda>(i, n). id_pattern i) (cf_containers F) \<and>
     set (cf_repeats F) \<subseteq> set (cf_containers F) \<and> distinct (map fst (cf_repeats F)) \<and>
     map fst (cf_container_ancestors F) = map fst (cf_containers F)"

lemma has_key_iff: "has_key d k \<longleftrightarrow> k \<in> set (map fst d)"
  by (simp add: map_of_eq_None_iff)

lemma field_ok_grow:
  assumes "field_ok F e" "cf_repeats G = cf_repeats F @ rs"
  shows "field_ok G e"
  using assms by (auto simp: field_ok_def split: option.splits)

lemma fresh_repeat: "form_ok F \<Longrightarrow> i \<notin> set (ids_of F) \<Longrightarrow> i \<notin> set (map fst (cf_repeats F))"
  by (force simp: form_ok_def ids_of_def)

lemma compile_repeat_ok:
  assumes "compile_repeat F i node anc = Inr G" "form_ok F" "i \<notin> set (ids_of F)" "id_pattern i"
  shows "form_ok G \<and> set (ids_of G) = insert i (set (ids_of F))"
proof -
  obtain deps where G: "G = F\<lparr>cf_repeats := cf_repeats F @ [(i, node)],
                    cf_containers := cf_containers F @ [(i, node)],
                    cf_container_ancestors := cf_container_ancestors F @ [(i, anc)],
                    cf_expr_deps := (if deps \<noteq> [] then cf_expr_deps F @ [(i, deps)]
                                     else cf_expr_deps F)\<rparr>"
  proof -
    have "enclosing_repeats F anc = []" "\<not> list_ex (in_field_list F) anc"
      using assms(1) by (auto simp: compile_repeat_def split: if_splits)
    with assms(1) that show ?thesis by (auto simp: compile_repeat_def rbind_Inr_iff simp del: if_split)
  qed
  have "list_all (field_ok G) (cf_fields F)"
    using assms(2) field_ok_grow [of F _ G "[(i, node)]"] by (auto simp: form_ok_def list_all_iff G)
  then show ?thesis
    using assms(2-4) fresh_repeat [OF assms(2,3)] by (auto simp: form_ok_def ids_of_def G)
qed

lemma compile_group_ok:
  assumes "form_ok F" "i \<notin> set (ids_of F)" "id_pattern i"
  shows "form_ok (compile_group F i node anc) \<and>
    set (ids_of (compile_group F i node anc)) = insert i (set (ids_of F))"
proof -
  have "list_all (field_ok (compile_group F i node anc)) (cf_fields F)"
    using assms(1) field_ok_grow [of F _ "compile_group F i node anc" "[]"]
    by (auto simp: form_ok_def list_all_iff compile_group_def)
  then show ?thesis using assms by (auto simp: form_ok_def ids_of_def compile_group_def)
qed

lemma compile_question_ok:
  assumes "compile_question L F i node anc = Inr G" "form_ok F" "i \<notin> set (ids_of F)" "id_pattern i"
  shows "form_ok G \<and> set (ids_of G) = insert i (set (ids_of F))"
proof -
  obtain f where G: "G = F\<lparr>cf_fields := cf_fields F @ [(i, f)], cf_order := cf_order F @ [i]\<rparr>"
    and f: "f_id f = i" "f_ancestors f = anc"
      "f_repeat f = (case enclosing_repeats F anc of [] \<Rightarrow> None | r # _ \<Rightarrow> Some r)"
    using assms(1) by (auto simp: compile_question_def Let_def rbind_Inr_iff split: if_splits)
  have "field_ok G (i, f)"
    using f assms(4)
    by (auto simp: field_ok_def G enclosing_repeats_def filter_eq_Cons_iff split: list.split)
  moreover have "list_all (field_ok G) (cf_fields F)"
    using assms(2) field_ok_grow [of F _ G "[]"] by (auto simp: form_ok_def list_all_iff G)
  ultimately show ?thesis using assms(2,3) by (auto simp: form_ok_def ids_of_def G)
qed

lemma compile_node_ok:
  assumes "compile_node L (seen, F) item = Inr (seen', G)" "form_ok F" "set seen = set (ids_of F)"
  shows "form_ok G \<and> set seen' = set (ids_of G)"
proof -
  obtain node anc where item: "item = (node, anc)" by force
  obtain i where si: "str_item node ''id'' = Inr i"
    using assms(1) by (auto simp: compile_node_def item rbind_Inr_iff)
  have i: "id_pattern i" "i \<notin> set seen" "\<not> 1 < length (enclosing_repeats F anc)"
    using assms(1) si by (auto simp: compile_node_def item split: if_splits)
  obtain t where "jitem node ''type'' = Inr t"
    using assms(1) si i by (auto simp: compile_node_def item rbind_Inr_iff)
  then have step: "(if t = JStr ''repeat'' then
            rbind (compile_repeat F i node anc) (\<lambda>F'. Inr (i # seen, F'))
          else if t = JStr ''group'' then
            Inr (i # seen, compile_group F i node anc)
          else rbind (compile_question L F i node anc) (\<lambda>F'. Inr (i # seen, F'))) = Inr (seen', G)"
    using assms(1) si i by (simp add: compile_node_def item)
  have fresh: "i \<notin> set (ids_of F)" using i assms(3) by simp
  show ?thesis
    using step compile_repeat_ok [OF _ assms(2) fresh i(1)] compile_group_ok [OF assms(2) fresh i(1), of node anc]
      compile_question_ok [OF _ assms(2) fresh i(1)] assms(3)
    by (fastforce simp: rbind_Inr_iff split: if_splits)
qed

lemma compile_nodes_ok:
  assumes "compile_nodes L F nodes = Inr G" "form_ok F" "ids_of F = []"
  shows "form_ok G"
proof -
  obtain acc where acc: "foldM (compile_node L) ([], F) nodes = Inr acc" "G = snd acc"
    using assms(1) by (auto simp: compile_nodes_def rbind_Inr_iff)
  have "form_ok (snd acc) \<and> set (fst acc) = set (ids_of (snd acc))"
    by (rule foldM_invariant [where I = "\<lambda>acc. form_ok (snd acc) \<and> set (fst acc) = set (ids_of (snd acc))", OF _ _ acc(1)])
      (use compile_node_ok [of L] assms(2,3) in force)+
  then show ?thesis using acc by simp
qed

lemma link_rows_choices_ok:
  assumes "link_rows_choices F = Inr G" "form_ok F"
  shows "form_ok G"
proof -
  obtain fs where fs: "mapM (link_rows F) (cf_fields F) = Inr fs" "G = F\<lparr>cf_fields := fs\<rparr>"
    using assms(1) by (auto simp: link_rows_choices_def rbind_Inr_iff)
  have link: "fst e' = fst e \<and> f_id (snd e') = f_id (snd e) \<and> f_repeat (snd e') = f_repeat (snd e) \<and>
      f_ancestors (snd e') = f_ancestors (snd e)" if "link_rows F e = Inr e'" for e e'
    using that by (auto simp: link_rows_def Let_def split: option.splits if_splits)
  have keys: "map fst ys = map fst xs" if "mapM (link_rows F) xs = Inr ys" for xs ys
    using that by (induction xs arbitrary: ys) (auto simp: rbind_Inr_iff dest: link)
  have "field_ok G e'" if "e' \<in> set fs" for e'
  proof -
    obtain e where "e \<in> set (cf_fields F)" "link_rows F e = Inr e'"
      using mapM_set [OF fs(1) \<open>e' \<in> set fs\<close>] by blast
    then show ?thesis using link [of e e'] assms(2) by (auto simp: form_ok_def field_ok_def list_all_iff fs(2) split: option.split)
  qed
  then show ?thesis
    using assms(2) keys [OF fs(1)] by (simp add: form_ok_def ids_of_def fs(2) list_all_iff)
qed

lemma field_ok_frame:
  "field_ok (F\<lparr>cf_warnings := w\<rparr>) = field_ok F" "field_ok (F\<lparr>cf_topo_order := t\<rparr>) = field_ok F"
  by (auto simp: fun_eq_iff field_ok_def split: option.splits)

lemma form_ok_frame: "form_ok (F\<lparr>cf_warnings := w\<rparr>) = form_ok F" "form_ok (F\<lparr>cf_topo_order := t\<rparr>) = form_ok F"
  by (simp_all add: form_ok_def ids_of_def field_ok_frame)

lemma finish_compile_ok:
  assumes "finish_compile L F = Inr G" "form_ok F"
  shows "form_ok G \<and> (\<exists>t. topological_order G = Inr t \<and> cf_topo_order G = t)"
proof -
  obtain F1 F2 t where l: "link_rows_choices F = Inr F1" and c: "check_interpolation F1 = Inr F2"
    and t: "topological_order F2 = Inr t" and G: "lint L (F2\<lparr>cf_topo_order := t\<rparr>) = Inr G"
    using assms(1) by (auto simp: finish_compile_def rbind_Inr_iff)
  obtain w where F2: "F2 = F1\<lparr>cf_warnings := w\<rparr>"
    using c by (auto simp: check_interpolation_def rbind_Inr_iff)
  obtain w' where G: "G = F2\<lparr>cf_topo_order := t, cf_warnings := w'\<rparr>"
    using G by (auto simp: lint_def rbind_Inr_iff)
  show ?thesis
    using link_rows_choices_ok [OF l assms(2)] t
    by (simp add: G F2 form_ok_frame topological_order_def)
qed

lemma compile_form_ok:
  assumes "compile_form L ir = Inr F"
  shows "form_ok F \<and> topological_order F = Inr (cf_topo_order F)"
proof -
  obtain kvs form_id version nodes F0 where
    n: "compile_nodes L (empty_form kvs form_id version) nodes = Inr F0" and f: "finish_compile L F0 = Inr F"
    using assms by (auto simp: compile_form_def rbind_Inr_iff split: json.splits)
  have "form_ok (empty_form kvs form_id version)" "ids_of (empty_form kvs form_id version) = []"
    by (simp_all add: form_ok_def ids_of_def empty_form_def)
  from compile_nodes_ok [OF n this] finish_compile_ok [OF f] show ?thesis by auto
qed

subsection \<open>Properties of the compiler\<close>

text \<open>A household form: a count, a roster repeat whose members have an age and a calculated flag,
  and a total over the roster.\<close>

definition question :: "string \<Rightarrow> string \<Rightarrow> dict \<Rightarrow> json" where
  "question i t extra = JObj ([(''type'', JStr ''question''), (''id'', JStr i), (''dataType'', JStr t)] @ extra)"

definition household_ir :: json where
  "household_ir = JObj [(''irVersion'', JStr ''0.1''), (''formId'', JStr ''hh''), (''version'', JInt 1),
     (''children'', JList
       [question ''total'' ''integer'' [(''calculate'', e_call ''sum'' [e_ref ''members[].adult''])],
        JObj [(''type'', JStr ''repeat''), (''id'', JStr ''members''), (''minInstances'', JInt 1),
          (''children'', JList
            [question ''adult'' ''integer'' [(''calculate'',
               e_op ''if'' [e_op ''gte'' [e_ref ''age'', e_lit (JInt 18)], e_lit (JInt 1), e_lit (JInt 0)])],
             question ''age'' ''integer'' []])]])]"

definition household_form :: cform where
  "household_form = (case compile_form sample_lib household_ir of Inr F \<Rightarrow> F | Inl _ \<Rightarrow> empty_form [] [] 0)"

lemma household_compiles: "compile_form sample_lib household_ir = Inr household_form"
proof -
  have "\<not> (case compile_form sample_lib household_ir of Inr F \<Rightarrow> False | Inl _ \<Rightarrow> True)" by code_simp
  then show ?thesis by (simp add: household_form_def split: sum.splits)
qed



lemma compiled_order:
  assumes "compile_form L ir = Inr F"
  shows "distinct (map fst (cf_fields F))" "cf_order F = map fst (cf_fields F)"
    "cf_topo_order F = greedy (cf_fields F) (map fst (cf_fields F)) []"
    "length (cf_topo_order F) = length (cf_fields F)"
proof -
  show d: "distinct (map fst (cf_fields F))" and o: "cf_order F = map fst (cf_fields F)"
    using compile_form_ok [OF assms] by (auto simp: form_ok_def ids_of_def)
  show "cf_topo_order F = greedy (cf_fields F) (map fst (cf_fields F)) []"
    "length (cf_topo_order F) = length (cf_fields F)"
    using compile_form_ok [OF assms] topological_order_greedy [OF d o]
    by (auto simp: Let_def o split: if_splits)
qed

lemma topo_sound:
  assumes "compile_form L ir = Inr F"
  shows "distinct (cf_topo_order F)" "set (cf_topo_order F) = set (map fst (cf_fields F))"
    "\<forall>i < length (cf_topo_order F). \<forall>b \<in> set (edges (cf_fields F) (cf_topo_order F ! i)).
       b \<in> set (take i (cf_topo_order F))"
proof -
  note c = compiled_order [OF assms]
  note g = greedy_sound [of "[]" "map fst (cf_fields F)" "cf_fields F"]
  show dt: "distinct (cf_topo_order F)" using g(1) c(3) by simp
  show "\<forall>i < length (cf_topo_order F). \<forall>b \<in> set (edges (cf_fields F) (cf_topo_order F ! i)).
       b \<in> set (take i (cf_topo_order F))"
    using g(3) c(3) by simp
  show "set (cf_topo_order F) = set (map fst (cf_fields F))"
  proof (rule card_subset_eq)
    show "set (cf_topo_order F) \<subseteq> set (map fst (cf_fields F))" using g(2) c(3) by simp
    show "card (set (cf_topo_order F)) = card (set (map fst (cf_fields F)))"
      using dt c(1,4) by (simp add: distinct_card del: set_map)
  qed simp
qed

text \<open>
  C16: The evaluation order of a compiled form lists every field once, after every field it depends
  on, and at each position takes the field that stands first in the document among those whose
  dependencies have all been placed, so the order is the only one with these properties.
\<close>

theorem evaluation_order:
  assumes "compile_form L ir = Inr F"
  shows "distinct (cf_topo_order F) \<and> set (cf_topo_order F) = set (map fst (cf_fields F)) \<and>
    (\<forall>i < length (cf_topo_order F).
       set (edges (cf_fields F) (cf_topo_order F ! i)) \<subseteq> set (take i (cf_topo_order F)) \<and>
       hd (available (cf_fields F) (cf_order F) (take i (cf_topo_order F))) = cf_topo_order F ! i)"
proof -
  note c = compiled_order [OF assms]
  have "hd (available (cf_fields F) (cf_order F) (take i (cf_topo_order F))) = cf_topo_order F ! i"
    if "i < length (cf_topo_order F)" for i
    using greedy_first [of i "cf_fields F" "map fst (cf_fields F)" "[]"] that c by auto
  then show ?thesis using topo_sound [OF assms] by blast
qed

theorem evaluation_order_witness:
  "cf_topo_order household_form = [''age'', ''adult'', ''total''] \<and>
   set (cf_topo_order household_form) = {''total'', ''adult'', ''age''}"
proof -
  have "map fst (cf_fields household_form) = [''total'', ''adult'', ''age'']"
    "cf_topo_order household_form = [''age'', ''adult'', ''total'']" by code_simp+
  then show ?thesis using evaluation_order [OF household_compiles] by simp
qed

text \<open>
  C17: The ordering refuses a form exactly when some of its fields depend on each other in a circle:
  a non-empty set of fields each of which depends on another one of the set.
\<close>

theorem cycle_refused_iff:
  assumes "distinct (map fst (cf_fields F))" and "cf_order F = map fst (cf_fields F)"
  shows "topological_order F = Inl (CompileError ''dependency cycle'') \<longleftrightarrow> (\<exists>S. stuck_set (cf_fields F) S)"
proof -
  let ?r = "greedy (cf_fields F) (map fst (cf_fields F)) []"
  note g = greedy_sound [of "[]" "map fst (cf_fields F)" "cf_fields F"]
  have "length ?r = length (cf_fields F) \<longleftrightarrow> set ?r = set (map fst (cf_fields F))"
  proof
    assume "length ?r = length (cf_fields F)"
    then show "set ?r = set (map fst (cf_fields F))"
      using g(1,2) assms(1) by (intro card_subset_eq) (simp_all add: distinct_card del: set_map)
  next
    assume "set ?r = set (map fst (cf_fields F))"
    then show "length ?r = length (cf_fields F)"
      using distinct_card [of ?r] distinct_card [OF assms(1)] g(1) by simp
  qed
  then show ?thesis
    using greedy_complete [OF assms(1)] topological_order_greedy [OF assms] assms(2)
    by (auto simp: Let_def)
qed

definition circular_form :: cform where
  "circular_form = (let f = (\<lambda>i d. (i, \<lparr>f_id = i, f_node = [], f_data_type = ''integer'', f_depends_on = [d],
     f_ancestors = [], f_repeat = None, f_choice_query = None, f_rows_query = None\<rparr>))
   in (empty_form [] ''c'' 1)\<lparr>cf_fields := [f ''a'' ''b'', f ''b'' ''a''], cf_order := [''a'', ''b'']\<rparr>)"

theorem cycle_refused_iff_witness:
  "topological_order circular_form = Inl (CompileError ''dependency cycle'') \<and>
   (\<exists>S. stuck_set (cf_fields circular_form) S)"
proof -
  have d: "distinct (map fst (cf_fields circular_form))" "cf_order circular_form = map fst (cf_fields circular_form)"
    by (simp_all add: circular_form_def empty_form_def Let_def)
  have "topological_order circular_form = Inl (CompileError ''dependency cycle'')" by code_simp
  with cycle_refused_iff [OF d] show ?thesis by simp
qed

text \<open>
  The id format is checked with \<open>re.match\<close> and a final \<open>$\<close>, which also matches before
  a trailing newline: an id with one passes.
\<close>

theorem id_pattern_accepts_trailing_newline: "id_pattern (''age'' @ [CHR 0x0A])"
  by code_simp

end
