(* ===== verification/Instance_Runtime.thy ===== *)
theory Instance_Runtime
  imports Compile_Laws
begin

text \<open>
  The live answer state of one form (\<open>FormInstance\<close> of \<open>form_engine/runtime.py\<close>):
  repeat instances and their stable ids, row sources, answering, choice resolution, interpolated
  text and the recalculation pass.

  Every operation takes the compiled form and the state and returns the new state, or the exception
  it raises; a state half changed by an operation that raises is not represented. A lookup
  \<open>self.instances[r]\<close> of a repeat without an entry reads as no instances: the constructor
  creates one entry per repeat and no operation removes any. \<open>row_keys\<close> and
  \<open>row_labels\<close> are keyed by repeat and instance id together.
\<close>

named_theorems runtime_simps \<open>unfolding of the runtime's steps\<close>

subsection \<open>State\<close>

datatype field_error = ERequired | EChoice | EConstraint json json

record field_state =
  s_path :: string
  s_data_type :: string
  s_relevant :: bool
  s_required :: bool
  s_read_only :: bool
  s_value :: json
  s_valid :: bool
  s_errors :: "field_error list"

definition blank_state :: "string \<Rightarrow> string \<Rightarrow> field_state" where
  "blank_state path data_type =
     \<lparr>s_path = path, s_data_type = data_type, s_relevant = True, s_required = False,
      s_read_only = False, s_value = JNull, s_valid = True, s_errors = []\<rparr>"

record form_inst =
  i_today :: date
  i_now :: string
  i_metadata :: dict
  i_datasets :: dataset_source
  i_instances :: "(string \<times> string list) list"
  i_row_keys :: "((string \<times> string) \<times> json) list"
  i_row_labels :: "((string \<times> string) \<times> dict) list"
  i_rows_resolved :: "string list"
  i_serial :: nat
  i_values :: dict
  i_states :: "(string \<times> field_state) list"

definition inst_list :: "form_inst \<Rightarrow> string \<Rightarrow> string list" where
  "inst_list S r = (case map_of (i_instances S) r of None \<Rightarrow> [] | Some ids \<Rightarrow> ids)"

definition context_of :: "form_inst \<Rightarrow> (string \<times> string) option \<Rightarrow> eval_ctx" where
  "context_of S scope =
     \<lparr>c_values = i_values S, c_today = i_today S, c_now = i_now S, c_row = None,
      c_metadata = Some (i_metadata S), c_scope = scope, c_instances = Some (i_instances S),
      c_datasets = Some (i_datasets S)\<rparr>"

text \<open>\<open>int(v)\<close> of a value.\<close>

definition py_int :: "json \<Rightarrow> int res" where
  "py_int v = (case v of
     JInt i \<Rightarrow> Inr i
   | JBool b \<Rightarrow> Inr (if b then 1 else 0)
   | JFloat x \<Rightarrow> num_to_int (NFloat x)
   | JStr s \<Rightarrow> py_int_of_str s
   | _ \<Rightarrow> Inl TypeError)"

subsection \<open>Repeat instances\<close>

definition fields_of :: "cform \<Rightarrow> string \<Rightarrow> string list" where
  "fields_of F r = map fst (filter (\<lambda>(i, f). f_repeat f = Some r) (cf_fields F))"

text \<open>\<open>SERIAL_ID.fullmatch\<close> and the ordinal it captures.\<close>

definition serial_of :: "string \<Rightarrow> nat option" where
  "serial_of s = (case s of
     c # ds \<Rightarrow> if c = CHR ''i'' \<and> ds \<noteq> [] \<and> list_all is_digit ds
              then Some (nat (int_of_digits 0 ds)) else None
   | [] \<Rightarrow> None)"

definition mint :: "nat \<Rightarrow> string" where
  "mint n = CHR ''i'' # digits_of (int n)"

fun ascending :: "nat list \<Rightarrow> bool" where
  "ascending (a # b # ns) = (a < b \<and> ascending (b # ns))"
| "ascending _ = True"

definition assert_creation_order :: "string list \<Rightarrow> unit res" where
  "assert_creation_order ids =
     (if list_ex (\<lambda>i. serial_of i = None) ids then Inr ()
      else if ascending (map (the \<circ> serial_of) ids) then Inr ()
      else Inl (CompileError ''instances are not in creation order''))"

definition add_cells :: "cform \<Rightarrow> string \<Rightarrow> string \<Rightarrow> form_inst \<Rightarrow> form_inst" where
  "add_cells F r iid S =
     foldl (\<lambda>S fid. S\<lparr>i_values := AList.update (inst_path r iid fid) JNull (i_values S),
       i_states := AList.update (inst_path r iid fid)
         (blank_state (inst_path r iid fid)
           (case map_of (cf_fields F) fid of None \<Rightarrow> [] | Some f \<Rightarrow> f_data_type f)) (i_states S)\<rparr>)
       S (fields_of F r)"

definition create_instance :: "cform \<Rightarrow> form_inst \<Rightarrow> string \<Rightarrow> json \<Rightarrow> (string \<times> form_inst) res" where
  "create_instance F S r row_key =
     (let n = Suc (i_serial S); iid = mint n; ids = inst_list S r @ [iid];
          S1 = S\<lparr>i_serial := n, i_instances := AList.update r ids (i_instances S),
                 i_row_keys := AList.update (r, iid) row_key (i_row_keys S)\<rparr>
      in rbind (assert_creation_order ids) (\<lambda>_. Inr (iid, add_cells F r iid S1)))"

text \<open>Relevance of a chain of containers, outermost first, in one context.\<close>

fun all_relevant :: "pylib \<Rightarrow> cform \<Rightarrow> eval_ctx \<Rightarrow> string list \<Rightarrow> bool res" where
  "all_relevant L F ctx [] = Inr True"
| "all_relevant L F ctx (c # cs) =
     (case map_of (cf_containers F) c of
        None \<Rightarrow> all_relevant L F ctx cs
      | Some n \<Rightarrow>
          (if is_null (jget n ''relevant'') then all_relevant L F ctx cs
           else rbind (evaluate L ctx (jget n ''relevant'')) (\<lambda>v.
                rbind (coerce_boolean True v) (\<lambda>b.
                  if b then all_relevant L F ctx cs else Inr False))))"

definition container_relevant :: "pylib \<Rightarrow> cform \<Rightarrow> form_inst \<Rightarrow> string \<Rightarrow> bool res" where
  "container_relevant L F S cid =
     (if \<not> has_key (cf_containers F) cid then Inr True
      else all_relevant L F (context_of S None)
        ((case map_of (cf_container_ancestors F) cid of None \<Rightarrow> [] | Some as \<Rightarrow> as) @ [cid]))"

definition seed :: "string \<Rightarrow> string \<Rightarrow> dict \<Rightarrow> form_inst \<Rightarrow> string \<times> json \<Rightarrow> form_inst res" where
  "seed r iid item S bound =
     (let path = inst_path r iid (fst bound);
          v = (case snd bound of JStr column \<Rightarrow> jget item column | _ \<Rightarrow> JNull)
      in case map_of (i_states S) path of
           None \<Rightarrow> Inl KeyError
         | Some st \<Rightarrow> Inr (S\<lparr>i_values := AList.update path v (i_values S),
                            i_states := AList.update path (st\<lparr>s_value := v\<rparr>) (i_states S)\<rparr>))"

definition create_row :: "cform \<Rightarrow> string \<Rightarrow> dict \<Rightarrow> form_inst \<Rightarrow> json \<Rightarrow> form_inst res" where
  "create_row F r bind S item = (case item of
     JObj row \<Rightarrow>
       rbind (jitem row ''value'') (\<lambda>key.
       rbind (create_instance F S r key) (\<lambda>(iid, S).
         foldM (seed r iid row)
           (case jget row ''label'' of
              JObj label \<Rightarrow> S\<lparr>i_row_labels := AList.update (r, iid) label (i_row_labels S)\<rparr>
            | _ \<Rightarrow> S) bind))
   | _ \<Rightarrow> Inl TypeError)"

definition resolve_rows :: "pylib \<Rightarrow> cform \<Rightarrow> form_inst \<Rightarrow> string \<times> dict \<Rightarrow> form_inst res" where
  "resolve_rows L F S rep =
     (case rep of (r, node) \<Rightarrow>
        (if is_null (jget node ''rowSource'') \<or> r \<in> set (i_rows_resolved S) then Inr S
         else rbind (container_relevant L F S r) (\<lambda>relevant.
           if \<not> relevant then Inr S
           else case jget node ''rowSource'' of
             JObj source \<Rightarrow>
               rbind (items_or_empty (jget source ''bind'')) (\<lambda>bind.
               rbind (list_or_empty (jget source ''items'')) (\<lambda>items.
                 foldM (create_row F r bind)
                   (S\<lparr>i_rows_resolved := r # i_rows_resolved S\<rparr>) items))
           | _ \<Rightarrow> Inl AttributeError)))"

definition destroy_instance :: "cform \<Rightarrow> form_inst \<Rightarrow> string \<Rightarrow> string \<Rightarrow> form_inst" where
  "destroy_instance F S r iid =
     foldl (\<lambda>S fid. S\<lparr>i_values := AList.delete (inst_path r iid fid) (i_values S),
                      i_states := AList.delete (inst_path r iid fid) (i_states S)\<rparr>)
       (S\<lparr>i_row_keys := AList.delete (r, iid) (i_row_keys S),
          i_row_labels := AList.delete (r, iid) (i_row_labels S)\<rparr>) (fields_of F r)"

subsection \<open>Choice lists\<close>

definition scope_of :: "cform \<Rightarrow> form_inst \<Rightarrow> string \<Rightarrow> (string \<times> string) option res" where
  "scope_of F S fid = (case map_of (cf_fields F) fid of
     None \<Rightarrow> Inl KeyError
   | Some f \<Rightarrow> (case f_repeat f of
       None \<Rightarrow> Inr None
     | Some r \<Rightarrow> (case inst_list S r of [] \<Rightarrow> Inr None | iid # _ \<Rightarrow> Inr (Some (r, iid)))))"

definition candidate_rows :: "pylib \<Rightarrow> form_inst \<Rightarrow> choice_query \<Rightarrow> (string \<times> string) option
    \<Rightarrow> json option \<Rightarrow> dict list res" where
  "candidate_rows L S q scope equals =
     rbind (selector_values L (context_of S scope) q) (\<lambda>sel.
       Inr (i_datasets S (q_dataset q) sel (map_option (Pair (q_value_column q)) equals)))"

definition rows_after_residual :: "pylib \<Rightarrow> form_inst \<Rightarrow> choice_query \<Rightarrow> (string \<times> string) option
    \<Rightarrow> dict list \<Rightarrow> dict list res" where
  "rows_after_residual L S q scope rows =
     (if q_residual q = None then Inr rows
      else filterM (residual_keeps L (context_of S scope) q) rows)"

definition instance_row :: "cform \<Rightarrow> form_inst \<Rightarrow> string \<Rightarrow> string \<Rightarrow> dict" where
  "instance_row F S r iid =
     map (\<lambda>fid. (fid, jget (i_values S) (inst_path r iid fid))) (fields_of F r)"

definition rows_instances :: "pylib \<Rightarrow> cform \<Rightarrow> form_inst \<Rightarrow> rows_query \<Rightarrow> (string \<times> string) option
    \<Rightarrow> json option \<Rightarrow> string list res" where
  "rows_instances L F S q scope equals =
     (let present = inst_list S (r_repeat q);
          candidates = (case equals of
             None \<Rightarrow> present
           | Some v \<Rightarrow> (case v of JStr s \<Rightarrow> if s \<in> set present then [s] else [] | _ \<Rightarrow> []))
      in filterM (\<lambda>iid.
           if r_exclude_self q \<and> scope = Some (r_repeat q, iid) then Inr False
           else (case r_filter q of
                   None \<Rightarrow> Inr True
                 | Some e \<Rightarrow> rbind (evaluate L ((context_of S scope)
                     \<lparr>c_row := Some (instance_row F S (r_repeat q) iid)\<rparr>) e) (coerce_boolean False)))
         candidates)"

definition in_permitted :: "json list \<Rightarrow> json \<Rightarrow> bool res" where
  "in_permitted ps v = (if hashable v then Inr (list_ex (\<lambda>p. py_eq p v) ps) else Inl TypeError)"

definition inline_values :: "dict \<Rightarrow> json \<Rightarrow> json list res" where
  "inline_values node v =
     (case jget node ''choices'' of
        JObj choices \<Rightarrow>
          (if choices = [] \<or> jget choices ''kind'' \<noteq> JStr ''inline'' then Inr []
           else rbind (case map_of choices ''items'' of None \<Rightarrow> Inr [] | Some xs \<Rightarrow> py_iter xs) (\<lambda>items.
             rbind (mapM (\<lambda>item. case item of
                 JObj d \<Rightarrow> if hashable (jget d ''value'') then Inr (jget d ''value'') else Inl TypeError
               | _ \<Rightarrow> Inl AttributeError) items) (\<lambda>permitted.
             (case v of
                JList vs \<Rightarrow>
                  (if jget node ''dataType'' = JStr ''select_multiple''
                   then filterM (\<lambda>x. rbind (in_permitted permitted x) (\<lambda>b. Inr (\<not> b))) vs
                   else Inl TypeError)
              | _ \<Rightarrow> rbind (in_permitted permitted v) (\<lambda>b. Inr (if b then [] else [v]))))))
      | c \<Rightarrow> if truthy c then Inl AttributeError else Inr [])"

text \<open>The values to check one by one: the members of a multiple answer, or the answer.\<close>

definition wanted_values :: "compiled_field \<Rightarrow> json \<Rightarrow> json list" where
  "wanted_values f v = (case v of
     JList vs \<Rightarrow> if f_data_type f = ''select_multiple'' then vs else [v] | _ \<Rightarrow> [v])"

definition values_outside_choices :: "pylib \<Rightarrow> cform \<Rightarrow> form_inst \<Rightarrow> compiled_field \<Rightarrow> json
    \<Rightarrow> (string \<times> string) option \<Rightarrow> json list res" where
  "values_outside_choices L F S f v scope =
     (case f_rows_query f of
        Some q \<Rightarrow>
          filterM (\<lambda>one. rbind (rows_instances L F S q scope (Some one)) (\<lambda>ids. Inr (ids = [])))
            (wanted_values f v)
      | None \<Rightarrow>
          (case f_choice_query f of
             None \<Rightarrow> inline_values (f_node f) v
           | Some q \<Rightarrow>
               filterM (\<lambda>one. rbind (candidate_rows L S q scope (Some one)) (\<lambda>rows.
                 rbind (rows_after_residual L S q scope rows) (\<lambda>kept. Inr (kept = []))))
                 (wanted_values f v)))"

subsection \<open>Evaluating one field\<close>

text \<open>A \<open>required\<close> or \<open>readOnly\<close> key: a boolean, an expression, or absent.\<close>

definition flag :: "pylib \<Rightarrow> eval_ctx \<Rightarrow> json \<Rightarrow> bool res" where
  "flag L ctx e = (case e of
     JBool b \<Rightarrow> Inr b
   | JNull \<Rightarrow> Inr False
   | _ \<Rightarrow> rbind (evaluate L ctx e) (coerce_boolean False))"

definition field_relevant :: "pylib \<Rightarrow> cform \<Rightarrow> compiled_field \<Rightarrow> eval_ctx \<Rightarrow> bool res" where
  "field_relevant L F f ctx =
     rbind (all_relevant L F ctx (f_ancestors f)) (\<lambda>above.
       if above \<and> \<not> is_null (jget (f_node f) ''relevant'')
       then rbind (evaluate L ctx (jget (f_node f) ''relevant'')) (coerce_boolean True)
       else Inr above)"

definition constraint_errors :: "pylib \<Rightarrow> eval_ctx \<Rightarrow> dict \<Rightarrow> json \<Rightarrow> field_error list res" where
  "constraint_errors L ctx node v =
     (if is_null v \<or> is_null (jget node ''constraint'') then Inr []
      else rbind (evaluate L ctx (jget node ''constraint'')) (\<lambda>c.
           rbind (coerce_boolean True c) (\<lambda>b.
             Inr (if b then [] else [EConstraint (jget node ''constraintMessage'')
               (case map_of node ''severity'' of None \<Rightarrow> JStr ''error'' | Some s \<Rightarrow> s)]))))"

definition field_errors :: "pylib \<Rightarrow> cform \<Rightarrow> form_inst \<Rightarrow> compiled_field \<Rightarrow> (string \<times> string) option
    \<Rightarrow> bool \<Rightarrow> json \<Rightarrow> field_error list res" where
  "field_errors L F S f scope required v =
     rbind (if is_null v then Inr [] else values_outside_choices L F S f v scope) (\<lambda>outside.
     rbind (constraint_errors L (context_of S scope) (f_node f) v) (\<lambda>failed.
       Inr ((if required \<and> is_null v then [ERequired] else []) @
            (if outside \<noteq> [] then [EChoice] else []) @ failed)))"

definition evaluate_field :: "pylib \<Rightarrow> cform \<Rightarrow> form_inst \<Rightarrow> string \<Rightarrow> string
    \<Rightarrow> (string \<times> string) option \<Rightarrow> form_inst res" where
  "evaluate_field L F S fid path scope =
     rbind (of_option KeyError (map_of (cf_fields F) fid)) (\<lambda>f.
     rbind (of_option KeyError (map_of (i_states S) path)) (\<lambda>st.
     rbind (field_relevant L F f (context_of S scope)) (\<lambda>relevant.
     rbind (if relevant \<and> \<not> is_null (jget (f_node f) ''calculate'')
            then rbind (evaluate L (context_of S scope) (jget (f_node f) ''calculate'')) (\<lambda>v.
              Inr (S\<lparr>i_values := AList.update path v (i_values S)\<rparr>))
            else Inr S) (\<lambda>S.
     rbind (of_option KeyError (map_of (i_values S) path)) (\<lambda>v.
     rbind (flag L (context_of S scope) (jget (f_node f) ''required'')) (\<lambda>required.
     rbind (flag L (context_of S scope) (jget (f_node f) ''readOnly'')) (\<lambda>read_only.
     rbind (if relevant then field_errors L F S f scope required v else Inr []) (\<lambda>errors.
       Inr (S\<lparr>i_states := AList.update path
         (st\<lparr>s_relevant := relevant, s_required := required, s_read_only := read_only,
             s_value := v, s_valid := (errors = []), s_errors := errors\<rparr>) (i_states S)\<rparr>)))))))))"

subsection \<open>The recalculation pass\<close>

definition grow :: "cform \<Rightarrow> string \<Rightarrow> form_inst \<Rightarrow> nat \<Rightarrow> form_inst res" where
  "grow F r S k = foldM (\<lambda>S _. rbind (create_instance F S r JNull) (\<lambda>(iid, S). Inr S)) S [0..<k]"

definition drop_last :: "cform \<Rightarrow> string \<Rightarrow> form_inst \<Rightarrow> form_inst" where
  "drop_last F r S =
     destroy_instance F (S\<lparr>i_instances := AList.update r (butlast (inst_list S r)) (i_instances S)\<rparr>)
       r (last (inst_list S r))"

definition shrink :: "cform \<Rightarrow> string \<Rightarrow> form_inst \<Rightarrow> nat \<Rightarrow> form_inst" where
  "shrink F r S k = foldl (\<lambda>S _. drop_last F r S) S [0..<k]"

definition apply_count :: "pylib \<Rightarrow> cform \<Rightarrow> form_inst \<Rightarrow> string \<times> dict \<Rightarrow> form_inst res" where
  "apply_count L F S rep =
     (case rep of (r, node) \<Rightarrow>
        (if is_null (jget node ''countExpr'') then Inr S
         else rbind (evaluate L (context_of S None) (jget node ''countExpr'')) (\<lambda>v.
              rbind (if is_null v then Inr 0 else rbind (py_int v) (\<lambda>i. Inr (nat i))) (\<lambda>wanted.
              rbind (assert_creation_order (inst_list S r)) (\<lambda>_.
              rbind (grow F r S (wanted - length (inst_list S r))) (\<lambda>S.
                Inr (shrink F r S (length (inst_list S r) - wanted))))))))"

definition evaluate_everywhere :: "pylib \<Rightarrow> cform \<Rightarrow> form_inst \<Rightarrow> string \<Rightarrow> form_inst res" where
  "evaluate_everywhere L F S fid =
     (case map_of (cf_fields F) fid of
        None \<Rightarrow> Inl KeyError
      | Some f \<Rightarrow> (case f_repeat f of
          None \<Rightarrow> evaluate_field L F S fid fid None
        | Some r \<Rightarrow> foldM (\<lambda>S iid. evaluate_field L F S fid (inst_path r iid fid) (Some (r, iid)))
            S (inst_list S r)))"

definition recalculate :: "pylib \<Rightarrow> cform \<Rightarrow> form_inst \<Rightarrow> form_inst res" where
  "recalculate L F S =
     rbind (foldM (resolve_rows L F) S (cf_repeats F)) (\<lambda>S.
     rbind (foldM (apply_count L F) S (cf_repeats F)) (\<lambda>S.
       foldM (evaluate_everywhere L F) S (cf_topo_order F)))"

subsection \<open>Operations\<close>

definition min_instances :: "cform \<Rightarrow> form_inst \<Rightarrow> string \<times> dict \<Rightarrow> form_inst res" where
  "min_instances F S rep =
     (case rep of (r, node) \<Rightarrow>
        (if \<not> is_null (jget node ''rowSource'') then Inr S
         else rbind (case map_of node ''minInstances'' of None \<Rightarrow> Inr 0 | Some v \<Rightarrow> py_int v) (\<lambda>k.
           grow F r S (nat k))))"

definition empty_instance :: "cform \<Rightarrow> date \<Rightarrow> string \<Rightarrow> dict \<Rightarrow> dataset_source \<Rightarrow> form_inst" where
  "empty_instance F today now metadata datasets =
     (let top = filter (\<lambda>(i, f). f_repeat f = None) (cf_fields F)
      in \<lparr>i_today = today, i_now = now, i_metadata = metadata, i_datasets = datasets,
          i_instances = map (\<lambda>(r, n). (r, [])) (cf_repeats F), i_row_keys = [], i_row_labels = [],
          i_rows_resolved = [], i_serial = 0, i_values = map (\<lambda>(i, f). (i, JNull)) top,
          i_states = map (\<lambda>(i, f). (i, blank_state i (f_data_type f))) top\<rparr>)"

definition new_instance :: "pylib \<Rightarrow> cform \<Rightarrow> date \<Rightarrow> string \<Rightarrow> dict \<Rightarrow> dataset_source \<Rightarrow> form_inst res" where
  "new_instance L F today now metadata datasets =
     rbind (foldM (min_instances F) (empty_instance F today now metadata datasets) (cf_repeats F))
       (recalculate L F)"

text \<open>\<open>source.get(key, False)\<close> of a row source, as a truth value.\<close>

definition source_permits :: "json \<Rightarrow> string \<Rightarrow> bool res" where
  "source_permits source key = (case source of
     JNull \<Rightarrow> Inr True | JObj d \<Rightarrow> Inr (truthy (jget d key)) | _ \<Rightarrow> Inl AttributeError)"

definition add_instance :: "pylib \<Rightarrow> cform \<Rightarrow> form_inst \<Rightarrow> string \<Rightarrow> (string \<times> form_inst) res" where
  "add_instance L F S r =
     (case map_of (cf_repeats F) r of
        None \<Rightarrow> Inl (CompileError ''unknown repeat'')
      | Some node \<Rightarrow>
          (if \<not> is_null (jget node ''countExpr'')
           then Inl (CompileError ''controlled by countExpr; instances cannot be added'')
           else rbind (source_permits (jget node ''rowSource'') ''allowAdd'') (\<lambda>permitted.
             if \<not> permitted then Inl (CompileError ''rowSource does not permit adding'')
             else rbind (if is_null (jget node ''maxInstances'') then Inr False
                         else rbind (py_int (jget node ''maxInstances''))
                           (\<lambda>m. Inr (m \<le> int (length (inst_list S r))))) (\<lambda>full.
               if full then Inl (CompileError ''at its maximum'')
               else rbind (create_instance F S r JNull) (\<lambda>(iid, S).
                    rbind (recalculate L F S) (\<lambda>S. Inr (iid, S)))))))"

text \<open>\<open>len(present) <= minimum\<close> against a raw value of the document.\<close>

definition at_floor :: "nat \<Rightarrow> json \<Rightarrow> bool res" where
  "at_floor n v = (case v of
     JNull \<Rightarrow> Inr False
   | _ \<Rightarrow> (case eq_num v of Some m \<Rightarrow> Inr (num_le (NInt (int n)) m) | None \<Rightarrow> Inl TypeError))"

definition delete_instance :: "pylib \<Rightarrow> cform \<Rightarrow> form_inst \<Rightarrow> string \<Rightarrow> int \<Rightarrow> form_inst res" where
  "delete_instance L F S r index =
     (case map_of (cf_repeats F) r of
        None \<Rightarrow> Inl (CompileError ''unknown repeat'')
      | Some node \<Rightarrow>
          (if \<not> is_null (jget node ''countExpr'')
           then Inl (CompileError ''controlled by countExpr; instances cannot be removed'')
           else rbind (source_permits (jget node ''rowSource'') ''allowDelete'') (\<lambda>permitted.
             if \<not> permitted then Inl (CompileError ''rowSource does not permit deleting'')
             else if index < 0 \<or> int (length (inst_list S r)) \<le> index
             then Inl (CompileError ''no instance at that position'')
             else rbind (if is_null (jget node ''rowSource'')
                         then at_floor (length (inst_list S r)) (jget node ''minInstances'')
                         else Inr False) (\<lambda>floor.
               if floor then Inl (CompileError ''at its minimum'')
               else let ids = inst_list S r;
                        iid = ids ! nat index;
                        rest = take (nat index) ids @ drop (Suc (nat index)) ids
                    in rbind (assert_creation_order rest) (\<lambda>_.
                       recalculate L F (destroy_instance F
                         (S\<lparr>i_instances := AList.update r rest (i_instances S)\<rparr>) r iid))))))"

definition canonical :: "form_inst \<Rightarrow> string \<Rightarrow> string res" where
  "canonical S path =
     (if contains ''['' path \<and> contains ''].'' path
      then (case split_first ''['' path of
              None \<Rightarrow> Inl ValueError
            | Some (r, rest) \<Rightarrow>
                (case split_first ''].'' rest of
                   None \<Rightarrow> Inl ValueError
                 | Some (index_text, suffix) \<Rightarrow>
                     (case map_of (i_instances S) r of
                        None \<Rightarrow> Inl (CompileError ''unknown repeat'')
                      | Some ids \<Rightarrow>
                          (if py_isdigit index_text
                           then rbind (py_int_of_str index_text) (\<lambda>i.
                             if int (length ids) \<le> i then Inl (CompileError ''no instance at that position'')
                             else Inr (inst_path r (ids ! nat i) suffix))
                           else Inr path))))
      else Inr path)"

definition set_many :: "pylib \<Rightarrow> cform \<Rightarrow> form_inst \<Rightarrow> dict \<Rightarrow> form_inst res" where
  "set_many L F S answers =
     rbind (foldM (\<lambda>S (path, v). rbind (canonical S path) (\<lambda>c.
       if \<not> has_key (i_values S) c then Inl (CompileError ''unknown field'')
       else Inr (S\<lparr>i_values := AList.update c v (i_values S)\<rparr>))) S answers) (recalculate L F)"

definition restore_instance :: "cform \<Rightarrow> string \<Rightarrow> form_inst \<Rightarrow> string \<Rightarrow> form_inst res" where
  "restore_instance F r S iid =
     (if iid \<in> set (inst_list S r) then Inr S
      else let ids = inst_list S r @ [iid];
               S1 = add_cells F r iid (S\<lparr>i_instances := AList.update r ids (i_instances S)\<rparr>)
           in rbind (assert_creation_order ids) (\<lambda>_. Inr (case serial_of iid of
                None \<Rightarrow> S1 | Some n \<Rightarrow> S1\<lparr>i_serial := max (i_serial S1) n\<rparr>)))"

definition restore_repeat :: "cform \<Rightarrow> string list \<times> form_inst \<Rightarrow> string \<times> string list
    \<Rightarrow> (string list \<times> form_inst) res" where
  "restore_repeat F acc rep =
     (case (acc, rep) of ((unplaced, S), (r, ids)) \<Rightarrow>
        (if \<not> has_key (cf_repeats F) r
         then Inr (unplaced @ map (\<lambda>iid. r @ ''['' @ iid @ '']'') ids, S)
         else rbind (foldM (restore_instance F r) S ids) (\<lambda>S. Inr (unplaced, S))))"

fun is_compile_error :: "py_error \<Rightarrow> bool" where
  "is_compile_error (CompileError m) = True"
| "is_compile_error (DocumentError r w) = True"
| "is_compile_error _ = False"

definition restore_answer :: "string list \<times> form_inst \<Rightarrow> string \<times> json \<Rightarrow> (string list \<times> form_inst) res" where
  "restore_answer acc answer =
     (case (acc, answer) of ((unplaced, S), (path, v)) \<Rightarrow>
        (case canonical S path of
           Inl e \<Rightarrow> if is_compile_error e then Inr (unplaced @ [path], S) else Inl e
         | Inr c \<Rightarrow> if \<not> has_key (i_values S) c then Inr (unplaced @ [path], S)
                   else Inr (unplaced, S\<lparr>i_values := AList.update c v (i_values S)\<rparr>)))"

definition restore :: "pylib \<Rightarrow> cform \<Rightarrow> form_inst \<Rightarrow> (string \<times> string list) list \<Rightarrow> dict
    \<Rightarrow> (string list \<times> form_inst) res" where
  "restore L F S instances answers =
     rbind (foldM (restore_repeat F) ([], S) instances) (\<lambda>acc.
     rbind (foldM restore_answer acc answers) (\<lambda>(unplaced, S).
     rbind (recalculate L F S) (\<lambda>S. Inr (unplaced, S))))"

definition row_key :: "form_inst \<Rightarrow> string \<Rightarrow> string \<Rightarrow> json" where
  "row_key S r iid = (case map_of (i_row_keys S) (r, iid) of None \<Rightarrow> JNull | Some k \<Rightarrow> k)"

definition instance_count :: "form_inst \<Rightarrow> string \<Rightarrow> nat" where
  "instance_count S r = length (inst_list S r)"

subsection \<open>Text and choices of a live form\<close>

definition render_of :: "pylib \<Rightarrow> cform \<Rightarrow> form_inst \<Rightarrow> string \<Rightarrow> string \<Rightarrow> string \<Rightarrow> string
    \<Rightarrow> glyph list option res" where
  "render_of L F S fid key args_key language =
     (case map_of (cf_fields F) fid of
        None \<Rightarrow> Inr None
      | Some f \<Rightarrow> rbind (scope_of F S fid) (\<lambda>scope.
          render_field_text L (f_node f) key args_key language (context_of S scope)))"

definition rendered_label :: "pylib \<Rightarrow> cform \<Rightarrow> form_inst \<Rightarrow> string \<Rightarrow> string \<Rightarrow> glyph list option res" where
  "rendered_label L F S fid language = render_of L F S fid ''label'' ''labelArgs'' language"

definition rendered_constraint_message ::
  "pylib \<Rightarrow> cform \<Rightarrow> form_inst \<Rightarrow> string \<Rightarrow> string \<Rightarrow> glyph list option res" where
  "rendered_constraint_message L F S fid language =
     render_of L F S fid ''constraintMessage'' ''constraintMessageArgs'' language"

definition rendered_add_label :: "cform \<Rightarrow> string \<Rightarrow> string \<Rightarrow> string option res" where
  "rendered_add_label F r language =
     (case map_of (cf_repeats F) r of
        None \<Rightarrow> Inl (CompileError ''unknown repeat'')
      | Some node \<Rightarrow> Inr (case jget node ''addLabel'' of
          JObj strings \<Rightarrow> (case jget strings language of JStr t \<Rightarrow> Some t | _ \<Rightarrow> None)
        | _ \<Rightarrow> None))"

text \<open>\<open>any(evaluate(e) is not None for e in args)\<close>, left to right until one is.\<close>

primrec any_answered :: "pylib \<Rightarrow> eval_ctx \<Rightarrow> json list \<Rightarrow> bool res" where
  "any_answered L ctx [] = Inr False"
| "any_answered L ctx (e # es) =
     rbind (evaluate L ctx e) (\<lambda>v. if is_null v then any_answered L ctx es else Inr True)"

definition summary_text :: "pylib \<Rightarrow> form_inst \<Rightarrow> dict \<Rightarrow> string \<Rightarrow> string \<Rightarrow> string \<Rightarrow> glyph list option res" where
  "summary_text L S node r iid language =
     (case jget node ''summaryLabel'' of
        JObj strings \<Rightarrow>
          (if is_str (jget strings language)
           then rbind (list_or_empty (jget node ''summaryLabelArgs'')) (\<lambda>args.
                rbind (if args = [] then Inr True
                       else any_answered L (context_of S (Some (r, iid))) args) (\<lambda>show_it.
                  if show_it then render_field_text L node ''summaryLabel'' ''summaryLabelArgs'' language
                    (context_of S (Some (r, iid)))
                  else Inr None))
           else Inr None)
      | _ \<Rightarrow> Inr None)"

definition summary_label :: "pylib \<Rightarrow> cform \<Rightarrow> form_inst \<Rightarrow> string \<Rightarrow> string \<Rightarrow> string \<Rightarrow> glyph list res" where
  "summary_label L F S r iid language =
     (case map_of (i_instances S) r of
        None \<Rightarrow> Inl (CompileError ''unknown repeat'')
      | Some present \<Rightarrow>
          (if iid \<notin> set present then Inl (CompileError ''no such instance'')
           else rbind (of_option KeyError (map_of (cf_repeats F) r)) (\<lambda>node.
             rbind (summary_text L S node r iid language) (\<lambda>rendered.
               case rendered of
                 Some t \<Rightarrow> Inr t
               | None \<Rightarrow>
                   (case map_of (i_row_labels S) (r, iid) of
                      Some labels \<Rightarrow> (case jget labels language of
                          JStr t \<Rightarrow> Inr (map Ch t)
                        | _ \<Rightarrow> Inr (map Ch (str_of_int (int (Suc (index_of present iid))))))
                    | None \<Rightarrow> Inr (map Ch (str_of_int (int (Suc (index_of present iid))))))))))"

text \<open>An option of a resolved list: its value and its label per language.\<close>

datatype option_label = Given json | PerLanguage "(string \<times> json) list" | Summary "(string \<times> glyph list) list"

record choice_option =
  o_value :: json
  o_label :: option_label

definition rows_label :: "pylib \<Rightarrow> cform \<Rightarrow> form_inst \<Rightarrow> string \<Rightarrow> string \<Rightarrow> (string \<times> glyph list) list res" where
  "rows_label L F S r iid =
     rbind (case map_of (cf_ir F) ''languages'' of None \<Rightarrow> Inr [] | Some v \<Rightarrow> py_iter v) (\<lambda>ls.
     rbind (str_list ls) (\<lambda>languages.
       mapM (\<lambda>l. rbind (summary_label L F S r iid l) (\<lambda>t. Inr (l, t))) languages))"

definition resolution_scope :: "cform \<Rightarrow> form_inst \<Rightarrow> string
    \<Rightarrow> (string \<times> (string \<times> string) option option) res" where
  "resolution_scope F S path =
     (case split_first ''['' path of
        None \<Rightarrow> Inr (path, None)
      | Some (r, rest) \<Rightarrow>
          (case split_first '']'' rest of
             None \<Rightarrow> Inr (path, None)
           | Some (iid, tail) \<Rightarrow>
               (if \<not> (plain_id r \<and> iid \<noteq> [] \<and> starts_with ''.'' tail \<and> plain_id (tl tail))
                then Inr (path, None)
                else case map_of (cf_fields F) (tl tail) of
                  None \<Rightarrow> Inl (CompileError ''unknown field'')
                | Some f \<Rightarrow>
                    (if f_repeat f \<noteq> Some r then Inl (CompileError ''not a field of that repeat'')
                     else if iid \<notin> set (inst_list S r) then Inl (CompileError ''no such instance'')
                     else Inr (tl tail, Some (Some (r, iid)))))))"

definition choices :: "pylib \<Rightarrow> cform \<Rightarrow> form_inst \<Rightarrow> string \<Rightarrow> choice_option list res" where
  "choices L F S path =
     rbind (resolution_scope F S path) (\<lambda>(fid, given).
     rbind (of_option KeyError (map_of (cf_fields F) fid)) (\<lambda>f.
     rbind (case given of Some scope \<Rightarrow> Inr scope | None \<Rightarrow> scope_of F S fid) (\<lambda>scope.
       case f_rows_query f of
         Some q \<Rightarrow>
           rbind (rows_instances L F S q scope None) (\<lambda>ids.
             mapM (\<lambda>iid. rbind (rows_label L F S (r_repeat q) iid) (\<lambda>l.
               Inr \<lparr>o_value = JStr iid, o_label = Summary l\<rparr>)) ids)
       | None \<Rightarrow>
           (case f_choice_query f of
              None \<Rightarrow>
                rbind (items_or_empty (jget (f_node f) ''choices'')) (\<lambda>block.
                rbind (case map_of block ''items'' of None \<Rightarrow> Inr [] | Some v \<Rightarrow> py_iter v) (\<lambda>items.
                  mapM (\<lambda>item. case item of
                      JObj d \<Rightarrow> Inr \<lparr>o_value = jget d ''value'', o_label = Given (jget d ''label'')\<rparr>
                    | _ \<Rightarrow> Inl TypeError) items))
            | Some q \<Rightarrow>
                rbind (candidate_rows L S q scope None) (\<lambda>rows.
                rbind (rows_after_residual L S q scope rows) (\<lambda>kept.
                  Inr (map (\<lambda>row. \<lparr>o_value = jget row (q_value_column q),
                    o_label = PerLanguage (map (\<lambda>(l, c). (l, case c of JStr col \<Rightarrow> jget row col | _ \<Rightarrow> JNull))
                      (q_label_columns q))\<rparr>) kept)))))))"

subsection \<open>Output\<close>

definition is_valid :: "form_inst \<Rightarrow> bool" where
  "is_valid S = list_all (\<lambda>(p, st). s_relevant st \<longrightarrow> s_valid st) (i_states S)"

definition answers :: "form_inst \<Rightarrow> bool \<Rightarrow> dict" where
  "answers S include_irrelevant =
     map (\<lambda>(p, st). (p, s_value st)) (filter (\<lambda>(p, st). include_irrelevant \<or> s_relevant st) (i_states S))"

end
