(* ===== verification/Step_System.thy ===== *)
theory Step_System
  imports Main
begin

text \<open>
  State machines: the states reachable from a start by steps, and the two contracts the components
  discharge for their own steps. A component gives its start states, its step relation and an
  invariant; what holds of every reachable state, and what only grows along a run, follows once.
\<close>

inductive reachable :: "('s \<Rightarrow> bool) \<Rightarrow> ('s \<Rightarrow> 's \<Rightarrow> bool) \<Rightarrow> 's \<Rightarrow> bool"
  for start :: "'s \<Rightarrow> bool" and step :: "'s \<Rightarrow> 's \<Rightarrow> bool"
where
  reach_start: "start s \<Longrightarrow> reachable start step s"
| reach_step: "reachable start step s \<Longrightarrow> step s t \<Longrightarrow> reachable start step t"

lemma reachable_run: "step\<^sup>*\<^sup>* s t \<Longrightarrow> reachable start step s \<Longrightarrow> reachable start step t"
  by (induction rule: rtranclp_induct) (auto intro: reach_step)

locale step_system =
  fixes start :: "'s \<Rightarrow> bool" and step :: "'s \<Rightarrow> 's \<Rightarrow> bool" and inv :: "'s \<Rightarrow> bool"
  assumes start_inv: "start s \<Longrightarrow> inv s"
    and step_inv: "inv s \<Longrightarrow> step s t \<Longrightarrow> inv t"
begin

lemma reachable_inv: "reachable start step s \<Longrightarrow> inv s"
  by (induction rule: reachable.induct) (auto intro: start_inv step_inv)

lemma run_inv: "step\<^sup>*\<^sup>* s t \<Longrightarrow> inv s \<Longrightarrow> inv t"
  by (induction rule: rtranclp_induct) (auto intro: step_inv)

end

text \<open>A quantity no step lowers.\<close>

locale growing_system = step_system start step inv
  for start :: "'s \<Rightarrow> bool" and step :: "'s \<Rightarrow> 's \<Rightarrow> bool" and inv :: "'s \<Rightarrow> bool" +
  fixes level :: "'s \<Rightarrow> 'o :: order"
  assumes step_grows: "inv s \<Longrightarrow> step s t \<Longrightarrow> level s \<le> level t"
begin

lemma run_grows: "step\<^sup>*\<^sup>* s t \<Longrightarrow> inv s \<Longrightarrow> level s \<le> level t"
proof (induction rule: rtranclp_induct)
  case (step t u)
  then show ?case using run_inv [of s t] step_grows [of t u] by (meson order_trans)
qed simp

lemma reachable_grows: "reachable start step s \<Longrightarrow> step\<^sup>*\<^sup>* s t \<Longrightarrow> level s \<le> level t"
  using reachable_inv run_grows by blast

end

end
