(* ===== verification/Instance_Laws.thy ===== *)
theory Instance_Laws
  imports Instance_Runtime Step_System
begin

text \<open>
  Laws of the live form: what one recalculation settles, the invariant every operation keeps,
  and the identity of repeat instances.
\<close>

subsection \<open>Paths\<close>

definition clean :: "string \<Rightarrow> bool" where
  "clean s \<longleftrightarrow> CHR ''['' \<notin> set s \<and> CHR '']'' \<notin> set s"

lemma clean_id: "id_pattern s \<Longrightarrow> clean s"
proof -
  have *: "\<not> is_lower CHR ''[''" "\<not> is_lower CHR '']''" "\<not> is_digit CHR ''[''" "\<not> is_digit CHR '']''"
    by code_simp+
  have plain: "clean t" if "plain_id t" for t
    using that * by (cases t) (auto simp: plain_id_def clean_def list_all_iff)
  assume "id_pattern s"
  then show "clean s"
  proof (unfold id_pattern_def, elim disjE conjE)
    assume "s \<noteq> []" "last s = CHR 0x0A" "plain_id (butlast s)"
    then show "clean s"
      using plain [of "butlast s"] append_butlast_last_id [of s, symmetric]
      by (cases s rule: rev_cases) (auto simp: clean_def)
  qed (rule plain)
qed

lemma suffix_unique:
  assumes "xs @ '']'' @ ''.'' @ d = ys @ '']'' @ ''.'' @ g" and "CHR '']'' \<notin> set d" "CHR '']'' \<notin> set g"
  shows "xs = ys \<and> d = g"
proof -
  have tw: "takeWhile (\<lambda>c. c \<noteq> CHR '']'') (rev (zs @ '']'' @ ''.'' @ e)) = rev (''.'' @ e)"
    if "CHR '']'' \<notin> set e" for zs e
    using that by (simp add: takeWhile_append takeWhile_eq_all_conv [THEN iffD2])
  have "rev (''.'' @ d) = rev (''.'' @ g)"
    unfolding tw [OF assms(2), of xs, symmetric] tw [OF assms(3), of ys, symmetric] assms(1) ..
  then have "d = g" by simp
  then show ?thesis using assms(1) by simp
qed

lemma prefix_unique:
  assumes "r @ ''['' @ xs = r' @ ''['' @ ys" and "CHR ''['' \<notin> set r" "CHR ''['' \<notin> set r'"
  shows "r = r' \<and> xs = ys"
proof -
  have tw: "takeWhile (\<lambda>c. c \<noteq> CHR ''['') (p @ ''['' @ zs) = p" if "CHR ''['' \<notin> set p" for p zs
    using that by (simp add: takeWhile_append takeWhile_eq_all_conv [THEN iffD2])
  have "r = r'" using tw [OF assms(2), of xs] tw [OF assms(3), of ys] assms(1) by metis
  then show ?thesis using assms(1) by simp
qed

lemma inst_path_field: "inst_path r i d = inst_path r' i' g \<Longrightarrow> clean d \<Longrightarrow> clean g \<Longrightarrow> d = g"
  using suffix_unique [of "r @ ''['' @ i" d "r' @ ''['' @ i'" g] by (auto simp: inst_path_def clean_def)

lemma inst_path_inj:
  assumes "inst_path r i d = inst_path r' i' g" "clean d" "clean g" "clean r" "clean r'"
  shows "r = r' \<and> i = i' \<and> d = g"
proof -
  have "r @ ''['' @ i = r' @ ''['' @ i' \<and> d = g"
    using assms suffix_unique [of "r @ ''['' @ i" d "r' @ ''['' @ i'" g]
    by (auto simp: inst_path_def clean_def)
  then show ?thesis using assms prefix_unique [of r i r' i'] by (auto simp: clean_def)
qed

lemma inst_path_not_clean: "\<not> clean (inst_path r i d)"
  by (simp add: inst_path_def clean_def)

subsection \<open>What evaluating a field touches\<close>

text \<open>Two dictionaries hold the same under a field's name, at the top level and in every
  instance.\<close>

definition agree :: "string \<Rightarrow> (string \<times> 'a) list \<Rightarrow> (string \<times> 'a) list \<Rightarrow> bool" where
  "agree d a b \<longleftrightarrow> map_of a d = map_of b d \<and>
     (\<forall>r i. map_of a (inst_path r i d) = map_of b (inst_path r i d))"

lemma agree_same_field: "agree d v w = same_field d v w"
  by (simp add: agree_def same_field_def)

lemma agree_refl [simp]: "agree d a a"
  by (simp add: agree_def)

lemma agree_trans: "agree d a b \<Longrightarrow> agree d b c \<Longrightarrow> agree d a c"
  by (simp add: agree_def)

text \<open>A place of a field: its own name, or its cell in an instance.\<close>

definition place :: "string \<Rightarrow> string \<Rightarrow> bool" where
  "place fid path \<longleftrightarrow> path = fid \<or> (\<exists>r i. path = inst_path r i fid)"

lemma agree_update:
  assumes "place fid path" "clean fid" "clean d" "d \<noteq> fid"
  shows "agree d a (AList.update path v a)"
  using assms inst_path_not_clean inst_path_field
  by (auto simp: agree_def place_def update_conv' ; metis)

definition only_cells :: "form_inst \<Rightarrow> form_inst \<Rightarrow> bool" where
  "only_cells S S' \<longleftrightarrow> S' = S\<lparr>i_values := i_values S', i_states := i_states S'\<rparr>"

lemma only_cells_refl [simp]: "only_cells S S"
  by (simp add: only_cells_def)

lemma only_cells_trans: "only_cells S S' \<Longrightarrow> only_cells S' S'' \<Longrightarrow> only_cells S S''"
  unfolding only_cells_def by (metis (no_types) form_inst.unfold_congs(10,11) form_inst.surjective form_inst.update_convs(10,11))

lemma only_cells_inst: "only_cells S S' \<Longrightarrow> inst_list S' r = inst_list S r"
  unfolding only_cells_def inst_list_def by (metis form_inst.select_convs(5) form_inst.surjective form_inst.update_convs(10,11))

lemma only_cells_frame: "only_cells S S' \<Longrightarrow> same_frame (context_of S scope) (context_of S' scope)"
  unfolding only_cells_def by (cases S; cases S') (simp add: same_frame_def context_of_def)


lemma evaluate_field_parts:
  assumes "evaluate_field L F S fid path scope = Inr S'"
  obtains f st relevant S1 v required read_only errors where
    "map_of (cf_fields F) fid = Some f" "map_of (i_states S) path = Some st"
    "field_relevant L F f (context_of S scope) = Inr relevant"
    "if relevant \<and> \<not> is_null (jget (f_node f) ''calculate'')
      then \<exists>w. evaluate L (context_of S scope) (jget (f_node f) ''calculate'') = Inr w \<and>
        S1 = S\<lparr>i_values := AList.update path w (i_values S)\<rparr> \<and> w = v
      else S1 = S"
    "map_of (i_values S1) path = Some v"
    "flag L (context_of S1 scope) (jget (f_node f) ''required'') = Inr required"
    "flag L (context_of S1 scope) (jget (f_node f) ''readOnly'') = Inr read_only"
    "(if relevant then field_errors L F S1 f scope required v else Inr []) = Inr errors"
    "S' = S1\<lparr>i_states := AList.update path
         (st\<lparr>s_relevant := relevant, s_required := required, s_read_only := read_only,
             s_value := v, s_valid := (errors = []), s_errors := errors\<rparr>) (i_states S1)\<rparr>"
proof -
  obtain f st relevant S1 v required read_only errors where
    *: "map_of (cf_fields F) fid = Some f" "map_of (i_states S) path = Some st"
    "field_relevant L F f (context_of S scope) = Inr relevant"
    "(if relevant \<and> \<not> is_null (jget (f_node f) ''calculate'')
            then rbind (evaluate L (context_of S scope) (jget (f_node f) ''calculate'')) (\<lambda>v.
              Inr (S\<lparr>i_values := AList.update path v (i_values S)\<rparr>))
            else Inr S) = Inr S1"
    "map_of (i_values S1) path = Some v"
    "flag L (context_of S1 scope) (jget (f_node f) ''required'') = Inr required"
    "flag L (context_of S1 scope) (jget (f_node f) ''readOnly'') = Inr read_only"
    "(if relevant then field_errors L F S1 f scope required v else Inr []) = Inr errors"
    "S' = S1\<lparr>i_states := AList.update path
         (st\<lparr>s_relevant := relevant, s_required := required, s_read_only := read_only,
             s_value := v, s_valid := (errors = []), s_errors := errors\<rparr>) (i_states S1)\<rparr>"
    using assms unfolding evaluate_field_def rbind_Inr_iff of_option_Inr_iff by (elim exE conjE) simp
  show thesis
    by (rule that [OF *(1-3) _ *(5-9)]) (use *(4,5) in \<open>auto simp: rbind_Inr_iff update_conv' split: if_splits\<close>)
qed

lemma evaluate_field_touches:
  assumes "evaluate_field L F S fid path scope = Inr S'"
  shows "only_cells S S'" "p \<noteq> path \<Longrightarrow> map_of (i_values S') p = map_of (i_values S) p"
    "p \<noteq> path \<Longrightarrow> map_of (i_states S') p = map_of (i_states S) p"
proof -
  show "only_cells S S'"
    by (rule evaluate_field_parts [OF assms]) (auto simp: only_cells_def split: if_splits)
  show "p \<noteq> path \<Longrightarrow> map_of (i_values S') p = map_of (i_values S) p"
    by (rule evaluate_field_parts [OF assms]) (auto simp: update_conv' split: if_splits)
  show "p \<noteq> path \<Longrightarrow> map_of (i_states S') p = map_of (i_states S) p"
    by (rule evaluate_field_parts [OF assms]) (auto simp: update_conv' split: if_splits)
qed

subsection \<open>Settled fields\<close>

text \<open>An expression whose references name fields of the form.\<close>

definition refs_in :: "string list \<Rightarrow> json \<Rightarrow> bool" where
  "refs_in ds e \<longleftrightarrow> list_all plain_path (paths e) \<and> set (collect_refs e) \<subseteq> set ds"

lemma evaluate_agree:
  assumes "refs_in ds e" "only_cells S S'" "\<forall>d \<in> set ds. agree d (i_values S) (i_values S')"
  shows "evaluate L (context_of S scope) e = evaluate L (context_of S' scope) e"
  using assms by (intro evaluate_frame only_cells_frame)
    (auto simp: refs_in_def context_of_def agree_same_field)

text \<open>The expressions that decide one field's relevance, value, flags and constraint.\<close>

definition field_exprs :: "cform \<Rightarrow> compiled_field \<Rightarrow> json list" where
  "field_exprs F f =
     map (jget (f_node f)) [''relevant'', ''calculate'', ''required'', ''readOnly'', ''constraint''] @
     map (\<lambda>a. case map_of (cf_containers F) a of None \<Rightarrow> JNull | Some n \<Rightarrow> jget n ''relevant'') (f_ancestors f)"

definition field_refs_in :: "cform \<Rightarrow> compiled_field \<Rightarrow> string list \<Rightarrow> bool" where
  "field_refs_in F f ds \<longleftrightarrow> list_all (refs_in ds) (field_exprs F f)"

lemma all_relevant_agree:
  assumes "\<And>c n. c \<in> set cs \<Longrightarrow> map_of (cf_containers F) c = Some n \<Longrightarrow> refs_in ds (jget n ''relevant'')"
    and "only_cells S S'" "\<forall>d \<in> set ds. agree d (i_values S) (i_values S')"
  shows "all_relevant L F (context_of S scope) cs = all_relevant L F (context_of S' scope) cs"
  using assms(1)
proof (induction cs)
  case (Cons c cs)
  show ?case
  proof (cases "map_of (cf_containers F) c")
    case (Some n)
    then have "evaluate L (context_of S scope) (jget n ''relevant'') = evaluate L (context_of S' scope) (jget n ''relevant'')"
      using Cons.prems [of c n] by (intro evaluate_agree [OF _ assms(2,3)]) auto
    moreover have "all_relevant L F (context_of S scope) cs = all_relevant L F (context_of S' scope) cs"
      using Cons.prems by (intro Cons.IH) auto
    ultimately show ?thesis using Some by (simp cong: if_cong)
  next
    case None
    moreover have "all_relevant L F (context_of S scope) cs = all_relevant L F (context_of S' scope) cs"
      using Cons.prems by (intro Cons.IH) auto
    ultimately show ?thesis by simp
  qed
qed simp

lemma field_refs_inD:
  assumes "field_refs_in F f ds"
  shows "refs_in ds (jget (f_node f) ''relevant'')" "refs_in ds (jget (f_node f) ''calculate'')"
    "refs_in ds (jget (f_node f) ''required'')" "refs_in ds (jget (f_node f) ''readOnly'')"
    "refs_in ds (jget (f_node f) ''constraint'')"
    "c \<in> set (f_ancestors f) \<Longrightarrow> map_of (cf_containers F) c = Some n \<Longrightarrow> refs_in ds (jget n ''relevant'')"
  using assms by (auto simp: field_refs_in_def field_exprs_def list_all_iff)

lemma field_relevant_agree:
  assumes "field_refs_in F f ds" "only_cells S S'" "\<forall>d \<in> set ds. agree d (i_values S) (i_values S')"
  shows "field_relevant L F f (context_of S scope) = field_relevant L F f (context_of S' scope)"
proof -
  have "all_relevant L F (context_of S scope) (f_ancestors f) = all_relevant L F (context_of S' scope) (f_ancestors f)"
    using field_refs_inD(6) [OF assms(1)] by (intro all_relevant_agree [OF _ assms(2,3)])
  moreover have "evaluate L (context_of S scope) (jget (f_node f) ''relevant'') =
      evaluate L (context_of S' scope) (jget (f_node f) ''relevant'')"
    by (rule evaluate_agree [OF field_refs_inD(1) [OF assms(1)] assms(2,3)])
  ultimately show ?thesis by (simp add: field_relevant_def cong: if_cong)
qed

lemma flag_agree:
  assumes "refs_in ds e" "only_cells S S'" "\<forall>d \<in> set ds. agree d (i_values S) (i_values S')"
  shows "flag L (context_of S scope) e = flag L (context_of S' scope) e"
  using evaluate_agree [OF assms, of L scope] by (cases e) (simp_all add: flag_def)

lemma constraint_errors_agree:
  assumes "refs_in ds (jget node ''constraint'')" "only_cells S S'" "\<forall>d \<in> set ds. agree d (i_values S) (i_values S')"
  shows "constraint_errors L (context_of S scope) node v = constraint_errors L (context_of S' scope) node v"
  using evaluate_agree [OF assms] by (simp add: constraint_errors_def)

text \<open>What a recalculated state says of one field at one place: everything reported of it is
  what its expressions evaluate to in that very state.\<close>

definition settled :: "pylib \<Rightarrow> cform \<Rightarrow> form_inst \<Rightarrow> compiled_field \<Rightarrow> string \<Rightarrow> (string \<times> string) option \<Rightarrow> bool" where
  "settled L F S f path scope \<longleftrightarrow> (\<exists>st fe. map_of (i_states S) path = Some st \<and>
     map_of (i_values S) path = Some (s_value st) \<and>
     field_relevant L F f (context_of S scope) = Inr (s_relevant st) \<and>
     (s_relevant st \<and> \<not> is_null (jget (f_node f) ''calculate'') \<longrightarrow>
        evaluate L (context_of S scope) (jget (f_node f) ''calculate'') = Inr (s_value st)) \<and>
     flag L (context_of S scope) (jget (f_node f) ''required'') = Inr (s_required st) \<and>
     flag L (context_of S scope) (jget (f_node f) ''readOnly'') = Inr (s_read_only st) \<and>
     s_valid st = (s_errors st = []) \<and>
     (if s_relevant st
      then constraint_errors L (context_of S scope) (f_node f) (s_value st) = Inr fe \<and> set fe \<subseteq> set (s_errors st) \<and>
        (s_required st \<and> is_null (s_value st) \<longrightarrow> ERequired \<in> set (s_errors st))
      else s_errors st = []))"

lemma settled_agree:
  assumes "settled L F S f path scope" "field_refs_in F f ds" "only_cells S S'"
    "\<forall>d \<in> set ds. agree d (i_values S) (i_values S')"
    "map_of (i_values S') path = map_of (i_values S) path"
    "map_of (i_states S') path = map_of (i_states S) path"
  shows "settled L F S' f path scope"
  unfolding settled_def assms(5,6)
    field_relevant_agree [OF assms(2,3,4), symmetric]
    evaluate_agree [OF field_refs_inD(2) [OF assms(2)] assms(3,4), symmetric]
    flag_agree [OF field_refs_inD(3) [OF assms(2)] assms(3,4), symmetric]
    flag_agree [OF field_refs_inD(4) [OF assms(2)] assms(3,4), symmetric]
    constraint_errors_agree [OF field_refs_inD(5) [OF assms(2)] assms(3,4), symmetric]
  using assms(1) [unfolded settled_def] .

lemma evaluate_field_settles:
  assumes ev: "evaluate_field L F S fid path scope = Inr S'" and f: "map_of (cf_fields F) fid = Some f"
    and refs: "field_refs_in F f ds" and ag: "\<forall>d \<in> set ds. agree d (i_values S) (i_values S')"
  shows "settled L F S' f path scope"
proof -
  obtain f' st relevant S1 v required read_only errors where
    p: "map_of (cf_fields F) fid = Some f'" "map_of (i_states S) path = Some st"
    "field_relevant L F f' (context_of S scope) = Inr relevant"
    "if relevant \<and> \<not> is_null (jget (f_node f') ''calculate'')
      then \<exists>w. evaluate L (context_of S scope) (jget (f_node f') ''calculate'') = Inr w \<and>
        S1 = S\<lparr>i_values := AList.update path w (i_values S)\<rparr> \<and> w = v
      else S1 = S"
    "map_of (i_values S1) path = Some v"
    "flag L (context_of S1 scope) (jget (f_node f') ''required'') = Inr required"
    "flag L (context_of S1 scope) (jget (f_node f') ''readOnly'') = Inr read_only"
    "(if relevant then field_errors L F S1 f' scope required v else Inr []) = Inr errors"
    "S' = S1\<lparr>i_states := AList.update path
         (st\<lparr>s_relevant := relevant, s_required := required, s_read_only := read_only,
             s_value := v, s_valid := (errors = []), s_errors := errors\<rparr>) (i_states S1)\<rparr>"
    using evaluate_field_parts [OF ev] .
  have [simp]: "f' = f" using p(1) f by simp
  have oc: "only_cells S S'" using evaluate_field_touches(1) [OF ev] .
  have ctx: "context_of S' = context_of S1" by (simp add: p(9) context_of_def fun_eq_iff)
  let ?st = "st\<lparr>s_relevant := relevant, s_required := required, s_read_only := read_only,
             s_value := v, s_valid := (errors = []), s_errors := errors\<rparr>"
  obtain fe where fe: "if relevant
      then constraint_errors L (context_of S1 scope) (f_node f) v = Inr fe \<and> set fe \<subseteq> set errors \<and>
        (required \<and> is_null v \<longrightarrow> ERequired \<in> set errors)
      else errors = []"
  proof -
    have "\<exists>fe. if relevant
      then constraint_errors L (context_of S1 scope) (f_node f) v = Inr fe \<and> set fe \<subseteq> set errors \<and>
        (required \<and> is_null v \<longrightarrow> ERequired \<in> set errors)
      else errors = []"
      using p(8) by (cases relevant) (auto simp: field_errors_def rbind_Inr_iff)
    with that show thesis by blast
  qed
  have calc: "relevant \<and> \<not> is_null (jget (f_node f) ''calculate'') \<longrightarrow>
      evaluate L (context_of S' scope) (jget (f_node f) ''calculate'') = Inr v"
    using p(4) evaluate_agree [OF field_refs_inD(2) [OF refs] oc ag, of L scope] by auto
  show ?thesis
    unfolding settled_def
  proof -
    have "map_of (i_states S') path = Some ?st" "map_of (i_values S') path = Some v"
      using p(5,9) by (auto simp: update_conv')
    moreover have "field_relevant L F f (context_of S' scope) = Inr relevant"
      using p(3) field_relevant_agree [OF refs oc ag, of L scope] by simp
    ultimately show "\<exists>st fe. map_of (i_states S') path = Some st \<and>
     map_of (i_values S') path = Some (s_value st) \<and>
     field_relevant L F f (context_of S' scope) = Inr (s_relevant st) \<and>
     (s_relevant st \<and> \<not> is_null (jget (f_node f) ''calculate'') \<longrightarrow>
        evaluate L (context_of S' scope) (jget (f_node f) ''calculate'') = Inr (s_value st)) \<and>
     flag L (context_of S' scope) (jget (f_node f) ''required'') = Inr (s_required st) \<and>
     flag L (context_of S' scope) (jget (f_node f) ''readOnly'') = Inr (s_read_only st) \<and>
     s_valid st = (s_errors st = []) \<and>
     (if s_relevant st
      then constraint_errors L (context_of S' scope) (f_node f) (s_value st) = Inr fe \<and> set fe \<subseteq> set (s_errors st) \<and>
        (s_required st \<and> is_null (s_value st) \<longrightarrow> ERequired \<in> set (s_errors st))
      else s_errors st = [])"
      using fe calc p(6,7) by (intro exI [of _ ?st] exI [of _ fe]) (auto simp: ctx split: if_splits)
  qed
qed

subsection \<open>The pass in topological order\<close>

text \<open>Where a field lives in a state, with the scope it is evaluated in.\<close>

definition places :: "form_inst \<Rightarrow> string \<Rightarrow> compiled_field \<Rightarrow> (string \<times> (string \<times> string) option) list" where
  "places S fid f = (case f_repeat f of
     None \<Rightarrow> [(fid, None)]
   | Some r \<Rightarrow> map (\<lambda>iid. (inst_path r iid fid, Some (r, iid))) (inst_list S r))"

lemma foldM_map: "foldM g s (map h xs) = foldM (\<lambda>s x. g s (h x)) s xs"
  by (induction xs arbitrary: s) auto

lemma evaluate_everywhere_places:
  assumes "map_of (cf_fields F) fid = Some f"
  shows "evaluate_everywhere L F S fid =
    foldM (\<lambda>S (path, scope). evaluate_field L F S fid path scope) S (places S fid f)"
  using assms by (simp add: evaluate_everywhere_def places_def rbind_Inr_right foldM_map split: option.split)

lemma places_place: "(path, scope) \<in> set (places S fid f) \<Longrightarrow> place fid path"
  by (auto simp: places_def place_def split: option.splits)

lemma places_only_cells: "only_cells S S' \<Longrightarrow> places S' fid f = places S fid f"
  by (simp add: places_def only_cells_inst split: option.split)

lemma distinct_places:
  assumes "\<And>r. distinct (inst_list S r)" "clean fid" "\<And>r. f_repeat f = Some r \<Longrightarrow> clean r"
  shows "distinct (map fst (places S fid f))"
  using assms
  by (auto simp: places_def distinct_map comp_def inj_on_def split: option.split dest: inst_path_inj)

text \<open>Evaluating a field at a list of its places changes those cells alone.\<close>

lemma evaluate_places:
  assumes "foldM (\<lambda>S (path, scope). evaluate_field L F S fid path scope) S ps = Inr S'"
  shows "only_cells S S' \<and> (\<forall>p. p \<notin> fst ` set ps \<longrightarrow>
    map_of (i_values S') p = map_of (i_values S) p \<and> map_of (i_states S') p = map_of (i_states S) p)"
  using assms
proof (induction ps arbitrary: S)
  case (Cons x ps)
  obtain path scope where x: "x = (path, scope)" by force
  obtain S1 where S1: "evaluate_field L F S fid path scope = Inr S1"
      "foldM (\<lambda>S (path, scope). evaluate_field L F S fid path scope) S1 ps = Inr S'"
    using Cons.prems by (auto simp: x rbind_Inr_iff)
  show ?case
    using Cons.IH [OF S1(2)] evaluate_field_touches [OF S1(1)] only_cells_trans [of S S1 S']
    by (auto simp: x)
qed simp

lemma agree_places:
  assumes "\<forall>p. p \<notin> fst ` set ps \<longrightarrow> map_of b p = map_of a p"
    and "\<forall>p \<in> fst ` set ps. place fid p" "clean fid" "clean d" "d \<noteq> fid"
  shows "agree d a b"
proof -
  have "d \<notin> fst ` set ps" "inst_path r i d \<notin> fst ` set ps" for r i
    using assms(2-) inst_path_not_clean inst_path_field unfolding place_def by metis+
  then show ?thesis using assms(1) by (simp add: agree_def)
qed

text \<open>A field that is not calculated changes no value, so its expressions may name the field itself,
  as a constraint on an answer does.\<close>

lemma evaluate_field_inert:
  assumes "evaluate_field L F S fid path scope = Inr S'" "map_of (cf_fields F) fid = Some f"
    "is_null (jget (f_node f) ''calculate'')"
  shows "i_values S' = i_values S"
  by (rule evaluate_field_parts [OF assms(1)]) (use assms(2,3) in auto)

lemma evaluate_places_inert:
  assumes "foldM (\<lambda>S (path, scope). evaluate_field L F S fid path scope) S ps = Inr S'"
    "map_of (cf_fields F) fid = Some f" "is_null (jget (f_node f) ''calculate'')"
  shows "i_values S' = i_values S"
  using assms(1)
  by (induction ps arbitrary: S)
    (auto simp: rbind_Inr_iff split: prod.splits dest: evaluate_field_inert [OF _ assms(2,3)])

definition self_safe :: "compiled_field \<Rightarrow> string \<Rightarrow> string list \<Rightarrow> bool" where
  "self_safe f fid ds \<longleftrightarrow> fid \<notin> set ds \<or> is_null (jget (f_node f) ''calculate'')"

lemma evaluate_places_agree:
  assumes "foldM (\<lambda>S (path, scope). evaluate_field L F S fid path scope) S ps = Inr S'"
    and "map_of (cf_fields F) fid = Some f" "self_safe f fid ds" "list_all clean ds" "clean fid"
    and "\<forall>p \<in> fst ` set ps. place fid p"
  shows "\<forall>d \<in> set ds. agree d (i_values S) (i_values S')"
proof
  fix d assume d: "d \<in> set ds"
  show "agree d (i_values S) (i_values S')"
  proof (cases "is_null (jget (f_node f) ''calculate'')")
    case True
    then show ?thesis using evaluate_places_inert [OF assms(1,2)] by simp
  next
    case False
    then have "d \<noteq> fid" using assms(3) d by (auto simp: self_safe_def)
    then show ?thesis
      using assms(4-6) d evaluate_places [OF assms(1)]
      by (intro agree_places [of ps _ _ fid]) (auto simp: list_all_iff)
  qed
qed

lemma evaluate_places_settles:
  assumes "foldM (\<lambda>S (path, scope). evaluate_field L F S fid path scope) S ps = Inr S'"
    and "map_of (cf_fields F) fid = Some f" "field_refs_in F f ds" "list_all clean ds" "clean fid" "self_safe f fid ds"
    and "distinct (map fst ps)" "\<forall>p \<in> fst ` set ps. place fid p"
  shows "\<forall>(path, scope) \<in> set ps. settled L F S' f path scope"
  using assms(1,7,8)
proof (induction ps arbitrary: S)
  case (Cons x ps)
  obtain path scope where x: "x = (path, scope)" by force
  obtain S1 where S1: "evaluate_field L F S fid path scope = Inr S1"
      "foldM (\<lambda>S (path, scope). evaluate_field L F S fid path scope) S1 ps = Inr S'"
    using Cons.prems by (auto simp: x rbind_Inr_iff)
  have ag: "\<forall>d \<in> set ds. agree d (i_values S) (i_values S1)"
    using S1(1) Cons.prems(3)
    by (intro evaluate_places_agree [of L F fid S "[(path, scope)]", OF _ assms(2,6,4,5)]) (auto simp: x)
  note ev = evaluate_places [OF S1(2)]
  have ag': "\<forall>d \<in> set ds. agree d (i_values S1) (i_values S')"
    using Cons.prems(3) by (intro evaluate_places_agree [OF S1(2) assms(2,6,4,5)]) simp
  have "path \<notin> fst ` set ps" using Cons.prems(2) by (simp add: x)
  then have "settled L F S' f path scope"
    using ev by (intro settled_agree [OF evaluate_field_settles [OF S1(1) assms(2,3) ag] assms(3) _ ag']) auto
  moreover have "\<forall>(path, scope) \<in> set ps. settled L F S' f path scope"
    using Cons.prems by (intro Cons.IH [OF S1(2)]) auto
  ultimately show ?case by (simp add: x)
qed simp

text \<open>The fields each field's expressions read. \<open>dep f\<close> is any list that covers them.\<close>

lemma pass_settles:
  assumes "foldM (evaluate_everywhere L F) S fids = Inr S'"
    and "\<And>fid f. fid \<in> set fids \<union> set placed \<Longrightarrow> map_of (cf_fields F) fid = Some f \<Longrightarrow>
      field_refs_in F f (dep fid) \<and> list_all clean (dep fid) \<and> clean fid \<and> self_safe f fid (dep fid) \<and>
      (\<forall>r. f_repeat f = Some r \<longrightarrow> clean r)"
    and "\<And>i d. i < length (placed @ fids) \<Longrightarrow> d \<in> set (dep ((placed @ fids) ! i)) \<Longrightarrow>
      d \<noteq> (placed @ fids) ! i \<Longrightarrow> d \<in> set (take i (placed @ fids))"
    and "distinct (placed @ fids)" "\<And>r. distinct (inst_list S r)"
    and "\<And>fid f path scope. fid \<in> set placed \<Longrightarrow> map_of (cf_fields F) fid = Some f \<Longrightarrow>
      (path, scope) \<in> set (places S fid f) \<Longrightarrow> settled L F S f path scope"
  shows "only_cells S S' \<and> (\<forall>fid f path scope. fid \<in> set (placed @ fids) \<longrightarrow> map_of (cf_fields F) fid = Some f \<longrightarrow>
      (path, scope) \<in> set (places S' fid f) \<longrightarrow> settled L F S' f path scope)"
  using assms
proof (induction fids arbitrary: S placed)
  case (Cons g fids)
  obtain S1 where S1: "evaluate_everywhere L F S g = Inr S1" "foldM (evaluate_everywhere L F) S1 fids = Inr S'"
    using Cons.prems(1) by (auto simp: rbind_Inr_iff)
  obtain fg where fg: "map_of (cf_fields F) g = Some fg"
    using S1(1) by (cases "map_of (cf_fields F) g") (auto simp: evaluate_everywhere_def)
  have ps: "foldM (\<lambda>S (path, scope). evaluate_field L F S g path scope) S (places S g fg) = Inr S1"
    using S1(1) evaluate_everywhere_places [OF fg] by simp
  note ev = evaluate_places [OF ps]
  have g: "field_refs_in F fg (dep g)" "list_all clean (dep g)" "clean g" "self_safe fg g (dep g)"
      "\<And>r. f_repeat fg = Some r \<Longrightarrow> clean r"
    using Cons.prems(2) [of g fg] fg by auto
  have pl: "\<forall>p \<in> fst ` set (places S g fg). place g p" using places_place by force
  have settled_g: "\<forall>(path, scope) \<in> set (places S g fg). settled L F S1 fg path scope"
    using evaluate_places_settles [OF ps fg g(1-4) distinct_places [OF Cons.prems(5) g(3,5)] pl] .
  have pl1: "places S1 fid f = places S fid f" for fid f using ev places_only_cells by blast
  have "only_cells S1 S' \<and> (\<forall>fid f path scope. fid \<in> set ((placed @ [g]) @ fids) \<longrightarrow> map_of (cf_fields F) fid = Some f \<longrightarrow>
      (path, scope) \<in> set (places S' fid f) \<longrightarrow> settled L F S' f path scope)"
  proof (rule Cons.IH [OF S1(2)])
    show "field_refs_in F f (dep fid) \<and> list_all clean (dep fid) \<and> clean fid \<and> self_safe f fid (dep fid) \<and>
        (\<forall>r. f_repeat f = Some r \<longrightarrow> clean r)"
      if "fid \<in> set fids \<union> set (placed @ [g])" "map_of (cf_fields F) fid = Some f" for fid f
      using Cons.prems(2) [of fid f] that by simp
    show "d \<in> set (take i ((placed @ [g]) @ fids))"
      if "i < length ((placed @ [g]) @ fids)" "d \<in> set (dep (((placed @ [g]) @ fids) ! i))"
        "d \<noteq> ((placed @ [g]) @ fids) ! i" for i d
      using Cons.prems(3) [of i d] that
      by (simp only: append_assoc append_Cons append_Nil simp_thms)
    show "distinct ((placed @ [g]) @ fids)"
      using Cons.prems(4) by (simp only: append_assoc append_Cons append_Nil)
    show "distinct (inst_list S1 r)" for r using Cons.prems(5) ev only_cells_inst by metis
    show "settled L F S1 f path scope"
      if "fid \<in> set (placed @ [g])" "map_of (cf_fields F) fid = Some f" "(path, scope) \<in> set (places S1 fid f)"
      for fid f path scope
    proof (cases "fid = g")
      case True
      then show ?thesis using that fg settled_g by (auto simp: pl1)
    next
      case False
      note prems = that
      then have old: "fid \<in> set placed" using False by simp
      have f: "field_refs_in F f (dep fid)" "list_all clean (dep fid)" "clean fid"
        using Cons.prems(2) [of fid f] prems(2) old by auto
      have g_new: "g \<notin> set (dep fid)"
      proof
        assume "g \<in> set (dep fid)"
        moreover obtain i where "i < length placed" "placed ! i = fid" using old by (metis in_set_conv_nth)
        ultimately have "g \<in> set placed"
          using Cons.prems(3) [of i g] set_take_subset [of i placed] False by (auto simp: nth_append)
        then show False using Cons.prems(4) by simp
      qed
      have ag: "\<forall>d \<in> set (dep fid). agree d (i_values S) (i_values S1)"
      proof
        fix d assume "d \<in> set (dep fid)"
        with f(2) g(3) g_new ev pl show "agree d (i_values S) (i_values S1)"
          by (intro agree_places [of "places S g fg" _ _ g]) (auto simp: list_all_iff)
      qed
      have off: "path \<notin> fst ` set (places S g fg)"
      proof
        assume "path \<in> fst ` set (places S g fg)"
        then have "place g path" using pl by blast
        moreover have "place fid path" using prems(3) places_place by blast
        ultimately show False
          using False f(3) g(3) inst_path_not_clean inst_path_field unfolding place_def by metis
      qed
      have "settled L F S f path scope" using Cons.prems(6) [OF old prems(2)] prems(3) pl1 by simp
      from settled_agree [OF this f(1) _ ag] ev off show ?thesis by simp
    qed
  qed
  then show ?case using ev only_cells_trans [of S S1 S'] by simp
qed simp

subsection \<open>Serial ids\<close>

lemma serial_of_mint [simp]: "serial_of (mint n) = Some n"
  using digits_of_props [of "int n"] by (simp add: serial_of_def mint_def)

subsection \<open>The invariant of a live form\<close>

text \<open>The cells a state must have: one per top-level field, one per field and instance of a
  repeat.\<close>

definition cell :: "cform \<Rightarrow> form_inst \<Rightarrow> string \<Rightarrow> bool" where
  "cell F S p \<longleftrightarrow> (\<exists>(fid, f) \<in> set (cf_fields F). p \<in> fst ` set (places S fid f))"

definition ids_ok :: "form_inst \<Rightarrow> string list \<Rightarrow> bool" where
  "ids_ok S ids \<longleftrightarrow> distinct ids \<and>
     list_all (\<lambda>iid. case serial_of iid of None \<Rightarrow> True | Some n \<Rightarrow> n \<le> i_serial S) ids"

definition inst_ok :: "cform \<Rightarrow> form_inst \<Rightarrow> bool" where
  "inst_ok F S \<longleftrightarrow> map fst (i_instances S) = map fst (cf_repeats F) \<and>
     list_all (\<lambda>(r, ids). ids_ok S ids) (i_instances S) \<and>
     map fst (i_values S) = map fst (i_states S) \<and> distinct (map fst (i_values S)) \<and>
     (\<forall>p. p \<in> set (map fst (i_values S)) \<longleftrightarrow> cell F S p)"

lemma ids_ok_empty [simp]: "ids_ok S []"
  by (simp add: ids_ok_def)

lemma ids_ok_append:
  "ids_ok S (ids @ [i]) \<longleftrightarrow> ids_ok S ids \<and> i \<notin> set ids \<and>
     (case serial_of i of None \<Rightarrow> True | Some n \<Rightarrow> n \<le> i_serial S)"
  by (auto simp: ids_ok_def)

lemma inst_ok_ids: "inst_ok F S \<Longrightarrow> ids_ok S (inst_list S r)"
  by (auto simp: inst_ok_def inst_list_def list_all_iff split: option.split dest!: map_of_SomeD)

lemma inst_ok_distinct: "inst_ok F S \<Longrightarrow> distinct (inst_list S r)"
  using inst_ok_ids by (auto simp: ids_ok_def)

lemma mint_fresh: "ids_ok S ids \<Longrightarrow> i_serial S < n \<Longrightarrow> mint n \<notin> set ids"
  by (auto simp: ids_ok_def list_all_iff)

lemma inst_list_update:
  "inst_list (S\<lparr>i_instances := AList.update r ids (i_instances S)\<rparr>) q = (if q = r then ids else inst_list S q)"
  by (simp add: inst_list_def update_conv')

lemma inst_list_frame [simp]:
  "inst_list (S\<lparr>i_values := v\<rparr>) = inst_list S" "inst_list (S\<lparr>i_states := st\<rparr>) = inst_list S"
  "inst_list (S\<lparr>i_serial := n\<rparr>) = inst_list S" "inst_list (S\<lparr>i_row_keys := k\<rparr>) = inst_list S"
  "inst_list (S\<lparr>i_row_labels := l\<rparr>) = inst_list S" "inst_list (S\<lparr>i_rows_resolved := rr\<rparr>) = inst_list S"
  by (simp_all add: inst_list_def fun_eq_iff)

lemma fields_of_mem:
  "fid \<in> set (fields_of F r) \<longleftrightarrow> (\<exists>f. (fid, f) \<in> set (cf_fields F) \<and> f_repeat f = Some r)"
  by (force simp: fields_of_def)

lemma cell_iff:
  "cell F S p \<longleftrightarrow> (\<exists>f. (p, f) \<in> set (cf_fields F) \<and> f_repeat f = None) \<or>
     (\<exists>r. \<exists>iid \<in> set (inst_list S r). \<exists>fid \<in> set (fields_of F r). p = inst_path r iid fid)"
proof -
  have "p \<in> fst ` set (places S fid f) \<longleftrightarrow> (f_repeat f = None \<and> p = fid) \<or>
      (\<exists>r. f_repeat f = Some r \<and> (\<exists>iid \<in> set (inst_list S r). p = inst_path r iid fid))" for fid f
    by (cases "f_repeat f") (auto simp: places_def image_iff)
  then have "cell F S p \<longleftrightarrow> (\<exists>fid f. (fid, f) \<in> set (cf_fields F) \<and> ((f_repeat f = None \<and> p = fid) \<or>
      (\<exists>r. f_repeat f = Some r \<and> (\<exists>iid \<in> set (inst_list S r). p = inst_path r iid fid))))"
    unfolding cell_def by (simp add: Bex_def)
  then show ?thesis unfolding Bex_def fields_of_mem by blast
qed

text \<open>Adding and removing the cells of one instance.\<close>

lemma only_cells_fold:
  "only_cells S (foldl (\<lambda>S x. S\<lparr>i_values := u x S, i_states := w x S\<rparr>) S xs)"
proof (induction xs arbitrary: S)
  case (Cons x xs)
  have "only_cells S (S\<lparr>i_values := u x S, i_states := w x S\<rparr>)" by (simp add: only_cells_def)
  then show ?case using Cons only_cells_trans by fastforce
qed simp

lemma only_cellsD:
  assumes "only_cells S S'"
  shows "i_instances S' = i_instances S" "i_serial S' = i_serial S" "i_rows_resolved S' = i_rows_resolved S"
    "inst_list S' = inst_list S"
  using arg_cong [OF assms [unfolded only_cells_def], of i_instances]
    arg_cong [OF assms [unfolded only_cells_def], of i_serial]
    arg_cong [OF assms [unfolded only_cells_def], of i_rows_resolved]
  by (simp_all add: inst_list_def fun_eq_iff)

lemma add_cells_only: "only_cells S (add_cells F r iid S)"
  unfolding add_cells_def by (rule only_cells_fold)

text \<open>A run of assignments, and a run of deletions, on one dictionary.\<close>

definition put_all :: "(string \<Rightarrow> string) \<Rightarrow> (string \<Rightarrow> 'a) \<Rightarrow> string list \<Rightarrow> (string \<times> 'a) list \<Rightarrow> (string \<times> 'a) list" where
  "put_all g b xs al = foldl (\<lambda>al x. AList.update (g x) (b x) al) al xs"

definition drop_all :: "(string \<Rightarrow> string) \<Rightarrow> string list \<Rightarrow> (string \<times> 'a) list \<Rightarrow> (string \<times> 'a) list" where
  "drop_all g xs al = foldl (\<lambda>al x. AList.delete (g x) al) al xs"

definition put_keys :: "(string \<Rightarrow> string) \<Rightarrow> string list \<Rightarrow> string list \<Rightarrow> string list" where
  "put_keys g xs ks = foldl (\<lambda>ks x. if g x \<in> set ks then ks else ks @ [g x]) ks xs"

lemma put_all_keys: "map fst (put_all g b xs al) = put_keys g xs (map fst al)"
  by (induction xs arbitrary: al) (simp_all add: put_all_def put_keys_def update_keys)

lemma put_keys_props: "distinct ks \<Longrightarrow> distinct (put_keys g xs ks)" "set (put_keys g xs ks) = set ks \<union> g ` set xs"
  by (induction xs arbitrary: ks) (auto simp: put_keys_def)

lemma put_all_map_of: "p \<notin> g ` set xs \<Longrightarrow> map_of (put_all g b xs al) p = map_of al p"
  by (induction xs arbitrary: al) (auto simp: put_all_def update_conv')

lemma drop_all_keys: "map fst (drop_all g xs al) = filter (\<lambda>k. k \<notin> g ` set xs) (map fst al)"
proof (induction xs arbitrary: al)
  case (Cons x xs)
  show ?case
    using Cons.IH [of "AList.delete (g x) al"]
    by (auto simp: drop_all_def delete_keys removeAll_filter_not_eq intro: filter_cong)
qed (simp add: drop_all_def)

lemma drop_all_map_of: "p \<notin> g ` set xs \<Longrightarrow> map_of (drop_all g xs al) p = map_of al p"
  by (induction xs arbitrary: al) (auto simp: drop_all_def delete_conv')

lemma add_cells_eq:
  "add_cells F r iid S = S\<lparr>i_values := put_all (inst_path r iid) (\<lambda>_. JNull) (fields_of F r) (i_values S),
     i_states := put_all (inst_path r iid) (\<lambda>fid. blank_state (inst_path r iid fid)
        (case map_of (cf_fields F) fid of None \<Rightarrow> [] | Some f \<Rightarrow> f_data_type f)) (fields_of F r) (i_states S)\<rparr>"
proof -
  have "foldl (\<lambda>S x. S\<lparr>i_values := AList.update (g x) (a x) (i_values S), i_states := AList.update (g x) (b x) (i_states S)\<rparr>) S xs
      = S\<lparr>i_values := put_all g a xs (i_values S), i_states := put_all g b xs (i_states S)\<rparr>"
    for g :: "string \<Rightarrow> string" and a b xs and S :: form_inst
    by (induction xs arbitrary: S) (simp_all add: put_all_def)
  from this [where a = "\<lambda>_. JNull"] show ?thesis unfolding add_cells_def .
qed

lemma destroy_instance_eq:
  "destroy_instance F S r iid = S\<lparr>i_row_keys := AList.delete (r, iid) (i_row_keys S),
     i_row_labels := AList.delete (r, iid) (i_row_labels S),
     i_values := drop_all (inst_path r iid) (fields_of F r) (i_values S),
     i_states := drop_all (inst_path r iid) (fields_of F r) (i_states S)\<rparr>"
proof -
  have "foldl (\<lambda>S x. S\<lparr>i_values := AList.delete (g x) (i_values S), i_states := AList.delete (g x) (i_states S)\<rparr>) S xs
      = S\<lparr>i_values := drop_all g xs (i_values S), i_states := drop_all g xs (i_states S)\<rparr>"
    for g :: "string \<Rightarrow> string" and xs and S :: form_inst
    by (induction xs arbitrary: S) (simp_all add: drop_all_def)
  then show ?thesis unfolding destroy_instance_def by simp
qed

subsection \<open>Each step keeps the invariant\<close>

lemma cell_cong: "inst_list S' = inst_list S \<Longrightarrow> cell F S' p = cell F S p"
  by (simp add: cell_iff)

lemma ids_ok_serial: "ids_ok S ids \<Longrightarrow> i_serial S \<le> i_serial S' \<Longrightarrow> ids_ok S' ids"
  by (auto simp: ids_ok_def list_all_iff split: option.splits)

text \<open>Cells only: the same keys, nothing else changed.\<close>

lemma inst_ok_cells:
  assumes "inst_ok F S" "only_cells S S'" "map fst (i_values S') = map fst (i_values S)"
    "map fst (i_states S') = map fst (i_states S)"
  shows "inst_ok F S'"
proof -
  note o = only_cellsD [OF assms(2)]
  have "ids_ok S' = ids_ok S" unfolding ids_ok_def [abs_def] o(2) ..
  from assms(1) show ?thesis
    unfolding inst_ok_def assms(3,4) o(1) cell_cong [OF o(4)] \<open>ids_ok S' = ids_ok S\<close> .
qed

lemma inst_ok_key: "inst_ok F S \<Longrightarrow> has_key (i_states S) p \<longleftrightarrow> has_key (i_values S) p"
  unfolding has_key_iff by (simp add: inst_ok_def)

lemma update_keys_same: "has_key al k \<Longrightarrow> map fst (AList.update k v al) = map fst al"
  unfolding has_key_iff by (simp add: update_keys)

lemma evaluate_field_ok:
  assumes "inst_ok F S" "evaluate_field L F S fid path scope = Inr S'"
  shows "inst_ok F S'"
proof -
  have "map fst (i_values S') = map fst (i_values S) \<and> map fst (i_states S') = map fst (i_states S)"
    using inst_ok_key [OF assms(1), of path]
    by (rule_tac evaluate_field_parts [OF assms(2)]) (auto simp: update_keys_same split: if_splits)
  then show ?thesis
    using inst_ok_cells [OF assms(1) evaluate_field_touches(1) [OF assms(2)]] by blast
qed

lemma evaluate_everywhere_ok:
  assumes "inst_ok F S" "evaluate_everywhere L F S fid = Inr S'"
  shows "inst_ok F S'"
proof -
  obtain f where f: "map_of (cf_fields F) fid = Some f"
    using assms(2) by (cases "map_of (cf_fields F) fid") (auto simp: evaluate_everywhere_def)
  show ?thesis
    by (rule foldM_invariant [where I = "inst_ok F", OF _ assms(1)
          assms(2) [unfolded evaluate_everywhere_places [OF f]]])
      (auto intro: evaluate_field_ok)
qed

lemma put_value_ok:
  assumes "inst_ok F S" "has_key (i_values S) p"
  shows "inst_ok F (S\<lparr>i_values := AList.update p v (i_values S)\<rparr>)"
  by (rule inst_ok_cells [OF assms(1)]) (simp_all add: only_cells_def update_keys_same [OF assms(2)])

lemma seed_ok:
  assumes "inst_ok F S" "seed r iid row S bound = Inr S'"
  shows "inst_ok F S'"
proof -
  let ?p = "inst_path r iid (fst bound)"
  obtain st where st: "map_of (i_states S) ?p = Some st"
    using assms(2) by (auto simp: seed_def Let_def split: option.splits)
  then have "has_key (i_states S) ?p" "has_key (i_values S) ?p"
    using inst_ok_key [OF assms(1), of ?p] by auto
  then show ?thesis
    using assms(2) st
    by (intro inst_ok_cells [OF assms(1)]) (auto simp: seed_def Let_def only_cells_def update_keys_same)
qed

lemma form_ok_clean:
  assumes "form_ok F"
  shows "fid \<in> set (fields_of F r) \<Longrightarrow> clean fid \<and> clean r" "(p, f) \<in> set (cf_fields F) \<Longrightarrow> clean p"
proof -
  show field: "(p, f) \<in> set (cf_fields F) \<Longrightarrow> clean p" for p f
    using assms clean_id by (auto simp: form_ok_def field_ok_def list_all_iff)
  assume "fid \<in> set (fields_of F r)"
  then obtain f where f: "(fid, f) \<in> set (cf_fields F)" "f_repeat f = Some r" by (auto simp: fields_of_mem)
  then have "has_key (cf_repeats F) r" using assms by (auto simp: form_ok_def field_ok_def list_all_iff)
  then obtain n where "(r, n) \<in> set (cf_containers F)"
    using assms unfolding form_ok_def by (metis map_of_SomeD not_None_eq subsetD)
  then have "clean r" using assms clean_id by (auto simp: form_ok_def list_all_iff)
  then show "clean fid \<and> clean r" using f field by blast
qed

text \<open>A new id at the end of a repeat's list, with its cells.\<close>

lemma append_instance_ok:
  assumes F: "form_ok F" and S: "inst_ok F S" and new: "iid \<notin> set (inst_list S r)" and r: "has_key (cf_repeats F) r"
    and S1: "i_instances S1 = AList.update r (inst_list S r @ [iid]) (i_instances S)"
      "i_values S1 = i_values S" "i_states S1 = i_states S" "i_serial S \<le> i_serial S1"
    and ser: "\<And>n. serial_of iid = Some n \<Longrightarrow> n \<le> i_serial S1"
  shows "inst_ok F (add_cells F r iid S1)"
proof -
  let ?S = "add_cells F r iid S1"
  have keys: "map fst (i_values S) = map fst (i_states S)" "distinct (map fst (i_values S))"
    using S unfolding inst_ok_def by blast+
  have il: "inst_list ?S q = (if q = r then inst_list S r @ [iid] else inst_list S q)" for q
    by (simp add: add_cells_eq S1(1) inst_list_def update_conv')
  have mem: "i \<in> set (inst_list ?S q) \<longleftrightarrow> i \<in> set (inst_list S q) \<or> (q = r \<and> i = iid)" for q i
    by (auto simp: il)
  have cells: "cell F ?S p \<longleftrightarrow> cell F S p \<or> p \<in> inst_path r iid ` set (fields_of F r)" for p
    unfolding cell_iff Bex_def mem image_iff by blast
  have "ids_ok ?S ids" if "(q, ids) \<in> set (i_instances ?S)" for q ids
  proof -
    have "distinct (map fst (i_instances ?S))"
      using S F by (simp add: add_cells_eq S1(1) distinct_update inst_ok_def form_ok_def)
    then have "ids = inst_list ?S q" using that by (simp add: inst_list_def)
    moreover have "ids_ok ?S (inst_list S q)"
      by (rule ids_ok_serial [OF inst_ok_ids [OF S]]) (simp add: add_cells_eq S1(4))
    moreover have "i_serial ?S = i_serial S1" by (simp add: add_cells_eq)
    ultimately show ?thesis
      using new ser by (auto simp: il ids_ok_append split: option.split)
  qed
  moreover have "map fst (i_instances ?S) = map fst (cf_repeats F)"
    using S r [unfolded has_key_iff] by (simp add: add_cells_eq S1(1) update_keys inst_ok_def del: set_map)
  moreover have "set (map fst (i_values ?S)) = set (map fst (i_values S)) \<union> inst_path r iid ` set (fields_of F r)"
    by (simp add: add_cells_eq S1 put_all_keys put_keys_props del: set_map)
  ultimately show ?thesis
    using S keys unfolding inst_ok_def cells
    by (auto simp: list_all_iff add_cells_eq S1 put_all_keys put_keys_props simp del: set_map)
qed

lemma create_instance_ok:
  assumes "form_ok F" "inst_ok F S" "has_key (cf_repeats F) r" "create_instance F S r key = Inr (iid, S')"
  shows "inst_ok F S'"
proof -
  have "iid = mint (Suc (i_serial S))" using assms(4) by (auto simp: create_instance_def Let_def rbind_Inr_iff)
  moreover have "mint (Suc (i_serial S)) \<notin> set (inst_list S r)"
    using mint_fresh [OF inst_ok_ids [OF assms(2)]] by simp
  ultimately show ?thesis
    using assms(4) by (auto simp: create_instance_def Let_def rbind_Inr_iff
        intro!: append_instance_ok [OF assms(1,2) _ assms(3)])
qed

lemma destroy_ok:
  assumes F: "form_ok F" and S: "inst_ok F S" and r: "has_key (cf_repeats F) r"
    and ids: "set ids = set (inst_list S r) - {iid}" "distinct ids"
  shows "inst_ok F (destroy_instance F (S\<lparr>i_instances := AList.update r ids (i_instances S)\<rparr>) r iid)"
proof -
  let ?S = "destroy_instance F (S\<lparr>i_instances := AList.update r ids (i_instances S)\<rparr>) r iid"
  have keys: "map fst (i_values S) = map fst (i_states S)" "distinct (map fst (i_values S))"
    using S unfolding inst_ok_def by blast+
  have il: "inst_list ?S q = (if q = r then ids else inst_list S q)" for q
    by (simp add: destroy_instance_eq inst_list_def update_conv')
  have "cell F ?S p \<longleftrightarrow> cell F S p \<and> p \<notin> inst_path r iid ` set (fields_of F r)" for p
  proof -
    have off: "inst_path q i fid \<notin> inst_path r iid ` set (fields_of F r)"
      if "fid \<in> set (fields_of F q)" "\<not> (q = r \<and> i = iid)" for q i fid
      using form_ok_clean(1) [OF F] that inst_path_inj by blast
    have top: "p \<notin> inst_path r iid ` set (fields_of F r)" if "(p, f) \<in> set (cf_fields F)" for f
      using form_ok_clean(2) [OF F that] inst_path_not_clean by blast
    have mem: "i \<in> set (inst_list ?S q) \<longleftrightarrow> i \<in> set (inst_list S q) \<and> \<not> (q = r \<and> i = iid)" for q i
      by (auto simp: il ids(1))
    show ?thesis
    proof
      assume "cell F ?S p"
      then consider f where "(p, f) \<in> set (cf_fields F)" "f_repeat f = None"
        | q i fid where "i \<in> set (inst_list S q)" "\<not> (q = r \<and> i = iid)" "fid \<in> set (fields_of F q)" "p = inst_path q i fid"
        unfolding cell_iff Bex_def mem by blast
      then show "cell F S p \<and> p \<notin> inst_path r iid ` set (fields_of F r)"
      proof cases
        case (1 f)
        then have "cell F S p" unfolding cell_iff by blast
        then show ?thesis using top [OF 1(1)] by blast
      next
        case (2 q i fid)
        then have "cell F S p" unfolding cell_iff by blast
        then show ?thesis using off [OF 2(3,2)] 2(4) by simp
      qed
    next
      assume *: "cell F S p \<and> p \<notin> inst_path r iid ` set (fields_of F r)"
      then consider f where "(p, f) \<in> set (cf_fields F)" "f_repeat f = None"
        | q i fid where "i \<in> set (inst_list S q)" "fid \<in> set (fields_of F q)" "p = inst_path q i fid"
        unfolding cell_iff by blast
      then show "cell F ?S p"
      proof cases
        case (2 q i fid)
        then have "\<not> (q = r \<and> i = iid)" using * by blast
        with 2 show ?thesis unfolding cell_iff Bex_def mem by blast
      qed (auto simp: cell_iff)
    qed
  qed
  moreover have "ids_ok ?S is" if "(q, is) \<in> set (i_instances ?S)" for q "is"
  proof -
    have "distinct (map fst (i_instances ?S))"
      using S F by (simp add: destroy_instance_eq distinct_update inst_ok_def form_ok_def)
    then have "is = inst_list ?S q" using that by (simp add: inst_list_def)
    moreover have "i_serial ?S = i_serial S" by (simp add: destroy_instance_eq)
    ultimately show ?thesis
      using inst_ok_ids [OF S, of q] ids unfolding ids_ok_def il
      by (auto simp: list_all_iff split: option.splits)
  qed
  moreover have "map fst (i_instances ?S) = map fst (cf_repeats F)"
    using S r [unfolded has_key_iff] by (simp add: destroy_instance_eq update_keys inst_ok_def del: set_map)
  ultimately show ?thesis
    using S keys unfolding inst_ok_def
    by (auto simp: list_all_iff destroy_instance_eq drop_all_keys simp del: set_map)
qed

text \<open>The invariant and the serial together: no step lowers the serial.\<close>

definition step_ok :: "cform \<Rightarrow> form_inst \<Rightarrow> form_inst \<Rightarrow> bool" where
  "step_ok F S S' \<longleftrightarrow> inst_ok F S \<longrightarrow> inst_ok F S' \<and> i_serial S \<le> i_serial S'"

lemma step_ok_refl [simp]: "step_ok F S S"
  by (simp add: step_ok_def)

lemma step_ok_trans: "step_ok F S S' \<Longrightarrow> step_ok F S' S'' \<Longrightarrow> step_ok F S S''"
  by (auto simp: step_ok_def)

lemma foldM_step:
  assumes "\<And>S x S'. x \<in> set xs \<Longrightarrow> g S x = Inr S' \<Longrightarrow> step_ok F S S'" "foldM g S xs = Inr S'"
  shows "step_ok F S S'"
  using assms
proof (induction xs arbitrary: S)
  case (Cons x xs)
  then obtain S1 where "g S x = Inr S1" "foldM g S1 xs = Inr S'" by (auto simp: rbind_Inr_iff)
  then show ?case using Cons.IH [of S1] Cons.prems(1) [of x S S1] Cons.prems(1) step_ok_trans by fastforce
qed simp

lemma create_instance_step:
  assumes "form_ok F" "has_key (cf_repeats F) r" "create_instance F S r key = Inr (iid, S')"
  shows "step_ok F S S'" "iid = mint (Suc (i_serial S))" "i_serial S' = Suc (i_serial S)"
    "i_rows_resolved S' = i_rows_resolved S"
  using create_instance_ok [OF assms(1) _ assms(2,3)] assms(3)
  by (auto simp: step_ok_def create_instance_def Let_def rbind_Inr_iff add_cells_eq)

lemma seed_step: "seed r iid row S bound = Inr S' \<Longrightarrow> step_ok F S S'"
  using seed_ok [of F S r iid row bound S']
  by (auto simp: step_ok_def seed_def Let_def split: option.splits)

lemma inst_ok_extra:
  "inst_ok F (S\<lparr>i_row_labels := l\<rparr>) = inst_ok F S" "inst_ok F (S\<lparr>i_rows_resolved := rr\<rparr>) = inst_ok F S"
  by (simp_all add: inst_ok_def cell_iff ids_ok_def cong: option.case_cong)

lemma create_row_step:
  assumes "form_ok F" "has_key (cf_repeats F) r" "create_row F r bind S item = Inr S'"
  shows "step_ok F S S'"
proof -
  obtain row where row: "item = JObj row" using assms(3) by (cases item) (auto simp: create_row_def)
  obtain key iid S1 where c: "create_instance F S r key = Inr (iid, S1)"
    and s: "foldM (seed r iid row) (case jget row ''label'' of
        JObj label \<Rightarrow> S1\<lparr>i_row_labels := AList.update (r, iid) label (i_row_labels S1)\<rparr> | _ \<Rightarrow> S1) bind = Inr S'"
    using assms(3) by (auto simp: create_row_def row rbind_Inr_iff)
  have "step_ok F S1 (case jget row ''label'' of
        JObj label \<Rightarrow> S1\<lparr>i_row_labels := AList.update (r, iid) label (i_row_labels S1)\<rparr> | _ \<Rightarrow> S1)"
    by (cases "jget row ''label''") (auto simp: step_ok_def inst_ok_extra)
  moreover have seeds: "step_ok F (case jget row ''label'' of
        JObj label \<Rightarrow> S1\<lparr>i_row_labels := AList.update (r, iid) label (i_row_labels S1)\<rparr> | _ \<Rightarrow> S1) S'"
    by (rule foldM_step [OF _ s]) (rule seed_step)
  ultimately show ?thesis
    using create_instance_step(1) [OF assms(1,2) c] seeds step_ok_trans by blast
qed

lemma resolve_rows_step:
  assumes "form_ok F" "rep \<in> set (cf_repeats F)" "resolve_rows L F S rep = Inr S'"
  shows "step_ok F S S'"
proof -
  obtain r node where rep: "rep = (r, node)" by force
  then have r: "has_key (cf_repeats F) r" using assms(2) unfolding has_key_iff by force
  consider "S' = S" | bind items where "foldM (create_row F r bind) (S\<lparr>i_rows_resolved := r # i_rows_resolved S\<rparr>) items = Inr S'"
  proof (cases "is_null (jget node ''rowSource'') \<or> r \<in> set (i_rows_resolved S)")
    case False
    then obtain rel where rel: "container_relevant L F S r = Inr rel"
      using assms(3) by (auto simp: resolve_rows_def rep rbind_Inr_iff)
    show ?thesis
    proof (cases rel)
      case True
      then show ?thesis
        using that(2) assms(3) False rel
        by (cases "jget node ''rowSource''") (auto simp: resolve_rows_def rep rbind_Inr_iff)
    qed (use that(1) assms(3) False rel in \<open>simp add: resolve_rows_def rep\<close>)
  qed (use that(1) assms(3) in \<open>simp add: resolve_rows_def rep\<close>)
  then show ?thesis
  proof cases
    case (2 bind items)
    have "step_ok F S (S\<lparr>i_rows_resolved := r # i_rows_resolved S\<rparr>)" by (simp add: step_ok_def inst_ok_extra)
    moreover have "step_ok F (S\<lparr>i_rows_resolved := r # i_rows_resolved S\<rparr>) S'"
      by (rule foldM_step [OF _ 2]) (rule create_row_step [OF assms(1) r])
    ultimately show ?thesis using step_ok_trans by blast
  qed simp
qed

lemma grow_step:
  assumes "form_ok F" "has_key (cf_repeats F) r" "grow F r S k = Inr S'"
  shows "step_ok F S S'"
  using assms(3) unfolding grow_def
  by (rule foldM_step [rotated]) (auto simp: rbind_Inr_iff dest: create_instance_step(1) [OF assms(1,2)])

lemma drop_last_step:
  assumes "form_ok F" "has_key (cf_repeats F) r" "inst_list S r \<noteq> []"
  shows "step_ok F S (drop_last F r S)" "length (inst_list (drop_last F r S) r) = length (inst_list S r) - 1"
proof -
  show "length (inst_list (drop_last F r S) r) = length (inst_list S r) - 1"
    by (simp add: drop_last_def destroy_instance_eq inst_list_def update_conv')
  show "step_ok F S (drop_last F r S)"
    unfolding step_ok_def
  proof
    assume S: "inst_ok F S"
    have d: "distinct (butlast (inst_list S r) @ [last (inst_list S r)])"
      using inst_ok_distinct [OF S, of r] assms(3) by simp
    then have "set (butlast (inst_list S r)) = set (butlast (inst_list S r) @ [last (inst_list S r)]) - {last (inst_list S r)}"
      by auto
    then have "set (butlast (inst_list S r)) = set (inst_list S r) - {last (inst_list S r)}"
      using assms(3) by simp
    then show "inst_ok F (drop_last F r S) \<and> i_serial S \<le> i_serial (drop_last F r S)"
      using destroy_ok [OF assms(1) S assms(2)] d unfolding drop_last_def by (simp add: destroy_instance_eq)
  qed
qed

lemma shrink_step:
  assumes "form_ok F" "has_key (cf_repeats F) r" "k \<le> length (inst_list S r)"
  shows "step_ok F S (shrink F r S k)"
  using assms(3)
proof (induction k)
  case 0
  then show ?case by (simp add: shrink_def)
next
  case (Suc k)
  have len: "length (inst_list (shrink F r S j) r) = length (inst_list S r) - j" for j
    by (induction j) (auto simp: shrink_def drop_last_def destroy_instance_eq inst_list_update)
  then have "length (inst_list (shrink F r S k) r) \<noteq> 0" using Suc.prems by simp
  then have "inst_list (shrink F r S k) r \<noteq> []" by simp
  note drop = drop_last_step(1) [OF assms(1,2) this]
  have "shrink F r S (Suc k) = drop_last F r (shrink F r S k)" by (simp add: shrink_def)
  then show ?case using step_ok_trans [OF Suc.IH drop] Suc.prems by simp
qed

lemma apply_count_step:
  assumes "form_ok F" "rep \<in> set (cf_repeats F)" "apply_count L F S rep = Inr S'"
  shows "step_ok F S S'"
proof -
  obtain r node where rep: "rep = (r, node)" by force
  then have r: "has_key (cf_repeats F) r" using assms(2) unfolding has_key_iff by force
  consider "S' = S" | k S1 n where "grow F r S k = Inr S1" "S' = shrink F r S1 (length (inst_list S1 r) - n)"
  proof (cases "is_null (jget node ''countExpr'')")
    case False
    then show ?thesis using assms(3) that(2) by (auto simp: apply_count_def rep rbind_Inr_iff)
  qed (use that(1) assms(3) in \<open>simp add: apply_count_def rep\<close>)
  then show ?thesis
  proof cases
    case (2 k S1 n)
    then have "step_ok F S1 S'" using shrink_step [OF assms(1) r, of "length (inst_list S1 r) - n" S1] by simp
    then show ?thesis using step_ok_trans [OF grow_step [OF assms(1) r 2(1)]] by blast
  qed simp
qed

lemma evaluate_everywhere_step:
  assumes "evaluate_everywhere L F S fid = Inr S'"
  shows "step_ok F S S'"
proof -
  obtain f where f: "map_of (cf_fields F) fid = Some f"
    using assms by (cases "map_of (cf_fields F) fid") (auto simp: evaluate_everywhere_def)
  have "i_serial S' = i_serial S"
    using evaluate_places [OF assms [unfolded evaluate_everywhere_places [OF f]]] only_cellsD(2) by blast
  then show ?thesis using evaluate_everywhere_ok [OF _ assms] by (simp add: step_ok_def)
qed

lemma recalculate_step:
  assumes "form_ok F" "recalculate L F S = Inr S'"
  shows "step_ok F S S'"
proof -
  obtain S1 S2 where f: "foldM (resolve_rows L F) S (cf_repeats F) = Inr S1"
    "foldM (apply_count L F) S1 (cf_repeats F) = Inr S2" "foldM (evaluate_everywhere L F) S2 (cf_topo_order F) = Inr S'"
    using assms(2) by (auto simp: recalculate_def rbind_Inr_iff)
  have "step_ok F S S1" by (rule foldM_step [OF resolve_rows_step [OF assms(1)] f(1)])
  moreover have "step_ok F S1 S2" by (rule foldM_step [OF apply_count_step [OF assms(1)] f(2)])
  moreover have "step_ok F S2 S'" by (rule foldM_step [OF evaluate_everywhere_step f(3)])
  ultimately show ?thesis using step_ok_trans by blast
qed

subsection \<open>Answers survive\<close>

text \<open>A path that no instance minted from now on can have.\<close>

definition not_future :: "form_inst \<Rightarrow> string \<Rightarrow> bool" where
  "not_future S p \<longleftrightarrow> (\<forall>r n fid. clean r \<longrightarrow> clean fid \<longrightarrow> i_serial S < n \<longrightarrow> p \<noteq> inst_path r (mint n) fid)"

lemma cell_not_future:
  assumes "form_ok F" "inst_ok F S" "cell F S p"
  shows "not_future S p"
proof -
  consider f where "(p, f) \<in> set (cf_fields F)"
    | r iid fid where "iid \<in> set (inst_list S r)" "fid \<in> set (fields_of F r)" "p = inst_path r iid fid"
    using assms(3) unfolding cell_iff by blast
  then show ?thesis
  proof cases
    case 1
    then have "clean p" using form_ok_clean(2) [OF assms(1)] by blast
    then show ?thesis using inst_path_not_clean by (auto simp: not_future_def)
  next
    case (2 r iid fid)
    have "iid \<noteq> mint n" if "i_serial S < n" for n
      using mint_fresh [OF inst_ok_ids [OF assms(2)] that] 2(1) by auto
    moreover have "clean r" "clean fid" using form_ok_clean(1) [OF assms(1) 2(2)] by auto
    ultimately show ?thesis unfolding not_future_def 2(3) using inst_path_inj by blast
  qed
qed

text \<open>The value of a path is kept, or the path is gone; lists of instances grow at the end.\<close>

definition keeps :: "string \<Rightarrow> form_inst \<Rightarrow> form_inst \<Rightarrow> bool" where
  "keeps p S S' \<longleftrightarrow> (not_future S p \<longrightarrow> not_future S' p \<and>
     (map_of (i_values S') p = map_of (i_values S) p \<or> map_of (i_values S') p = None))"

lemma keeps_refl [simp]: "keeps p S S"
  by (simp add: keeps_def)

lemma keeps_trans: "keeps p S S' \<Longrightarrow> keeps p S' S'' \<Longrightarrow> keeps p S S''"
  by (auto simp: keeps_def)

lemma foldM_rel:
  assumes "\<And>S. R S S" "\<And>S S' S''. R S S' \<Longrightarrow> R S' S'' \<Longrightarrow> R S S''"
    "\<And>S x S'. x \<in> set xs \<Longrightarrow> g S x = Inr S' \<Longrightarrow> R S S'" "foldM g S xs = Inr S'"
  shows "R S S'"
  using assms(3,4)
proof (induction xs arbitrary: S)
  case Nil
  then show ?case using assms(1) by simp
next
  case (Cons x xs)
  obtain S1 where S1: "g S x = Inr S1" "foldM g S1 xs = Inr S'" using Cons.prems(2) by (auto simp: rbind_Inr_iff)
  have "R S1 S'" using Cons.prems(1) by (intro Cons.IH [OF _ S1(2)]) auto
  moreover have "R S S1" using Cons.prems(1) [of x S S1] S1(1) by simp
  ultimately show ?case using assms(2) by blast
qed

lemma not_future_serial: "not_future S p \<Longrightarrow> i_serial S \<le> i_serial S' \<Longrightarrow> not_future S' p"
  by (simp add: not_future_def)

lemma create_instance_keeps:
  assumes "form_ok F" "create_instance F S r key = Inr (iid, S')"
  shows "keeps p S S'" "inst_list S' q = (if q = r then inst_list S r @ [iid] else inst_list S q)"
    "\<And>fid. fid \<in> set (fields_of F r) \<Longrightarrow> \<not> not_future S (inst_path r iid fid)"
proof -
  have S': "iid = mint (Suc (i_serial S))" "i_serial S' = Suc (i_serial S)"
      "i_values S' = put_all (inst_path r iid) (\<lambda>_. JNull) (fields_of F r) (i_values S)"
    using assms(2) by (auto simp: create_instance_def Let_def rbind_Inr_iff add_cells_eq)
  show fut: "\<not> not_future S (inst_path r iid fid)" if "fid \<in> set (fields_of F r)" for fid
    using form_ok_clean(1) [OF assms(1) that] unfolding not_future_def S'(1) by blast
  show "inst_list S' q = (if q = r then inst_list S r @ [iid] else inst_list S q)"
    using assms(2) by (auto simp: create_instance_def Let_def rbind_Inr_iff add_cells_eq inst_list_def update_conv')
  show "keeps p S S'"
    unfolding keeps_def
  proof
    assume p: "not_future S p"
    then have "p \<notin> inst_path r iid ` set (fields_of F r)" using fut by blast
    then show "not_future S' p \<and> (map_of (i_values S') p = map_of (i_values S) p \<or> map_of (i_values S') p = None)"
      using not_future_serial [OF p] S'(2) by (simp add: S'(3) put_all_map_of)
  qed
qed

lemma seed_props:
  assumes "seed r iid row S bound = Inr S'"
  shows "only_cells S S'" "p \<noteq> inst_path r iid (fst bound) \<Longrightarrow> map_of (i_values S') p = map_of (i_values S) p"
    "has_key (i_states S) (inst_path r iid (fst bound))"
    "has_key (i_states S') p = has_key (i_states S) p"
  using assms by (auto simp: seed_def Let_def only_cells_def update_conv' split: option.splits if_splits)


text \<open>Bound questions are named by plain ids.\<close>

definition binds_ok :: "cform \<Rightarrow> bool" where
  "binds_ok F \<longleftrightarrow> list_all (\<lambda>(r, node). case jget node ''rowSource'' of
     JObj source \<Rightarrow> (case jget source ''bind'' of JObj bind \<Rightarrow> list_all (clean \<circ> fst) bind | _ \<Rightarrow> True)
   | _ \<Rightarrow> True) (cf_repeats F)"

text \<open>How one step changes the instances of a repeat: it only appends.\<close>

definition appends :: "string \<Rightarrow> form_inst \<Rightarrow> form_inst \<Rightarrow> bool" where
  "appends q S S' \<longleftrightarrow> (\<exists>new. inst_list S' q = inst_list S q @ new)"

definition grows :: "string \<Rightarrow> string \<Rightarrow> form_inst \<Rightarrow> form_inst \<Rightarrow> bool" where
  "grows q p S S' \<longleftrightarrow> appends q S S' \<and> keeps p S S'"

lemma grows_refl: "grows q p S S"
  by (simp add: grows_def appends_def)

lemma grows_trans: "grows q p S S' \<Longrightarrow> grows q p S' S'' \<Longrightarrow> grows q p S S''"
  using keeps_trans by (auto simp: grows_def appends_def)

lemma repeat_clean: "form_ok F \<Longrightarrow> has_key (cf_repeats F) r \<Longrightarrow> clean r"
  unfolding form_ok_def has_key_iff using clean_id by (force simp: list_all_iff)

lemma create_row_grows:
  assumes "form_ok F" "has_key (cf_repeats F) r" "list_all (clean \<circ> fst) bind" "create_row F r bind S item = Inr S'"
  shows "grows q p S S'"
proof -
  obtain row where row: "item = JObj row" using assms(4) by (cases item) (auto simp: create_row_def)
  obtain key iid S1 where c: "create_instance F S r key = Inr (iid, S1)"
    and s: "foldM (seed r iid row) (case jget row ''label'' of
        JObj label \<Rightarrow> S1\<lparr>i_row_labels := AList.update (r, iid) label (i_row_labels S1)\<rparr> | _ \<Rightarrow> S1) bind = Inr S'"
    using assms(4) by (auto simp: create_row_def row rbind_Inr_iff)
  let ?S2 = "case jget row ''label'' of
        JObj label \<Rightarrow> S1\<lparr>i_row_labels := AList.update (r, iid) label (i_row_labels S1)\<rparr> | _ \<Rightarrow> S1"
  have S2: "i_values ?S2 = i_values S1" "i_serial ?S2 = i_serial S1" "inst_list ?S2 = inst_list S1"
    by (cases "jget row ''label''"; simp)+
  have iid: "iid = mint (Suc (i_serial S))" using create_instance_step(2) [OF assms(1,2) c] .
  have seeds: "only_cells ?S2 S' \<and> (not_future S p \<longrightarrow> map_of (i_values S') p = map_of (i_values ?S2) p)"
  proof (rule foldM_rel [where R = "\<lambda>A B. only_cells A B \<and> (not_future S p \<longrightarrow> map_of (i_values B) p = map_of (i_values A) p)", OF _ _ _ s])
    fix A b B assume b: "b \<in> set bind" "seed r iid row A b = Inr B"
    have "p \<noteq> inst_path r iid (fst b)" if "not_future S p"
      using that b(1) assms(3) repeat_clean [OF assms(1,2)] unfolding not_future_def iid by (auto simp: list_all_iff)
    then show "only_cells A B \<and> (not_future S p \<longrightarrow> map_of (i_values B) p = map_of (i_values A) p)"
      using seed_props(1,2) [OF b(2)] by blast
  qed (auto intro: only_cells_trans)
  have "inst_list S' = inst_list S1" "i_serial S' = i_serial S1"
    using only_cellsD [OF conjunct1 [OF seeds]] S2 by auto
  then show ?thesis
    using create_instance_keeps(1,2) [OF assms(1) c] seeds S2 not_future_serial [of S1 p S']
    unfolding grows_def appends_def keeps_def by auto
qed

lemma resolve_rows_grows:
  assumes "form_ok F" "binds_ok F" "rep \<in> set (cf_repeats F)" "resolve_rows L F S rep = Inr S'"
  shows "grows q p S S'"
proof -
  obtain r node where rep: "rep = (r, node)" by force
  then have r: "has_key (cf_repeats F) r" using assms(3) unfolding has_key_iff by force
  show ?thesis
  proof (cases "is_null (jget node ''rowSource'') \<or> r \<in> set (i_rows_resolved S)")
    case True
    then show ?thesis using assms(4) by (simp add: resolve_rows_def rep grows_refl)
  next
    case False
    then obtain rel where rel: "container_relevant L F S r = Inr rel"
      using assms(4) by (auto simp: resolve_rows_def rep rbind_Inr_iff)
    show ?thesis
    proof (cases rel)
      case False
      then show ?thesis
        using assms(4) rel \<open>\<not> (is_null _ \<or> _)\<close> by (simp add: resolve_rows_def rep grows_refl)
    next
      case True
      then obtain source where so: "jget node ''rowSource'' = JObj source"
        using assms(4) rel False by (cases "jget node ''rowSource''") (auto simp: resolve_rows_def rep)
      then obtain bind items where b: "items_or_empty (jget source ''bind'') = Inr bind"
        and f: "foldM (create_row F r bind) (S\<lparr>i_rows_resolved := r # i_rows_resolved S\<rparr>) items = Inr S'"
        using assms(4) rel False True by (auto simp: resolve_rows_def rep rbind_Inr_iff)
      have "list_all (clean \<circ> fst) bind"
      proof (cases "jget source ''bind''")
        case (JObj d)
        have "case (r, node) of (r, node) \<Rightarrow> (case jget node ''rowSource'' of
            JObj source \<Rightarrow> (case jget source ''bind'' of JObj bind \<Rightarrow> list_all (clean \<circ> fst) bind | _ \<Rightarrow> True)
          | _ \<Rightarrow> True)"
          using assms(2,3) unfolding binds_ok_def list_all_iff rep by (rule bspec)
        then show ?thesis using b so JObj by (simp add: items_or_empty_def)
      qed (use b in \<open>auto simp: items_or_empty_def split: if_splits\<close>)
      from create_row_grows [OF assms(1) r this]
      have "grows q p (S\<lparr>i_rows_resolved := r # i_rows_resolved S\<rparr>) S'"
        by (intro foldM_rel [of "grows q p", OF grows_refl grows_trans _ f]) auto
      then show ?thesis by (simp add: grows_def appends_def keeps_def not_future_def)
    qed
  qed
qed

lemma grow_grows:
  assumes "form_ok F" "grow F r S k = Inr S'"
  shows "grows q p S S'"
proof (rule foldM_rel [of "grows q p", OF grows_refl grows_trans _ assms(2) [unfolded grow_def]])
  fix S x S' assume "rbind (create_instance F S r JNull) (\<lambda>(iid, S). Inr S) = Inr S'"
  then obtain iid where "create_instance F S r JNull = Inr (iid, S')" by (auto simp: rbind_Inr_iff)
  from create_instance_keeps [OF assms(1) this] show "grows q p S S'"
    by (auto simp: grows_def appends_def)
qed

lemma destroy_keeps: "keeps p S (destroy_instance F (S\<lparr>i_instances := ids\<rparr>) r iid)"
proof -
  have "map_of (drop_all g xs al) p = map_of al p \<or> map_of (drop_all g xs al) p = None" for g xs and al :: dict
    by (cases "p \<in> g ` set xs") (auto simp: drop_all_map_of map_of_eq_None_iff drop_all_keys simp flip: set_map)
  then show ?thesis by (simp add: keeps_def not_future_def destroy_instance_eq)
qed

lemma shrink_keeps: "keeps p S (shrink F r S k)" "q \<noteq> r \<Longrightarrow> inst_list (shrink F r S k) q = inst_list S q"
proof -
  have drop: "keeps p S (drop_last F r S)" "q \<noteq> r \<Longrightarrow> inst_list (drop_last F r S) q = inst_list S q" for S
  proof -
    show "keeps p S (drop_last F r S)" unfolding drop_last_def by (rule destroy_keeps)
    show "q \<noteq> r \<Longrightarrow> inst_list (drop_last F r S) q = inst_list S q"
      by (simp add: drop_last_def destroy_instance_eq inst_list_def update_conv')
  qed
  show "keeps p S (shrink F r S k)"
    by (induction k) (auto simp: shrink_def intro: keeps_trans [OF _ drop(1)])
  show "q \<noteq> r \<Longrightarrow> inst_list (shrink F r S k) q = inst_list S q"
    by (induction k) (auto simp: shrink_def drop(2))
qed


text \<open>A cell of a question: a field without \<open>calculate\<close>.\<close>

definition answer_path :: "cform \<Rightarrow> string \<Rightarrow> bool" where
  "answer_path F p \<longleftrightarrow> (\<exists>fid f. map_of (cf_fields F) fid = Some f \<and>
     is_null (jget (f_node f) ''calculate'') \<and> place fid p)"

lemma place_unique: "place a p \<Longrightarrow> place b p \<Longrightarrow> clean a \<Longrightarrow> clean b \<Longrightarrow> a = b"
  unfolding place_def using inst_path_field inst_path_not_clean by blast

lemma evaluate_field_keeps:
  assumes "form_ok F" "answer_path F p" "evaluate_field L F S fid path scope = Inr S'" "place fid path"
  shows "map_of (i_values S') p = map_of (i_values S) p"
proof (cases "p = path")
  case True
  obtain g f where g: "map_of (cf_fields F) g = Some f" "is_null (jget (f_node f) ''calculate'')" "place g p"
    using assms(2) unfolding answer_path_def by blast
  obtain f' where f': "map_of (cf_fields F) fid = Some f'" using evaluate_field_parts [OF assms(3)] .
  have "g = fid"
    using place_unique [OF g(3)] True assms(4) form_ok_clean(2) [OF assms(1)] g(1) f' by (meson map_of_SomeD)
  then show ?thesis
    using g by (rule_tac evaluate_field_parts [OF assms(3)]) (auto split: if_splits)
qed (rule evaluate_field_touches(2) [OF assms(3)])

lemma only_cells_grows:
  assumes "only_cells S S'" "map_of (i_values S') p = map_of (i_values S) p"
  shows "grows q p S S'"
  using assms(2) only_cellsD [OF assms(1)] by (simp add: grows_def appends_def keeps_def not_future_def)

lemma evaluate_everywhere_grows:
  assumes "form_ok F" "answer_path F p" "evaluate_everywhere L F S fid = Inr S'"
  shows "grows q p S S'"
proof -
  obtain f where f: "map_of (cf_fields F) fid = Some f"
    using assms(3) by (cases "map_of (cf_fields F) fid") (auto simp: evaluate_everywhere_def)
  show ?thesis
  proof (rule foldM_rel [of "grows q p", OF grows_refl grows_trans _ assms(3) [unfolded evaluate_everywhere_places [OF f]]])
    fix A x B assume x: "x \<in> set (places S fid f)" "(case x of (path, scope) \<Rightarrow> evaluate_field L F A fid path scope) = Inr B"
    obtain path scope where "x = (path, scope)" by force
    then have e: "evaluate_field L F A fid path scope = Inr B" "place fid path"
      using x places_place by auto
    show "grows q p A B"
      using only_cells_grows [OF evaluate_field_touches(1) [OF e(1)] evaluate_field_keeps [OF assms(1,2) e]] .
  qed
qed

lemma apply_count_keeps:
  assumes "form_ok F" "apply_count L F S (r, node) = Inr S'"
  shows "keeps p S S'" "q \<noteq> r \<or> is_null (jget node ''countExpr'') \<Longrightarrow> appends q S S'"
proof -
  consider (none) "is_null (jget node ''countExpr'')" "S' = S"
    | (count) k S1 n where "grow F r S k = Inr S1" "S' = shrink F r S1 n" "\<not> is_null (jget node ''countExpr'')"
  proof (cases "is_null (jget node ''countExpr'')")
    case False
    then show ?thesis using assms(2) that(2) by (auto simp: apply_count_def rbind_Inr_iff)
  qed (use that(1) assms(2) in \<open>simp add: apply_count_def\<close>)
  note cs = this
  show "keeps p S S'"
  proof (cases rule: cs)
    case (count k S1 n)
    then show ?thesis using grow_grows [OF assms(1) count(1), of q p] shrink_keeps(1) keeps_trans by (auto simp: grows_def)
  qed simp
  show "appends q S S'" if "q \<noteq> r \<or> is_null (jget node ''countExpr'')"
  proof (cases rule: cs)
    case (count k S1 n)
    then show ?thesis using grow_grows [OF assms(1) count(1), of q p] shrink_keeps(2) that by (auto simp: grows_def appends_def)
  qed (simp add: appends_def)
qed

lemma recalculate_keeps:
  assumes "form_ok F" "binds_ok F" "answer_path F p" "recalculate L F S = Inr S'"
  shows "keeps p S S'"
proof -
  obtain S1 S2 where f: "foldM (resolve_rows L F) S (cf_repeats F) = Inr S1"
    "foldM (apply_count L F) S1 (cf_repeats F) = Inr S2" "foldM (evaluate_everywhere L F) S2 (cf_topo_order F) = Inr S'"
    using assms(4) by (auto simp: recalculate_def rbind_Inr_iff)
  have "keeps p S S1"
    using resolve_rows_grows [OF assms(1,2)] by (intro foldM_rel [of "keeps p", OF keeps_refl keeps_trans _ f(1)]) (auto simp: grows_def)
  moreover have "keeps p S1 S2"
    using apply_count_keeps(1) [OF assms(1)] by (intro foldM_rel [of "keeps p", OF keeps_refl keeps_trans _ f(2)]) auto
  moreover have "keeps p S2 S'"
    using evaluate_everywhere_grows [OF assms(1,3)] by (intro foldM_rel [of "keeps p", OF keeps_refl keeps_trans _ f(3)]) (auto simp: grows_def)
  ultimately show ?thesis using keeps_trans by blast
qed

lemma evaluate_everywhere_only: "evaluate_everywhere L F S fid = Inr S' \<Longrightarrow> only_cells S S'"
proof (cases "map_of (cf_fields F) fid")
  case None
  then show "evaluate_everywhere L F S fid = Inr S' \<Longrightarrow> only_cells S S'" by (simp add: evaluate_everywhere_def)
next
  case (Some f)
  show "evaluate_everywhere L F S fid = Inr S' \<Longrightarrow> only_cells S S'"
    unfolding evaluate_everywhere_places [OF Some] by (rule conjunct1 [OF evaluate_places])
qed

lemma recalculate_appends:
  assumes "form_ok F" "binds_ok F" "recalculate L F S = Inr S'"
    and "map_of (cf_repeats F) q = Some node" "is_null (jget node ''countExpr'')"
  shows "appends q S S'"
proof -
  obtain S1 S2 where f: "foldM (resolve_rows L F) S (cf_repeats F) = Inr S1"
    "foldM (apply_count L F) S1 (cf_repeats F) = Inr S2" "foldM (evaluate_everywhere L F) S2 (cf_topo_order F) = Inr S'"
    using assms(3) by (auto simp: recalculate_def rbind_Inr_iff)
  have "appends q S S1"
    using resolve_rows_grows [OF assms(1,2)]
    by (intro foldM_rel [of "appends q", OF _ _ _ f(1)]) (auto simp: grows_def appends_def)
  moreover have "appends q S1 S2"
  proof (rule foldM_rel [of "appends q", OF _ _ _ f(2)])
    fix A x B assume x: "x \<in> set (cf_repeats F)" "apply_count L F A x = Inr B"
    obtain r n where rn: "x = (r, n)" by force
    have "n = node" if "r = q"
      using x(1) assms(1,4) that unfolding rn form_ok_def by (metis map_of_is_SomeI option.inject)
    then show "appends q A B" using apply_count_keeps(2) [OF assms(1) x(2) [unfolded rn], of q] assms(5) by blast
  qed (auto simp: appends_def)
  moreover have "appends q S2 S'"
    by (rule foldM_rel [of "appends q", OF _ _ _ f(3)])
      (auto simp: appends_def only_cells_inst [OF evaluate_everywhere_only])
  ultimately show ?thesis by (auto simp: appends_def)
qed

subsection \<open>Operations\<close>

lemma empty_instance_ok:
  assumes "form_ok F"
  shows "inst_ok F (empty_instance F today now metadata datasets)"
proof -
  let ?S = "empty_instance F today now metadata datasets"
  have keys: "map fst (map (\<lambda>(i, f). (i, g i f)) xs) = map fst xs" for g :: "string \<Rightarrow> compiled_field \<Rightarrow> 'a" and xs
    by (induction xs) auto
  have il: "inst_list ?S r = []" for r
    by (auto simp: inst_list_def empty_instance_def Let_def split: option.split dest!: map_of_SomeD)
  have "map fst (i_values ?S) = map fst (filter (\<lambda>(i, f). f_repeat f = None) (cf_fields F))"
    "map fst (i_states ?S) = map fst (filter (\<lambda>(i, f). f_repeat f = None) (cf_fields F))"
    by (simp_all add: empty_instance_def Let_def keys)
  moreover have "distinct (map fst (filter (\<lambda>(i, f). f_repeat f = None) (cf_fields F)))"
    using assms by (auto simp: form_ok_def ids_of_def intro: distinct_map_filter)
  moreover have "map fst (i_instances ?S) = map fst (cf_repeats F)"
    by (induction "cf_repeats F") (auto simp: empty_instance_def Let_def)
  moreover have "list_all (\<lambda>(r, ids). ids_ok ?S ids) (i_instances ?S)"
    by (auto simp: empty_instance_def Let_def list_all_iff)
  moreover have "cell F ?S p \<longleftrightarrow> p \<in> set (map fst (filter (\<lambda>(i, f). f_repeat f = None) (cf_fields F)))" for p
    unfolding cell_iff il by force
  ultimately show ?thesis unfolding inst_ok_def by simp
qed

text \<open>Every operation changes the state in steps that keep it well formed, and then recalculates.\<close>

definition recalculated :: "pylib \<Rightarrow> cform \<Rightarrow> form_inst \<Rightarrow> form_inst \<Rightarrow> bool" where
  "recalculated L F S S' \<longleftrightarrow> (\<exists>S1. step_ok F S S1 \<and> recalculate L F S1 = Inr S')"

lemma recalculated_step: "form_ok F \<Longrightarrow> recalculated L F S S' \<Longrightarrow> step_ok F S S'"
  using recalculate_step step_ok_trans unfolding recalculated_def by blast

lemma new_instance_recalculated:
  assumes "form_ok F" "new_instance L F today now metadata datasets = Inr S"
  shows "recalculated L F (empty_instance F today now metadata datasets) S"
proof -
  obtain S0 where f: "foldM (min_instances F) (empty_instance F today now metadata datasets) (cf_repeats F) = Inr S0"
    and r: "recalculate L F S0 = Inr S"
    using assms(2) by (auto simp: new_instance_def rbind_Inr_iff)
  have "step_ok F (empty_instance F today now metadata datasets) S0"
  proof (rule foldM_step [OF _ f])
    fix A x B assume x: "x \<in> set (cf_repeats F)" "min_instances F A x = Inr B"
    obtain q node where q: "x = (q, node)" by force
    have key: "has_key (cf_repeats F) q" using x(1) q unfolding has_key_iff by force
    show "step_ok F A B"
      using x(2) grow_step [OF assms(1) key] by (auto simp: min_instances_def q rbind_Inr_iff split: if_splits)
  qed
  then show ?thesis using r by (auto simp: recalculated_def)
qed

lemma new_instance_ok: "form_ok F \<Longrightarrow> new_instance L F today now metadata datasets = Inr S \<Longrightarrow> inst_ok F S"
  using recalculated_step [OF _ new_instance_recalculated] empty_instance_ok by (auto simp: step_ok_def)

text \<open>The operations a client performs on a live form.\<close>

inductive op_step :: "pylib \<Rightarrow> cform \<Rightarrow> form_inst \<Rightarrow> form_inst \<Rightarrow> bool"
  for L :: pylib and F :: cform
where
  op_add: "add_instance L F S r = Inr (iid, S') \<Longrightarrow> op_step L F S S'"
| op_delete: "delete_instance L F S r k = Inr S' \<Longrightarrow> op_step L F S S'"
| op_set: "set_many L F S given = Inr S' \<Longrightarrow> op_step L F S S'"
| op_restore: "restore L F S instances given = Inr (unplaced, S') \<Longrightarrow> op_step L F S S'"

inductive opened :: "pylib \<Rightarrow> cform \<Rightarrow> form_inst \<Rightarrow> bool" for L :: pylib and F :: cform where
  opened_new: "new_instance L F today now metadata datasets = Inr S \<Longrightarrow> opened L F S"

inductive_cases op_stepE: "op_step L F S S'"
inductive_cases openedE: "opened L F S"

lemma add_instance_parts:
  assumes "add_instance L F S r = Inr (iid, S')"
  obtains node S1 where "map_of (cf_repeats F) r = Some node" "is_null (jget node ''countExpr'')"
    "create_instance F S r JNull = Inr (iid, S1)" "recalculate L F S1 = Inr S'"
  using assms
  by (auto simp: add_instance_def rbind_Inr_iff split: option.splits if_splits)

lemma delete_instance_parts:
  assumes "delete_instance L F S r k = Inr S'"
  obtains node where "map_of (cf_repeats F) r = Some node" "is_null (jget node ''countExpr'')"
    "0 \<le> k" "nat k < length (inst_list S r)"
    "recalculate L F (destroy_instance F (S\<lparr>i_instances := AList.update r
       (take (nat k) (inst_list S r) @ drop (Suc (nat k)) (inst_list S r)) (i_instances S)\<rparr>) r
       (inst_list S r ! nat k)) = Inr S'"
  using assms
  by (auto simp: delete_instance_def Let_def rbind_Inr_iff split: option.splits if_splits)

lemma set_without_nth:
  assumes "distinct xs" "i < length xs"
  shows "set (take i xs @ drop (Suc i) xs) = set xs - {xs ! i}" "distinct (take i xs @ drop (Suc i) xs)"
proof -
  have xs: "xs = take i xs @ xs ! i # drop (Suc i) xs" using id_take_nth_drop [OF assms(2)] .
  then have "distinct (take i xs @ xs ! i # drop (Suc i) xs)" using assms(1) by simp
  then have d: "distinct (take i xs @ drop (Suc i) xs)" "xs ! i \<notin> set (take i xs @ drop (Suc i) xs)" by auto
  then show "distinct (take i xs @ drop (Suc i) xs)" by blast
  have "set xs = insert (xs ! i) (set (take i xs @ drop (Suc i) xs))" by (subst xs) auto
  then show "set (take i xs @ drop (Suc i) xs) = set xs - {xs ! i}" using d(2) by auto
qed

lemma add_instance_recalculated:
  "form_ok F \<Longrightarrow> add_instance L F S r = Inr (iid, S') \<Longrightarrow> recalculated L F S S'"
  unfolding recalculated_def by (erule add_instance_parts) (auto intro!: exI create_instance_step(1))

lemma delete_instance_recalculated:
  assumes "form_ok F" "delete_instance L F S r k = Inr S'"
  shows "recalculated L F S S'"
proof -
  obtain node where n: "map_of (cf_repeats F) r = Some node" "0 \<le> k" "nat k < length (inst_list S r)"
    and rc: "recalculate L F (destroy_instance F (S\<lparr>i_instances := AList.update r
       (take (nat k) (inst_list S r) @ drop (Suc (nat k)) (inst_list S r)) (i_instances S)\<rparr>) r
       (inst_list S r ! nat k)) = Inr S'" (is "recalculate L F ?S = _")
    using delete_instance_parts [OF assms(2)] by metis
  have "step_ok F S ?S"
    unfolding step_ok_def
    using destroy_ok [OF assms(1) _ _ set_without_nth [OF inst_ok_distinct n(3)]] n(1)
    by (auto simp: destroy_instance_eq)
  then show ?thesis using rc by (auto simp: recalculated_def)
qed

lemma put_value_step: "has_key (i_values S) p \<Longrightarrow> step_ok F S (S\<lparr>i_values := AList.update p v (i_values S)\<rparr>)"
  using put_value_ok by (auto simp: step_ok_def)

lemma set_many_recalculated:
  assumes "set_many L F S given = Inr S'"
  shows "recalculated L F S S'"
proof -
  obtain S1 where f: "foldM (\<lambda>S (path, v). rbind (canonical S path) (\<lambda>c.
       if \<not> has_key (i_values S) c then Inl (CompileError ''unknown field'')
       else Inr (S\<lparr>i_values := AList.update c v (i_values S)\<rparr>))) S given = Inr S1"
    and r: "recalculate L F S1 = Inr S'"
    using assms by (auto simp: set_many_def rbind_Inr_iff)
  have "step_ok F S S1"
    by (rule foldM_step [OF _ f]) (auto simp: rbind_Inr_iff split: prod.splits if_splits intro: put_value_step)
  then show ?thesis using r by (auto simp: recalculated_def)
qed

lemma restore_instance_step:
  assumes "form_ok F" "has_key (cf_repeats F) r" "restore_instance F r S iid = Inr S'"
  shows "step_ok F S S'"
proof (cases "iid \<in> set (inst_list S r)")
  case True
  then show ?thesis using assms(3) by (simp add: restore_instance_def)
next
  case False
  let ?n = "case serial_of iid of None \<Rightarrow> i_serial S | Some n \<Rightarrow> max (i_serial S) n"
  let ?T = "S\<lparr>i_instances := AList.update r (inst_list S r @ [iid]) (i_instances S), i_serial := ?n\<rparr>"
  have "S' = add_cells F r iid ?T"
    using assms(3) False
    by (auto simp: restore_instance_def Let_def rbind_Inr_iff add_cells_eq split: option.splits)
  moreover have "inst_ok F (add_cells F r iid ?T)" if "inst_ok F S"
    by (rule append_instance_ok [OF assms(1) that False assms(2)]) (auto split: option.split)
  ultimately show ?thesis by (auto simp: step_ok_def add_cells_eq split: option.split)
qed

lemma restore_recalculated:
  assumes "form_ok F" "restore L F S instances given = Inr (unplaced, S')"
  shows "recalculated L F S S'"
proof -
  obtain acc u1 S1 where f: "foldM (restore_repeat F) ([], S) instances = Inr acc"
    and g: "foldM restore_answer acc given = Inr (u1, S1)" and r: "recalculate L F S1 = Inr S'"
    using assms(2) by (auto simp: restore_def rbind_Inr_iff)
  let ?R = "\<lambda>(a :: string list \<times> form_inst) (b :: string list \<times> form_inst). step_ok F (snd a) (snd b)"
  have "?R ([], S) acc"
  proof (rule foldM_rel [where R = ?R, OF _ _ _ f])
    fix a x b assume "restore_repeat F a x = Inr b"
    then consider "snd b = snd a" | q ids where "has_key (cf_repeats F) q" "foldM (restore_instance F q) (snd a) ids = Inr (snd b)"
      by (cases a; cases x) (auto simp: restore_repeat_def rbind_Inr_iff split: if_splits, blast)
    then show "?R a b"
    proof cases
      case (2 q ids)
      then show ?thesis using restore_instance_step [OF assms(1) 2(1)] by (intro foldM_step [OF _ 2(2)])
    qed simp
  qed (auto intro: step_ok_trans)
  moreover have "?R acc (u1, S1)"
    by (rule foldM_rel [where R = ?R, OF _ _ _ g])
      (auto simp: restore_answer_def intro: step_ok_trans intro!: put_value_step split: prod.splits sum.splits if_splits)
  ultimately have "step_ok F S S1" using step_ok_trans by fastforce
  then show ?thesis using r by (auto simp: recalculated_def)
qed

lemma op_step_recalculated: "form_ok F \<Longrightarrow> op_step L F S S' \<Longrightarrow> recalculated L F S S'"
  by (erule op_stepE)
    (auto intro: add_instance_recalculated delete_instance_recalculated set_many_recalculated restore_recalculated)

lemma op_step_ok: "form_ok F \<Longrightarrow> op_step L F S S' \<Longrightarrow> step_ok F S S'"
  by (rule recalculated_step [OF _ op_step_recalculated])

text \<open>A live form of a well-formed compiled form is a machine whose serial only grows.\<close>

definition live :: "pylib \<Rightarrow> cform \<Rightarrow> form_inst \<Rightarrow> bool" where
  "live L F = reachable (opened L F) (op_step L F)"

interpretation live_form: growing_system
  "\<lambda>S. form_ok F \<and> opened L F S" "\<lambda>S S'. form_ok F \<and> op_step L F S S'" "inst_ok F" i_serial for L F
  by unfold_locales (auto elim!: openedE simp: new_instance_ok dest: op_step_ok simp: step_ok_def)

lemma live_reachable:
  assumes "form_ok F"
  shows "live L F S \<longleftrightarrow> reachable (\<lambda>S. form_ok F \<and> opened L F S) (\<lambda>S S'. form_ok F \<and> op_step L F S S') S"
  using assms by (simp add: live_def)

lemma live_inst_ok: "form_ok F \<Longrightarrow> live L F S \<Longrightarrow> inst_ok F S"
  using live_form.reachable_inv live_reachable by blast

lemma live_serial_grows: "form_ok F \<Longrightarrow> live L F S \<Longrightarrow> (op_step L F)\<^sup>*\<^sup>* S S' \<Longrightarrow> i_serial S \<le> i_serial S'"
  using live_form.reachable_grows [of F L S S'] live_reachable [of F L S] by simp

subsection \<open>Dependencies of a compiled form\<close>

text \<open>The walk visits a container before what is inside it.\<close>

fun anc_ok :: "string set \<Rightarrow> (dict \<times> string list) list \<Rightarrow> bool" where
  "anc_ok K [] = True"
| "anc_ok K ((node, as) # ns) = (set as \<subseteq> K \<and>
     anc_ok (if is_container (jget node ''type'')
             then K \<union> {i. str_item node ''id'' = Inr i} else K) ns)"

lemma anc_ok_mono: "anc_ok K ns \<Longrightarrow> K \<subseteq> K' \<Longrightarrow> anc_ok K' ns"
proof (induction K ns arbitrary: K' rule: anc_ok.induct)
  case (2 K node as ns)
  have "anc_ok (if is_container (jget node ''type'') then K' \<union> {i. str_item node ''id'' = Inr i} else K') ns"
    by (rule 2(1)) (use 2(2,3) in \<open>auto split: if_splits\<close>)
  then show ?case using 2(2,3) by auto
qed simp

lemma anc_ok_append: "anc_ok K xs \<Longrightarrow> anc_ok K ys \<Longrightarrow> anc_ok K (xs @ ys)"
proof (induction K xs rule: anc_ok.induct)
  case (2 K node as ns)
  let ?K = "if is_container (jget node ''type'') then K \<union> {i. str_item node ''id'' = Inr i} else K"
  have "anc_ok ?K ys" by (rule anc_ok_mono [OF 2(3)]) auto
  then show ?case using 2(1) 2(2) by simp
qed simp

lemma anc_ok_concat: "\<forall>xs \<in> set xss. anc_ok K xs \<Longrightarrow> anc_ok K (concat xss)"
  by (induction xss) (auto intro: anc_ok_append)

lemma walk_anc_ok:
  "walk children ancestors = Inr ns \<Longrightarrow> set ancestors \<subseteq> K \<Longrightarrow> anc_ok K ns"
proof (induction children ancestors arbitrary: ns K rule: walk.induct)
  case (1 children ancestors)
  let ?g = "\<lambda>node. case node of
         JObj kvs \<Rightarrow>
           rbind (jitem kvs ''type'') (\<lambda>t.
           if is_container t
           then rbind (str_item kvs ''id'') (\<lambda>node_id.
                if children_of kvs = JList [] then Inr [(kvs, ancestors)]
                else rbind (walk (children_of kvs) (ancestors @ [node_id])) (\<lambda>below.
                  Inr ((kvs, ancestors) # below)))
           else Inr [(kvs, ancestors)])
       | _ \<Rightarrow> Inl TypeError"
  obtain nodes parts where n: "py_iter children = Inr nodes" and m: "mapM ?g nodes = Inr parts" and ns: "ns = concat parts"
    using 1(2) by (subst (asm) walk.simps) (auto simp: rbind_Inr_iff)
  have "anc_ok K part" if part: "part \<in> set parts" for part
  proof -
    obtain node where node: "node \<in> set nodes" "?g node = Inr part" using mapM_set [OF m part] by (rule bexE)
    obtain kvs where kvs: "node = JObj kvs" using node(2) by (cases node) auto
    obtain t where t: "jitem kvs ''type'' = Inr t" using node(2) by (auto simp: kvs rbind_Inr_iff)
    then have ty: "jget kvs ''type'' = t" by (simp add: jitem_def jget_def of_option_Inr_iff)
    show ?thesis
    proof (cases "is_container t \<and> children_of kvs \<noteq> JList []")
      case False
      then show ?thesis using node(2) 1(3) t by (auto simp: kvs rbind_Inr_iff split: if_splits)
    next
      case True
      then obtain i below where i: "str_item kvs ''id'' = Inr i"
        and w: "walk (children_of kvs) (ancestors @ [i]) = Inr below" "part = (kvs, ancestors) # below"
        using node(2) t by (auto simp: kvs rbind_Inr_iff)
      have "anc_ok (K \<union> {i. str_item kvs ''id'' = Inr i}) below"
        by (rule 1(1) [OF n node(1) kvs t _ i _ w(1)]) (use True 1(3) i in auto)
      then show ?thesis using True 1(3) ty by (simp add: w(2))
    qed
  qed
  then show ?case unfolding ns by (intro anc_ok_concat) blast
qed

definition deps_ok :: "cform \<Rightarrow> bool" where
  "deps_ok F \<longleftrightarrow> (\<forall>(i, f) \<in> set (cf_fields F). set (f_ancestors f) \<subseteq> set (map fst (cf_containers F)) \<and>
     (\<forall>e \<in> set (field_exprs F f). set (collect_refs e) \<subseteq> set (f_depends_on f)))"

lemma deps_ok_D:
  assumes "deps_ok F" "(i, f) \<in> set (cf_fields F)"
  shows "set (f_ancestors f) \<subseteq> set (map fst (cf_containers F))"
    "\<forall>e \<in> set (field_exprs F f). set (collect_refs e) \<subseteq> set (f_depends_on f)"
  using bspec [OF assms(1) [unfolded deps_ok_def] assms(2)] by simp_all

lemma refs_if_dict_eq: "refs_if_dict e = collect_refs e"
  by (cases e) (simp_all add: refs_if_dict_def)

lemma field_exprs_grow:
  assumes "cf_containers G = cf_containers F @ cs" "set (f_ancestors f) \<subseteq> set (map fst (cf_containers F))"
  shows "field_exprs G f = field_exprs F f"
proof -
  have "map_of (cf_containers G) a = map_of (cf_containers F) a" if "a \<in> set (f_ancestors f)" for a
  proof -
    have "has_key (cf_containers F) a" using assms(2) that unfolding has_key_iff by blast
    then show ?thesis by (auto simp: assms(1) map_add_def)
  qed
  then show ?thesis by (simp add: field_exprs_def)
qed

lemma deps_ok_grow:
  assumes "deps_ok F" "cf_fields G = cf_fields F" "cf_containers G = cf_containers F @ cs"
  shows "deps_ok G"
  unfolding deps_ok_def assms(2)
proof clarify
  fix i f assume "(i, f) \<in> set (cf_fields F)"
  note f = deps_ok_D [OF assms(1) this]
  show "set (f_ancestors f) \<subseteq> set (map fst (cf_containers G)) \<and>
     (\<forall>e \<in> set (field_exprs G f). set (collect_refs e) \<subseteq> set (f_depends_on f))"
    unfolding field_exprs_grow [OF assms(3) f(1)] using f by (auto simp: assms(3))
qed

lemma guarded_rbind:
  "(if c then Inl e else rbind a f) = Inr y \<Longrightarrow> \<exists>x. f x = Inr y"
  by (auto simp: rbind_Inr_iff split: if_splits)

lemma compile_question_deps:
  assumes "compile_question L F i node anc = Inr G" "deps_ok F" "set anc \<subseteq> set (map fst (cf_containers F))"
  shows "deps_ok G \<and> cf_containers G = cf_containers F"
proof -
  obtain f where G: "G = F\<lparr>cf_fields := cf_fields F @ [(i, f)], cf_order := cf_order F @ [i]\<rparr>"
    and f: "f_node f = node" "f_ancestors f = anc"
      "set (concat (map (\<lambda>k. refs_if_dict (jget node k)) DEP_KEYS)) \<subseteq> set (f_depends_on f)"
      "set (concat (map (ancestor_deps (cf_containers F)) anc)) \<subseteq> set (f_depends_on f)"
  proof -
    from assms(1) [unfolded compile_question_def Let_def rbind_Inr_iff] obtain ld md q rows where
      "(if (case rows of None \<Rightarrow> False
              | Some r \<Rightarrow> r_exclude_self r \<and> r_repeat r \<notin> set (enclosing_repeats F anc))
        then Inl (CompileError ''choices.excludeSelf outside the repeat'')
        else rbind (str_item node ''dataType'') (\<lambda>data_type.
          Inr (F\<lparr>cf_fields := cf_fields F @ [(i,
            \<lparr>f_id = i, f_node = node, f_data_type = data_type,
             f_depends_on = remdups (concat (map (\<lambda>k. refs_if_dict (jget node k)) DEP_KEYS) @ ld @ md @
               concat (map (ancestor_deps (cf_containers F)) anc) @
               (case rows of None \<Rightarrow> [] | Some r \<Rightarrow> (case r_filter r of None \<Rightarrow> [] | Some e \<Rightarrow> row_filter_deps e)) @
               (case q of None \<Rightarrow> [] | Some q \<Rightarrow> query_deps q)),
             f_ancestors = anc,
             f_repeat = (case enclosing_repeats F anc of [] \<Rightarrow> None | r # _ \<Rightarrow> Some r),
             f_choice_query = q, f_rows_query = rows\<rparr>)], cf_order := cf_order F @ [i]\<rparr>))) = Inr G"
      by (elim exE conjE) (rule that)
    from guarded_rbind [OF this] obtain dt where "G = F\<lparr>cf_fields := cf_fields F @ [(i,
            \<lparr>f_id = i, f_node = node, f_data_type = dt,
             f_depends_on = remdups (concat (map (\<lambda>k. refs_if_dict (jget node k)) DEP_KEYS) @ ld @ md @
               concat (map (ancestor_deps (cf_containers F)) anc) @
               (case rows of None \<Rightarrow> [] | Some r \<Rightarrow> (case r_filter r of None \<Rightarrow> [] | Some e \<Rightarrow> row_filter_deps e)) @
               (case q of None \<Rightarrow> [] | Some q \<Rightarrow> query_deps q)),
             f_ancestors = anc,
             f_repeat = (case enclosing_repeats F anc of [] \<Rightarrow> None | r # _ \<Rightarrow> Some r),
             f_choice_query = q, f_rows_query = rows\<rparr>)], cf_order := cf_order F @ [i]\<rparr>"
      by (elim exE, drule_tac Inr_inject) (rule that, erule sym)
    then show ?thesis by (rule that) auto
  qed
  have ex: "field_exprs G g = field_exprs F g" for g by (simp add: field_exprs_def G)
  have "set (collect_refs e) \<subseteq> set (f_depends_on f)" if e: "e \<in> set (field_exprs F f)" for e
  proof -
    consider k where "k \<in> set DEP_KEYS" "e = jget node k"
      | a where "a \<in> set anc" "e = (case map_of (cf_containers F) a of None \<Rightarrow> JNull | Some n \<Rightarrow> jget n ''relevant'')"
      using e by (auto simp: field_exprs_def f(1,2) DEP_KEYS_def)
    then show ?thesis
    proof cases
      case (1 k)
      then show ?thesis using f(3) by (auto simp: refs_if_dict_eq)
    next
      case (2 a)
      then have "collect_refs e = ancestor_deps (cf_containers F) a"
        by (simp add: ancestor_deps_def refs_if_dict_eq split: option.split)
      then show ?thesis using f(4) 2(1) by auto
    qed
  qed
  then have "deps_ok G"
    using assms(3) deps_ok_D [OF assms(2)] unfolding deps_ok_def ex by (fastforce simp: G f(2))
  then show ?thesis by (simp add: G)
qed

lemma compile_node_deps:
  assumes "compile_node L (seen, F) (node, anc) = Inr (seen', G)" "deps_ok F" "set anc \<subseteq> set (map fst (cf_containers F))"
  shows "deps_ok G \<and> set (map fst (cf_containers F)) \<subseteq> set (map fst (cf_containers G)) \<and>
    (\<forall>i. is_container (jget node ''type'') \<longrightarrow> str_item node ''id'' = Inr i \<longrightarrow> i \<in> set (map fst (cf_containers G)))"
proof -
  obtain i where si: "str_item node ''id'' = Inr i"
    using assms(1) by (auto simp: compile_node_def rbind_Inr_iff)
  have i: "id_pattern i" "i \<notin> set seen" "\<not> 1 < length (enclosing_repeats F anc)"
    using assms(1) si by (auto simp: compile_node_def split: if_splits)
  obtain t where t: "jitem node ''type'' = Inr t"
    using assms(1) si i by (auto simp: compile_node_def rbind_Inr_iff)
  then have ty: "jget node ''type'' = t" by (simp add: jitem_def jget_def of_option_Inr_iff)
  have step: "(if t = JStr ''repeat'' then
            rbind (compile_repeat F i node anc) (\<lambda>F'. Inr (i # seen, F'))
          else if t = JStr ''group'' then
            Inr (i # seen, compile_group F i node anc)
          else rbind (compile_question L F i node anc) (\<lambda>F'. Inr (i # seen, F'))) = Inr (seen', G)"
    using assms(1) si i t by (simp add: compile_node_def)
  consider (c) "cf_containers G = cf_containers F @ [(i, node)]" "cf_fields G = cf_fields F"
    | (q) "compile_question L F i node anc = Inr G" "\<not> is_container t"
  proof (cases "t = JStr ''repeat''")
    case True
    then have "compile_repeat F i node anc = Inr G" using step by (auto simp: rbind_Inr_iff)
    then have "cf_containers G = cf_containers F @ [(i, node)] \<and> cf_fields G = cf_fields F"
      by (auto simp: compile_repeat_def rbind_Inr_iff split: if_splits)
    then show ?thesis using c by blast
  next
    case False
    then show ?thesis
      using step c q by (cases "t = JStr ''group''") (auto simp: compile_group_def rbind_Inr_iff is_container_def)
  qed
  then show ?thesis
  proof cases
    case c
    then show ?thesis using deps_ok_grow [OF assms(2) c(2,1)] si by auto
  next
    case q
    then show ?thesis using compile_question_deps [OF q(1) assms(2,3)] ty by simp
  qed
qed

lemma compile_nodes_deps:
  assumes "foldM (compile_node L) (seen, F) nodes = Inr acc" "deps_ok F" "anc_ok K nodes" "K \<subseteq> set (map fst (cf_containers F))"
  shows "deps_ok (snd acc)"
  using assms
proof (induction nodes arbitrary: seen F K)
  case (Cons x nodes)
  obtain node anc where x: "x = (node, anc)" by force
  obtain seen' G where G: "compile_node L (seen, F) (node, anc) = Inr (seen', G)"
      "foldM (compile_node L) (seen', G) nodes = Inr acc"
    using Cons.prems(1) by (auto simp: x rbind_Inr_iff)
  have anc: "set anc \<subseteq> set (map fst (cf_containers F))" using Cons.prems(3,4) by (auto simp: x)
  note d = compile_node_deps [OF G(1) Cons.prems(2) anc]
  let ?K = "if is_container (jget node ''type'') then K \<union> {i. str_item node ''id'' = Inr i} else K"
  have "anc_ok ?K nodes" using Cons.prems(3) by (simp add: x)
  moreover have "?K \<subseteq> set (map fst (cf_containers G))" using d Cons.prems(4) by auto
  ultimately show ?case using Cons.IH [OF G(2) conjunct1 [OF d]] by blast
qed auto

lemma link_rows_deps:
  assumes "link_rows_choices F = Inr G" "deps_ok F"
  shows "deps_ok G"
proof -
  obtain fs where fs: "mapM (link_rows F) (cf_fields F) = Inr fs" "G = F\<lparr>cf_fields := fs\<rparr>"
    using assms(1) by (auto simp: link_rows_choices_def rbind_Inr_iff)
  have ex: "field_exprs G g = field_exprs F g" for g by (simp add: field_exprs_def fs(2))
  have "set (f_ancestors f') \<subseteq> set (map fst (cf_containers F)) \<and>
     (\<forall>e \<in> set (field_exprs F f'). set (collect_refs e) \<subseteq> set (f_depends_on f'))" if mem: "(i, f') \<in> set fs" for i f'
  proof -
    obtain x where x: "x \<in> set (cf_fields F)" "link_rows F x = Inr (i, f')" using mapM_set [OF fs(1) mem] by (rule bexE)
    obtain j f where jf: "x = (j, f)" by force
    have "f_node f' = f_node f \<and> f_ancestors f' = f_ancestors f \<and> set (f_depends_on f) \<subseteq> set (f_depends_on f')"
      using x(2) by (auto simp: jf link_rows_def Let_def split: option.splits if_splits)
    moreover have "field_exprs F f' = field_exprs F f" using calculation by (simp add: field_exprs_def)
    ultimately show ?thesis using deps_ok_D [OF assms(2) x(1) [unfolded jf]] by auto
  qed
  then show ?thesis unfolding deps_ok_def ex by (fastforce simp: fs(2))
qed

lemma deps_ok_frame: "deps_ok (F\<lparr>cf_warnings := w\<rparr>) = deps_ok F" "deps_ok (F\<lparr>cf_topo_order := t\<rparr>) = deps_ok F"
  by (simp_all add: deps_ok_def field_exprs_def)

lemma compile_form_deps:
  assumes "compile_form L ir = Inr F"
  shows "deps_ok F"
proof -
  obtain kvs form_id version nodes F0 where w: "walk (children_of kvs) [] = Inr nodes"
    and n: "compile_nodes L (empty_form kvs form_id version) nodes = Inr F0" and f: "finish_compile L F0 = Inr F"
    using assms by (auto simp: compile_form_def rbind_Inr_iff split: json.splits)
  have "deps_ok (empty_form kvs form_id version)" by (simp add: deps_ok_def empty_form_def)
  then have F0: "deps_ok F0"
    using n walk_anc_ok [OF w, of "{}"] compile_nodes_deps [of L "[]" _ nodes _ "{}"]
    by (auto simp: compile_nodes_def rbind_Inr_iff)
  obtain F1 F2 t where l: "link_rows_choices F0 = Inr F1" and c: "check_interpolation F1 = Inr F2"
    and G: "lint L (F2\<lparr>cf_topo_order := t\<rparr>) = Inr F"
    using f by (auto simp: finish_compile_def rbind_Inr_iff)
  obtain w where F2: "F2 = F1\<lparr>cf_warnings := w\<rparr>"
    using c by (auto simp: check_interpolation_def rbind_Inr_iff)
  obtain w' where "F = F2\<lparr>cf_topo_order := t, cf_warnings := w'\<rparr>"
    using G by (auto simp: lint_def rbind_Inr_iff)
  then show ?thesis using link_rows_deps [OF l F0] by (simp add: F2 deps_ok_frame)
qed

end
