(* ===== verification/Screens.thy ===== *)
theory Screens
  imports Instance_Laws
begin

text \<open>
  \<open>form_engine/screens.py\<close>: the static partition of a form into screens, navigation over it, progress
  and finalisation. The plan is a function of the document alone; relevance, navigation and blocking
  read the live form.
\<close>

definition QUESTIONS :: string where "QUESTIONS = ''questions''"
definition REPEAT :: string where "REPEAT = ''repeat''"

record form_screen =
  sc_index :: nat
  sc_kind :: string
  sc_group :: "string option"
  sc_section :: "string option"
  sc_questions :: "string list"
  sc_repeat :: "string option"

record screen_plan =
  sp_screens :: "form_screen list"
  sp_instance_plans :: "(string \<times> form_screen list) list"

record position =
  pos_screen :: int
  pos_instance :: "string option"
  pos_instance_screen :: "int option"

definition at_screen :: "int \<Rightarrow> position" where
  "at_screen i = \<lparr>pos_screen = i, pos_instance = None, pos_instance_screen = None\<rparr>"

definition inside :: "position \<Rightarrow> bool" where
  "inside p \<longleftrightarrow> pos_instance p \<noteq> None"

definition askable_question_ids :: "screen_plan \<Rightarrow> string list" where
  "askable_question_ids plan = concat (map sc_questions (sp_screens plan)) @
     concat (map (\<lambda>(r, inner). concat (map sc_questions inner)) (sp_instance_plans plan))"

subsection \<open>The plan\<close>

lemma foldM_cong [fundef_cong]:
  "xs = ys \<Longrightarrow> s = t \<Longrightarrow> (\<And>s x. x \<in> set ys \<Longrightarrow> f s x = g s x) \<Longrightarrow> foldM f s xs = foldM g t ys"
proof -
  have "(\<And>s x. x \<in> set ys \<Longrightarrow> f s x = g s x) \<Longrightarrow> foldM f s ys = foldM g s ys" for s
    by (induction ys arbitrary: s) (auto intro: rbind_cong)
  then show "xs = ys \<Longrightarrow> s = t \<Longrightarrow> (\<And>s x. x \<in> set ys \<Longrightarrow> f s x = g s x) \<Longrightarrow> foldM f s xs = foldM g t ys"
    by simp
qed

text \<open>Recursion into a node's children is recursion into a smaller value.\<close>

lemma depth_into_children:
  assumes "py_iter children = Inr nodes" "JObj kvs \<in> set nodes" "children_of kvs \<noteq> JList []"
  shows "depth (children_of kvs) < depth children"
  using depth_py_iter [OF assms(1,2)] depth_children_of [OF assms(3)] by (simp del: depth.simps)

function collect_questions :: "json \<Rightarrow> string list res" where
  "collect_questions children =
     rbind (py_iter children) (\<lambda>nodes.
     rbind (mapM (\<lambda>node.
       case node of
         JObj kvs \<Rightarrow>
           rbind (jitem kvs ''type'') (\<lambda>kind.
           if kind = JStr ''question''
           then (if is_null (jget kvs ''calculate'')
                 then rbind (str_item kvs ''id'') (\<lambda>i. Inr [i]) else Inr [])
           else if kind = JStr ''group''
           then (if children_of kvs = JList [] then Inr [] else collect_questions (children_of kvs))
           else Inr [])
       | _ \<Rightarrow> Inl TypeError) nodes) (\<lambda>parts. Inr (concat parts)))"
  by pat_completeness auto
termination
  by (relation "measure depth") (auto intro: depth_into_children)

type_synonym plan_acc = "form_screen list \<times> (string \<times> form_screen list) list"

definition question_screen :: "string option \<Rightarrow> form_screen list \<Rightarrow> string option \<Rightarrow> string list \<Rightarrow> form_screen" where
  "question_screen section out grp qs =
     \<lparr>sc_index = length out, sc_kind = QUESTIONS, sc_group = grp, sc_section = section,
      sc_questions = qs, sc_repeat = None\<rparr>"

definition repeat_screen :: "string option \<Rightarrow> form_screen list \<Rightarrow> string \<Rightarrow> form_screen" where
  "repeat_screen section out r =
     \<lparr>sc_index = length out, sc_kind = REPEAT, sc_group = None, sc_section = section,
      sc_questions = [], sc_repeat = Some r\<rparr>"

function plan_walk :: "json \<Rightarrow> string option \<Rightarrow> plan_acc \<Rightarrow> plan_acc res" where
  "plan_walk children section acc =
     rbind (py_iter children) (\<lambda>nodes.
     foldM (\<lambda>acc node.
       case node of
         JObj kvs \<Rightarrow>
           rbind (jitem kvs ''type'') (\<lambda>kind.
           if kind = JStr ''question''
           then (if is_null (jget kvs ''calculate'')
                 then rbind (str_item kvs ''id'') (\<lambda>i.
                   Inr (fst acc @ [question_screen section (fst acc) None [i]], snd acc))
                 else Inr acc)
           else if kind = JStr ''group''
           then (if jget kvs ''appearance'' = JStr ''field-list''
                 then rbind (collect_questions (children_of kvs)) (\<lambda>qs.
                   if qs = [] then Inr acc
                   else rbind (str_item kvs ''id'') (\<lambda>i.
                     Inr (fst acc @ [question_screen section (fst acc) (Some i) qs], snd acc)))
                 else rbind (str_item kvs ''id'') (\<lambda>i.
                   if children_of kvs = JList [] then Inr acc
                   else plan_walk (children_of kvs) (Some i) acc))
           else if kind = JStr ''repeat''
           then rbind (str_item kvs ''id'') (\<lambda>i.
                rbind (if children_of kvs = JList [] then Inr ([], snd acc)
                       else plan_walk (children_of kvs) (Some i) ([], snd acc)) (\<lambda>inner.
                  Inr (fst acc @ [repeat_screen section (fst acc) i], AList.update i (fst inner) (snd inner))))
           else Inr acc)
       | _ \<Rightarrow> Inl TypeError) acc nodes)"
  by pat_completeness auto
termination
  by (relation "measure (depth \<circ> fst)") (auto intro: depth_into_children)

declare collect_questions.simps [simp del] plan_walk.simps [simp del]

definition build_screen_plan :: "dict \<Rightarrow> screen_plan res" where
  "build_screen_plan ir = rbind (plan_walk (children_of ir) None ([], [])) (\<lambda>acc.
     Inr \<lparr>sp_screens = fst acc, sp_instance_plans = snd acc\<rparr>)"

subsection \<open>Relevance\<close>

definition can_add :: "cform \<Rightarrow> form_inst \<Rightarrow> string \<Rightarrow> bool res" where
  "can_add F S r =
     (case map_of (cf_repeats F) r of
        None \<Rightarrow> Inr False
      | Some node \<Rightarrow>
          (if \<not> is_null (jget node ''countExpr'') then Inr False
           else rbind (source_permits (jget node ''rowSource'') ''allowAdd'') (\<lambda>permitted.
             if \<not> permitted then Inr False
             else if is_null (jget node ''maxInstances'') then Inr True
             else rbind (py_int (jget node ''maxInstances'')) (\<lambda>m. Inr (int (instance_count S r) < m)))))"

definition state_relevant :: "form_inst \<Rightarrow> string \<Rightarrow> bool" where
  "state_relevant S path = (case map_of (i_states S) path of None \<Rightarrow> False | Some st \<Rightarrow> s_relevant st)"

definition screen_relevant :: "pylib \<Rightarrow> cform \<Rightarrow> form_inst \<Rightarrow> form_screen \<Rightarrow> bool res" where
  "screen_relevant L F S screen =
     (if sc_kind screen = REPEAT
      then (case sc_repeat screen of
              None \<Rightarrow> Inl AssertionError
            | Some r \<Rightarrow> rbind (container_relevant L F S r) (\<lambda>relevant.
                if \<not> relevant then Inr False
                else if 0 < instance_count S r then Inr True else can_add F S r))
      else Inr (list_ex (state_relevant S) (sc_questions screen)))"

definition instance_screen_relevant :: "form_inst \<Rightarrow> string \<Rightarrow> string \<Rightarrow> form_screen \<Rightarrow> bool" where
  "instance_screen_relevant S r iid screen =
     list_ex (\<lambda>q. state_relevant S (inst_path r iid q)) (sc_questions screen)"

definition instance_plan :: "screen_plan \<Rightarrow> string \<Rightarrow> form_screen list" where
  "instance_plan plan r = (case map_of (sp_instance_plans plan) r of None \<Rightarrow> [] | Some inner \<Rightarrow> inner)"

definition relevant_instance_screens :: "screen_plan \<Rightarrow> form_inst \<Rightarrow> string \<Rightarrow> string \<Rightarrow> int list" where
  "relevant_instance_screens plan S r iid =
     map (int \<circ> sc_index) (filter (instance_screen_relevant S r iid) (instance_plan plan r))"

subsection \<open>Navigation\<close>

fun first_relevant :: "pylib \<Rightarrow> cform \<Rightarrow> form_inst \<Rightarrow> (form_screen \<Rightarrow> bool) \<Rightarrow> form_screen list \<Rightarrow> int option res" where
  "first_relevant L F S p [] = Inr None"
| "first_relevant L F S p (screen # screens) =
     (if p screen
      then rbind (screen_relevant L F S screen) (\<lambda>relevant.
        if relevant then Inr (Some (int (sc_index screen))) else first_relevant L F S p screens)
      else first_relevant L F S p screens)"

definition next_screen :: "pylib \<Rightarrow> cform \<Rightarrow> screen_plan \<Rightarrow> form_inst \<Rightarrow> int \<Rightarrow> int option res" where
  "next_screen L F plan S from_index =
     first_relevant L F S (\<lambda>screen. from_index < int (sc_index screen)) (sp_screens plan)"

definition previous_screen :: "pylib \<Rightarrow> cform \<Rightarrow> screen_plan \<Rightarrow> form_inst \<Rightarrow> int \<Rightarrow> int option res" where
  "previous_screen L F plan S from_index =
     first_relevant L F S (\<lambda>screen. int (sc_index screen) < from_index) (rev (sp_screens plan))"

definition relevant_screens :: "pylib \<Rightarrow> cform \<Rightarrow> screen_plan \<Rightarrow> form_inst \<Rightarrow> int list res" where
  "relevant_screens L F plan S =
     rbind (filterM (screen_relevant L F S) (sp_screens plan)) (\<lambda>screens. Inr (map (int \<circ> sc_index) screens))"

text \<open>\<open>xs[i]\<close>, a negative index counting from the end.\<close>

definition py_nth :: "'a list \<Rightarrow> int \<Rightarrow> 'a res" where
  "py_nth xs i =
     (let j = (if i < 0 then i + int (length xs) else i)
      in if 0 \<le> j \<and> j < int (length xs) then Inr (xs ! nat j) else Inl IndexError)"

definition repeat_of :: "screen_plan \<Rightarrow> int \<Rightarrow> string option res" where
  "repeat_of plan i = rbind (py_nth (sp_screens plan) i) (\<lambda>screen.
     Inr (if sc_kind screen = REPEAT then sc_repeat screen else None))"

definition resolve_position :: "screen_plan \<Rightarrow> form_inst \<Rightarrow> position \<Rightarrow> position res" where
  "resolve_position plan S p =
     (case pos_instance p of
        None \<Rightarrow> Inr p
      | Some iid \<Rightarrow> rbind (repeat_of plan (pos_screen p)) (\<lambda>r.
          case r of
            None \<Rightarrow> Inr (at_screen (pos_screen p))
          | Some r \<Rightarrow> Inr (if iid \<in> set (inst_list S r) then p else at_screen (pos_screen p))))"

definition enter_instance :: "screen_plan \<Rightarrow> form_inst \<Rightarrow> string \<Rightarrow> string \<Rightarrow> position res" where
  "enter_instance plan S r iid =
     (case find (\<lambda>screen. sc_kind screen = REPEAT \<and> sc_repeat screen = Some r) (sp_screens plan) of
        None \<Rightarrow> Inl KeyError
      | Some screen \<Rightarrow>
          (case relevant_instance_screens plan S r iid of
             [] \<Rightarrow> Inr (at_screen (int (sc_index screen)))
           | k # _ \<Rightarrow> Inr \<lparr>pos_screen = int (sc_index screen), pos_instance = Some iid,
               pos_instance_screen = Some k\<rparr>))"

text \<open>What both moves do inside an instance: to the screen the choice picks, or out to the repeat.\<close>

definition move_inside :: "(int \<Rightarrow> int list \<Rightarrow> int list) \<Rightarrow> screen_plan \<Rightarrow> form_inst \<Rightarrow> position \<Rightarrow> position res" where
  "move_inside choice plan S p =
     rbind (repeat_of plan (pos_screen p)) (\<lambda>r.
       case (r, pos_instance p, pos_instance_screen p) of
         (Some r, Some iid, Some k) \<Rightarrow>
           (case choice k (relevant_instance_screens plan S r iid) of
              [] \<Rightarrow> Inr (at_screen (pos_screen p))
            | k' # _ \<Rightarrow> Inr (p\<lparr>pos_instance_screen := Some k'\<rparr>))
       | _ \<Rightarrow> Inl AssertionError)"

definition next_position ::
  "pylib \<Rightarrow> cform \<Rightarrow> screen_plan \<Rightarrow> form_inst \<Rightarrow> position \<Rightarrow> position option res" where
  "next_position L F plan S p =
     rbind (resolve_position plan S p) (\<lambda>p.
       if \<not> inside p
       then rbind (next_screen L F plan S (pos_screen p)) (\<lambda>n. Inr (map_option at_screen n))
       else rbind (move_inside (\<lambda>k ks. filter (\<lambda>i. k < i) ks) plan S p) (\<lambda>p'. Inr (Some p')))"

definition previous_position ::
  "pylib \<Rightarrow> cform \<Rightarrow> screen_plan \<Rightarrow> form_inst \<Rightarrow> position \<Rightarrow> position option res" where
  "previous_position L F plan S p =
     rbind (resolve_position plan S p) (\<lambda>p.
       if \<not> inside p
       then rbind (previous_screen L F plan S (pos_screen p)) (\<lambda>n. Inr (map_option at_screen n))
       else rbind (move_inside (\<lambda>k ks. rev (filter (\<lambda>i. i < k) ks)) plan S p) (\<lambda>p'. Inr (Some p')))"

subsection \<open>Progress and finalisation\<close>

text \<open>\<open>xs.index(x) + 1 if x in xs else 0\<close>.\<close>

fun place_in :: "'a list \<Rightarrow> 'a \<Rightarrow> nat" where
  "place_in [] x = 0"
| "place_in (y # ys) x = (if x = y then 1 else if x \<in> set ys then Suc (place_in ys x) else 0)"

definition progress :: "pylib \<Rightarrow> cform \<Rightarrow> screen_plan \<Rightarrow> form_inst \<Rightarrow> position \<Rightarrow> (nat \<times> nat) res" where
  "progress L F plan S p =
     rbind (relevant_screens L F plan S) (\<lambda>relevant. Inr (place_in relevant (pos_screen p), length relevant))"

definition instance_progress ::
  "screen_plan \<Rightarrow> form_inst \<Rightarrow> position \<Rightarrow> ((nat \<times> nat) \<times> (nat \<times> nat)) option res" where
  "instance_progress plan S p =
     rbind (resolve_position plan S p) (\<lambda>p.
       if \<not> inside p then Inr None
       else rbind (repeat_of plan (pos_screen p)) (\<lambda>r.
         case (r, pos_instance p) of
           (Some r, Some iid) \<Rightarrow>
             (let relevant = relevant_instance_screens plan S r iid;
                  here = (case pos_instance_screen p of None \<Rightarrow> 0 | Some k \<Rightarrow> place_in relevant k)
              in Inr (Some ((here, length relevant),
                   (place_in (inst_list S r) iid, length (inst_list S r)))))
         | _ \<Rightarrow> Inl AssertionError))"

definition hard_error :: "field_error \<Rightarrow> bool" where
  "hard_error e = (case e of EConstraint message severity \<Rightarrow> severity = JStr ''error'' | _ \<Rightarrow> True)"

definition blocking_fields :: "form_inst \<Rightarrow> string list" where
  "blocking_fields S =
     map fst (filter (\<lambda>(path, st). s_relevant st \<and> list_ex hard_error (s_errors st)) (i_states S))"

definition can_finalize :: "form_inst \<Rightarrow> bool" where
  "can_finalize S \<longleftrightarrow> blocking_fields S = []"

definition blocked_at :: "string list \<Rightarrow> (string \<Rightarrow> string) \<Rightarrow> form_screen \<Rightarrow> bool" where
  "blocked_at blocking at_path screen \<longleftrightarrow> list_ex (\<lambda>q. at_path q \<in> set blocking) (sc_questions screen)"

definition blocking_stops :: "screen_plan \<Rightarrow> form_inst \<Rightarrow> form_screen \<Rightarrow> position list res" where
  "blocking_stops plan S screen =
     (if sc_kind screen = REPEAT
      then (case sc_repeat screen of
              None \<Rightarrow> Inl AssertionError
            | Some r \<Rightarrow> Inr (concat (map (\<lambda>iid. map (\<lambda>inner.
                \<lparr>pos_screen = int (sc_index screen), pos_instance = Some iid,
                 pos_instance_screen = Some (int (sc_index inner))\<rparr>)
                (filter (blocked_at (blocking_fields S) (inst_path r iid)) (instance_plan plan r)))
                (inst_list S r))))
      else Inr (if blocked_at (blocking_fields S) id screen then [at_screen (int (sc_index screen))] else []))"

fun first_stop :: "screen_plan \<Rightarrow> form_inst \<Rightarrow> form_screen list \<Rightarrow> position option res" where
  "first_stop plan S [] = Inr None"
| "first_stop plan S (screen # screens) =
     rbind (blocking_stops plan S screen) (\<lambda>stops.
       case stops of [] \<Rightarrow> first_stop plan S screens | p # _ \<Rightarrow> Inr (Some p))"

definition first_blocking_position :: "screen_plan \<Rightarrow> form_inst \<Rightarrow> position option res" where
  "first_blocking_position plan S =
     (if blocking_fields S = [] then Inr None else first_stop plan S (sp_screens plan))"

end
