(* ===== verification/Instance_Props.thy ===== *)
theory Instance_Props
  imports Instance_Laws
begin

text \<open>
  What the live form promises its client: every field is settled after every operation, the state is
  well formed, instance ids are never reused, and an operation changes only the answers it is about.
  Two small forms (a household with calculations, a roster) are run as examples.
\<close>

subsection \<open>Recalculation is complete\<close>

text \<open>Every reference of a field's own expressions names a field, and a calculated field does not
  read itself.\<close>

definition own_refs :: "cform \<Rightarrow> compiled_field \<Rightarrow> string list" where
  "own_refs F f = concat (map collect_refs (field_exprs F f))"

definition reads_fields :: "cform \<Rightarrow> bool" where
  "reads_fields F \<longleftrightarrow> list_all (\<lambda>(i, f).
     list_all (\<lambda>e. list_all plain_path (paths e)) (field_exprs F f) \<and>
     list_all (\<lambda>d. has_key (cf_fields F) d) (own_refs F f) \<and> self_safe f i (own_refs F f)) (cf_fields F)"

lemma split_first_None:
  assumes "c \<notin> set s"
  shows "split_first [c] s = None"
  using assms by (induction s) (auto simp: split_first.simps starts_with_def)

lemma base_of_id:
  assumes "id_pattern d"
  shows "base_of d = d"
proof -
  have ch: "\<not> is_lower CHR ''.''" "\<not> is_digit CHR ''.''" by code_simp+
  have plain: "CHR ''.'' \<notin> set t" if "plain_id t" for t
    using that ch by (cases t) (auto simp: plain_id_def list_all_iff)
  have "CHR ''.'' \<notin> set d"
    using assms plain [of d] plain [of "butlast d"] append_butlast_last_id [of d, symmetric]
    unfolding id_pattern_def by (cases d rule: rev_cases) auto
  moreover have "CHR ''['' \<notin> set d" using clean_id [OF assms] by (simp add: clean_def)
  ultimately show ?thesis by (simp add: base_of_def split_before_def split_first_None)
qed

lemma compiled_repeat_clean:
  assumes "form_ok F" "(i, f) \<in> set (cf_fields F)" "f_repeat f = Some r"
  shows "clean r"
proof -
  have "field_ok F (i, f)" using assms(1,2) unfolding form_ok_def list_all_iff by blast
  then have "has_key (cf_repeats F) r" using assms(3) by (auto simp: field_ok_def)
  then show ?thesis by (rule repeat_clean [OF assms(1)])
qed

lemma compiled_edges:
  assumes "compile_form L ir = Inr F" "reads_fields F" "map_of (cf_fields F) fid = Some f"
    and "d \<in> set (own_refs F f)" "d \<noteq> fid"
  shows "d \<in> set (edges (cf_fields F) fid)"
proof -
  note mem = map_of_SomeD [OF assms(3)]
  have key: "has_key (cf_fields F) d"
    using assms(2,4) mem unfolding reads_fields_def list_all_iff by blast
  then obtain g where "(d, g) \<in> set (cf_fields F)" using map_of_SomeD by fast
  then have "id_pattern d"
    using compile_form_ok [OF assms(1)] unfolding form_ok_def list_all_iff field_ok_def by fastforce
  moreover have "d \<in> set (f_depends_on f)"
    using deps_ok_D(2) [OF compile_form_deps [OF assms(1)] mem] assms(4) by (auto simp: own_refs_def)
  ultimately show ?thesis
    using key assms(3,5) base_of_id [of d] by (force simp: edges_def edges_into_def)
qed

lemma recalculate_settles:
  assumes form: "compile_form L ir = Inr F" and reads: "reads_fields F"
    and S: "inst_ok F S" and rc: "recalculate L F S = Inr S'"
    and f: "map_of (cf_fields F) fid = Some f" and place: "(path, scope) \<in> set (places S' fid f)"
  shows "settled L F S' f path scope"
proof -
  note ok = conjunct1 [OF compile_form_ok [OF form]]
  obtain S1 S2 where st: "foldM (resolve_rows L F) S (cf_repeats F) = Inr S1"
    "foldM (apply_count L F) S1 (cf_repeats F) = Inr S2" "foldM (evaluate_everywhere L F) S2 (cf_topo_order F) = Inr S'"
    using rc by (auto simp: recalculate_def rbind_Inr_iff)
  have "step_ok F S S1" by (rule foldM_step [OF resolve_rows_step [OF ok] st(1)])
  moreover have "step_ok F S1 S2" by (rule foldM_step [OF apply_count_step [OF ok] st(2)])
  ultimately have S2: "inst_ok F S2" using S by (auto simp: step_ok_def)
  let ?dep = "\<lambda>g. case map_of (cf_fields F) g of None \<Rightarrow> [] | Some f \<Rightarrow> own_refs F f"
  have fields: "field_refs_in F g (?dep gid) \<and> list_all clean (?dep gid) \<and> clean gid \<and>
      self_safe g gid (?dep gid) \<and> (\<forall>r. f_repeat g = Some r \<longrightarrow> clean r)"
    if g: "map_of (cf_fields F) gid = Some g" for gid g
  proof -
    note mem = map_of_SomeD [OF g]
    have r: "list_all (\<lambda>e. list_all plain_path (paths e)) (field_exprs F g)"
      "list_all (\<lambda>d. has_key (cf_fields F) d) (own_refs F g)" "self_safe g gid (own_refs F g)"
      using reads mem unfolding reads_fields_def list_all_iff by blast+
    have "clean d" if "d \<in> set (own_refs F g)" for d
      using r(2) that form_ok_clean(2) [OF ok] map_of_SomeD unfolding list_all_iff by fast
    then show ?thesis
      using r g form_ok_clean(2) [OF ok mem] compiled_repeat_clean [OF ok mem]
      by (auto simp: field_refs_in_def refs_in_def list_all_iff own_refs_def)
  qed
  note topo = topo_sound [OF form]
  have order: "d \<in> set (take i (cf_topo_order F))"
    if i: "i < length (cf_topo_order F)" "d \<in> set (?dep (cf_topo_order F ! i))" "d \<noteq> cf_topo_order F ! i" for i d
  proof -
    obtain g where "map_of (cf_fields F) (cf_topo_order F ! i) = Some g" "d \<in> set (own_refs F g)"
      using i(2) by (cases "map_of (cf_fields F) (cf_topo_order F ! i)") auto
    from compiled_edges [OF form reads this i(3)] show ?thesis using topo(3) i(1) by blast
  qed
  have "fid \<in> set (cf_topo_order F)" using topo(2) map_of_SomeD [OF f] by force
  then show ?thesis
    using pass_settles [OF st(3), of "[]" ?dep] fields order topo(1) inst_ok_distinct [OF S2] f place by auto
qed


lemma live_recalculated:
  assumes "form_ok F" "live L F S"
  shows "\<exists>S0. inst_ok F S0 \<and> recalculate L F S0 = Inr S"
  using assms(2) unfolding live_def
proof cases
  case reach_start
  then show ?thesis
    using new_instance_recalculated [OF assms(1)] empty_instance_ok [OF assms(1)]
    by (fastforce elim!: openedE simp: recalculated_def step_ok_def)
next
  case (reach_step S0)
  then show ?thesis
    using op_step_recalculated [OF assms(1)] live_inst_ok [OF assms(1), of L S0]
    by (fastforce simp: recalculated_def step_ok_def live_def)
qed


text \<open>A household of one member, and the same household after the member's age is answered.\<close>

definition household_new :: form_inst where
  "household_new = (case new_instance sample_lib household_form (mk_date 2024 1 1) ''2024-01-01T00:00:00+00:00'' []
     (memory_rows sample_lib []) of Inr S \<Rightarrow> S | Inl _ \<Rightarrow> empty_instance household_form (mk_date 2024 1 1) [] [] (memory_rows sample_lib []))"

definition household_aged :: form_inst where
  "household_aged = (case set_many sample_lib household_form household_new [(''members[0].age'', JInt 20)] of
     Inr S \<Rightarrow> S | Inl _ \<Rightarrow> household_new)"

lemma household_new_opens: "opened sample_lib household_form household_new"
proof -
  have "\<not> (case new_instance sample_lib household_form (mk_date 2024 1 1) ''2024-01-01T00:00:00+00:00'' []
     (memory_rows sample_lib []) of Inr F \<Rightarrow> False | Inl _ \<Rightarrow> True)" by code_simp
  then have "new_instance sample_lib household_form (mk_date 2024 1 1) ''2024-01-01T00:00:00+00:00'' []
     (memory_rows sample_lib []) = Inr household_new" by (simp add: household_new_def split: sum.splits)
  then show ?thesis by (rule opened_new)
qed

lemma household_aged_steps:
  "set_many sample_lib household_form household_new [(''members[0].age'', JInt 20)] = Inr household_aged"
proof -
  have "\<not> (case set_many sample_lib household_form household_new [(''members[0].age'', JInt 20)] of
     Inr F \<Rightarrow> False | Inl _ \<Rightarrow> True)" by code_simp
  then show ?thesis by (simp add: household_aged_def split: sum.splits)
qed

lemma household_live: "live sample_lib household_form household_new" "live sample_lib household_form household_aged"
proof -
  show new: "live sample_lib household_form household_new"
    unfolding live_def by (rule reach_start) (rule household_new_opens)
  then show "live sample_lib household_form household_aged"
    unfolding live_def by (rule reach_step) (rule op_set, rule household_aged_steps)
qed


subsection \<open>The shape of a live form\<close>

text \<open>A roster: a member joins, another joins, the first leaves, a third joins.\<close>

definition roster_ir :: json where
  "roster_ir = JObj [(''irVersion'', JStr ''0.1''), (''formId'', JStr ''r''), (''version'', JInt 1),
     (''children'', JList [JObj [(''type'', JStr ''repeat''), (''id'', JStr ''m''),
        (''children'', JList [question ''age'' ''integer'' []])]])]"

definition roster_form :: cform where
  "roster_form = (case compile_form sample_lib roster_ir of Inr F \<Rightarrow> F | Inl _ \<Rightarrow> empty_form [] [] 0)"

lemma roster_compiles: "compile_form sample_lib roster_ir = Inr roster_form"
proof -
  have "\<not> (case compile_form sample_lib roster_ir of Inr F \<Rightarrow> False | Inl _ \<Rightarrow> True)" by code_simp
  then show ?thesis by (simp add: roster_form_def split: sum.splits)
qed

definition roster_blank :: form_inst where
  "roster_blank = empty_instance (empty_form [] [] 0) (mk_date 2024 1 1) [] [] (memory_rows sample_lib [])"

definition roster_open :: "form_inst" where
  "roster_open = (case new_instance sample_lib roster_form (mk_date 2024 1 1) [] [] (memory_rows sample_lib []) of Inr x \<Rightarrow> x | Inl _ \<Rightarrow> roster_blank)"

definition roster_one :: "string \<times> form_inst" where
  "roster_one = (case add_instance sample_lib roster_form roster_open ''m'' of Inr x \<Rightarrow> x | Inl _ \<Rightarrow> ([], roster_blank))"

definition roster_two :: "string \<times> form_inst" where
  "roster_two = (case add_instance sample_lib roster_form (snd roster_one) ''m'' of Inr x \<Rightarrow> x | Inl _ \<Rightarrow> ([], roster_blank))"

definition roster_left :: "form_inst" where
  "roster_left = (case delete_instance sample_lib roster_form (snd roster_two) ''m'' 0 of Inr x \<Rightarrow> x | Inl _ \<Rightarrow> roster_blank)"

definition roster_three :: "string \<times> form_inst" where
  "roster_three = (case add_instance sample_lib roster_form roster_left ''m'' of Inr x \<Rightarrow> x | Inl _ \<Rightarrow> ([], roster_blank))"

lemma roster_opens: "new_instance sample_lib roster_form (mk_date 2024 1 1) [] [] (memory_rows sample_lib []) = Inr roster_open"
proof -
  have "\<not> (case new_instance sample_lib roster_form (mk_date 2024 1 1) [] [] (memory_rows sample_lib []) of Inr x \<Rightarrow> False | Inl _ \<Rightarrow> True)" by code_simp
  then show ?thesis by (simp add: roster_open_def split: sum.splits)
qed

lemma roster_adds: "add_instance sample_lib roster_form roster_open ''m'' = Inr roster_one"
proof -
  have "\<not> (case add_instance sample_lib roster_form roster_open ''m'' of Inr x \<Rightarrow> False | Inl _ \<Rightarrow> True)" by code_simp
  then show ?thesis by (simp add: roster_one_def split: sum.splits)
qed

lemma roster_adds_two: "add_instance sample_lib roster_form (snd roster_one) ''m'' = Inr roster_two"
proof -
  have "\<not> (case add_instance sample_lib roster_form (snd roster_one) ''m'' of Inr x \<Rightarrow> False | Inl _ \<Rightarrow> True)" by code_simp
  then show ?thesis by (simp add: roster_two_def split: sum.splits)
qed

lemma roster_deletes: "delete_instance sample_lib roster_form (snd roster_two) ''m'' 0 = Inr roster_left"
proof -
  have "\<not> (case delete_instance sample_lib roster_form (snd roster_two) ''m'' 0 of Inr x \<Rightarrow> False | Inl _ \<Rightarrow> True)" by code_simp
  then show ?thesis by (simp add: roster_left_def split: sum.splits)
qed

lemma roster_adds_three: "add_instance sample_lib roster_form roster_left ''m'' = Inr roster_three"
proof -
  have "\<not> (case add_instance sample_lib roster_form roster_left ''m'' of Inr x \<Rightarrow> False | Inl _ \<Rightarrow> True)" by code_simp
  then show ?thesis by (simp add: roster_three_def split: sum.splits)
qed

lemma live_add: "live L F S \<Longrightarrow> add_instance L F S r = Inr x \<Longrightarrow> live L F (snd x)"
  unfolding live_def by (erule reach_step) (rule op_add [of _ _ _ _ "fst x"], simp)

lemma roster_two_live: "live sample_lib roster_form (snd roster_two)"
proof -
  have "live sample_lib roster_form roster_open"
    unfolding live_def by (rule reach_start) (rule opened_new [OF roster_opens])
  from live_add [OF live_add [OF this roster_adds] roster_adds_two] show ?thesis .
qed

text \<open>C2: Every live form is well formed, whatever was done to it: it has one list of instances per repeat,
  in the form's order; no two instances of a repeat share an id, and none has an id the serial counter
  has yet to mint; the values and the states are kept under the same paths, each once; and those paths
  are exactly the top-level fields and, for each instance of a repeat, the fields of that repeat.\<close>

theorem live_well_formed:
  assumes "compile_form L ir = Inr F" "live L F S"
  shows "inst_ok F S"
  using live_inst_ok [OF conjunct1 [OF compile_form_ok [OF assms(1)]] assms(2)] .

theorem live_well_formed_witness:
  "inst_ok household_form household_aged \<and> inst_list household_aged ''members'' = [mint 1]"
proof -
  have "inst_list household_aged ''members'' = [mint 1]" by code_simp
  then show ?thesis using live_well_formed [OF household_compiles household_live(2)] by simp
qed

text \<open>C18: An instance id is never used twice. The instance an add creates has an id no instance of any
  repeat has in any state the form was in before, deleted instances included.\<close>

theorem ids_never_reused:
  assumes "compile_form L ir = Inr F" "live L F S" "(op_step L F)\<^sup>*\<^sup>* S S'"
    and "add_instance L F S' r = Inr (iid, S'')"
  shows "iid \<notin> set (inst_list S q) \<and> iid = mint (i_serial S' + 1)"
proof -
  note ok = conjunct1 [OF compile_form_ok [OF assms(1)]]
  obtain S1 where "create_instance F S' r JNull = Inr (iid, S1)"
    using add_instance_parts [OF assms(4)] by blast
  then have iid: "iid = mint (i_serial S' + 1)" by (auto simp: create_instance_def rbind_Inr_iff Let_def)
  then show ?thesis
    using live_serial_grows [OF ok assms(2,3)] mint_fresh [OF inst_ok_ids [OF live_inst_ok [OF ok assms(2)]]] by simp
qed

theorem ids_never_reused_witness:
  "fst roster_three = mint 3 \<and> mint 3 \<notin> set (inst_list (snd roster_two) ''m'') \<and>
   inst_list roster_left ''m'' = [mint 2]"
proof -
  have "(op_step sample_lib roster_form)\<^sup>*\<^sup>* (snd roster_two) roster_left"
    using op_delete [OF roster_deletes] by (rule r_into_rtranclp)
  note new = ids_never_reused [OF roster_compiles roster_two_live this,
      of "''m''" "fst roster_three" "snd roster_three"]
  have "inst_list roster_left ''m'' = [mint 2]" "i_serial roster_left = 2" by code_simp+
  then show ?thesis using new [of "''m''"] roster_adds_three by simp metis
qed

text \<open>What an operation does to the answers that stay on the form.\<close>

lemma keeps_value:
  assumes "form_ok F" "inst_ok F S" "inst_ok F S'" "keeps p S S'" "cell F S p" "cell F S' p"
  shows "map_of (i_values S') p = map_of (i_values S) p"
proof -
  have "map_of (i_values S') p \<noteq> None"
    using assms(3,6) unfolding inst_ok_def map_of_eq_None_iff by (simp del: not_None_eq)
  then show ?thesis using assms(4) cell_not_future [OF assms(1,2,5)] by (auto simp: keeps_def)
qed

text \<open>C19: Deleting an instance leaves the others alone. The remaining instances keep their ids and their
  order (instances a row source then creates come after them), and every answer to a question that is
  still on the form keeps its value.\<close>

theorem delete_keeps_others:
  assumes "compile_form L ir = Inr F" "binds_ok F" "live L F S" "delete_instance L F S r k = Inr S'"
  shows "(\<exists>new. inst_list S' r = take (nat k) (inst_list S r) @ drop (Suc (nat k)) (inst_list S r) @ new) \<and>
    (\<forall>p. answer_path F p \<longrightarrow> cell F S p \<longrightarrow> cell F S' p \<longrightarrow> map_of (i_values S') p = map_of (i_values S) p)"
proof -
  note ok = conjunct1 [OF compile_form_ok [OF assms(1)]]
  note S = live_inst_ok [OF ok assms(3)]
  obtain node where n: "map_of (cf_repeats F) r = Some node" "is_null (jget node ''countExpr'')"
    and rc: "recalculate L F (destroy_instance F (S\<lparr>i_instances := AList.update r
       (take (nat k) (inst_list S r) @ drop (Suc (nat k)) (inst_list S r)) (i_instances S)\<rparr>) r
       (inst_list S r ! nat k)) = Inr S'" (is "recalculate L F ?S = _")
    using delete_instance_parts [OF assms(4)] by metis
  have "inst_list ?S r = take (nat k) (inst_list S r) @ drop (Suc (nat k)) (inst_list S r)"
    by (simp add: destroy_instance_eq inst_list_update)
  then have "\<exists>new. inst_list S' r = take (nat k) (inst_list S r) @ drop (Suc (nat k)) (inst_list S r) @ new"
    using recalculate_appends [OF ok assms(2) rc n] by (auto simp: appends_def)
  moreover have "map_of (i_values S') p = map_of (i_values S) p"
    if p: "answer_path F p" "cell F S p" "cell F S' p" for p
  proof -
    have "inst_ok F S'"
      using recalculated_step [OF ok delete_instance_recalculated [OF ok assms(4)]] S by (simp add: step_ok_def)
    moreover have "keeps p S ?S" by (rule destroy_keeps)
    then have "keeps p S S'" using recalculate_keeps [OF ok assms(2) p(1) rc] keeps_trans by blast
    ultimately show ?thesis using keeps_value [OF ok S] p(2,3) by blast
  qed
  ultimately show ?thesis by blast
qed

theorem delete_keeps_others_witness:
  "inst_list roster_left ''m'' = [mint 2] \<and>
   map_of (i_values roster_left) (inst_path ''m'' (mint 2) ''age'') = Some JNull"
proof -
  let ?p = "inst_path ''m'' (mint 2) ''age''"
  have h: "binds_ok roster_form" "cell roster_form (snd roster_two) ?p"
    "cell roster_form roster_left ?p" "map_of (i_values (snd roster_two)) ?p = Some JNull"
    "inst_list (snd roster_two) ''m'' = [mint 1, mint 2]" "length (inst_list roster_left ''m'') = 1"
    "case map_of (cf_fields roster_form) ''age'' of None \<Rightarrow> False
       | Some f \<Rightarrow> is_null (jget (f_node f) ''calculate'')" by code_simp+
  have a: "answer_path roster_form ?p"
    using h(7) unfolding answer_path_def place_def by (auto split: option.splits)
  note d = delete_keeps_others [OF roster_compiles h(1) roster_two_live roster_deletes]
  show ?thesis using d a h(2-6) by auto
qed



end
