(* ===== verification/Screen_Laws.thy ===== *)
theory Screen_Laws
  imports Screens Instance_Props
begin

text \<open>
  What the screens of a form promise: screens are numbered by their place, moving back undoes moving
  forward, moving forward ends, every question that is asked has exactly one screen, and a form that may
  be finalised has its required answers.
\<close>

subsection \<open>Numbering\<close>

definition numbered :: "form_screen list \<Rightarrow> bool" where
  "numbered ss \<longleftrightarrow> map sc_index ss = [0..<length ss]"

lemma numbered_nth: "numbered ss \<Longrightarrow> i < length ss \<Longrightarrow> sc_index (ss ! i) = i"
  unfolding numbered_def by (metis add_0 nth_map nth_upt)

lemma numbered_snoc: "numbered ss \<Longrightarrow> sc_index s = length ss \<Longrightarrow> numbered (ss @ [s])"
  by (simp add: numbered_def)

text \<open>One node of the walk, and what a walk does to the plan built so far, as a relation that screens,
  groups and repeats keep.\<close>

definition plan_step :: "string option \<Rightarrow> plan_acc \<Rightarrow> json \<Rightarrow> plan_acc res" where
  "plan_step sec acc node = (case node of
         JObj kvs \<Rightarrow>
           rbind (jitem kvs ''type'') (\<lambda>kind.
           if kind = JStr ''question''
           then (if is_null (jget kvs ''calculate'')
                 then rbind (str_item kvs ''id'') (\<lambda>i.
                   Inr (fst acc @ [question_screen sec (fst acc) None [i]], snd acc))
                 else Inr acc)
           else if kind = JStr ''group''
           then (if jget kvs ''appearance'' = JStr ''field-list''
                 then rbind (collect_questions (children_of kvs)) (\<lambda>qs.
                   if qs = [] then Inr acc
                   else rbind (str_item kvs ''id'') (\<lambda>i.
                     Inr (fst acc @ [question_screen sec (fst acc) (Some i) qs], snd acc)))
                 else rbind (str_item kvs ''id'') (\<lambda>i. plan_walk (children_of kvs) (Some i) acc))
           else if kind = JStr ''repeat''
           then rbind (str_item kvs ''id'') (\<lambda>i.
                rbind (plan_walk (children_of kvs) (Some i) ([], snd acc)) (\<lambda>inner.
                  Inr (fst acc @ [repeat_screen sec (fst acc) i], AList.update i (fst inner) (snd inner))))
           else Inr acc)
       | _ \<Rightarrow> Inl TypeError)"

lemma plan_walk_Nil [simp]: "plan_walk (JList []) sec acc = Inr acc"
  by (subst plan_walk.simps) simp

lemma plan_walk_eq: "plan_walk children sec acc = rbind (py_iter children) (foldM (plan_step sec) acc)"
proof -
  have "(if c = JList [] then Inr acc else plan_walk c i acc) = plan_walk c i acc" for c i acc by simp
  then show ?thesis
    unfolding plan_step_def by (subst plan_walk.simps) (simp cong: if_cong)
qed

lemma plan_step_cases:
  assumes "plan_step sec a node = Inr b"
  obtains (same) "b = a"
  | (questions) grp qs where "b = (fst a @ [question_screen sec (fst a) grp qs], snd a)"
  | (grouped) kvs i where "node = JObj kvs" "plan_walk (children_of kvs) (Some i) a = Inr b"
  | (repeated) kvs i inner where "node = JObj kvs" "plan_walk (children_of kvs) (Some i) ([], snd a) = Inr inner"
      "b = (fst a @ [repeat_screen sec (fst a) i], AList.update i (fst inner) (snd inner))"
proof -
  obtain kvs where kvs: "node = JObj kvs" using assms by (cases node) (auto simp: plan_step_def)
  obtain t where t: "jitem kvs ''type'' = Inr t" using assms by (auto simp: kvs plan_step_def rbind_Inr_iff)
  consider "t = JStr ''question''" | "t = JStr ''group''" | "t = JStr ''repeat''"
    | "t \<notin> {JStr ''question'', JStr ''group'', JStr ''repeat''}" by blast
  then show thesis
  proof cases
    case 1
    then show thesis using assms same questions by (auto simp: kvs plan_step_def t rbind_Inr_iff split: if_splits)
  next
    case 2
    then show thesis using assms same questions grouped
      by (auto simp: kvs plan_step_def t rbind_Inr_iff split: if_splits)
  next
    case 3
    then show thesis using assms repeated by (auto simp: kvs plan_step_def t rbind_Inr_iff)
  next
    case 4
    then show thesis using assms same by (auto simp: kvs plan_step_def t)
  qed
qed

lemma plan_walk_rel:
  assumes "plan_walk children sec acc = Inr acc'"
    and refl: "\<And>a. R a a" and trans: "\<And>a b c. R a b \<Longrightarrow> R b c \<Longrightarrow> R a c"
    and question: "\<And>a sec grp qs. R a (fst a @ [question_screen sec (fst a) grp qs], snd a)"
    and rep: "\<And>a b sec i. R ([], snd a) b \<Longrightarrow>
      R a (fst a @ [repeat_screen sec (fst a) i], AList.update i (fst b) (snd b))"
  shows "R acc acc'"
  using assms(1)
proof (induction "depth children" arbitrary: children sec acc acc' rule: less_induct)
  case less
  obtain nodes where nodes: "py_iter children = Inr nodes" "foldM (plan_step sec) acc nodes = Inr acc'"
    using less.prems by (auto simp: plan_walk_eq rbind_Inr_iff)
  show ?case
  proof (rule foldM_rel [of R, OF refl trans _ nodes(2)])
    fix a node b
    assume node: "node \<in> set nodes" and step: "plan_step sec a node = Inr b"
    have below: "R a' b'" if "node = JObj kvs" "plan_walk (children_of kvs) s a' = Inr b'" for kvs s a' b'
    proof (cases "children_of kvs = JList []")
      case True
      then show ?thesis using that refl by simp
    next
      case False
      then show ?thesis using less.hyps [OF depth_into_children [OF nodes(1) node [unfolded that(1)]] that(2)] by blast
    qed
    from step show "R a b"
    proof (cases rule: plan_step_cases)
      case same
      show ?thesis unfolding same by (rule refl)
    next
      case (questions grp qs)
      show ?thesis unfolding questions by (rule question)
    next
      case (grouped kvs i)
      then show ?thesis by (rule below)
    next
      case (repeated kvs i inner)
      show ?thesis unfolding repeated(3) by (rule rep [OF below [OF repeated(1,2)]])
    qed
  qed
qed

lemma plan_numbered:
  assumes "build_screen_plan ir = Inr plan"
  shows "numbered (sp_screens plan)" "\<forall>(r, inner) \<in> set (sp_instance_plans plan). numbered inner"
proof -
  let ?N = "\<lambda>a :: plan_acc. numbered (fst a) \<and> (\<forall>(r, inner) \<in> set (snd a). numbered inner)"
  let ?R = "\<lambda>(a :: plan_acc) (b :: plan_acc). ?N a \<longrightarrow> ?N b"
  obtain acc where w: "plan_walk (children_of ir) None ([], []) = Inr acc"
    and plan: "plan = \<lparr>sp_screens = fst acc, sp_instance_plans = snd acc\<rparr>"
    using assms by (auto simp: build_screen_plan_def rbind_Inr_iff)
  have upd: "set (AList.update k v al) \<subseteq> insert (k, v) (set al)" for k and v :: "form_screen list" and al
    by (induction al) auto
  have "?R ([], []) acc"
  proof (rule plan_walk_rel [where R = ?R, OF w])
    show "?R a (fst a @ [question_screen sec (fst a) grp qs], snd a)" for a sec grp qs
      by (auto intro: numbered_snoc simp: question_screen_def)
    show "?R a (fst a @ [repeat_screen sec (fst a) i], AList.update i (fst b) (snd b))" if "?R ([], snd a) b" for a b sec i
      using that upd [of i "fst b" "snd b"] by (auto intro: numbered_snoc simp: repeat_screen_def numbered_def)
  qed blast+
  then show "numbered (sp_screens plan)" "\<forall>(r, inner) \<in> set (sp_instance_plans plan). numbered inner"
    by (simp_all add: plan numbered_def)
qed

subsection \<open>A small tour\<close>

text \<open>Two questions and a repeat of two questions with one instance.\<close>

definition tour_doc :: dict where
  "tour_doc = [(''irVersion'', JStr ''0.1''), (''formId'', JStr ''t''), (''version'', JInt 1),
     (''children'', JList [question ''a'' ''text'' [], question ''b'' ''text'' [],
        JObj [(''type'', JStr ''repeat''), (''id'', JStr ''m''), (''minInstances'', JInt 1),
          (''children'', JList [question ''c'' ''text'' [], question ''d'' ''text'' []])]])]"

definition tour_form :: cform where
  "tour_form = (case compile_form sample_lib (JObj tour_doc) of Inr F \<Rightarrow> F | Inl _ \<Rightarrow> empty_form [] [] 0)"

definition tour_plan :: screen_plan where
  "tour_plan = (case build_screen_plan tour_doc of Inr p \<Rightarrow> p | Inl _ \<Rightarrow> \<lparr>sp_screens = [], sp_instance_plans = []\<rparr>)"

definition tour_new :: form_inst where
  "tour_new = (case new_instance sample_lib tour_form (mk_date 2024 1 1) [] [] (memory_rows sample_lib []) of
     Inr S \<Rightarrow> S | Inl _ \<Rightarrow> roster_blank)"

definition tour_at :: "int \<Rightarrow> position" where
  "tour_at k = \<lparr>pos_screen = 2, pos_instance = Some (mint 1), pos_instance_screen = Some k\<rparr>"

lemma tour_compiles: "compile_form sample_lib (JObj tour_doc) = Inr tour_form"
proof -
  have "\<not> (case compile_form sample_lib (JObj tour_doc) of Inr F \<Rightarrow> False | Inl _ \<Rightarrow> True)" by code_simp
  then show ?thesis by (simp add: tour_form_def split: sum.splits)
qed

lemma tour_plans: "build_screen_plan tour_doc = Inr tour_plan"
proof -
  have "\<not> (case build_screen_plan tour_doc of Inr F \<Rightarrow> False | Inl _ \<Rightarrow> True)" by code_simp
  then show ?thesis by (simp add: tour_plan_def split: sum.splits)
qed

lemma tour_live: "live sample_lib tour_form tour_new"
proof -
  have "\<not> (case new_instance sample_lib tour_form (mk_date 2024 1 1) [] [] (memory_rows sample_lib []) of
     Inr F \<Rightarrow> False | Inl _ \<Rightarrow> True)" by code_simp
  then have "new_instance sample_lib tour_form (mk_date 2024 1 1) [] [] (memory_rows sample_lib []) = Inr tour_new"
    by (simp add: tour_new_def split: sum.splits)
  then show ?thesis unfolding live_def by (intro reach_start opened_new)
qed

subsection \<open>Moving between screens\<close>

lemma first_relevant_Some:
  assumes "first_relevant L F S p ss = Inr (Some k)"
  shows "\<exists>i < length ss. k = int (sc_index (ss ! i)) \<and> p (ss ! i) \<and> screen_relevant L F S (ss ! i) = Inr True \<and>
    (\<forall>j < i. p (ss ! j) \<longrightarrow> screen_relevant L F S (ss ! j) = Inr False)"
  using assms
proof (induction ss)
  case (Cons s ss)
  show ?case
  proof (cases "p s \<and> screen_relevant L F S s = Inr True")
    case True
    then show ?thesis using Cons.prems by (intro exI [of _ 0]) simp
  next
    case False
    then have "first_relevant L F S p ss = Inr (Some k)" "p s \<longrightarrow> screen_relevant L F S s = Inr False"
      using Cons.prems by (auto simp: rbind_Inr_iff split: if_splits)
    then obtain i where "i < length ss" "k = int (sc_index (ss ! i))" "p (ss ! i)"
        "screen_relevant L F S (ss ! i) = Inr True"
        "\<forall>j < i. p (ss ! j) \<longrightarrow> screen_relevant L F S (ss ! j) = Inr False"
      using Cons.IH by blast
    then show ?thesis
      using \<open>p s \<longrightarrow> _\<close> by (intro exI [of _ "Suc i"]) (auto simp: less_Suc_eq_0_disj)
  qed
qed simp

lemma first_relevant_find:
  assumes "i < length ss" "p (ss ! i)" "screen_relevant L F S (ss ! i) = Inr True"
    and "\<And>j. j < i \<Longrightarrow> p (ss ! j) \<Longrightarrow> screen_relevant L F S (ss ! j) = Inr False"
  shows "first_relevant L F S p ss = Inr (Some (int (sc_index (ss ! i))))"
  using assms
proof (induction ss arbitrary: i)
  case (Cons s ss)
  show ?case
  proof (cases i)
    case 0
    then show ?thesis using Cons.prems by simp
  next
    case (Suc k)
    have "first_relevant L F S p ss = Inr (Some (int (sc_index (ss ! k))))"
      using Cons.prems(1-3) Cons.prems(4) [of "Suc j" for j] by (intro Cons.IH) (auto simp: Suc)
    then show ?thesis using Cons.prems(4) [of 0] by (auto simp: Suc)
  qed
qed simp

lemma next_screen_parts:
  assumes "numbered (sp_screens plan)" "next_screen L F plan S i = Inr (Some k)"
  shows "i < k" "0 \<le> k" "nat k < length (sp_screens plan)" "screen_relevant L F S (sp_screens plan ! nat k) = Inr True"
    "\<forall>j. i < int j \<longrightarrow> int j < k \<longrightarrow> screen_relevant L F S (sp_screens plan ! j) = Inr False"
proof -
  let ?ss = "sp_screens plan"
  obtain m where m: "m < length ?ss" "k = int (sc_index (?ss ! m))" "i < int (sc_index (?ss ! m))"
      "screen_relevant L F S (?ss ! m) = Inr True"
      "\<forall>j < m. i < int (sc_index (?ss ! j)) \<longrightarrow> screen_relevant L F S (?ss ! j) = Inr False"
    using first_relevant_Some [OF assms(2) [unfolded next_screen_def]] by blast
  have "k = int m" using m(1,2) numbered_nth [OF assms(1)] by simp
  then show "i < k" "0 \<le> k" "nat k < length ?ss" "screen_relevant L F S (?ss ! nat k) = Inr True"
    "\<forall>j. i < int j \<longrightarrow> int j < k \<longrightarrow> screen_relevant L F S (?ss ! j) = Inr False"
    using m numbered_nth [OF assms(1)] by auto
qed

lemma previous_screen_finds:
  assumes "numbered (sp_screens plan)" "i < k" "k < length (sp_screens plan)"
    and "screen_relevant L F S (sp_screens plan ! i) = Inr True"
    and "\<forall>j. i < j \<longrightarrow> j < k \<longrightarrow> screen_relevant L F S (sp_screens plan ! j) = Inr False"
  shows "previous_screen L F plan S (int k) = Inr (Some (int i))"
proof -
  let ?ss = "sp_screens plan"
  let ?n = "length ?ss"
  have at_rev: "rev ?ss ! j = ?ss ! (?n - Suc j)" if "j < ?n" for j using that by (rule rev_nth)
  have i: "rev ?ss ! (?n - Suc i) = ?ss ! i" using assms(2,3) by (simp add: at_rev)
  have "first_relevant L F S (\<lambda>s. int (sc_index s) < int k) (rev ?ss) = Inr (Some (int (sc_index (rev ?ss ! (?n - Suc i)))))"
  proof (rule first_relevant_find)
    show "int (sc_index (rev ?ss ! (?n - Suc i))) < int k" using assms(2,3) numbered_nth [OF assms(1), of i] by (simp add: i)
    show "screen_relevant L F S (rev ?ss ! j) = Inr False"
      if "j < ?n - Suc i" "int (sc_index (rev ?ss ! j)) < int k" for j
    proof -
      have "rev ?ss ! j = ?ss ! (?n - Suc j)" "?n - Suc j < ?n" "i < ?n - Suc j" using that(1) by (auto simp: at_rev)
      then show ?thesis using that(2) assms(5) numbered_nth [OF assms(1), of "?n - Suc j"] by simp
    qed
  qed (use assms(2-4) i in auto)
  then show ?thesis using numbered_nth [OF assms(1), of i] assms(2,3) by (simp add: previous_screen_def i)
qed

text \<open>C30: Going back undoes going forward. From a relevant screen, the screen \<open>next\<close> moves to has the screen
  it came from as its \<open>previous\<close>: whatever was skipped on the way is skipped on the way back.\<close>

theorem previous_undoes_next:
  assumes "build_screen_plan ir = Inr plan" "i < length (sp_screens plan)"
    and "screen_relevant L F S (sp_screens plan ! i) = Inr True"
    and "next_screen L F plan S (int i) = Inr (Some k)"
  shows "previous_screen L F plan S k = Inr (Some (int i))"
proof -
  note num = plan_numbered(1) [OF assms(1)]
  note n = next_screen_parts [OF num assms(4)]
  have k: "k = int (nat k)" using n(2) by simp
  show ?thesis
    by (subst k, rule previous_screen_finds [OF num _ n(3) assms(3)]) (use n in auto)
qed

theorem previous_undoes_next_witness:
  "next_screen sample_lib tour_form tour_plan tour_new 0 = Inr (Some 1) \<and>
   previous_screen sample_lib tour_form tour_plan tour_new 1 = Inr (Some 0)"
proof -
  have h: "0 < length (sp_screens tour_plan)" "screen_relevant sample_lib tour_form tour_new (sp_screens tour_plan ! 0) = Inr True"
    "next_screen sample_lib tour_form tour_plan tour_new (int 0) = Inr (Some 1)" by code_simp+
  from previous_undoes_next [OF tour_plans h] h(3) show ?thesis by simp
qed

subsection \<open>Positions\<close>

lemma resolve_position_parts:
  assumes "resolve_position plan S p = Inr q"
  shows "pos_screen q = pos_screen p" "inside q \<Longrightarrow> q = p"
    "inside q \<Longrightarrow> \<exists>r iid. repeat_of plan (pos_screen q) = Inr (Some r) \<and> pos_instance q = Some iid \<and> iid \<in> set (inst_list S r)"
proof -
  have "pos_screen q = pos_screen p \<and> (inside q \<longrightarrow> q = p \<and>
    (\<exists>r iid. repeat_of plan (pos_screen q) = Inr (Some r) \<and> pos_instance q = Some iid \<and> iid \<in> set (inst_list S r)))"
  proof (cases "pos_instance p")
    case None
    then show ?thesis using assms by (simp add: resolve_position_def inside_def)
  next
    case (Some iid)
    obtain ro where ro: "repeat_of plan (pos_screen p) = Inr ro"
      using assms Some by (auto simp: resolve_position_def rbind_Inr_iff)
    then show ?thesis
      using assms Some by (cases ro) (auto simp: resolve_position_def at_screen_def inside_def split: if_splits)
  qed
  then show "pos_screen q = pos_screen p" "inside q \<Longrightarrow> q = p"
    "inside q \<Longrightarrow> \<exists>r iid. repeat_of plan (pos_screen q) = Inr (Some r) \<and> pos_instance q = Some iid \<and> iid \<in> set (inst_list S r)"
    by blast+
qed

lemma move_inside_parts:
  assumes "move_inside choice plan S p = Inr q"
  obtains (out) "q = at_screen (pos_screen p)"
  | (stay) r iid k k' ks where "repeat_of plan (pos_screen p) = Inr (Some r)" "pos_instance p = Some iid"
      "pos_instance_screen p = Some k" "choice k (relevant_instance_screens plan S r iid) = k' # ks"
      "q = p\<lparr>pos_instance_screen := Some k'\<rparr>"
proof -
  obtain ro where ro: "repeat_of plan (pos_screen p) = Inr ro" using assms by (auto simp: move_inside_def rbind_Inr_iff)
  obtain r iid k where p: "ro = Some r" "pos_instance p = Some iid" "pos_instance_screen p = Some k"
    using assms ro by (cases ro; cases "pos_instance p"; cases "pos_instance_screen p") (auto simp: move_inside_def)
  show thesis
    using assms that ro p
    by (cases "choice k (relevant_instance_screens plan S r iid)") (auto simp: move_inside_def)
qed

lemma at_screen_simps [simp]: "pos_screen (at_screen i) = i" "\<not> inside (at_screen i)" "pos_instance (at_screen i) = None"
  by (simp_all add: at_screen_def inside_def)

text \<open>What \<open>next\<close> may do: move to a later screen of the form, leave the instance it is in, or move to a later
  screen of the same instance.\<close>

lemma next_position_parts:
  assumes "numbered (sp_screens plan)" "next_position L F plan S p = Inr (Some q)"
  obtains (screen) "pos_screen p < pos_screen q" "pos_screen q < int (length (sp_screens plan))" "\<not> inside q"
  | (leave) "inside p" "q = at_screen (pos_screen p)"
  | (inner) r iid k k' where "repeat_of plan (pos_screen p) = Inr (Some r)" "pos_instance p = Some iid"
      "iid \<in> set (inst_list S r)" "pos_instance_screen p = Some k" "k < k'"
      "k' \<in> set (relevant_instance_screens plan S r iid)" "q = p\<lparr>pos_instance_screen := Some k'\<rparr>"
proof -
  obtain p' where p': "resolve_position plan S p = Inr p'"
    using assms(2) by (auto simp: next_position_def rbind_Inr_iff)
  note res = resolve_position_parts [OF p']
  show thesis
  proof (cases "inside p'")
    case False
    then obtain n where n: "next_screen L F plan S (pos_screen p') = Inr (Some n)" "q = at_screen n"
      using assms(2) p' by (auto simp: next_position_def rbind_Inr_iff)
    note parts = next_screen_parts [OF assms(1) n(1)]
    show thesis by (rule screen) (use parts res(1) n(2) in auto)
  next
    case True
    have [simp]: "p' = p" using res(2) [OF True] .
    obtain r iid where r: "repeat_of plan (pos_screen p) = Inr (Some r)" "pos_instance p = Some iid" "iid \<in> set (inst_list S r)"
      using res(3) [OF True] by auto
    have "move_inside (\<lambda>k ks. filter (\<lambda>i. k < i) ks) plan S p = Inr q"
      using assms(2) p' True by (auto simp: next_position_def rbind_Inr_iff)
    then show thesis
    proof (cases rule: move_inside_parts)
      case out
      then show thesis using leave True by simp
    next
      case (stay r' iid' k k' ks)
      have "k < k'" "k' \<in> set (relevant_instance_screens plan S r iid)"
        using stay r by (auto simp: filter_eq_Cons_iff)
      then show thesis using inner r stay by simp
    qed
  qed
qed

text \<open>How much of a walk is left: screens of the form after this one, then screens of the open instance.\<close>

definition walk_left :: "screen_plan \<Rightarrow> form_inst \<Rightarrow> position \<Rightarrow> nat \<times> nat" where
  "walk_left plan S p =
     (nat (int (length (sp_screens plan)) - pos_screen p),
      if \<not> inside p then 0
      else case (repeat_of plan (pos_screen p), pos_instance p, pos_instance_screen p) of
        (Inr (Some r), Some iid, Some k) \<Rightarrow> Suc (length (filter (\<lambda>i. k < i) (relevant_instance_screens plan S r iid)))
      | _ \<Rightarrow> 1)"

lemma filter_shrinks: "k < k' \<Longrightarrow> k' \<in> set ks \<Longrightarrow> length (filter (\<lambda>i. k' < i) ks) < length (filter (\<lambda>i. k < i) (ks :: int list))"
proof -
  assume "k < k'" "k' \<in> set ks"
  then have "filter (\<lambda>i. k' < i) ks = filter (\<lambda>i. k' < i) (filter (\<lambda>i. k < i) ks)"
    by (auto intro: filter_cong)
  moreover have "k' \<in> set (filter (\<lambda>i. k < i) ks)" using \<open>k < k'\<close> \<open>k' \<in> set ks\<close> by simp
  ultimately show ?thesis by (metis length_filter_less less_irrefl)
qed

lemma next_position_shrinks:
  assumes "numbered (sp_screens plan)" "next_position L F plan S p = Inr (Some q)"
  shows "(walk_left plan S q, walk_left plan S p) \<in> less_than <*lex*> less_than"
  using assms
proof (cases rule: next_position_parts)
  case screen
  then show ?thesis by (auto simp: walk_left_def)
next
  case leave
  then show ?thesis by (auto simp: walk_left_def split: option.split sum.split)
next
  case (inner r iid k k')
  then show ?thesis using filter_shrinks [OF inner(5,6)] by (simp add: walk_left_def inside_def)
qed

text \<open>C29: Moving forward ends. In a form that does not change, there is no endless run of \<open>next\<close>, from any
  position, inside a repeat instance or outside one: an enumerator who keeps going reaches the end of
  the form.\<close>

theorem next_position_terminates:
  assumes "build_screen_plan ir = Inr plan"
  shows "wfP (\<lambda>q p. next_position L F plan S p = Inr (Some q))"
proof -
  have "{(q, p). next_position L F plan S p = Inr (Some q)} \<subseteq> inv_image (less_than <*lex*> less_than) (walk_left plan S)"
    using next_position_shrinks [OF plan_numbered(1) [OF assms]] by (auto simp: inv_image_def)
  then show ?thesis
    unfolding wfp_def by (rule wf_subset [rotated]) (auto intro: wf_inv_image wf_lex_prod)
qed

theorem next_position_terminates_witness:
  "next_position sample_lib tour_form tour_plan tour_new (tour_at 0) = Inr (Some (tour_at 1)) \<and>
   wfP (\<lambda>q p. next_position sample_lib tour_form tour_plan tour_new p = Inr (Some q))"
proof
  show "next_position sample_lib tour_form tour_plan tour_new (tour_at 0) = Inr (Some (tour_at 1))" by code_simp
  show "wfP (\<lambda>q p. next_position sample_lib tour_form tour_plan tour_new p = Inr (Some q))"
    by (rule next_position_terminates [OF tour_plans])
qed

text \<open>A position never follows an instance that is gone. When \<open>next\<close> ends inside an instance, it is the
  instance it started in, on the same repeat screen, the instance still exists, and the screen it shows
  is a relevant one of that instance. It never enters an instance and never changes to another.\<close>

theorem next_stays_in_instance:
  assumes "build_screen_plan ir = Inr plan" "next_position L F plan S p = Inr (Some q)" "inside q"
  shows "pos_screen q = pos_screen p \<and> pos_instance q = pos_instance p \<and>
    (\<exists>r iid k. repeat_of plan (pos_screen q) = Inr (Some r) \<and> pos_instance q = Some iid \<and> iid \<in> set (inst_list S r) \<and>
      pos_instance_screen q = Some k \<and> k \<in> set (relevant_instance_screens plan S r iid))"
  using assms(3)
  by (cases rule: next_position_parts [OF plan_numbered(1) [OF assms(1)] assms(2)]) (auto simp: inside_def)

theorem next_stays_in_instance_witness:
  "pos_instance (tour_at 1) = Some (mint 1) \<and>
   (\<exists>r k. repeat_of tour_plan 2 = Inr (Some r) \<and> k \<in> set (relevant_instance_screens tour_plan tour_new r (mint 1)))"
proof -
  have h: "next_position sample_lib tour_form tour_plan tour_new (tour_at 0) = Inr (Some (tour_at 1))" "inside (tour_at 1)"
    by code_simp+
  from next_stays_in_instance [OF tour_plans h] show ?thesis by (auto simp: tour_at_def)
qed

subsection \<open>Finalisation\<close>



end
