(* ===== verification/Screen_Partition.thy ===== *)
theory Screen_Partition
  imports Screen_Laws "HOL-Library.Multiset"
begin

text \<open>
  The screens of a form cover it: every question of a compiled form that is asked rather than calculated
  stands on exactly one screen of the plan, at the top or inside a repeat, and nothing else does.
\<close>

subsection \<open>Trees of nodes\<close>

definition kids :: "dict \<Rightarrow> json list" where
  "kids kvs = (case children_of kvs of JList ns \<Rightarrow> ns | _ \<Rightarrow> [])"

definition nid :: "dict \<Rightarrow> string" where
  "nid kvs = (case str_item kvs ''id'' of Inr i \<Rightarrow> i | Inl _ \<Rightarrow> [])"

abbreviation kind :: "dict \<Rightarrow> json" where
  "kind kvs \<equiv> jget kvs ''type''"

lemma node_okD:
  assumes "node_ok (JObj kvs)"
  shows "jitem kvs ''type'' = Inr (kind kvs)" "kind kvs \<in> {JStr ''question'', JStr ''group'', JStr ''repeat''}"
    "str_item kvs ''id'' = Inr (nid kvs)"
    "kind kvs \<noteq> JStr ''question'' \<Longrightarrow> children_of kvs = JList (kids kvs) \<and> list_all node_ok (kids kvs)"
proof -
  note ok = assms [unfolded node_ok.simps(1)]
  show "jitem kvs ''type'' = Inr (kind kvs)" "kind kvs \<in> {JStr ''question'', JStr ''group'', JStr ''repeat''}"
    using ok by (auto simp: key_ok_def jitem_def jget_def NODE_TYPES_def split: option.splits)
  obtain v where v: "map_of kvs ''id'' = Some v" "is_str v"
    using ok by (auto simp: key_ok_def split: option.splits)
  then show "str_item kvs ''id'' = Inr (nid kvs)"
    by (cases v) (auto simp: nid_def str_item_def jitem_def)
  show "kind kvs \<noteq> JStr ''question'' \<Longrightarrow> children_of kvs = JList (kids kvs) \<and> list_all node_ok (kids kvs)"
    using ok by (auto simp: children_of_def kids_def split: option.splits json.splits)
qed

lemma nodes_induct [consumes 1, case_names Nil question container]:
  assumes "list_all node_ok ns" "P []"
    and "\<And>kvs ns. node_ok (JObj kvs) \<Longrightarrow> kind kvs = JStr ''question'' \<Longrightarrow> P ns \<Longrightarrow> P (JObj kvs # ns)"
    and "\<And>kvs ns. node_ok (JObj kvs) \<Longrightarrow> kind kvs \<noteq> JStr ''question'' \<Longrightarrow> P (kids kvs) \<Longrightarrow> P ns \<Longrightarrow> P (JObj kvs # ns)"
  shows "P ns"
  using assms(1)
proof (induction "depth (JList ns)" arbitrary: ns rule: less_induct)
  case less
  have "list_all node_ok ms \<Longrightarrow> depth (JList ms) \<le> depth (JList ns) \<Longrightarrow> P ms" for ms
  proof (induction ms)
    case Nil
    show ?case by (rule assms(2))
  next
    case (Cons n ms)
    obtain kvs where n: "n = JObj kvs" using Cons.prems(1) by (cases n) auto
    have ok: "node_ok (JObj kvs)" using Cons.prems(1) by (simp add: n)
    have le: "depth (JList ms) \<le> depth (JList (n # ms))" by simp
    have ms: "P ms" using Cons.prems le by (intro Cons.IH) auto
    show ?case
    proof (cases "kind kvs = JStr ''question''")
      case True
      then show ?thesis unfolding n by (rule assms(3) [OF ok _ ms])
    next
      case False
      note k = node_okD(4) [OF ok False]
      have "P (kids kvs)"
      proof (cases "kids kvs = []")
        case True
        then show ?thesis using assms(2) by simp
      next
        case False
        then have "depth (children_of kvs) < depth (JObj kvs)" using k by (intro depth_children_of) auto
        moreover have "depth (JObj kvs) < depth (JList (n # ms))" unfolding n by (rule depth_JList_elem) simp
        ultimately have "depth (JList (kids kvs)) < depth (JList ns)"
          using k Cons.prems(2) by (simp del: depth.simps)
        then show ?thesis using less.hyps k by blast
      qed
      then show ?thesis unfolding n by (rule assms(4) [OF ok False _ ms])
    qed
  qed
  then show ?case using less.prems by blast
qed

subsection \<open>The three walks, node by node\<close>

definition walk_node :: "string list \<Rightarrow> json \<Rightarrow> (dict \<times> string list) list res" where
  "walk_node anc node = (case node of
         JObj kvs \<Rightarrow>
           rbind (jitem kvs ''type'') (\<lambda>t.
           if is_container t
           then rbind (str_item kvs ''id'') (\<lambda>i.
                rbind (walk (children_of kvs) (anc @ [i])) (\<lambda>below. Inr ((kvs, anc) # below)))
           else Inr [(kvs, anc)])
       | _ \<Rightarrow> Inl TypeError)"

lemma walk_Nil: "walk (JList []) anc = Inr []"
  by (subst walk.simps) simp

lemma walk_eq: "walk children anc = rbind (py_iter children) (\<lambda>ns. rbind (mapM (walk_node anc) ns) (\<lambda>ps. Inr (concat ps)))"
proof -
  have "(if c = JList [] then Inr [x] else rbind (walk c as) (\<lambda>b. Inr (x # b))) = rbind (walk c as) (\<lambda>b. Inr (x # b))" for c as x
    by (simp add: walk_Nil)
  then show ?thesis unfolding walk_node_def by (subst walk.simps) (simp cong: if_cong)
qed

lemma walk_Cons:
  assumes "node_ok (JObj kvs)"
  shows "walk (JList (JObj kvs # ns)) anc =
    (if kind kvs = JStr ''question'' then rbind (walk (JList ns) anc) (\<lambda>r. Inr ((kvs, anc) # r))
     else rbind (walk (JList (kids kvs)) (anc @ [nid kvs])) (\<lambda>b. rbind (walk (JList ns) anc) (\<lambda>r. Inr ((kvs, anc) # b @ r))))"
proof -
  note n = node_okD [OF assms]
  have "walk (JList (JObj kvs # ns)) anc =
      rbind (walk_node anc (JObj kvs)) (\<lambda>p. rbind (walk (JList ns) anc) (\<lambda>r. Inr (p @ r)))"
    by (simp add: walk_eq rbind_assoc)
  also have "walk_node anc (JObj kvs) = (if kind kvs = JStr ''question'' then Inr [(kvs, anc)]
      else rbind (walk (JList (kids kvs)) (anc @ [nid kvs])) (\<lambda>b. Inr ((kvs, anc) # b)))"
    using n by (auto simp: walk_node_def is_container_def)
  finally show ?thesis by (simp add: rbind_assoc)
qed

lemma plan_walk_Cons: "plan_walk (JList (n # ns)) sec acc = rbind (plan_step sec acc n) (\<lambda>a. plan_walk (JList ns) sec a)"
  by (simp add: plan_walk_eq)

definition collect_node :: "json \<Rightarrow> string list res" where
  "collect_node node = (case node of
         JObj kvs \<Rightarrow>
           rbind (jitem kvs ''type'') (\<lambda>t.
           if t = JStr ''question''
           then (if is_null (jget kvs ''calculate'')
                 then rbind (str_item kvs ''id'') (\<lambda>i. Inr [i]) else Inr [])
           else if t = JStr ''group'' then collect_questions (children_of kvs)
           else Inr [])
       | _ \<Rightarrow> Inl TypeError)"

lemma collect_Nil: "collect_questions (JList []) = Inr []"
  by (subst collect_questions.simps) simp

lemma collect_eq: "collect_questions children = rbind (py_iter children) (\<lambda>ns. rbind (mapM collect_node ns) (\<lambda>ps. Inr (concat ps)))"
proof -
  have "(if c = JList [] then Inr [] else collect_questions c) = collect_questions c" for c
    by (simp add: collect_Nil)
  then show ?thesis unfolding collect_node_def by (subst collect_questions.simps) (simp cong: if_cong)
qed

lemma collect_Cons:
  assumes "node_ok (JObj kvs)" "kind kvs \<noteq> JStr ''repeat''"
  shows "collect_questions (JList (JObj kvs # ns)) =
    (if kind kvs = JStr ''question''
     then rbind (collect_questions (JList ns)) (\<lambda>r. Inr ((if is_null (jget kvs ''calculate'') then [nid kvs] else []) @ r))
     else rbind (collect_questions (JList (kids kvs))) (\<lambda>b. rbind (collect_questions (JList ns)) (\<lambda>r. Inr (b @ r))))"
proof -
  note n = node_okD [OF assms(1)]
  have "collect_questions (JList (JObj kvs # ns)) =
      rbind (collect_node (JObj kvs)) (\<lambda>p. rbind (collect_questions (JList ns)) (\<lambda>r. Inr (p @ r)))"
    by (simp add: collect_eq rbind_assoc)
  also have "collect_node (JObj kvs) = (if kind kvs = JStr ''question''
      then Inr (if is_null (jget kvs ''calculate'') then [nid kvs] else []) else collect_questions (JList (kids kvs)))"
    using n assms(2) by (auto simp: collect_node_def)
  finally show ?thesis by (simp add: rbind_assoc)
qed

subsection \<open>What the walks find\<close>

definition asked :: "(dict \<times> string list) list \<Rightarrow> string list" where
  "asked nodes = map (nid \<circ> fst) (filter (\<lambda>(n, a). kind n = JStr ''question'' \<and> is_null (jget n ''calculate'')) nodes)"

definition reps :: "(dict \<times> string list) list \<Rightarrow> string list" where
  "reps nodes = map (nid \<circ> fst) (filter (\<lambda>(n, a). kind n = JStr ''repeat'') nodes)"

lemma asked_simps [simp]:
  "asked [] = []" "asked (xs @ ys) = asked xs @ asked ys"
  "asked ((n, a) # xs) = (if kind n = JStr ''question'' \<and> is_null (jget n ''calculate'') then [nid n] else []) @ asked xs"
  by (simp_all add: asked_def)

lemma reps_simps [simp]:
  "reps [] = []" "reps (xs @ ys) = reps xs @ reps ys"
  "reps ((n, a) # xs) = (if kind n = JStr ''repeat'' then [nid n] else []) @ reps xs"
  by (simp_all add: reps_def)

lemma walked:
  assumes "list_all node_ok ns" "walk (JList ns) anc = Inr nodes" "(n, a) \<in> set nodes"
  shows "set anc \<subseteq> set a \<and> node_ok (JObj n)"
  using assms
proof (induction ns arbitrary: anc nodes rule: nodes_induct)
  case Nil
  then show ?case by (simp add: walk_Nil)
next
  case (question kvs ns)
  then obtain r where r: "walk (JList ns) anc = Inr r" "nodes = (kvs, anc) # r"
    by (auto simp: walk_Cons rbind_Inr_iff)
  then show ?case using question by auto
next
  case (container kvs ns)
  then obtain b r where br: "walk (JList (kids kvs)) (anc @ [nid kvs]) = Inr b" "walk (JList ns) anc = Inr r"
      "nodes = (kvs, anc) # b @ r"
    by (auto simp: walk_Cons rbind_Inr_iff)
  then show ?case using container.prems container.hyps(1) container.IH(1) [OF br(1)] container.IH(2) [OF br(2)] by auto
qed

text \<open>A group without repeats collects the questions the walk finds in it.\<close>

lemma collect_walk:
  assumes "list_all node_ok ns" "walk (JList ns) anc = Inr nodes" "reps nodes = []"
  shows "collect_questions (JList ns) = Inr (asked nodes)"
  using assms
proof (induction ns arbitrary: anc nodes rule: nodes_induct)
  case Nil
  then show ?case by (simp add: walk_Nil collect_Nil)
next
  case (question kvs ns)
  then obtain r where r: "walk (JList ns) anc = Inr r" "nodes = (kvs, anc) # r"
    by (auto simp: walk_Cons rbind_Inr_iff)
  then show ?case using question by (simp add: collect_Cons)
next
  case (container kvs ns)
  then obtain b r where br: "walk (JList (kids kvs)) (anc @ [nid kvs]) = Inr b" "walk (JList ns) anc = Inr r"
      "nodes = (kvs, anc) # b @ r"
    by (auto simp: walk_Cons rbind_Inr_iff)
  have "kind kvs \<noteq> JStr ''repeat''" "reps b = []" "reps r = []" using container.prems br(3) by (auto split: if_splits)
  then show ?case
    using container.hyps container.IH(1) [OF br(1)] container.IH(2) [OF br(2)] by (simp add: collect_Cons br(3))
qed

subsection \<open>The plan covers what the walk finds\<close>

definition shown_ids :: "plan_acc \<Rightarrow> string list" where
  "shown_ids acc = concat (map sc_questions (fst acc)) @
     concat (map (\<lambda>(r, inner). concat (map sc_questions inner)) (snd acc))"

text \<open>No repeat stands below a field-list group; \<open>FL\<close> are the ids of those groups.\<close>

definition flat :: "string set \<Rightarrow> (dict \<times> string list) list \<Rightarrow> bool" where
  "flat FL nodes \<longleftrightarrow> (\<forall>(n, a) \<in> set nodes.
     (kind n = JStr ''repeat'' \<longrightarrow> set a \<inter> FL = {}) \<and>
     (kind n = JStr ''group'' \<longrightarrow> jget n ''appearance'' = JStr ''field-list'' \<longrightarrow> nid n \<in> FL))"

lemma flat_simps [simp]: "flat FL (xs @ ys) \<longleftrightarrow> flat FL xs \<and> flat FL ys"
  "flat FL ((n, a) # xs) \<longleftrightarrow> (kind n = JStr ''repeat'' \<longrightarrow> set a \<inter> FL = {}) \<and>
     (kind n = JStr ''group'' \<longrightarrow> jget n ''appearance'' = JStr ''field-list'' \<longrightarrow> nid n \<in> FL) \<and> flat FL xs"
  by (auto simp: flat_def)

lemma flat_no_reps:
  assumes "list_all node_ok ns" "walk (JList ns) anc = Inr nodes" "flat FL nodes" "set anc \<inter> FL \<noteq> {}"
  shows "reps nodes = []"
proof -
  have "kind n \<noteq> JStr ''repeat''" if "(n, a) \<in> set nodes" for n a
    using walked [OF assms(1,2) that] assms(3,4) that unfolding flat_def by fastforce
  then show ?thesis by (auto simp: reps_def filter_empty_conv)
qed

lemma update_new: "k \<notin> set (map fst al) \<Longrightarrow> AList.update k v al = al @ [(k, v)]"
  by (induction al) auto

text \<open>One node: the plan gains the questions of its part of the walk.\<close>

definition covers_walk :: "plan_acc \<Rightarrow> (dict \<times> string list) list \<Rightarrow> plan_acc \<Rightarrow> bool" where
  "covers_walk acc nodes acc' \<longleftrightarrow> mset (shown_ids acc') = mset (shown_ids acc) + mset (asked nodes) \<and>
     set (map fst (snd acc')) = set (map fst (snd acc)) \<union> set (reps nodes)"

lemma covers_walk_append:
  "covers_walk a xs b \<Longrightarrow> covers_walk b ys c \<Longrightarrow> covers_walk a (xs @ ys) c"
  by (auto simp: covers_walk_def)

lemma plan_step_question:
  assumes "node_ok (JObj kvs)" "kind kvs = JStr ''question''"
  shows "\<exists>acc'. plan_step sec acc (JObj kvs) = Inr acc' \<and> covers_walk acc [(kvs, anc)] acc'"
  using node_okD(1,3) [OF assms(1)] assms(2)
  by (cases acc) (auto simp: plan_step_def covers_walk_def shown_ids_def question_screen_def)

lemma plan_step_container:
  assumes ok: "node_ok (JObj kvs)" "kind kvs \<noteq> JStr ''question''"
    and below: "walk (JList (kids kvs)) (anc @ [nid kvs]) = Inr b"
    and flat: "flat FL ((kvs, anc) # b)"
    and fresh: "distinct (reps ((kvs, anc) # b))" "set (reps ((kvs, anc) # b)) \<inter> set (map fst (snd acc)) = {}"
    and IH: "\<And>sec acc. distinct (reps b) \<Longrightarrow> set (reps b) \<inter> set (map fst (snd acc)) = {} \<Longrightarrow>
      \<exists>acc'. plan_walk (JList (kids kvs)) sec acc = Inr acc' \<and> covers_walk acc b acc'"
  shows "\<exists>acc'. plan_step sec acc (JObj kvs) = Inr acc' \<and> covers_walk acc ((kvs, anc) # b) acc'"
proof -
  note n = node_okD [OF ok(1)]
  note k = n(4) [OF ok(2)]
  consider (fl) "kind kvs = JStr ''group''" "jget kvs ''appearance'' = JStr ''field-list''"
    | (group) "kind kvs = JStr ''group''" "jget kvs ''appearance'' \<noteq> JStr ''field-list''"
    | (rep) "kind kvs = JStr ''repeat''" using n(2) ok(2) by blast
  then show ?thesis
  proof cases
    case fl
    have "reps b = []"
      by (rule flat_no_reps [OF _ below, of FL]) (use k flat fl in auto)
    then have "collect_questions (JList (kids kvs)) = Inr (asked b)" using collect_walk [OF _ below] k by blast
    then show ?thesis
      using fl n(1,3) k \<open>reps b = []\<close>
      by (cases acc) (auto simp: plan_step_def covers_walk_def shown_ids_def question_screen_def)
  next
    case group
    obtain acc' where "plan_walk (JList (kids kvs)) (Some (nid kvs)) acc = Inr acc'" "covers_walk acc b acc'"
      using IH [of acc "Some (nid kvs)"] fresh group by auto
    then show ?thesis using group n(1,3) k by (auto simp: plan_step_def covers_walk_def)
  next
    case rep
    obtain inner where inner: "plan_walk (JList (kids kvs)) (Some (nid kvs)) ([], snd acc) = Inr inner" "covers_walk ([], snd acc) b inner"
      using IH [of "([], snd acc)" "Some (nid kvs)"] fresh rep by auto
    have "nid kvs \<notin> set (map fst (snd inner))"
      using inner(2) fresh rep unfolding covers_walk_def by auto
    then show ?thesis
      using rep n(1,3) k inner
      by (auto simp: plan_step_def covers_walk_def shown_ids_def repeat_screen_def update_new add.commute)
  qed
qed

lemma plan_covers_walk:
  assumes "list_all node_ok ns" "walk (JList ns) anc = Inr nodes" "flat FL nodes"
    and "distinct (reps nodes)" "set (reps nodes) \<inter> set (map fst (snd acc)) = {}"
  shows "\<exists>acc'. plan_walk (JList ns) sec acc = Inr acc' \<and> covers_walk acc nodes acc'"
  using assms
proof (induction ns arbitrary: anc nodes acc sec rule: nodes_induct)
  case Nil
  then show ?case by (simp add: walk_Nil covers_walk_def)
next
  case (question kvs ns)
  then obtain r where r: "walk (JList ns) anc = Inr r" "nodes = [(kvs, anc)] @ r"
    by (auto simp: walk_Cons rbind_Inr_iff)
  obtain a where a: "plan_step sec acc (JObj kvs) = Inr a" "covers_walk acc [(kvs, anc)] a"
    using plan_step_question [OF question.hyps(1,2)] by blast
  obtain acc' where "plan_walk (JList ns) sec a = Inr acc'" "covers_walk a r acc'"
    using question.IH [OF r(1), of a sec] question.prems r(2) question.hyps(2) a(2) by (auto simp: covers_walk_def)
  then show ?case unfolding plan_walk_Cons r(2) a(1) rbind_simps using covers_walk_append [OF a(2)] by blast
next
  case (container kvs ns)
  then obtain b r where br: "walk (JList (kids kvs)) (anc @ [nid kvs]) = Inr b" "walk (JList ns) anc = Inr r"
      "nodes = ((kvs, anc) # b) @ r"
    by (auto simp: walk_Cons rbind_Inr_iff)
  have "\<exists>a. plan_step sec acc (JObj kvs) = Inr a \<and> covers_walk acc ((kvs, anc) # b) a"
  proof (rule plan_step_container [OF container.hyps(1,2) br(1)])
    show "flat FL ((kvs, anc) # b)" using container.prems(2) unfolding br(3) flat_simps(1) by (rule conjunct1)
    show "distinct (reps ((kvs, anc) # b))"
      using container.prems(3) by (simp only: br(3) reps_simps distinct_append)
    show "set (reps ((kvs, anc) # b)) \<inter> set (map fst (snd acc)) = {}"
      using container.prems(4) unfolding br(3) reps_simps(2) set_append by blast
    show "\<exists>acc'. plan_walk (JList (kids kvs)) sec acc = Inr acc' \<and> covers_walk acc b acc'"
      if "distinct (reps b)" "set (reps b) \<inter> set (map fst (snd acc)) = {}" for sec acc
      by (rule container.IH(1) [OF br(1) _ that]) (use container.prems(2) br(3) in simp)
  qed
  then obtain a where a: "plan_step sec acc (JObj kvs) = Inr a" "covers_walk acc ((kvs, anc) # b) a" by blast
  obtain acc' where "plan_walk (JList ns) sec a = Inr acc'" "covers_walk a r acc'"
  proof -
    have fl: "flat FL r" using container.prems(2) unfolding br(3) flat_simps(1) by (rule conjunct2)
    have d: "distinct (reps r)" "set (reps ((kvs, anc) # b)) \<inter> set (reps r) = {}"
      using container.prems(3) by (simp_all only: br(3) reps_simps(2) distinct_append)
    have "set (reps r) \<inter> set (map fst (snd acc)) = {}"
      using container.prems(4) unfolding br(3) reps_simps(2) set_append by blast
    then have "set (reps r) \<inter> set (map fst (snd a)) = {}"
      using conjunct2 [OF a(2) [unfolded covers_walk_def]] d(2) by blast
    from container.IH(2) [OF br(2) fl d(1) this]
    have "\<exists>acc'. plan_walk (JList ns) sec a = Inr acc' \<and> covers_walk a r acc'" .
    then show thesis using that by blast
  qed
  then show ?case unfolding plan_walk_Cons br(3) a(1) rbind_simps using covers_walk_append [OF a(2)] by blast
qed

subsection \<open>The compiler keeps the walk\<close>

lemma compile_node_cases:
  assumes "compile_node L (seen, F) (node, anc) = Inr (seen', G)"
  obtains i where "str_item node ''id'' = Inr i" "i \<notin> set seen" "seen' = i # seen"
    "(kind node = JStr ''repeat'' \<and> compile_repeat F i node anc = Inr G) \<or>
     (kind node = JStr ''group'' \<and> G = compile_group F i node anc) \<or>
     (\<not> is_container (kind node) \<and> compile_question L F i node anc = Inr G)"
proof -
  obtain i where si: "str_item node ''id'' = Inr i"
    using assms(1) by (auto simp: compile_node_def rbind_Inr_iff)
  have i: "id_pattern i" "i \<notin> set seen" "\<not> 1 < length (enclosing_repeats F anc)"
    using assms(1) si by (auto simp: compile_node_def split: if_splits)
  obtain t where t: "jitem node ''type'' = Inr t"
    using assms(1) si i by (auto simp: compile_node_def rbind_Inr_iff)
  then have ty: "kind node = t" by (simp add: jitem_def jget_def of_option_Inr_iff)
  have "(if t = JStr ''repeat'' then
            rbind (compile_repeat F i node anc) (\<lambda>F'. Inr (i # seen, F'))
          else if t = JStr ''group'' then
            Inr (i # seen, compile_group F i node anc)
          else rbind (compile_question L F i node anc) (\<lambda>F'. Inr (i # seen, F'))) = Inr (seen', G)"
    using assms(1) si i t by (simp add: compile_node_def)
  then show thesis
    using that [OF si i(2)] ty by (auto simp: rbind_Inr_iff is_container_def split: if_splits)
qed

lemma compile_repeat_parts:
  assumes "compile_repeat F i node anc = Inr G"
  shows "cf_fields G = cf_fields F" "cf_containers G = cf_containers F @ [(i, node)]"
    "cf_repeats G = cf_repeats F @ [(i, node)]" "\<forall>x \<in> set anc. \<not> in_field_list F x"
  using assms by (auto simp: compile_repeat_def rbind_Inr_iff list_ex_iff split: if_splits)

lemma compile_question_parts:
  assumes "compile_question L F i node anc = Inr G"
  shows "\<exists>f. cf_fields G = cf_fields F @ [(i, f)] \<and> f_node f = node" "cf_containers G = cf_containers F"
    "cf_repeats G = cf_repeats F"
proof -
  have "(\<exists>f. cf_fields G = cf_fields F @ [(i, f)] \<and> f_node f = node) \<and> cf_containers G = cf_containers F \<and> cf_repeats G = cf_repeats F"
    using assms unfolding compile_question_def Let_def rbind_Inr_iff
    by (elim exE conjE) (drule guarded_rbind, auto)
  then show "\<exists>f. cf_fields G = cf_fields F @ [(i, f)] \<and> f_node f = node" "cf_containers G = cf_containers F"
    "cf_repeats G = cf_repeats F" by auto
qed

definition field_nodes :: "cform \<Rightarrow> (string \<times> dict) list" where
  "field_nodes F = map (\<lambda>(i, f). (i, f_node f)) (cf_fields F)"

definition named :: "(dict \<times> string list) list \<Rightarrow> (string \<times> dict) list" where
  "named = map (\<lambda>(n, a). (nid n, n))"

text \<open>After a prefix of the walk, the form holds its questions, containers and repeats, and no repeat seen
  so far stands below a field-list group.\<close>

definition clear :: "(dict \<times> string list) list \<Rightarrow> cform \<Rightarrow> bool" where
  "clear pre F \<longleftrightarrow> (\<forall>n a x. (n, a) \<in> set pre \<longrightarrow> kind n = JStr ''repeat'' \<longrightarrow> x \<in> set a \<longrightarrow>
     x \<in> set (map fst (cf_containers F)) \<and> \<not> in_field_list F x)"

definition tracks :: "(dict \<times> string list) list \<Rightarrow> cform \<Rightarrow> bool" where
  "tracks pre F \<longleftrightarrow>
     field_nodes F = named (filter (\<lambda>(n, a). kind n = JStr ''question'') pre) \<and>
     cf_containers F = named (filter (\<lambda>(n, a). kind n \<noteq> JStr ''question'') pre) \<and>
     map fst (cf_repeats F) = reps pre \<and> clear pre F"

lemma in_field_list_grow:
  assumes "cf_containers G = cf_containers F @ [(i, node)]" "x \<in> set (map fst (cf_containers F))"
  shows "in_field_list G x = in_field_list F x"
proof -
  have "map_of (cf_containers F) x \<noteq> None" using assms(2) unfolding map_of_eq_None_iff by simp
  then show ?thesis by (auto simp: in_field_list_def assms(1) map_add_def)
qed

lemma clear_grow:
  assumes "clear pre F" "cf_containers G = cf_containers F @ [(i, node)]"
    and "kind n = JStr ''repeat'' \<Longrightarrow> \<forall>x \<in> set anc. x \<in> set (map fst (cf_containers F)) \<and> \<not> in_field_list F x"
  shows "clear (pre @ [(n, anc)]) G"
  unfolding clear_def
proof (intro allI impI)
  fix m a x assume m: "(m, a) \<in> set (pre @ [(n, anc)])" "kind m = JStr ''repeat''" "x \<in> set a"
  have "x \<in> set (map fst (cf_containers F)) \<and> \<not> in_field_list F x"
  proof (cases "(m, a) \<in> set pre")
    case True
    then show ?thesis using assms(1) m unfolding clear_def by blast
  next
    case False
    then show ?thesis using assms(3) m by auto
  qed
  then show "x \<in> set (map fst (cf_containers G)) \<and> \<not> in_field_list G x"
    using in_field_list_grow [OF assms(2), of x] by (auto simp: assms(2))
qed

lemma tracks_step:
  assumes "compile_node L (seen, F) (node, anc) = Inr (seen', G)" "tracks pre F" "node_ok (JObj node)"
    and "set anc \<subseteq> set (map fst (cf_containers F))"
  shows "tracks (pre @ [(node, anc)]) G"
proof -
  have id: "str_item node ''id'' = Inr (nid node)" and k: "kind node \<in> {JStr ''question'', JStr ''group'', JStr ''repeat''}"
    using node_okD [OF assms(3)] by auto
  have tr: "clear pre F" using assms(2) by (simp add: tracks_def)
  from assms(1) show ?thesis
  proof (cases rule: compile_node_cases)
    case (1 i)
    have [simp]: "i = nid node" using 1(1) id by simp
    from 1(4) show ?thesis
    proof (elim disjE conjE)
      assume r: "kind node = JStr ''repeat''" "compile_repeat F i node anc = Inr G"
      note p = compile_repeat_parts [OF r(2)]
      have "clear (pre @ [(node, anc)]) G" by (rule clear_grow [OF tr p(2)]) (use p(4) assms(4) in blast)
      then show ?thesis using assms(2) r(1) p(1-3) by (simp add: tracks_def field_nodes_def named_def)
    next
      assume g: "kind node = JStr ''group''" "G = compile_group F i node anc"
      have c: "cf_containers G = cf_containers F @ [(i, node)]" "cf_fields G = cf_fields F" "cf_repeats G = cf_repeats F"
        by (simp_all add: g(2) compile_group_def)
      have "clear (pre @ [(node, anc)]) G" by (rule clear_grow [OF tr c(1)]) (use g(1) in simp)
      then show ?thesis using assms(2) g(1) c by (simp add: tracks_def field_nodes_def named_def)
    next
      assume q: "\<not> is_container (kind node)" "compile_question L F i node anc = Inr G"
      have kq: "kind node = JStr ''question''" using q(1) k by (auto simp: is_container_def)
      note p = compile_question_parts [OF q(2)]
      obtain f where f: "cf_fields G = cf_fields F @ [(i, f)]" "f_node f = node" using p(1) by blast
      have "clear (pre @ [(node, anc)]) G"
        using tr kq unfolding clear_def in_field_list_def p(2) by auto
      then show ?thesis using assms(2) kq f p(2,3) by (simp add: tracks_def field_nodes_def named_def)
    qed
  qed
qed

lemma tracks_fold:
  assumes "foldM (compile_node L) (seen, F) nodes = Inr acc" "tracks pre F" "\<forall>(n, a) \<in> set nodes. node_ok (JObj n)"
    and "anc_ok K nodes" "K \<subseteq> set (map fst (cf_containers F))"
  shows "tracks (pre @ nodes) (snd acc)"
  using assms
proof (induction nodes arbitrary: seen F K pre)
  case (Cons x nodes)
  obtain node anc where x: "x = (node, anc)" by force
  obtain seen' G where G: "compile_node L (seen, F) (node, anc) = Inr (seen', G)"
      "foldM (compile_node L) (seen', G) nodes = Inr acc"
    using Cons.prems(1) by (auto simp: x rbind_Inr_iff)
  have ok: "node_ok (JObj node)" using Cons.prems(3) by (simp add: x)
  have anc: "set anc \<subseteq> set (map fst (cf_containers F))" using Cons.prems(4,5) by (auto simp: x)
  have tr: "tracks (pre @ [(node, anc)]) G" by (rule tracks_step [OF G(1) Cons.prems(2) ok anc])
  let ?K = "if is_container (kind node) then K \<union> {i. str_item node ''id'' = Inr i} else K"
  have "anc_ok ?K nodes" using Cons.prems(4) by (simp add: x)
  moreover have "?K \<subseteq> set (map fst (cf_containers G))"
  proof -
    have "cf_containers G = cf_containers F @ (if kind node = JStr ''question'' then [] else [(nid node, node)])"
      using tr Cons.prems(2) by (simp add: tracks_def named_def)
    then show ?thesis using Cons.prems(5) node_okD(2,3) [OF ok] by (auto simp: is_container_def)
  qed
  ultimately have "tracks ((pre @ [(node, anc)]) @ nodes) (snd acc)"
    using Cons.prems(3) by (intro Cons.IH [OF G(2) tr]) auto
  then show ?case by (simp add: x)
qed auto

lemma link_rows_nodes:
  assumes "link_rows_choices F = Inr G"
  shows "field_nodes G = field_nodes F" "cf_containers G = cf_containers F" "cf_repeats G = cf_repeats F" "cf_ir G = cf_ir F"
proof -
  obtain fs where fs: "mapM (link_rows F) (cf_fields F) = Inr fs" "G = F\<lparr>cf_fields := fs\<rparr>"
    using assms by (auto simp: link_rows_choices_def rbind_Inr_iff)
  have one: "link_rows F e = Inr e' \<Longrightarrow> (fst e', f_node (snd e')) = (fst e, f_node (snd e))" for e e'
    by (auto simp: link_rows_def Let_def split: option.splits if_splits)
  have "map (\<lambda>(i, f). (i, f_node f)) fs = map (\<lambda>(i, f). (i, f_node f)) es"
    if "mapM (link_rows F) es = Inr fs" for es fs
    using that by (induction es arbitrary: fs) (auto simp: rbind_Inr_iff dest!: one)
  then show "field_nodes G = field_nodes F" using fs by (simp add: field_nodes_def)
  show "cf_containers G = cf_containers F" "cf_repeats G = cf_repeats F" "cf_ir G = cf_ir F" by (simp_all add: fs(2))
qed

lemma finish_nodes:
  assumes "finish_compile L F = Inr G"
  shows "field_nodes G = field_nodes F" "cf_containers G = cf_containers F" "cf_repeats G = cf_repeats F"
proof -
  obtain F1 F2 t where l: "link_rows_choices F = Inr F1" and c: "check_interpolation F1 = Inr F2"
    and g: "lint L (F2\<lparr>cf_topo_order := t\<rparr>) = Inr G"
    using assms by (auto simp: finish_compile_def rbind_Inr_iff)
  obtain w where F2: "F2 = F1\<lparr>cf_warnings := w\<rparr>" using c by (auto simp: check_interpolation_def rbind_Inr_iff)
  obtain w' where G: "G = F2\<lparr>cf_topo_order := t, cf_warnings := w'\<rparr>" using g by (auto simp: lint_def rbind_Inr_iff)
  show "field_nodes G = field_nodes F" "cf_containers G = cf_containers F" "cf_repeats G = cf_repeats F"
    using link_rows_nodes [OF l] by (simp_all add: G F2 field_nodes_def)
qed

lemma document_children:
  assumes "check_document (JObj kvs) = Inr u"
  shows "children_of kvs = JList (kids kvs)" "list_all node_ok (kids kvs)"
  using assms check_document_iff [of "JObj kvs"]
  by (auto simp: document_ok_def nodes_ok_def children_of_def kids_def split: option.splits json.splits)

lemma compiled_walk:
  assumes "compile_form L (JObj kvs) = Inr F"
  obtains nodes where "walk (JList (kids kvs)) [] = Inr nodes" "tracks nodes F"
    "children_of kvs = JList (kids kvs)" "list_all node_ok (kids kvs)"
proof -
  obtain form_id version nodes F0 where doc: "check_document (JObj kvs) = Inr ()"
    and w: "walk (children_of kvs) [] = Inr nodes"
    and n: "compile_nodes L (empty_form kvs form_id version) nodes = Inr F0" and f: "finish_compile L F0 = Inr F"
    using assms by (auto simp: compile_form_def rbind_Inr_iff)
  note d = document_children [OF doc]
  have ok: "\<forall>(n, a) \<in> set nodes. node_ok (JObj n)" using walked [OF d(2) w [unfolded d(1)]] by blast
  obtain acc where acc: "foldM (compile_node L) ([], empty_form kvs form_id version) nodes = Inr acc" "F0 = snd acc"
    using n by (auto simp: compile_nodes_def rbind_Inr_iff)
  have "tracks [] (empty_form kvs form_id version)"
    by (simp add: tracks_def empty_form_def field_nodes_def named_def clear_def)
  from tracks_fold [OF acc(1) this ok walk_anc_ok [OF w, of "{}"]] have "tracks nodes F0" by (simp add: acc(2))
  then have "tracks nodes F" unfolding tracks_def clear_def in_field_list_def finish_nodes [OF f] .
  then show thesis using that w d by simp
qed

lemma tracks_flat:
  assumes "tracks nodes F" "form_ok F"
  shows "flat {i. in_field_list F i} nodes" "distinct (reps nodes)"
proof -
  have keys: "distinct (map fst (cf_containers F))" using assms(2) by (auto simp: form_ok_def ids_of_def)
  have "nid n \<in> {i. in_field_list F i}"
    if "(n, a) \<in> set nodes" "kind n = JStr ''group''" "jget n ''appearance'' = JStr ''field-list''" for n a
  proof -
    have "(nid n, n) \<in> set (cf_containers F)"
      using assms(1) that(1,2) unfolding tracks_def named_def by force
    then show ?thesis using map_of_is_SomeI [OF keys] that(3) by (simp add: in_field_list_def)
  qed
  moreover have "set a \<inter> {i. in_field_list F i} = {}" if "(n, a) \<in> set nodes" "kind n = JStr ''repeat''" for n a
    using assms(1) that unfolding tracks_def clear_def by blast
  ultimately show "flat {i. in_field_list F i} nodes" unfolding flat_def by blast
  show "distinct (reps nodes)" using assms unfolding tracks_def form_ok_def by metis
qed

text \<open>C27: Nothing that should be asked is dropped. The screen plan of a compiled form can be built, and it
  shows every question of the form that is not calculated exactly once, counting the screens of the form
  and the screens inside its repeats, and shows nothing else.\<close>

theorem every_question_has_one_screen:
  assumes "compile_form L (JObj ir) = Inr F"
  shows "\<exists>plan. build_screen_plan ir = Inr plan \<and> distinct (askable_question_ids plan) \<and>
    set (askable_question_ids plan) = {i. \<exists>f. (i, f) \<in> set (cf_fields F) \<and> is_null (jget (f_node f) ''calculate'')}"
proof -
  have ok: "form_ok F" using compile_form_ok [OF assms] by blast
  obtain nodes where n: "walk (JList (kids ir)) [] = Inr nodes" "tracks nodes F"
      "children_of ir = JList (kids ir)" "list_all node_ok (kids ir)"
    using compiled_walk [OF assms] .
  obtain acc where acc: "plan_walk (children_of ir) None ([], []) = Inr acc" "covers_walk ([], []) nodes acc"
    using plan_covers_walk [OF n(4,1) tracks_flat [OF n(2) ok], of "([], [])" None] n(3) by auto
  let ?plan = "\<lparr>sp_screens = fst acc, sp_instance_plans = snd acc\<rparr>"
  have "asked nodes = map fst (filter (\<lambda>(i, n). is_null (jget n ''calculate'')) (field_nodes F))"
    using n(2) by (auto simp: tracks_def asked_def named_def filter_map comp_def case_prod_beta filter_filter intro!: map_cong filter_cong)
  then have m: "mset (askable_question_ids ?plan) = mset (map fst (filter (\<lambda>(i, n). is_null (jget n ''calculate'')) (field_nodes F)))"
    using acc(2) by (simp add: covers_walk_def askable_question_ids_def shown_ids_def)
  have "distinct (map fst (field_nodes F))"
    using ok by (auto simp: form_ok_def ids_of_def field_nodes_def comp_def case_prod_beta)
  then have "distinct (map fst (filter (\<lambda>(i, n). is_null (jget n ''calculate'')) (field_nodes F)))"
    by (rule distinct_map_filter)
  then have "distinct (askable_question_ids ?plan)" using mset_eq_imp_distinct_iff [OF m] by blast
  moreover have "set (askable_question_ids ?plan) = {i. \<exists>f. (i, f) \<in> set (cf_fields F) \<and> is_null (jget (f_node f) ''calculate'')}"
    using mset_eq_setD [OF m] by (force simp: field_nodes_def)
  moreover have "build_screen_plan ir = Inr ?plan" using acc(1) by (simp add: build_screen_plan_def)
  ultimately show ?thesis by blast
qed

theorem every_question_has_one_screen_witness:
  "\<exists>plan. build_screen_plan tour_doc = Inr plan \<and> distinct (askable_question_ids plan)"
  using every_question_has_one_screen [OF tour_compiles] by blast

end
