(* ===== verification/Publish_Checks.thy ===== *)
theory Publish_Checks
  imports Screen_Partition
begin

text \<open>
  \<open>form_engine/reachability.py\<close> and \<open>form_engine/answerability.py\<close>: the two findings that block
  publishing, read off the document alone. A question must reach a screen and a container must not be
  provably empty; a question that holds no value must not be required.
\<close>

subsection \<open>Reachability\<close>

datatype dead_why = StaticallyFalse | CountIs json | MaxIsZero | FixedListEmpty

record dead_container =
  dc_id :: string
  dc_reason :: dead_why
  dc_questions :: "string list"

text \<open>\<open>node.get\<close> on what a list of children holds.\<close>

definition as_node :: "json \<Rightarrow> dict res" where
  "as_node v = (case v of JObj kvs \<Rightarrow> Inr kvs | _ \<Rightarrow> Inl AttributeError)"

lemma depth_children_get:
  assumes "py_iter children = Inr nodes" "node \<in> set nodes" "as_node node = Inr kvs"
  shows "depth (jget kvs ''children'') < depth children"
proof -
  have "node = JObj kvs" using assms(3) by (cases node) (auto simp: as_node_def)
  then show ?thesis
    using depth_py_iter [OF assms(1,2)] depth_jget [of kvs "''children''"] by (simp del: depth.simps)
qed

function answerable :: "json \<Rightarrow> string list res" where
  "answerable children =
     rbind (py_iter children) (\<lambda>nodes.
     rbind (mapM (\<lambda>node.
       rbind (as_node node) (\<lambda>kvs.
       rbind (if jget kvs ''type'' = JStr ''question'' \<and> is_null (jget kvs ''calculate'')
              then rbind (str_item kvs ''id'') (\<lambda>i. Inr [i]) else Inr []) (\<lambda>own.
       rbind (if truthy (jget kvs ''children'') then answerable (jget kvs ''children'') else Inr []) (\<lambda>below.
         Inr (own @ below))))) nodes) (\<lambda>parts. Inr (concat parts)))"
  by pat_completeness auto
termination
  by (relation "measure depth") (auto intro: depth_children_get)

text \<open>\<open>isinstance(value, (int, float)) and not isinstance(value, bool) and value <= 0\<close>.\<close>

definition not_positive :: "json \<Rightarrow> bool" where
  "not_positive v = (case v of
     JInt i \<Rightarrow> num_le (NInt i) (NInt 0) | JFloat x \<Rightarrow> num_le (NFloat x) (NInt 0) | _ \<Rightarrow> False)"

definition empty_fixed_list :: "dict \<Rightarrow> bool" where
  "empty_fixed_list node = (case jget node ''rowSource'' of
     JObj source \<Rightarrow> jget source ''kind'' = JStr ''inline'' \<and> \<not> truthy (jget source ''items'') \<and>
       \<not> truthy (jget source ''allowAdd'')
   | _ \<Rightarrow> False)"

definition dead_reason :: "pylib \<Rightarrow> dict \<Rightarrow> dead_why option res" where
  "dead_reason L node =
     (if \<not> is_container (jget node ''type'') then Inr None
      else rbind (statically_false L (jget node ''relevant'')) (\<lambda>never.
        if never then Inr (Some StaticallyFalse)
        else if jget node ''type'' \<noteq> JStr ''repeat'' then Inr None
        else rbind (if \<not> is_null (jget node ''countExpr'') \<and> is_static (jget node ''countExpr'')
                    then rbind (static_value L (jget node ''countExpr'')) (\<lambda>v.
                      Inr (if not_positive v then Some (CountIs v) else None))
                    else Inr None) (\<lambda>counted.
          case counted of
            Some why \<Rightarrow> Inr (Some why)
          | None \<Rightarrow>
              (if py_eq (jget node ''maxInstances'') (JInt 0) then Inr (Some MaxIsZero)
               else if empty_fixed_list node then Inr (Some FixedListEmpty)
               else Inr None))))"

function dead_walk :: "pylib \<Rightarrow> json \<Rightarrow> dead_container list res" where
  "dead_walk L children =
     rbind (py_iter children) (\<lambda>nodes.
     rbind (mapM (\<lambda>node.
       rbind (as_node node) (\<lambda>kvs.
       rbind (dead_reason L kvs) (\<lambda>reason.
         case reason of
           Some why \<Rightarrow>
             rbind (answerable (children_of kvs)) (\<lambda>questions.
               if questions = [] then Inr []
               else rbind (str_item kvs ''id'') (\<lambda>i.
                 Inr [\<lparr>dc_id = i, dc_reason = why, dc_questions = questions\<rparr>]))
         | None \<Rightarrow> (if truthy (jget kvs ''children'') then dead_walk L (jget kvs ''children'') else Inr [])))) nodes)
       (\<lambda>parts. Inr (concat parts)))"
  by pat_completeness auto
termination
  by (relation "measure (depth \<circ> snd)") (auto intro: depth_children_get)

definition dead_containers :: "pylib \<Rightarrow> dict \<Rightarrow> dead_container list res" where
  "dead_containers L ir = dead_walk L (children_of ir)"

datatype violation = CannotBeAsked "string list" | NeverShown dead_container

definition check_reachability :: "pylib \<Rightarrow> dict \<Rightarrow> violation list res" where
  "check_reachability L ir =
     rbind (build_screen_plan ir) (\<lambda>plan.
     rbind (answerable (children_of ir)) (\<lambda>questions.
     let unreachable = filter (\<lambda>q. q \<notin> set (askable_question_ids plan)) questions
     in rbind (dead_containers L ir) (\<lambda>dead.
       Inr ((if unreachable \<noteq> [] then [CannotBeAsked unreachable] else []) @ map NeverShown dead))))"

function never_shown_walk :: "pylib \<Rightarrow> json \<Rightarrow> string list res" where
  "never_shown_walk L children =
     rbind (py_iter children) (\<lambda>nodes.
     rbind (mapM (\<lambda>node.
       rbind (as_node node) (\<lambda>kvs.
       rbind (dead_reason L kvs) (\<lambda>reason.
         if reason \<noteq> None then answerable (children_of kvs)
         else
           rbind (if jget kvs ''type'' = JStr ''question'' \<and> is_null (jget kvs ''calculate'')
                  then rbind (statically_false L (jget kvs ''relevant'')) (\<lambda>never.
                    if never then rbind (str_item kvs ''id'') (\<lambda>i. Inr [i]) else Inr [])
                  else Inr []) (\<lambda>own.
           rbind (if truthy (jget kvs ''children'') then never_shown_walk L (jget kvs ''children'') else Inr []) (\<lambda>below.
             Inr (own @ below)))))) nodes)
       (\<lambda>parts. Inr (concat parts)))"
  by pat_completeness auto
termination
  by (relation "measure (depth \<circ> snd)") (auto intro: depth_children_get)

definition never_shown_questions :: "pylib \<Rightarrow> dict \<Rightarrow> string list res" where
  "never_shown_questions L ir = never_shown_walk L (children_of ir)"

declare answerable.simps [simp del] dead_walk.simps [simp del] never_shown_walk.simps [simp del]

subsection \<open>Answerability\<close>

definition VALUELESS_TYPES :: "string list" where "VALUELESS_TYPES = [''note'']"

function questions :: "json \<Rightarrow> dict list res" where
  "questions children =
     rbind (py_iter children) (\<lambda>nodes.
     rbind (mapM (\<lambda>node.
       rbind (as_node node) (\<lambda>kvs.
       rbind (if truthy (jget kvs ''children'') then questions (jget kvs ''children'') else Inr []) (\<lambda>below.
         Inr ((if jget kvs ''type'' = JStr ''question'' then [kvs] else []) @ below)))) nodes)
       (\<lambda>parts. Inr (concat parts)))"
  by pat_completeness auto
termination
  by (relation "measure depth") (auto intro: depth_children_get)

declare questions.simps [simp del]

definition required_valueless :: "dict \<Rightarrow> bool" where
  "required_valueless node \<longleftrightarrow> jget node ''dataType'' \<in> set (map JStr VALUELESS_TYPES) \<and>
     \<not> is_null (jget node ''required'')"

text \<open>The violations, each by the question and the data type its sentence names.\<close>

definition check_answerability :: "dict \<Rightarrow> (string \<times> string) list res" where
  "check_answerability ir =
     rbind (questions (children_of ir)) (\<lambda>nodes.
       mapM (\<lambda>node. rbind (str_item node ''id'') (\<lambda>i. rbind (str_item node ''dataType'') (\<lambda>t. Inr (i, t))))
         (filter required_valueless nodes))"

subsection \<open>The walks of the two checks find the walk of the compiler\<close>

text \<open>Question nodes carry no children of their own. The document gate does not look there.\<close>

definition leafy :: "(dict \<times> string list) list \<Rightarrow> bool" where
  "leafy nodes \<longleftrightarrow> list_all (\<lambda>(n, a). kind n = JStr ''question'' \<longrightarrow> \<not> truthy (jget n ''children'')) nodes"

lemma leafy_simps [simp]: "leafy []" "leafy (xs @ ys) \<longleftrightarrow> leafy xs \<and> leafy ys"
  "leafy ((n, a) # xs) \<longleftrightarrow> (kind n = JStr ''question'' \<longrightarrow> \<not> truthy (jget n ''children'')) \<and> leafy xs"
  by (simp_all add: leafy_def)

text \<open>One step of a walk that descends wherever there are children.\<close>

definition descend :: "(json \<Rightarrow> 'a list res) \<Rightarrow> dict \<Rightarrow> 'a list res" where
  "descend f kvs = (if truthy (jget kvs ''children'') then f (jget kvs ''children'') else Inr [])"

lemma descend_kids:
  assumes "node_ok (JObj kvs)" "kind kvs \<noteq> JStr ''question''" "f (JList []) = Inr []"
  shows "descend f kvs = f (JList (kids kvs))"
proof -
  have k: "children_of kvs = JList (kids kvs)" using node_okD(4) [OF assms(1,2)] by blast
  show ?thesis
  proof (cases "map_of kvs ''children''")
    case None
    then have "kids kvs = []" by (simp add: kids_def children_of_def)
    then show ?thesis using None assms(3) by (simp add: descend_def jget_def)
  next
    case (Some c)
    then have "c = JList (kids kvs)" using k by (simp add: children_of_def)
    then show ?thesis using Some assms(3) by (auto simp: descend_def jget_def)
  qed
qed

lemma answerable_Nil: "answerable (JList []) = Inr []"
  by (subst answerable.simps) simp

lemma answerable_Cons:
  assumes "node_ok (JObj kvs)"
  shows "answerable (JList (JObj kvs # ns)) =
    rbind (descend answerable kvs) (\<lambda>b. rbind (answerable (JList ns)) (\<lambda>r.
      Inr ((if kind kvs = JStr ''question'' \<and> is_null (jget kvs ''calculate'') then [nid kvs] else []) @ b @ r)))"
  using node_okD(3) [OF assms]
  by (subst (1 2) answerable.simps) (simp add: as_node_def rbind_assoc descend_def)

lemma answerable_walk:
  assumes "list_all node_ok ns" "walk (JList ns) anc = Inr nodes" "leafy nodes"
  shows "answerable (JList ns) = Inr (asked nodes)"
  using assms
proof (induction ns arbitrary: anc nodes rule: nodes_induct)
  case Nil
  then show ?case by (simp add: walk_Nil answerable_Nil)
next
  case (question kvs ns)
  then obtain r where r: "walk (JList ns) anc = Inr r" "nodes = (kvs, anc) # r"
    by (auto simp: walk_Cons rbind_Inr_iff)
  then show ?case using question by (simp add: answerable_Cons descend_def)
next
  case (container kvs ns)
  then obtain b r where br: "walk (JList (kids kvs)) (anc @ [nid kvs]) = Inr b" "walk (JList ns) anc = Inr r"
      "nodes = (kvs, anc) # b @ r"
    by (auto simp: walk_Cons rbind_Inr_iff)
  then show ?case
    using container.prems container.hyps container.IH(1) [OF br(1)] container.IH(2) [OF br(2)]
    by (simp add: answerable_Cons descend_kids [where f = answerable, OF _ _ answerable_Nil])
qed

lemma questions_Nil: "questions (JList []) = Inr []"
  by (subst questions.simps) simp

lemma questions_Cons:
  "questions (JList (JObj kvs # ns)) =
    rbind (descend questions kvs) (\<lambda>b. rbind (questions (JList ns)) (\<lambda>r.
      Inr ((if kind kvs = JStr ''question'' then [kvs] else []) @ b @ r)))"
  by (subst (1 2) questions.simps) (simp add: as_node_def rbind_assoc descend_def)

lemma questions_walk:
  assumes "list_all node_ok ns" "walk (JList ns) anc = Inr nodes" "leafy nodes"
  shows "questions (JList ns) = Inr (map fst (filter (\<lambda>(n, a). kind n = JStr ''question'') nodes))"
  using assms
proof (induction ns arbitrary: anc nodes rule: nodes_induct)
  case Nil
  then show ?case by (simp add: walk_Nil questions_Nil)
next
  case (question kvs ns)
  then obtain r where r: "walk (JList ns) anc = Inr r" "nodes = (kvs, anc) # r"
    by (auto simp: walk_Cons rbind_Inr_iff)
  then show ?case using question by (simp add: questions_Cons descend_def)
next
  case (container kvs ns)
  then obtain b r where br: "walk (JList (kids kvs)) (anc @ [nid kvs]) = Inr b" "walk (JList ns) anc = Inr r"
      "nodes = (kvs, anc) # b @ r"
    by (auto simp: walk_Cons rbind_Inr_iff)
  then show ?case
    using container.prems container.hyps container.IH(1) [OF br(1)] container.IH(2) [OF br(2)]
    by (simp add: questions_Cons descend_kids [where f = questions, OF _ _ questions_Nil])
qed

subsection \<open>Properties\<close>

text \<open>The reachability check never blocks a compiled form for a question without a screen: when question
  nodes carry no children of their own, every answerable question of the document is on the plan.\<close>

theorem compiled_forms_reach_every_question:
  assumes "compile_form L (JObj ir) = Inr F" "walk (children_of ir) [] = Inr nodes" "leafy nodes"
    and "check_reachability L ir = Inr vs"
  shows "CannotBeAsked qs \<notin> set vs"
proof -
  obtain nodes' where n: "walk (JList (kids ir)) [] = Inr nodes'" "tracks nodes' F"
      "children_of ir = JList (kids ir)" "list_all node_ok (kids ir)"
    using compiled_walk [OF assms(1)] .
  have [simp]: "nodes' = nodes" using n(1,3) assms(2) by simp
  obtain acc where acc: "plan_walk (children_of ir) None ([], []) = Inr acc" "covers_walk ([], []) nodes acc"
    using plan_covers_walk [OF n(4,1) tracks_flat [OF n(2) conjunct1 [OF compile_form_ok [OF assms(1)]]], of "([], [])" None] n(3)
    by auto
  have "set (asked nodes) = set (askable_question_ids \<lparr>sp_screens = fst acc, sp_instance_plans = snd acc\<rparr>)"
    using acc(2) mset_eq_setD [of "shown_ids acc" "asked nodes"]
    by (simp add: covers_walk_def shown_ids_def askable_question_ids_def)
  then show ?thesis
    using assms(4) answerable_walk [OF n(4,1)] assms(3) acc(1) n(3)
    by (auto simp: check_reachability_def build_screen_plan_def rbind_Inr_iff Let_def split: if_splits)
qed

theorem compiled_forms_reach_every_question_witness:
  "check_reachability sample_lib tour_doc = Inr [] \<and> CannotBeAsked [''a''] \<notin> set []"
proof -
  have h: "check_reachability sample_lib tour_doc = Inr []"
    "case walk (children_of tour_doc) [] of Inr nodes \<Rightarrow> leafy nodes | Inl _ \<Rightarrow> False" by code_simp+
  then obtain nodes where "walk (children_of tour_doc) [] = Inr nodes" "leafy nodes" by (auto split: sum.splits)
  from compiled_forms_reach_every_question [OF tour_compiles this h(1), of "[''a'']"] h(1) show ?thesis by blast
qed

text \<open>The answerability check reports exactly the questions of a compiled form that hold no value and are
  marked required, in document order.\<close>

theorem answerability_exact:
  assumes "compile_form L (JObj ir) = Inr F" "walk (children_of ir) [] = Inr nodes" "leafy nodes"
    and "check_answerability ir = Inr vs"
  shows "map fst vs = map fst (filter (\<lambda>(i, f). required_valueless (f_node f)) (cf_fields F))"
proof -
  obtain nodes' where n: "walk (JList (kids ir)) [] = Inr nodes'" "tracks nodes' F"
      "children_of ir = JList (kids ir)" "list_all node_ok (kids ir)"
    using compiled_walk [OF assms(1)] .
  have [simp]: "nodes' = nodes" using n(1,3) assms(2) by simp
  let ?qs = "map fst (filter (\<lambda>(n, a). kind n = JStr ''question'') nodes)"
  have vs: "mapM (\<lambda>node. rbind (str_item node ''id'') (\<lambda>i. rbind (str_item node ''dataType'') (\<lambda>t. Inr (i, t))))
      (filter required_valueless ?qs) = Inr vs"
    using assms(4) questions_walk [OF n(4,1)] assms(3) n(3) by (simp add: check_answerability_def)
  have ids: "map fst ws = map nid ds"
    if "mapM (\<lambda>node. rbind (str_item node ''id'') (\<lambda>i. rbind (str_item node ''dataType'') (\<lambda>t. Inr (i, t)))) ds = Inr ws" for ds ws
    using that by (induction ds arbitrary: ws) (auto simp: rbind_Inr_iff nid_def)
  have "map fst (filter (\<lambda>(i, f). required_valueless (f_node f)) (cf_fields F)) =
      map fst (filter (\<lambda>(i, n). required_valueless n) (field_nodes F))"
    by (simp add: field_nodes_def filter_map comp_def split_def)
  also have "\<dots> = map nid (filter required_valueless ?qs)"
    using n(2) by (simp add: tracks_def named_def filter_map comp_def split_def)
  finally show ?thesis using ids [OF vs] by simp
qed

definition noted_doc :: dict where
  "noted_doc = [(''irVersion'', JStr ''0.1''), (''formId'', JStr ''n''), (''version'', JInt 1),
     (''children'', JList [question ''a'' ''text'' [(''required'', JObj [(''op'', JStr ''lit''), (''value'', JBool True)])],
        question ''b'' ''note'' [(''required'', JObj [(''op'', JStr ''lit''), (''value'', JBool True)])]])]"

definition noted_form :: cform where
  "noted_form = (case compile_form sample_lib (JObj noted_doc) of Inr F \<Rightarrow> F | Inl _ \<Rightarrow> empty_form [] [] 0)"

lemma noted_compiles: "compile_form sample_lib (JObj noted_doc) = Inr noted_form"
proof -
  have "\<not> (case compile_form sample_lib (JObj noted_doc) of Inr F \<Rightarrow> False | Inl _ \<Rightarrow> True)" by code_simp
  then show ?thesis by (simp add: noted_form_def split: sum.splits)
qed

theorem answerability_exact_witness:
  "map fst (filter (\<lambda>(i, f). required_valueless (f_node f)) (cf_fields noted_form)) = [''b'']"
proof -
  have h: "check_answerability noted_doc = Inr [(''b'', ''note'')]"
    "case walk (children_of noted_doc) [] of Inr nodes \<Rightarrow> leafy nodes | Inl _ \<Rightarrow> False" by code_simp+
  then obtain nodes where "walk (children_of noted_doc) [] = Inr nodes" "leafy nodes" by (auto split: sum.splits)
  from answerability_exact [OF noted_compiles this h(1)] show ?thesis by simp
qed


definition shut_node :: dict where
  "shut_node = [(''type'', JStr ''group''), (''id'', JStr ''g''), (''relevant'', JObj [(''op'', JStr ''lit''), (''value'', JBool False)]),
     (''children'', JList [question ''b'' ''text'' []])]"


text \<open>A list the sample brings is instantiated in full whatever \<open>maxInstances\<close> says, as the specification has
  it; the check still calls such a repeat empty when the ceiling is zero.\<close>

definition listed_repeat :: dict where
  "listed_repeat = [(''type'', JStr ''repeat''), (''id'', JStr ''m''), (''maxInstances'', JInt 0),
     (''rowSource'', JObj [(''kind'', JStr ''inline''), (''items'', JList [JObj [(''value'', JStr ''k1'')]])]),
     (''children'', JList [question ''c'' ''text'' []])]"

definition listed_doc :: json where
  "listed_doc = JObj [(''irVersion'', JStr ''0.1''), (''formId'', JStr ''l''), (''version'', JInt 1),
     (''children'', JList [JObj listed_repeat])]"

lemma max_zero_repeat_holds_rows:
  "dead_reason sample_lib listed_repeat = Inr (Some MaxIsZero) \<and>
   (case rbind (compile_form sample_lib listed_doc) (\<lambda>F.
           new_instance sample_lib F (mk_date 2024 1 1) [] [] (memory_rows sample_lib [])) of
      Inr S \<Rightarrow> instance_count S ''m'' = 1 | Inl _ \<Rightarrow> False)"
proof (rule conjI)
  show "dead_reason sample_lib listed_repeat = Inr (Some MaxIsZero)" by code_simp
  show "case rbind (compile_form sample_lib listed_doc) (\<lambda>F.
           new_instance sample_lib F (mk_date 2024 1 1) [] [] (memory_rows sample_lib [])) of
      Inr S \<Rightarrow> instance_count S ''m'' = 1 | Inl _ \<Rightarrow> False" by code_simp
qed

end
