(* ===== verification/Case_Key.thy ===== *)
theory Case_Key
  imports Datasets
begin

text \<open>
  \<open>entities/case_key.py\<close>: a record key composed of several columns. A key is its parts joined with a
  pipe, each part escaped with backslashes; splitting reads it back. A row with a blank part is refused,
  and the refusal names the column.
\<close>

definition SEPARATOR :: char where "SEPARATOR = CHR ''|''"
definition ESCAPE :: char where "ESCAPE = CHR 0x5C"

datatype key_error = CaseKeyRefused string

text \<open>\<open>s.replace(c, t)\<close> for a single character.\<close>

definition replace_char :: "char \<Rightarrow> string \<Rightarrow> string \<Rightarrow> string" where
  "replace_char c t s = concat (map (\<lambda>x. if x = c then t else [x]) s)"

definition escape_part :: "string \<Rightarrow> string" where
  "escape_part part = replace_char SEPARATOR [ESCAPE, SEPARATOR] (replace_char ESCAPE [ESCAPE, ESCAPE] part)"

fun join_with :: "char \<Rightarrow> string list \<Rightarrow> string" where
  "join_with c [] = []"
| "join_with c [p] = p"
| "join_with c (p # ps) = p @ c # join_with c ps"

definition compose_key :: "string list \<Rightarrow> string" where
  "compose_key parts = join_with SEPARATOR (map escape_part parts)"

text \<open>The loop of \<open>split\<close>, on the rest of the key; \<open>current\<close> is the part being read.\<close>

fun split_loop :: "string list \<Rightarrow> string \<Rightarrow> string \<Rightarrow> string list" where
  "split_loop parts current [] = parts @ [current]"
| "split_loop parts current (ch # rest) =
     (if ch = ESCAPE \<and> rest \<noteq> [] then split_loop parts (current @ [hd rest]) (tl rest)
      else if ch = SEPARATOR then split_loop (parts @ [current]) [] rest
      else split_loop parts (current @ [ch]) rest)"

definition split_key :: "string \<Rightarrow> string list" where
  "split_key key = split_loop [] [] key"

definition key_part :: "pylib \<Rightarrow> dict \<Rightarrow> string \<Rightarrow> string" where
  "key_part L row column = (case jget row column of JNull \<Rightarrow> [] | raw \<Rightarrow> py_str L raw)"

fun key_parts :: "pylib \<Rightarrow> dict \<Rightarrow> string list \<Rightarrow> key_error + string list" where
  "key_parts L row [] = Inr []"
| "key_parts L row (column # columns) =
     (if strip (key_part L row column) = [] then Inl (CaseKeyRefused column)
      else (case key_parts L row columns of
              Inl e \<Rightarrow> Inl e | Inr parts \<Rightarrow> Inr (key_part L row column # parts)))"

definition key_of :: "pylib \<Rightarrow> dict \<Rightarrow> string list \<Rightarrow> key_error + string" where
  "key_of L row key_columns = (case key_parts L row key_columns of
     Inl e \<Rightarrow> Inl e | Inr parts \<Rightarrow> Inr (compose_key parts))"

subsection \<open>Splitting undoes composing\<close>

lemma escape_part_simps [simp]:
  "escape_part [] = []"
  "escape_part (c # s) = (if c = ESCAPE \<or> c = SEPARATOR then [ESCAPE, c] else [c]) @ escape_part s"
  by (auto simp: escape_part_def replace_char_def SEPARATOR_def ESCAPE_def)

lemma split_loop_escaped:
  "split_loop parts current (escape_part s @ rest) = split_loop parts (current @ s) rest"
proof (induction s arbitrary: current)
  case (Cons c s)
  then show ?case by (auto simp: SEPARATOR_def ESCAPE_def)
qed simp

lemma split_loop_joined:
  "split_loop parts current (join_with SEPARATOR (map escape_part (p # ps))) = parts @ (current @ p) # ps"
proof (induction ps arbitrary: p parts current)
  case Nil
  show ?case using split_loop_escaped [of parts current p "[]"] by simp
next
  case (Cons q ps)
  have "split_loop parts current (escape_part p @ SEPARATOR # join_with SEPARATOR (map escape_part (q # ps)))
      = split_loop (parts @ [current @ p]) [] (join_with SEPARATOR (map escape_part (q # ps)))"
    by (simp add: split_loop_escaped) (simp add: SEPARATOR_def ESCAPE_def)
  then show ?case using Cons.IH [of "parts @ [current @ p]" "[]" q] by simp
qed

lemma split_compose: "parts \<noteq> [] \<Longrightarrow> split_key (compose_key parts) = parts"
  using split_loop_joined [of "[]" "[]" "hd parts" "tl parts"]
  by (cases parts) (simp_all add: split_key_def compose_key_def)

text \<open>The keys composing produces: every backslash is followed by a backslash or a pipe.\<close>

fun well_escaped :: "string \<Rightarrow> bool" where
  "well_escaped [] = True"
| "well_escaped (c # s) =
     (if c = ESCAPE then (case s of [] \<Rightarrow> False | d # s' \<Rightarrow> (d = ESCAPE \<or> d = SEPARATOR) \<and> well_escaped s')
      else well_escaped s)"

lemma escape_part_append: "escape_part (s @ t) = escape_part s @ escape_part t"
  by (simp add: escape_part_def replace_char_def)

lemma join_snoc: "join_with c (ps @ [p]) = (if ps = [] then p else join_with c ps @ c # p)"
  by (induction ps rule: induct_list012) auto

lemma compose_loop:
  "well_escaped s \<Longrightarrow> compose_key (split_loop parts current s) = compose_key (parts @ [current]) @ s"
proof (induction s arbitrary: parts current rule: well_escaped.induct)
  case (2 c s)
  show ?case
  proof (cases "c = ESCAPE")
    case True
    then obtain d s' where s: "s = d # s'" "d = ESCAPE \<or> d = SEPARATOR" "well_escaped s'"
      using "2.prems" by (cases s) auto
    have "compose_key (split_loop parts (current @ [d]) s') = compose_key (parts @ [current @ [d]]) @ s'"
      using "2.IH"(1) [OF True s(1) s(3)] .
    then show ?thesis using True s by (auto simp: compose_key_def join_snoc escape_part_append)
  next
    case False
    then have ws: "well_escaped s" using "2.prems" by simp
    show ?thesis
      using "2.IH"(2) [OF False ws] False
      by (auto simp: compose_key_def join_snoc escape_part_append)
  qed
qed (simp add: compose_key_def)

lemma well_escaped_part: "well_escaped (escape_part s @ t) = well_escaped t"
  by (induction s) auto

lemma well_escaped_compose: "well_escaped (compose_key parts)"
proof -
  have "well_escaped (join_with SEPARATOR (map escape_part ps))" for ps
  proof (induction ps rule: induct_list012)
    case (2 p)
    show ?case using well_escaped_part [of p "[]"] by simp
  next
    case (3 p q ps)
    then show ?case by (simp add: well_escaped_part) (simp add: SEPARATOR_def ESCAPE_def)
  qed simp
  then show ?thesis by (simp add: compose_key_def)
qed

text \<open>C34: Composing and splitting are inverse bijections between the non-empty lists of parts, whatever
  pipes and backslashes the parts hold, and the well-escaped keys: splitting a composed key gives the
  parts back, a key is composed from some parts exactly when it is well escaped, and then composing what
  it splits into gives the key.\<close>

theorem case_key_bijection:
  "(parts \<noteq> [] \<longrightarrow> split_key (compose_key parts) = parts) \<and>
   ((\<exists>parts. compose_key parts = key) \<longleftrightarrow> well_escaped key) \<and>
   (well_escaped key \<longrightarrow> compose_key (split_key key) = key)"
proof -
  have inv: "well_escaped key \<Longrightarrow> compose_key (split_key key) = key"
    using compose_loop [of key "[]" "[]"] by (simp add: split_key_def compose_key_def)
  then show ?thesis using split_compose well_escaped_compose by metis
qed

theorem case_key_bijection_witness:
  "split_key (compose_key [''A|'', ''B'']) = [''A|'', ''B''] \<and> compose_key (split_key ''A|B'') = ''A|B''"
  using case_key_bijection [of "[''A|'', ''B'']" "''A|B''"] by (simp add: ESCAPE_def)

text \<open>The claim of \<open>split\<close>'s own comment, that it undoes \<open>compose\<close> for every list of strings, fails for
  one list: the empty one composes to the empty key, which splits into one empty part.\<close>

theorem split_compose_empty: "split_key (compose_key []) = [[]]"
  by (simp add: split_key_def compose_key_def)

subsection \<open>The key of a row\<close>

definition blank_part :: "pylib \<Rightarrow> dict \<Rightarrow> string \<Rightarrow> bool" where
  "blank_part L row column \<longleftrightarrow> strip (key_part L row column) = []"

lemma key_parts_eq:
  "key_parts L row cols = (case find (blank_part L row) cols of
     Some c \<Rightarrow> Inl (CaseKeyRefused c) | None \<Rightarrow> Inr (map (key_part L row) cols))"
  by (induction cols) (auto simp: blank_part_def split: option.splits)

lemma compose_inj: "ps \<noteq> [] \<Longrightarrow> qs \<noteq> [] \<Longrightarrow> compose_key ps = compose_key qs \<longleftrightarrow> ps = qs"
  using split_compose by metis

text \<open>A key identifies its row among the rows of a sample. A row with a blank key part is refused with
  the first such column; every other row gets a key, and two rows of the sample get the same key exactly
  when they agree on every key column.\<close>

theorem key_of_identifies:
  assumes "cols \<noteq> []"
  shows "(\<forall>c. find (blank_part L row) cols = Some c \<longrightarrow> key_of L row cols = Inl (CaseKeyRefused c)) \<and>
    (find (blank_part L row) cols = None \<longrightarrow> find (blank_part L row') cols = None \<longrightarrow>
      (\<exists>k k'. key_of L row cols = Inr k \<and> key_of L row' cols = Inr k' \<and>
        (k = k' \<longleftrightarrow> (\<forall>c \<in> set cols. key_part L row c = key_part L row' c))))"
  using assms by (auto simp: key_of_def key_parts_eq compose_inj)

theorem key_of_identifies_witness:
  "key_of sample_lib [(''a'', JStr ''x''), (''b'', JStr '' '')] [''a'', ''b''] = Inl (CaseKeyRefused ''b'') \<and>
   key_of sample_lib [(''a'', JStr ''x|''), (''b'', JInt 1)] [''a'', ''b''] \<noteq>
   key_of sample_lib [(''a'', JStr ''x''), (''b'', JStr ''|1'')] [''a'', ''b'']"
proof -
  have b: "find (blank_part sample_lib [(''a'', JStr ''x''), (''b'', JStr '' '')]) [''a'', ''b''] = Some ''b''"
    "find (blank_part sample_lib [(''a'', JStr ''x|''), (''b'', JInt 1)]) [''a'', ''b''] = None"
    "find (blank_part sample_lib [(''a'', JStr ''x''), (''b'', JStr ''|1'')]) [''a'', ''b''] = None"
    "key_part sample_lib [(''a'', JStr ''x|''), (''b'', JInt 1)] ''a'' \<noteq>
     key_part sample_lib [(''a'', JStr ''x''), (''b'', JStr ''|1'')] ''a''" by code_simp+
  have "[''a'', ''b''] \<noteq> []" by simp
  note key_of_identifies [OF this, of sample_lib]
  from this [of "[(''a'', JStr ''x''), (''b'', JStr '' '')]"]
    this [of "[(''a'', JStr ''x|''), (''b'', JInt 1)]" "[(''a'', JStr ''x''), (''b'', JStr ''|1'')]"]
  show ?thesis using b by auto
qed

end
