(* ===== verification/Fold.thy ===== *)
theory Fold
  imports Compile "HOL-Library.Multiset" "HOL-Library.Product_Lexorder"
begin

text \<open>
  \<open>submissions/fold.py\<close>: what a submission's operation log currently says. The fold reads operations in
  the order it is handed; \<open>in_log_order\<close> is the order \<open>_fold_submission\<close> of \<open>sync/service.py\<close> hands them
  in, by counter and then device, where the order of device ids is the database's collation and so a
  parameter.
\<close>

record fold_op =
  op_kind :: string
  op_path :: "string option"
  op_value :: json
  op_ciphertext :: "string option"
  op_content_key :: "string option"
  op_wall_clock :: string
  op_server_seq :: int
  op_counter :: int
  op_device :: string

record fold_state =
  fo_data :: dict
  fo_unreadable :: "(string \<times> string) list"
  fo_instances :: "(string \<times> string list) list"
  fo_status :: "string option"
  fo_finalized_at :: "string option"
  fo_high_water :: int

text \<open>What may follow the bracket of an instance path: nothing, or a dot and a field, with the final
  newline a dollar sign lets through.\<close>

definition no_newline :: "string \<Rightarrow> bool" where
  "no_newline s \<longleftrightarrow> CHR 0x0A \<notin> set s"

definition path_tail :: "string \<Rightarrow> bool" where
  "path_tail s \<longleftrightarrow> s = [] \<or> s = [CHR 0x0A] \<or>
     (hd s = CHR ''.'' \<and> tl s \<noteq> [] \<and>
       (no_newline (tl s) \<or> (last s = CHR 0x0A \<and> butlast (tl s) \<noteq> [] \<and> no_newline (butlast (tl s)))))"

definition instance_path :: "string \<Rightarrow> (string \<times> string) option" where
  "instance_path path =
     (case split_first ''['' path of
        None \<Rightarrow> None
      | Some (repeat_id, rest) \<Rightarrow>
          (case split_first '']'' rest of
             None \<Rightarrow> None
           | Some (instance_id, tail) \<Rightarrow>
               (if plain_id repeat_id \<and> instance_id \<noteq> [] \<and> path_tail tail
                then Some (repeat_id, instance_id) else None)))"

definition note_instance :: "string \<Rightarrow> (string \<times> string list) list \<Rightarrow> (string \<times> string list) list" where
  "note_instance path instances =
     (case instance_path path of
        None \<Rightarrow> instances
      | Some (r, i) \<Rightarrow>
          (let ids = (case map_of instances r of None \<Rightarrow> [] | Some ids \<Rightarrow> ids)
           in AList.update r (if i \<in> set ids then ids else ids @ [i]) instances))"

definition covers :: "string \<Rightarrow> string \<Rightarrow> bool" where
  "covers prefix k \<longleftrightarrow> k = prefix \<or> starts_with (prefix @ ''.'') k \<or> starts_with (prefix @ ''['') k"

definition forget :: "string \<Rightarrow> (string \<times> 'a) list \<Rightarrow> (string \<times> 'a) list" where
  "forget prefix store = filter (\<lambda>(k, v). \<not> covers prefix k) store"

definition drop_instances :: "string \<Rightarrow> (string \<times> string list) list \<Rightarrow> (string \<times> string list) list" where
  "drop_instances path instances =
     (case instance_path path of
        None \<Rightarrow> AList.delete path instances
      | Some (r, i) \<Rightarrow>
          (case map_of instances r of
             None \<Rightarrow> instances
           | Some ids \<Rightarrow> AList.update r (remove1 i ids) instances))"

definition fold_set :: "fold_op \<Rightarrow> string \<Rightarrow> fold_state \<Rightarrow> fold_state" where
  "fold_set p path s =
     (let s = s\<lparr>fo_instances := note_instance path (fo_instances s)\<rparr>
      in case op_ciphertext p of
           Some c \<Rightarrow> s\<lparr>fo_data := AList.delete path (fo_data s),
             fo_unreadable := (case op_content_key p of
                None \<Rightarrow> fo_unreadable s | Some key \<Rightarrow> AList.update path key (fo_unreadable s))\<rparr>
         | None \<Rightarrow> s\<lparr>fo_data := AList.update path (op_value p) (fo_data s),
             fo_unreadable := AList.delete path (fo_unreadable s)\<rparr>)"

definition fold_step :: "fold_state \<Rightarrow> fold_op \<Rightarrow> fold_state" where
  "fold_step s p =
     (let s = s\<lparr>fo_high_water := max (fo_high_water s) (op_server_seq p)\<rparr>;
          kind = op_kind p; path = the (op_path p); has_path = (op_path p \<noteq> None)
      in if kind = ''set'' \<and> has_path then fold_set p path s
         else if kind = ''unset'' \<and> has_path
         then s\<lparr>fo_data := AList.delete path (fo_data s), fo_unreadable := AList.delete path (fo_unreadable s)\<rparr>
         else if kind = ''repeat_add'' \<and> has_path
         then s\<lparr>fo_instances := note_instance path (fo_instances s)\<rparr>
         else if kind = ''repeat_delete'' \<and> has_path
         then s\<lparr>fo_data := forget path (fo_data s), fo_unreadable := forget path (fo_unreadable s),
                fo_instances := drop_instances path (fo_instances s)\<rparr>
         else if kind = ''finalize''
         then s\<lparr>fo_status := Some ''finalized'', fo_finalized_at := Some (op_wall_clock p)\<rparr>
         else if kind = ''reopen''
         then s\<lparr>fo_status := Some ''draft'', fo_finalized_at := None\<rparr>
         else s)"

definition empty_fold :: fold_state where
  "empty_fold = \<lparr>fo_data = [], fo_unreadable = [], fo_instances = [], fo_status = None,
     fo_finalized_at = None, fo_high_water = 0\<rparr>"

definition fold_ops :: "fold_op list \<Rightarrow> fold_state" where
  "fold_ops ops = foldl fold_step empty_fold ops"

text \<open>\<open>ORDER BY counter, device_id\<close>.\<close>

definition in_log_order :: "(string \<Rightarrow> int) \<Rightarrow> fold_op list \<Rightarrow> fold_op list" where
  "in_log_order collate ops = sort_key (\<lambda>p. (op_counter p, collate (op_device p))) ops"

subsection \<open>The last writer wins\<close>

text \<open>Read from the newest operation back: the value of a path is what the last operation that touches
  the path left there.\<close>

definition touches :: "string \<Rightarrow> fold_op \<Rightarrow> bool" where
  "touches path p \<longleftrightarrow> (case op_path p of
     None \<Rightarrow> False
   | Some q \<Rightarrow> (op_kind p \<in> {''set'', ''unset''} \<and> q = path) \<or> (op_kind p = ''repeat_delete'' \<and> covers q path))"

definition written :: "fold_op \<Rightarrow> json option" where
  "written p = (if op_kind p = ''set'' \<and> op_ciphertext p = None then Some (op_value p) else None)"

definition last_touch :: "string \<Rightarrow> fold_op list \<Rightarrow> fold_op option" where
  "last_touch path ops = find (touches path) (rev ops)"

lemma map_of_forget: "map_of (forget prefix store) k = (if covers prefix k then None else map_of store k)"
  by (induction store) (auto simp: forget_def)

lemma fold_ops_snoc: "fold_ops (ops @ [p]) = fold_step (fold_ops ops) p"
  by (simp add: fold_ops_def)

lemma last_touch_snoc: "last_touch path (ops @ [p]) = (if touches path p then Some p else last_touch path ops)"
  by (simp add: last_touch_def)

lemma fold_step_data:
  "map_of (fo_data (fold_step s p)) path = (if touches path p then written p else map_of (fo_data s) path)"
  by (cases "op_path p")
    (auto simp: fold_step_def fold_set_def touches_def written_def Let_def map_of_forget update_conv' delete_conv'
      split: option.split)

lemma fold_data: "map_of (fo_data (fold_ops ops)) path = Option.bind (last_touch path ops) written"
proof (induction ops rule: rev_induct)
  case Nil
  show ?case by (simp add: fold_ops_def empty_fold_def last_touch_def)
next
  case (snoc p ops)
  then show ?case by (simp add: fold_ops_snoc fold_step_data last_touch_snoc)
qed

text \<open>A path is readable or unreadable, never both.\<close>

definition apart :: "fold_state \<Rightarrow> bool" where
  "apart s \<longleftrightarrow> (\<forall>k. map_of (fo_data s) k = None \<or> map_of (fo_unreadable s) k = None)"

lemma fold_step_apart: "apart s \<Longrightarrow> apart (fold_step s p)"
  by (cases "op_path p")
    (auto simp: apart_def fold_step_def fold_set_def Let_def map_of_forget update_conv' delete_conv' split: option.split)

lemma fold_apart: "apart (fold_ops ops)"
  by (induction ops rule: rev_induct)
    (simp add: fold_ops_def empty_fold_def apart_def, simp add: fold_ops_snoc fold_step_apart)

subsection \<open>The instances the log says exist\<close>

definition fold_ids :: "fold_state \<Rightarrow> string \<Rightarrow> string list" where
  "fold_ids s r = (case map_of (fo_instances s) r of None \<Rightarrow> [] | Some ids \<Rightarrow> ids)"

definition mentions :: "string \<Rightarrow> string \<Rightarrow> fold_op \<Rightarrow> bool" where
  "mentions r i p \<longleftrightarrow> op_kind p \<in> {''set'', ''repeat_add''} \<and> Option.bind (op_path p) instance_path = Some (r, i)"

definition removes :: "string \<Rightarrow> string \<Rightarrow> fold_op \<Rightarrow> bool" where
  "removes r i p \<longleftrightarrow> op_kind p = ''repeat_delete'' \<and> (case op_path p of
     None \<Rightarrow> False
   | Some q \<Rightarrow> (case instance_path q of None \<Rightarrow> q = r | Some ri \<Rightarrow> ri = (r, i)))"

definition last_about :: "string \<Rightarrow> string \<Rightarrow> fold_op list \<Rightarrow> fold_op option" where
  "last_about r i ops = find (\<lambda>p. mentions r i p \<or> removes r i p) (rev ops)"

lemma fold_step_other:
  assumes "op_kind p \<notin> {''set'', ''repeat_add'', ''repeat_delete''} \<or> op_path p = None"
  shows "fo_instances (fold_step s p) = fo_instances s"
  using assms by (auto simp: fold_step_def Let_def)

lemma fold_step_mentions:
  assumes "op_kind p \<in> {''set'', ''repeat_add''}" "op_path p = Some q"
  shows "fo_instances (fold_step s p) = note_instance q (fo_instances s)"
  using assms by (auto simp: fold_step_def fold_set_def Let_def split: option.split)

lemma fold_step_removes:
  assumes "op_kind p = ''repeat_delete''" "op_path p = Some q"
  shows "fo_instances (fold_step s p) = drop_instances q (fo_instances s)"
  using assms by (auto simp: fold_step_def Let_def)

lemma ids_note:
  "(case map_of (note_instance q m) r of None \<Rightarrow> [] | Some ids \<Rightarrow> ids) =
   (let ids = (case map_of m r of None \<Rightarrow> [] | Some ids \<Rightarrow> ids)
    in case instance_path q of
         Some (r', i) \<Rightarrow> if r' = r \<and> i \<notin> set ids then ids @ [i] else ids
       | None \<Rightarrow> ids)"
  by (auto simp: note_instance_def Let_def update_conv' split: option.splits)

lemma ids_drop:
  "(case map_of (drop_instances q m) r of None \<Rightarrow> [] | Some ids \<Rightarrow> ids) =
   (let ids = (case map_of m r of None \<Rightarrow> [] | Some ids \<Rightarrow> ids)
    in case instance_path q of
         Some (r', i) \<Rightarrow> if r' = r then remove1 i ids else ids
       | None \<Rightarrow> if q = r then [] else ids)"
  by (auto simp: drop_instances_def Let_def update_conv' delete_conv' split: option.splits)

lemma fold_step_ids:
  assumes "distinct (fold_ids s r)"
  shows "distinct (fold_ids (fold_step s p) r)"
    and "i \<in> set (fold_ids (fold_step s p) r) \<longleftrightarrow>
      (if mentions r i p \<or> removes r i p then mentions r i p else i \<in> set (fold_ids s r))"
proof -
  consider "op_kind p \<notin> {''set'', ''repeat_add'', ''repeat_delete''} \<or> op_path p = None"
    | q where "op_kind p \<in> {''set'', ''repeat_add''}" "op_path p = Some q"
    | q where "op_kind p = ''repeat_delete''" "op_path p = Some q" by blast
  then have "distinct (fold_ids (fold_step s p) r) \<and> (i \<in> set (fold_ids (fold_step s p) r) \<longleftrightarrow>
      (if mentions r i p \<or> removes r i p then mentions r i p else i \<in> set (fold_ids s r)))"
  proof cases
    case 1
    then show ?thesis using assms by (auto simp: fold_ids_def fold_step_other mentions_def removes_def)
  next
    case (2 q)
    then show ?thesis
      using assms unfolding fold_ids_def fold_step_mentions [OF 2] ids_note
      by (auto simp: mentions_def removes_def Let_def split: option.splits)
  next
    case (3 q)
    then show ?thesis
      using assms unfolding fold_ids_def fold_step_removes [OF 3] ids_drop
      by (auto simp: mentions_def removes_def Let_def split: option.splits)
  qed
  then show "distinct (fold_ids (fold_step s p) r)"
    and "i \<in> set (fold_ids (fold_step s p) r) \<longleftrightarrow>
      (if mentions r i p \<or> removes r i p then mentions r i p else i \<in> set (fold_ids s r))" by auto
qed

lemma fold_ids_distinct: "distinct (fold_ids (fold_ops ops) r)"
  by (induction ops rule: rev_induct)
    (simp add: fold_ids_def fold_ops_def empty_fold_def, simp add: fold_ops_snoc fold_step_ids(1))

lemma fold_ids_mem: "i \<in> set (fold_ids (fold_ops ops) r) \<longleftrightarrow> (\<exists>p. last_about r i ops = Some p \<and> mentions r i p)"
proof (induction ops rule: rev_induct)
  case Nil
  show ?case by (simp add: fold_ids_def fold_ops_def empty_fold_def last_about_def)
next
  case (snoc p ops)
  then show ?case
    by (simp add: fold_ops_snoc fold_step_ids(2) [OF fold_ids_distinct] last_about_def)
qed

subsection \<open>Properties\<close>

text \<open>C32: The fold is last-writer-wins. A path's current value is the value of the last operation that
  touches the path, when that operation is a plaintext set; when it is an encrypted set, an unset, or a
  deletion of the repeat or instance the path stands in, the path has no readable value. A path is never
  readable and unreadable at once, so an answer that was re-answered under encryption is not reported.\<close>

theorem fold_last_writer_wins:
  "map_of (fo_data (fold_ops ops)) path = Option.bind (last_touch path ops) written \<and>
   (map_of (fo_data (fold_ops ops)) path = None \<or> map_of (fo_unreadable (fold_ops ops)) path = None)"
  by (intro conjI, rule fold_data, rule spec [OF fold_apart [unfolded apart_def]])

text \<open>The log names each instance once, and an instance exists exactly when the last operation about
  it answers a field of it or adds it, rather than deleting it or its whole repeat.\<close>

theorem fold_instances_exist:
  "distinct (fold_ids (fold_ops ops) r) \<and>
   (i \<in> set (fold_ids (fold_ops ops) r) \<longleftrightarrow> (\<exists>p. last_about r i ops = Some p \<and> mentions r i p))"
  using fold_ids_distinct fold_ids_mem by blast


definition sample_op :: "string \<Rightarrow> string \<Rightarrow> json \<Rightarrow> int \<Rightarrow> string \<Rightarrow> fold_op" where
  "sample_op kind path v counter device = \<lparr>op_kind = kind, op_path = Some path, op_value = v,
     op_ciphertext = None, op_content_key = None, op_wall_clock = [], op_server_seq = 0,
     op_counter = counter, op_device = device\<rparr>"


end
