(* ===== verification/Projection.thy ===== *)
theory Projection
  imports Instance_Props Fold
begin

text \<open>
  \<open>form_engine/projection.py\<close>: what one submission contributes to an export. The form is rebuilt from
  what the operation log folds to, the relevant answers are split by repeat instance, and the answers
  that are ciphertext, or computed from ciphertext, are marked.
\<close>

definition field_of :: "string \<Rightarrow> string" where
  "field_of path = (case split_first ''].'' path of None \<Rightarrow> path | Some (_, field) \<Rightarrow> field)"

record repeat_row =
  rr_repeat :: string
  rr_instance :: string
  rr_index :: nat
  rr_cells :: dict

record export_projection =
  ep_top :: dict
  ep_repeats :: "(string \<times> repeat_row list) list"
  ep_unreadable :: "string list"
  ep_uncertain :: "string list"
  ep_unmapped :: "string list"

text \<open>\<open>d.update(pairs)\<close>, and a dictionary comprehension.\<close>

definition dict_update :: "(string \<times> 'a) list \<Rightarrow> (string \<times> 'a) list \<Rightarrow> (string \<times> 'a) list" where
  "dict_update d pairs = foldl (\<lambda>d (k, v). AList.update k v d) d pairs"

subsection \<open>What the server cannot read\<close>

definition hide_step :: "cform \<Rightarrow> string list \<Rightarrow> string \<Rightarrow> string list res" where
  "hide_step F hidden fid =
     (if fid \<in> set hidden then Inr hidden
      else case map_of (cf_fields F) fid of
        None \<Rightarrow> Inl KeyError
      | Some f \<Rightarrow>
          Inr (if is_dict (jget (f_node f) ''calculate'') \<and>
                 list_ex (\<lambda>r. r \<in> set hidden) (collect_refs (jget (f_node f) ''calculate''))
               then hidden @ [fid] else hidden))"

definition unreadable_fields :: "cform \<Rightarrow> string list \<Rightarrow> string list res" where
  "unreadable_fields F ciphers =
     foldM (hide_step F) (filter (has_key (cf_fields F)) (remdups (map field_of ciphers))) (cf_topo_order F)"

definition relevance_nodes :: "cform \<Rightarrow> compiled_field \<Rightarrow> dict list" where
  "relevance_nodes F f = f_node f # List.map_filter (map_of (cf_containers F)) (f_ancestors f)"

definition relevance_uncertain_fields :: "cform \<Rightarrow> string list \<Rightarrow> string list" where
  "relevance_uncertain_fields F hidden =
     map fst (filter (\<lambda>(i, f). list_ex (\<lambda>node. is_dict (jget node ''relevant'') \<and>
         list_ex (\<lambda>r. r \<in> set hidden) (collect_refs (jget node ''relevant''))) (relevance_nodes F f))
       (cf_fields F))"

subsection \<open>The projection\<close>

definition cells_of :: "dict \<Rightarrow> string \<Rightarrow> dict" where
  "cells_of ans prefix =
     dict_update [] (map (\<lambda>(p, v). (field_of p, v)) (filter (\<lambda>(p, v). starts_with prefix p) ans))"

definition repeat_rows :: "dict \<Rightarrow> string \<Rightarrow> string list \<Rightarrow> repeat_row list" where
  "repeat_rows ans r ids =
     map (\<lambda>(k, iid). \<lparr>rr_repeat = r, rr_instance = iid, rr_index = k,
         rr_cells = cells_of ans (inst_path r iid [])\<rparr>) (enumerate 0 ids)"

definition restored_answers :: "string list \<Rightarrow> dict \<Rightarrow> dict" where
  "restored_answers unreadable stored = dict_update (map (\<lambda>p. (p, JNull)) (remdups unreadable)) stored"

definition project_for_export :: "pylib \<Rightarrow> cform \<Rightarrow> dict \<Rightarrow> (string \<times> string list) list \<Rightarrow> string list
    \<Rightarrow> date \<Rightarrow> string \<Rightarrow> dict \<Rightarrow> dataset_source \<Rightarrow> export_projection res" where
  "project_for_export L F stored instances unreadable today now metadata datasets =
     rbind (new_instance L F today now metadata datasets) (\<lambda>S0.
     rbind (restore L F S0 instances (restored_answers unreadable stored)) (\<lambda>(unmapped, S).
     rbind (unreadable_fields F unreadable) (\<lambda>hidden.
       let ans = answers S False; uncertain = relevance_uncertain_fields F hidden
       in Inr \<lparr>ep_top = filter (\<lambda>(p, v). \<not> contains ''].'' p) ans,
               ep_repeats = map (\<lambda>(r, ids). (r, repeat_rows ans r ids)) (i_instances S),
               ep_unreadable = filter (\<lambda>p. field_of p \<in> set hidden) (map fst ans),
               ep_uncertain = filter (\<lambda>p. field_of p \<in> set uncertain) (map fst ans),
               ep_unmapped = unmapped\<rparr>)))"

subsection \<open>Where instance ids come from\<close>

text \<open>Ids are minted by the form or adopted from the log, and neither kind holds a bracket.\<close>

definition ids_from :: "(string \<Rightarrow> bool) \<Rightarrow> form_inst \<Rightarrow> bool" where
  "ids_from Q S \<longleftrightarrow> (\<forall>r. \<forall>iid \<in> set (inst_list S r). Q iid)"

lemma ids_from_frame: "inst_list S' = inst_list S \<Longrightarrow> ids_from Q S' = ids_from Q S"
  by (simp add: ids_from_def)

lemma ids_from_only: "only_cells S S' \<Longrightarrow> ids_from Q S' = ids_from Q S"
  by (intro ids_from_frame only_cellsD)

lemma create_instance_from:
  assumes "\<And>n. Q (mint n)" "create_instance F S r key = Inr (iid, S')" "ids_from Q S"
  shows "ids_from Q S'"
proof -
  let ?T = "S\<lparr>i_serial := Suc (i_serial S), i_instances := AList.update r (inst_list S r @ [iid]) (i_instances S),
    i_row_keys := AList.update (r, iid) key (i_row_keys S)\<rparr>"
  have S': "iid = mint (Suc (i_serial S))" "S' = add_cells F r iid ?T"
    using assms(2) by (auto simp: create_instance_def Let_def rbind_Inr_iff)
  have "inst_list S' = inst_list (S\<lparr>i_instances := AList.update r (inst_list S r @ [iid]) (i_instances S)\<rparr>)"
    unfolding S'(2) only_cellsD(4) [OF add_cells_only] by (simp add: inst_list_def fun_eq_iff)
  then have "inst_list S' q = (if q = r then inst_list S r @ [iid] else inst_list S q)" for q
    by (simp add: inst_list_update)
  then show ?thesis using assms(1,3) S'(1) by (auto simp: ids_from_def)
qed

definition adopts :: "(string \<Rightarrow> bool) \<Rightarrow> form_inst \<Rightarrow> form_inst \<Rightarrow> bool" where
  "adopts Q S S' \<longleftrightarrow> (ids_from Q S \<longrightarrow> ids_from Q S')"

lemma adopts_refl: "adopts Q S S"
  by (simp add: adopts_def)

lemma adopts_trans: "adopts Q S S' \<Longrightarrow> adopts Q S' S'' \<Longrightarrow> adopts Q S S''"
  by (simp add: adopts_def)

lemma adopts_foldM:
  assumes "\<And>S x S'. x \<in> set xs \<Longrightarrow> g S x = Inr S' \<Longrightarrow> adopts Q S S'" "foldM g S xs = Inr S'"
  shows "adopts Q S S'"
  by (rule foldM_rel [where R = "adopts Q", OF adopts_refl _ assms]) (rule adopts_trans)

lemma adopts_only: "only_cells S S' \<Longrightarrow> adopts Q S S'"
  by (simp add: adopts_def ids_from_only)

lemma grow_from:
  assumes "\<And>n. Q (mint n)" "grow F r S k = Inr S'"
  shows "adopts Q S S'"
proof (rule adopts_foldM [OF _ assms(2) [unfolded grow_def]])
  fix S x S' assume "rbind (create_instance F S r JNull) (\<lambda>(iid, S). Inr S) = Inr S'"
  then show "adopts Q S S'"
    using create_instance_from [where Q = Q, OF assms(1)] by (auto simp: adopts_def rbind_Inr_iff)
qed

lemma create_row_from:
  assumes "\<And>n. Q (mint n)" "create_row F r bind S item = Inr S'"
  shows "adopts Q S S'"
proof -
  obtain row where row: "item = JObj row" using assms(2) by (cases item) (auto simp: create_row_def)
  obtain key iid S1 where c: "create_instance F S r key = Inr (iid, S1)"
    and s: "foldM (seed r iid row) (case jget row ''label'' of
        JObj label \<Rightarrow> S1\<lparr>i_row_labels := AList.update (r, iid) label (i_row_labels S1)\<rparr> | _ \<Rightarrow> S1) bind = Inr S'"
    using assms(2) by (auto simp: create_row_def row rbind_Inr_iff)
  have "adopts Q S (case jget row ''label'' of
        JObj label \<Rightarrow> S1\<lparr>i_row_labels := AList.update (r, iid) label (i_row_labels S1)\<rparr> | _ \<Rightarrow> S1)"
    using create_instance_from [where Q = Q, OF assms(1) c]
    by (cases "jget row ''label''") (auto simp: adopts_def ids_from_def)
  moreover have "adopts Q (case jget row ''label'' of
        JObj label \<Rightarrow> S1\<lparr>i_row_labels := AList.update (r, iid) label (i_row_labels S1)\<rparr> | _ \<Rightarrow> S1) S'"
    by (rule adopts_foldM [OF _ s]) (blast intro: adopts_only seed_props(1))
  ultimately show ?thesis by (rule adopts_trans)
qed

lemma resolve_rows_from:
  assumes "\<And>n. Q (mint n)" "resolve_rows L F S rep = Inr S'"
  shows "adopts Q S S'"
proof -
  obtain r node where rep: "rep = (r, node)" by force
  consider "S' = S" | bind items where "foldM (create_row F r bind) (S\<lparr>i_rows_resolved := r # i_rows_resolved S\<rparr>) items = Inr S'"
  proof (cases "is_null (jget node ''rowSource'') \<or> r \<in> set (i_rows_resolved S)")
    case False
    then obtain rel where rel: "container_relevant L F S r = Inr rel"
      using assms(2) by (auto simp: resolve_rows_def rep rbind_Inr_iff)
    show ?thesis
      using that assms(2) False rel
      by (cases rel; cases "jget node ''rowSource''") (auto simp: resolve_rows_def rep rbind_Inr_iff)
  qed (use that(1) assms(2) in \<open>simp add: resolve_rows_def rep\<close>)
  then show ?thesis
  proof cases
    case (2 bind items)
    have "adopts Q S (S\<lparr>i_rows_resolved := r # i_rows_resolved S\<rparr>)" by (simp add: adopts_def ids_from_def)
    moreover have "adopts Q (S\<lparr>i_rows_resolved := r # i_rows_resolved S\<rparr>) S'"
      by (rule adopts_foldM [OF _ 2]) (rule create_row_from [where Q = Q, OF assms(1)])
    ultimately show ?thesis by (rule adopts_trans)
  qed (simp add: adopts_refl)
qed

lemma shrink_from: "adopts Q S (shrink F r S k)"
proof (induction k)
  case (Suc k)
  have "inst_list (drop_last F r T) q = (if q = r then butlast (inst_list T r) else inst_list T q)" for T q
    by (simp add: drop_last_def destroy_instance_eq inst_list_def update_conv')
  then have "adopts Q T (drop_last F r T)" for T
    using in_set_butlastD by (fastforce simp: adopts_def ids_from_def)
  moreover have "shrink F r S (Suc k) = drop_last F r (shrink F r S k)" by (simp add: shrink_def)
  ultimately show ?case using Suc adopts_trans by metis
qed (simp add: shrink_def adopts_refl)

lemma apply_count_from:
  assumes "\<And>n. Q (mint n)" "apply_count L F S rep = Inr S'"
  shows "adopts Q S S'"
proof -
  obtain r node where rep: "rep = (r, node)" by force
  consider "S' = S" | k S1 n where "grow F r S k = Inr S1" "S' = shrink F r S1 n"
    using assms(2) unfolding apply_count_def rep by (auto simp: rbind_Inr_iff split: if_splits)
  then show ?thesis
    by cases (use grow_from [where Q = Q, OF assms(1)] shrink_from adopts_trans adopts_refl in metis)+
qed

lemma recalculate_from:
  assumes "\<And>n. Q (mint n)" "recalculate L F S = Inr S'"
  shows "adopts Q S S'"
proof -
  obtain S1 S2 where f: "foldM (resolve_rows L F) S (cf_repeats F) = Inr S1"
    "foldM (apply_count L F) S1 (cf_repeats F) = Inr S2" "foldM (evaluate_everywhere L F) S2 (cf_topo_order F) = Inr S'"
    using assms(2) by (auto simp: recalculate_def rbind_Inr_iff)
  have "adopts Q S S1" by (rule adopts_foldM [OF resolve_rows_from [where Q = Q, OF assms(1)] f(1)])
  moreover have "adopts Q S1 S2" by (rule adopts_foldM [OF apply_count_from [where Q = Q, OF assms(1)] f(2)])
  moreover have "adopts Q S2 S'"
    by (rule adopts_foldM [OF _ f(3)]) (blast intro: adopts_only evaluate_everywhere_only)
  ultimately show ?thesis using adopts_trans by blast
qed

lemma new_instance_from:
  assumes "\<And>n. Q (mint n)" "new_instance L F today now metadata datasets = Inr S"
  shows "ids_from Q S"
proof -
  let ?E = "empty_instance F today now metadata datasets"
  obtain S0 where f: "foldM (min_instances F) ?E (cf_repeats F) = Inr S0" and r: "recalculate L F S0 = Inr S"
    using assms(2) by (auto simp: new_instance_def rbind_Inr_iff)
  have "inst_list ?E q = []" for q
    by (auto simp: inst_list_def empty_instance_def Let_def split_def split: option.splits dest: map_of_SomeD)
  then have "ids_from Q ?E" by (simp add: ids_from_def)
  moreover have "adopts Q ?E S0"
  proof (rule adopts_foldM [OF _ f])
    fix A x B assume "min_instances F A x = Inr B"
    then show "adopts Q A B"
      using grow_from [where Q = Q, OF assms(1)]
      by (cases x) (auto simp: min_instances_def rbind_Inr_iff adopts_refl split: if_splits)
  qed
  moreover have "adopts Q S0 S" by (rule recalculate_from [where Q = Q, OF assms(1) r])
  ultimately show ?thesis by (simp add: adopts_def)
qed

lemma restore_instance_from:
  assumes "restore_instance F q A iid = Inr B" "Q iid"
  shows "adopts Q A B"
proof (cases "iid \<in> set (inst_list A q)")
  case False
  let ?A = "A\<lparr>i_instances := AList.update q (inst_list A q @ [iid]) (i_instances A)\<rparr>"
  have "inst_list B = inst_list (add_cells F q iid ?A)"
    using assms(1) False by (auto simp: restore_instance_def Let_def rbind_Inr_iff split: option.splits)
  then have "inst_list B = inst_list ?A" using only_cellsD(4) [OF add_cells_only] by simp
  then show ?thesis using assms(2) by (auto simp: adopts_def ids_from_def inst_list_update)
qed (use assms in \<open>simp add: restore_instance_def adopts_refl\<close>)

lemma restore_from:
  assumes "\<And>n. Q (mint n)" "restore L F S instances given = Inr (unplaced, S')"
    and "\<And>r ids iid. (r, ids) \<in> set instances \<Longrightarrow> iid \<in> set ids \<Longrightarrow> Q iid"
  shows "adopts Q S S'"
proof -
  obtain acc u1 S1 where f: "foldM (restore_repeat F) ([], S) instances = Inr acc"
    and g: "foldM restore_answer acc given = Inr (u1, S1)" and r: "recalculate L F S1 = Inr S'"
    using assms(2) by (auto simp: restore_def rbind_Inr_iff)
  let ?R = "\<lambda>(a :: string list \<times> form_inst) (b :: string list \<times> form_inst). adopts Q (snd a) (snd b)"
  have "?R ([], S) acc"
  proof (rule foldM_rel [where R = ?R, OF _ _ _ f])
    fix a x b assume x: "x \<in> set instances" "restore_repeat F a x = Inr b"
    show "?R a b"
    proof (cases "has_key (cf_repeats F) (fst x)")
      case True
      then have "foldM (restore_instance F (fst x)) (snd a) (snd x) = Inr (snd b)"
        using x(2) by (auto simp: restore_repeat_def split_def rbind_Inr_iff)
      then show ?thesis
        by (rule adopts_foldM [rotated]) (rule restore_instance_from, assumption, use assms(3) x(1) in \<open>cases x; auto\<close>)
    qed (use x(2) in \<open>auto simp: restore_repeat_def split_def adopts_refl\<close>)
  qed (auto intro: adopts_refl adopts_trans)
  moreover have "?R acc (u1, S1)"
  proof (rule foldM_rel [where R = ?R, OF _ _ _ g])
    fix a x b assume "restore_answer a x = Inr b"
    then have "inst_list (snd b) = inst_list (snd a)"
      by (auto simp: restore_answer_def split_def split: sum.splits if_splits)
    then show "?R a b" by (simp add: adopts_def ids_from_def)
  qed (auto intro: adopts_refl adopts_trans)
  moreover have "adopts Q S1 S'" by (rule recalculate_from [where Q = Q, OF assms(1) r])
  ultimately show ?thesis using adopts_trans by (metis snd_conv)
qed

subsection \<open>Rows keyed by instance\<close>

abbreviation no_bracket :: "string \<Rightarrow> bool" where
  "no_bracket s \<equiv> CHR '']'' \<notin> set s"

lemma mint_no_bracket: "no_bracket (mint n)"
proof -
  have "CHR '']'' \<noteq> CHR ''i''" "\<not> is_digit CHR '']''" by code_simp+
  then show ?thesis using digits_of_props [of "int n"] by (auto simp: mint_def list_all_iff)
qed

lemma split_bracket: "no_bracket a \<Longrightarrow> split_first ''].'' (a @ ''].'' @ b) = Some (a, b)"
  by (induction a) (auto simp: starts_with_def)

lemma split_no_bracket: "no_bracket a \<Longrightarrow> split_first ''].'' a = None"
  by (induction a) (auto simp: starts_with_def)

lemma field_of_inst:
  assumes "clean r" "no_bracket iid"
  shows "field_of (inst_path r iid g) = g" "contains ''].'' (inst_path r iid g)"
  using split_bracket [of "r @ ''['' @ iid" g] assms
  by (simp_all add: field_of_def contains_def inst_path_def clean_def)

lemma field_of_clean: "clean p \<Longrightarrow> field_of p = p" "clean p \<Longrightarrow> \<not> contains ''].'' p"
  by (simp_all add: field_of_def contains_def clean_def split_no_bracket)

lemma starts_with_inst:
  assumes "clean r" "clean r'" "no_bracket iid" "no_bracket iid'"
  shows "starts_with (inst_path r iid []) (inst_path r' iid' g) \<longleftrightarrow> r = r' \<and> iid = iid'"
proof
  assume "starts_with (inst_path r iid []) (inst_path r' iid' g)"
  then have "inst_path r iid [] @ drop (length (inst_path r iid [])) (inst_path r' iid' g) = inst_path r' iid' g"
    by (metis append_take_drop_id starts_with_def)
  then obtain x where "r @ ''['' @ (iid @ ''].'' @ x) = r' @ ''['' @ (iid' @ ''].'' @ g)"
    unfolding inst_path_def append_assoc append_Nil2 by blast
  from prefix_unique [OF this] assms(1,2) have "r = r'" "iid @ ''].'' @ x = iid' @ ''].'' @ g"
    unfolding clean_def by blast+
  then show "r = r' \<and> iid = iid'" using split_bracket [of iid x] split_bracket [of iid' g] assms(3,4) by simp
qed (simp add: starts_with_def inst_path_def eval_nat_numeral)

lemma dict_update_new:
  assumes "distinct (map fst d @ map fst xs)"
  shows "dict_update d xs = d @ xs"
  using assms
proof (induction xs arbitrary: d)
  case (Cons x xs)
  have "AList.update k v al = al @ [(k, v)]" if "k \<notin> set (map fst al)" for k v and al :: "(string \<times> 'a) list"
    using that by (induction al) auto
  then show ?case using Cons.IH [of "d @ [x]"] Cons.prems by (cases x) (auto simp: dict_update_def)
qed (simp add: dict_update_def)

lemma map_of_answers:
  assumes "distinct (map fst (i_states S))"
  shows "map_of (answers S False) p = Some v \<longleftrightarrow>
    (\<exists>st. map_of (i_states S) p = Some st \<and> s_relevant st \<and> s_value st = v)"
proof -
  have "distinct (map fst (answers S False))"
    using assms by (auto simp: answers_def distinct_map inj_on_def split_def dest!: distinct_filter)
  then show ?thesis using assms by (force simp: map_of_eq_Some_iff answers_def)
qed

lemma state_cell:
  assumes "form_ok F" "inst_ok F S" "ids_from no_bracket S" "map_of (i_states S) p = Some st"
  obtains f where "(p, f) \<in> set (cf_fields F)" "f_repeat f = None" "clean p"
  | r iid g where "p = inst_path r iid g" "iid \<in> set (inst_list S r)" "g \<in> set (fields_of F r)" "clean r" "no_bracket iid"
proof -
  have "p \<in> set (map fst (i_values S))"
    using assms(2) map_of_SomeD [OF assms(4)] unfolding inst_ok_def by (metis fst_conv imageI set_map)
  then have "cell F S p" using assms(2) by (simp add: inst_ok_def)
  then show thesis
    unfolding cell_iff using that form_ok_clean [OF assms(1)] assms(3) unfolding ids_from_def by metis
qed

lemma cells_of_instance:
  assumes "form_ok F" "inst_ok F S" "ids_from no_bracket S" "iid \<in> set (inst_list S r)" "clean r"
  shows "map_of (cells_of (answers S False) (inst_path r iid [])) g = Some v \<longleftrightarrow>
    (\<exists>st. map_of (i_states S) (inst_path r iid g) = Some st \<and> s_relevant st \<and> s_value st = v)"
proof -
  let ?A = "answers S False" and ?p = "inst_path r iid []"
  have dist: "distinct (map fst (i_states S))" using assms(2) by (auto simp: inst_ok_def)
  have dA: "distinct (map fst ?A)"
    using dist by (auto simp: answers_def distinct_map inj_on_def split_def dest!: distinct_filter)
  have nb: "no_bracket iid" using assms(3,4) by (auto simp: ids_from_def)
  have at: "p = inst_path r iid (field_of p)" if "(p, w) \<in> set ?A" "starts_with ?p p" for p w
  proof -
    have "\<exists>st. map_of (i_states S) p = Some st" using that(1) dist by (auto simp: answers_def)
    then obtain st where st: "map_of (i_states S) p = Some st" ..
    show ?thesis
    proof (cases rule: state_cell [OF assms(1-3) st])
      case (1 f)
      have "CHR ''['' \<in> set ?p" by (simp add: inst_path_def)
      then have "CHR ''['' \<in> set p" using that(2) unfolding starts_with_def by (metis in_set_takeD)
      then show ?thesis using 1(3) by (simp add: clean_def)
    next
      case (2 r' i' g')
      then show ?thesis using that(2) starts_with_inst [OF assms(5) 2(4) nb 2(5)] field_of_inst(1) by simp
    qed
  qed
  let ?xs = "map (\<lambda>(p, v). (field_of p, v)) (filter (\<lambda>(p, v). starts_with ?p p) ?A)"
  have "inj_on field_of (set (map fst (filter (\<lambda>(p, v). starts_with ?p p) ?A)))"
    by (rule inj_onI) (use at in \<open>auto, metis\<close>)
  then have "distinct (map field_of (map fst (filter (\<lambda>(p, v). starts_with ?p p) ?A)))"
    using distinct_map [of field_of] distinct_map_filter [OF dA] by blast
  then have "distinct (map fst ?xs)" by (simp add: comp_def split_def)
  then have "map_of (cells_of ?A ?p) g = Some v \<longleftrightarrow> (g, v) \<in> set ?xs"
    unfolding cells_of_def by (simp add: dict_update_new map_of_eq_Some_iff)
  also have "\<dots> \<longleftrightarrow> (inst_path r iid g, v) \<in> set ?A"
    using at field_of_inst(1) [OF assms(5) nb] starts_with_inst [OF assms(5,5) nb nb]
    by (auto simp: image_iff split_def)
  also have "\<dots> \<longleftrightarrow> map_of ?A (inst_path r iid g) = Some v" using dA by (simp add: map_of_eq_Some_iff)
  finally show ?thesis unfolding map_of_answers [OF dist] .
qed

lemma top_answers:
  assumes "form_ok F" "inst_ok F S" "ids_from no_bracket S"
  shows "map_of (filter (\<lambda>(p, v). \<not> contains ''].'' p) (answers S False)) fid = Some v \<longleftrightarrow>
    (\<exists>f st. map_of (cf_fields F) fid = Some f \<and> f_repeat f = None \<and>
       map_of (i_states S) fid = Some st \<and> s_relevant st \<and> s_value st = v)"
proof -
  have dist: "distinct (map fst (i_states S))" using assms(2) by (auto simp: inst_ok_def)
  have "map_of (filter (\<lambda>(p, v). \<not> contains ''].'' p) al) fid = (if contains ''].'' fid then None else map_of al fid)" for al :: dict
    by (induction al) auto
  moreover have "(\<exists>f. map_of (cf_fields F) fid = Some f \<and> f_repeat f = None) \<longleftrightarrow> \<not> contains ''].'' fid"
    if st: "map_of (i_states S) fid = Some st" for st
  proof (cases rule: state_cell [OF assms(1-3) st])
    case (1 f)
    then show ?thesis using assms(1) field_of_clean(2) by (auto simp: form_ok_def ids_of_def)
  next
    case (2 r iid g)
    then show ?thesis
      using field_of_inst(2) form_ok_clean(2) [OF assms(1)] inst_path_not_clean map_of_SomeD by metis
  qed
  ultimately show ?thesis using map_of_answers [OF dist] by auto
qed

lemma in_update: "(k, v) \<in> set (AList.update r x al) \<Longrightarrow> (k, v) = (r, x) \<or> (k, v) \<in> set al"
  by (induction al) (auto split: if_splits)

lemma instance_path_no_bracket: "instance_path p = Some (r, i) \<Longrightarrow> no_bracket i"
proof -
  have "CHR '']'' \<notin> set a" if "split_first '']'' s = Some (a, b)" for s a b
    using that by (induction s arbitrary: a) (auto simp: starts_with_def split: if_splits)
  then show "instance_path p = Some (r, i) \<Longrightarrow> no_bracket i"
    by (auto simp: instance_path_def split: option.splits if_splits)
qed

lemma fold_ids_no_bracket:
  "(r, ids) \<in> set (fo_instances (fold_ops ops)) \<Longrightarrow> iid \<in> set ids \<Longrightarrow> no_bracket iid"
proof (induction ops arbitrary: r ids iid rule: rev_induct)
  case (snoc p ops)
  let ?s = "fold_ops ops"
  define old where "old q = (case map_of (fo_instances ?s) q of None \<Rightarrow> [] | Some ids \<Rightarrow> ids)" for q
  have old: "no_bracket i" if "i \<in> set (old q)" for i q
    using that snoc.IH [OF map_of_SomeD] by (cases "map_of (fo_instances ?s) q") (auto simp: old_def)
  have note_ok: "no_bracket iid" if "(r, ids) \<in> set (note_instance q (fo_instances ?s))" for q
  proof (cases "instance_path q")
    case (Some x)
    then obtain a b where ab: "instance_path q = Some (a, b)" by (cases x) simp
    then have "(r, ids) \<in> set (AList.update a (if b \<in> set (old a) then old a else old a @ [b]) (fo_instances ?s))"
      using that unfolding note_instance_def old_def by (simp only: option.case prod.case Let_def)
    from in_update [OF this] show ?thesis
      using snoc.prems(2) snoc.IH old [of _ a] instance_path_no_bracket [OF ab] by (auto split: if_splits)
  qed (use that snoc in \<open>simp add: note_instance_def\<close>)
  have drop_ok: "no_bracket iid" if q: "(r, ids) \<in> set (drop_instances q (fo_instances ?s))" for q
  proof (cases "instance_path q")
    case None
    then show ?thesis using q snoc.prems(2) snoc.IH by (auto simp: drop_instances_def AList.delete_eq)
  next
    case (Some x)
    then obtain a b where ab: "instance_path q = Some (a, b)" by (cases x) simp
    show ?thesis
    proof (cases "map_of (fo_instances ?s) a")
      case None
      then show ?thesis using q snoc.prems(2) snoc.IH ab by (simp add: drop_instances_def)
    next
      case (Some ys)
      then have "(r, ids) \<in> set (AList.update a (remove1 b ys) (fo_instances ?s))" using q ab by (simp add: drop_instances_def)
      from in_update [OF this] show ?thesis
        using snoc.prems(2) snoc.IH snoc.IH [OF map_of_SomeD [OF Some]] set_remove1_subset [of b ys] by blast
    qed
  qed
  show ?case
    using snoc.prems(1) note_ok drop_ok snoc.IH [OF _ snoc.prems(2)] unfolding fold_ops_snoc
    by (auto simp: fold_step_def fold_set_def Let_def split: if_splits option.splits)
qed (simp add: fold_ops_def empty_fold_def)


definition roster_log :: "fold_op list" where
  "roster_log = [\<lparr>op_kind = ''set'', op_path = Some ''m[i1].age'', op_value = JInt 4, op_ciphertext = None,
     op_content_key = None, op_wall_clock = [], op_server_seq = 1, op_counter = 1, op_device = ''d''\<rparr>]"

definition roster_export :: "export_projection res" where
  "roster_export = project_for_export sample_lib roster_form (fo_data (fold_ops roster_log))
     (fo_instances (fold_ops roster_log)) (map fst (fo_unreadable (fold_ops roster_log)))
     (mk_date 2024 1 1) [] [] (memory_rows sample_lib [])"


end
