(* ===== verification/Projection_Laws.thy ===== *)
theory Projection_Laws
  imports Projection
begin

text \<open>
  The fields an export marks unreadable are the least set that holds the ciphertext fields and is closed
  under computing, and what rebuilding a form does to the instances of the log.
\<close>

subsection \<open>Everything computed from ciphertext is marked\<close>

inductive tainted :: "cform \<Rightarrow> string list \<Rightarrow> string \<Rightarrow> bool" for F :: cform and ciphers :: "string list" where
  cipher: "p \<in> set ciphers \<Longrightarrow> has_key (cf_fields F) (field_of p) \<Longrightarrow> tainted F ciphers (field_of p)"
| computed: "map_of (cf_fields F) fid = Some f \<Longrightarrow> is_dict (jget (f_node f) ''calculate'') \<Longrightarrow>
    r \<in> set (collect_refs (jget (f_node f) ''calculate'')) \<Longrightarrow> tainted F ciphers r \<Longrightarrow> tainted F ciphers fid"

lemma tainted_field: "tainted F ciphers fid \<Longrightarrow> has_key (cf_fields F) fid"
  by (induction rule: tainted.induct) simp_all

lemma hide_step_cases:
  assumes "hide_step F h fid = Inr h'"
  obtains "h' = h"
  | f r where "h' = h @ [fid]" "map_of (cf_fields F) fid = Some f" "is_dict (jget (f_node f) ''calculate'')"
      "r \<in> set (collect_refs (jget (f_node f) ''calculate''))" "r \<in> set h"
  using assms by (auto simp: hide_step_def list_ex_iff split: if_splits option.splits)

lemma hide_known:
  assumes "set xs \<subseteq> set (map fst (cf_fields F))"
  shows "\<exists>h'. foldM (hide_step F) h xs = Inr h'"
  using assms
proof (induction xs arbitrary: h)
  case (Cons x xs)
  then obtain f where "map_of (cf_fields F) x = Some f" by (cases "map_of (cf_fields F) x") (auto simp: map_of_eq_None_iff)
  then have "\<exists>h1. hide_step F h x = Inr h1" by (simp add: hide_step_def)
  then obtain h1 where "hide_step F h x = Inr h1" ..
  then show ?case using Cons by simp
qed simp

lemma hide_bounds:
  assumes "foldM (hide_step F) h xs = Inr h'"
  shows "set h \<subseteq> set h' \<and> set h' \<subseteq> set h \<union> set xs"
  using assms
proof (induction xs arbitrary: h)
  case (Cons x xs)
  then obtain h1 where h1: "hide_step F h x = Inr h1" "foldM (hide_step F) h1 xs = Inr h'" by (auto simp: rbind_Inr_iff)
  then have "set h \<subseteq> set h1 \<and> set h1 \<subseteq> insert x (set h)" by (cases rule: hide_step_cases [OF h1(1)]) auto
  with Cons.IH [OF h1(2)] show ?case by auto
qed simp

lemma hide_sound:
  assumes "foldM (hide_step F) h xs = Inr h'" "\<forall>r \<in> set h. tainted F ciphers r"
  shows "\<forall>r \<in> set h'. tainted F ciphers r"
proof (rule foldM_invariant [where I = "\<lambda>h. \<forall>r \<in> set h. tainted F ciphers r", OF _ assms(2,1)])
  fix h x h' assume h: "\<forall>r \<in> set h. tainted F ciphers r" "hide_step F h x = Inr h'"
  show "\<forall>r \<in> set h'. tainted F ciphers r"
    by (cases rule: hide_step_cases [OF h(2)]) (use h(1) in \<open>auto intro: tainted.computed\<close>)
qed

lemma calculate_edge:
  assumes "compile_form L ir = Inr F" "map_of (cf_fields F) fid = Some f"
    and "r \<in> set (collect_refs (jget (f_node f) ''calculate''))" "has_key (cf_fields F) r" "r \<noteq> fid"
  shows "r \<in> set (edges (cf_fields F) fid)"
proof -
  obtain g where "(r, g) \<in> set (cf_fields F)" using assms(4) map_of_SomeD by fast
  then have "id_pattern r"
    using compile_form_ok [OF assms(1)] unfolding form_ok_def list_all_iff field_ok_def by fastforce
  moreover have "r \<in> set (f_depends_on f)"
    using deps_ok_D(2) [OF compile_form_deps [OF assms(1)] map_of_SomeD [OF assms(2)]] assms(3)
    by (auto simp: field_exprs_def)
  ultimately show ?thesis
    using assms(2,4,5) base_of_id [of r] by (force simp: edges_def edges_into_def)
qed

lemma hide_complete:
  assumes form: "compile_form L ir = Inr F" and h: "unreadable_fields F ciphers = Inr h"
    and "tainted F ciphers fid"
  shows "fid \<in> set h"
  using assms(3)
proof (induction rule: tainted.induct)
  case (cipher p)
  then show ?case using hide_bounds [OF h [unfolded unreadable_fields_def]] by auto
next
  case (computed fid f r)
  note topo = topo_sound [OF form]
  show ?case
  proof (cases "r = fid")
    case False
    have key: "has_key (cf_fields F) r" by (rule tainted_field [OF computed.hyps(4)])
    have "fid \<in> set (cf_topo_order F)" using topo(2) map_of_SomeD [OF computed.hyps(1)] by force
    then obtain i where i: "i < length (cf_topo_order F)" "cf_topo_order F ! i = fid" by (auto simp: in_set_conv_nth)
    obtain ys zs where split: "cf_topo_order F = ys @ fid # zs" "ys = take i (cf_topo_order F)"
      using id_take_nth_drop [OF i(1)] i(2) by metis
    have "r \<in> set ys" using topo(3) i calculate_edge [OF form computed.hyps(1,3) key False] split(2) by blast
    moreover have "distinct (ys @ fid # zs)" using topo(1) split(1) by simp
    ultimately have later: "r \<notin> set (fid # zs)" by auto
    obtain h1 h2 where s: "hide_step F h1 fid = Inr h2" "foldM (hide_step F) h2 zs = Inr h"
      using h unfolding unreadable_fields_def split(1) by (auto simp: foldM_append rbind_Inr_iff)
    have "foldM (hide_step F) h1 (fid # zs) = Inr h" using s by simp
    from hide_bounds [OF this] computed.IH later have "r \<in> set h1" by blast
    then have "fid \<in> set h2"
      using s(1) computed.hyps(1-3) by (auto simp: hide_step_def list_ex_iff split: if_splits)
    then show ?thesis using hide_bounds [OF s(2)] by blast
  qed (use computed.IH in simp)
qed

text \<open>C37: No number computed from ciphertext is exported as a number. For a compiled form the marking never
  fails, and it marks exactly the fields that are ciphertext or are calculated, through any number of
  steps, from one that is: one pass in evaluation order reaches the whole closure.\<close>

theorem unreadable_closure:
  assumes "compile_form L ir = Inr F"
  shows "\<exists>hidden. unreadable_fields F ciphers = Inr hidden \<and> set hidden = {fid. tainted F ciphers fid}"
proof -
  obtain h where h: "unreadable_fields F ciphers = Inr h"
    using hide_known topo_sound(2) [OF assms] unfolding unreadable_fields_def by (metis order_refl)
  have "\<forall>r \<in> set h. tainted F ciphers r"
    by (rule hide_sound [OF h [unfolded unreadable_fields_def]]) (auto intro: tainted.cipher)
  then show ?thesis using h hide_complete [OF assms h] by blast
qed

theorem unreadable_closure_witness:
  "\<exists>hidden. unreadable_fields household_form [''age''] = Inr hidden \<and> set hidden = {fid. tainted household_form [''age''] fid}"
  by (rule unreadable_closure [OF household_compiles])

subsection \<open>What rebuilding a submission loses and adds\<close>

definition log_op :: "string \<Rightarrow> string \<Rightarrow> json \<Rightarrow> string option \<Rightarrow> fold_op" where
  "log_op kind path v cipher = \<lparr>op_kind = kind, op_path = Some path, op_value = v, op_ciphertext = cipher,
     op_content_key = cipher, op_wall_clock = [], op_server_seq = 0, op_counter = 0, op_device = []\<rparr>"

definition export_of :: "json \<Rightarrow> fold_op list \<Rightarrow> export_projection res" where
  "export_of ir ops = rbind (compile_form sample_lib ir) (\<lambda>F.
     let folded = fold_ops ops
     in project_for_export sample_lib F (fo_data folded) (fo_instances folded) (map fst (fo_unreadable folded))
          (mk_date 2024 1 1) [] [] (memory_rows sample_lib []))"

definition counted_ir :: json where
  "counted_ir = JObj [(''irVersion'', JStr ''0.1''), (''formId'', JStr ''k''), (''version'', JInt 1),
     (''children'', JList [question ''n'' ''integer'' [],
        JObj [(''type'', JStr ''repeat''), (''id'', JStr ''m''),
          (''countExpr'', JObj [(''op'', JStr ''ref''), (''path'', JStr ''n'')]),
          (''children'', JList [question ''c'' ''text'' []])]])]"

text \<open>The size of a roster answered under encryption: the count is null to the server, so every row the log
  holds is destroyed when the form is rebuilt, and nothing in the projection says so.\<close>

lemma encrypted_count_drops_rows:
  "case export_of counted_ir [log_op ''set'' ''n'' JNull (Some ''key''), log_op ''set'' ''m[i1].c'' (JStr ''x'') None] of
     Inl _ \<Rightarrow> False
   | Inr E \<Rightarrow> ep_repeats E = [(''m'', [])] \<and> ep_unreadable E = [''n''] \<and> ep_uncertain E = [] \<and> ep_unmapped E = []"
  by code_simp

definition seeded_ir :: json where
  "seeded_ir = JObj [(''irVersion'', JStr ''0.1''), (''formId'', JStr ''s''), (''version'', JInt 1),
     (''children'', JList [JObj [(''type'', JStr ''repeat''), (''id'', JStr ''m''), (''minInstances'', JInt 1),
          (''children'', JList [question ''c'' ''text'' []])]])]"

text \<open>An instance the form was opened with and that was deleted on the device is back in the export, as a
  row of blanks: the rebuilt form opens with it again, and restoring only adds.\<close>

lemma deleted_first_instance_returns:
  "case export_of seeded_ir [log_op ''repeat_add'' ''m[i2]'' JNull None, log_op ''set'' ''m[i2].c'' (JStr ''x'') None,
       log_op ''repeat_delete'' ''m[i1]'' JNull None] of
     Inl _ \<Rightarrow> False
   | Inr E \<Rightarrow> map_option (map rr_instance) (map_of (ep_repeats E) ''m'') = Some [''i1'', ''i2'']"
  by code_simp

end
