(* ===== verification/Sync_Schema.thy ===== *)
theory Sync_Schema
  imports Fold
begin

text \<open>
  \<open>sync/schemas.py\<close>: one operation as it travels on the wire. Reading the fields out of the raw JSON is
  the validation library's work and a parameter of the model (\<open>parse\<close>); the bounds, the hexadecimal
  fields and the rules that tie fields together are the schema's own and are modelled here. Bytes are
  \<open>string\<close>, one character per byte.
\<close>

subsection \<open>Hexadecimal\<close>

definition hex_value :: "char \<Rightarrow> nat option" where
  "hex_value c = (let n = (of_char c :: nat) in
     if 48 \<le> n \<and> n \<le> 57 then Some (n - 48)
     else if 97 \<le> n \<and> n \<le> 102 then Some (n - 87)
     else if 65 \<le> n \<and> n \<le> 70 then Some (n - 55) else None)"

definition ascii_space :: "char \<Rightarrow> bool" where
  "ascii_space c \<longleftrightarrow> (let n = (of_char c :: nat) in n = 32 \<or> (9 \<le> n \<and> n \<le> 13))"

text \<open>\<open>bytes.fromhex\<close>: pairs of digits, with white space allowed between the pairs.\<close>

fun fromhex :: "string \<Rightarrow> string option" where
  "fromhex [] = Some []"
| "fromhex [c] = (if ascii_space c then Some [] else None)"
| "fromhex (c # d # s) =
     (if ascii_space c then fromhex (d # s)
      else case (hex_value c, hex_value d) of
        (Some a, Some b) \<Rightarrow> map_option (Cons (char_of (16 * a + b))) (fromhex s)
      | _ \<Rightarrow> None)"

definition hex_digit :: "nat \<Rightarrow> char" where
  "hex_digit n = char_of (if n < 10 then 48 + n else 87 + n)"

text \<open>\<open>bytes.hex\<close>.\<close>

definition tohex :: "string \<Rightarrow> string" where
  "tohex bs = concat (map (\<lambda>c. let n = (of_char c :: nat) in [hex_digit (n div 16), hex_digit (n mod 16)]) bs)"

definition NONCE_BYTES :: nat where "NONCE_BYTES = 12"

definition hex_field :: "nat option \<Rightarrow> string option \<Rightarrow> bool" where
  "hex_field expect_bytes v = (case v of
     None \<Rightarrow> True
   | Some s \<Rightarrow>
       (case fromhex s of
          None \<Rightarrow> False
        | Some raw \<Rightarrow> (case expect_bytes of None \<Rightarrow> True | Some n \<Rightarrow> length raw = n) \<and> raw \<noteq> []))"

subsection \<open>Operations\<close>

definition OP_KINDS :: "string list" where
  "OP_KINDS = [''set'', ''unset'', ''repeat_add'', ''repeat_delete'', ''finalize'', ''reopen'']"

definition PATH_KINDS :: "string list" where
  "PATH_KINDS = [''set'', ''unset'', ''repeat_add'', ''repeat_delete'']"

record sync_op =
  so_id :: string
  so_submission :: string
  so_form :: string
  so_version :: int
  so_kind :: string
  so_path :: "string option"
  so_value :: json
  so_ciphertext :: "string option"
  so_content_key :: "string option"
  so_nonce :: "string option"
  so_device :: string
  so_actor :: "string option"
  so_case :: "string option"
  so_counter :: int
  so_wall_clock :: string

definition bounded :: "nat \<Rightarrow> nat \<Rightarrow> string \<Rightarrow> bool" where
  "bounded low high s \<longleftrightarrow> low \<le> length s \<and> length s \<le> high"

definition path_present :: "sync_op \<Rightarrow> bool" where
  "path_present p \<longleftrightarrow> (so_kind p \<in> set PATH_KINDS \<longrightarrow> (case so_path p of None \<Rightarrow> False | Some path \<Rightarrow> path \<noteq> []))"

definition encryption_together :: "sync_op \<Rightarrow> bool" where
  "encryption_together p \<longleftrightarrow>
     (let given = [so_ciphertext p \<noteq> None, so_content_key p \<noteq> None, so_nonce p \<noteq> None]
      in (list_ex id given \<longrightarrow> list_all id given) \<and> \<not> (so_ciphertext p \<noteq> None \<and> so_value p \<noteq> JNull))"

definition valid_op :: "sync_op \<Rightarrow> bool" where
  "valid_op p \<longleftrightarrow>
     bounded 1 64 (so_id p) \<and> bounded 1 64 (so_submission p) \<and> so_form p \<noteq> [] \<and> 1 \<le> so_version p \<and>
     so_kind p \<in> set OP_KINDS \<and> hex_field None (so_ciphertext p) \<and>
     (case so_content_key p of None \<Rightarrow> True | Some k \<Rightarrow> length k \<le> 64) \<and>
     hex_field (Some NONCE_BYTES) (so_nonce p) \<and> so_device p \<noteq> [] \<and>
     (case so_case p of None \<Rightarrow> True | Some c \<Rightarrow> length c \<le> 64) \<and> 0 \<le> so_counter p \<and>
     path_present p \<and> encryption_together p"

definition model_validate :: "(dict \<Rightarrow> sync_op option) \<Rightarrow> dict \<Rightarrow> sync_op option" where
  "model_validate parse raw = (case parse raw of None \<Rightarrow> None | Some p \<Rightarrow> if valid_op p then Some p else None)"

definition is_encrypted :: "sync_op \<Rightarrow> bool" where
  "is_encrypted p \<longleftrightarrow> so_ciphertext p \<noteq> None"

text \<open>\<open>bytes.fromhex\<close> of a field that passed validation.\<close>

definition op_bytes :: "string option \<Rightarrow> string option" where
  "op_bytes v = (case v of None \<Rightarrow> None | Some s \<Rightarrow> fromhex s)"

subsection \<open>Content keys\<close>

record wrapped_key =
  wk_project_key :: string
  wk_ephemeral :: string
  wk_nonce :: string
  wk_key :: string

record content_key_in =
  ck_id :: string
  ck_submission :: string
  ck_device :: string
  ck_wraps :: "wrapped_key list"

subsection \<open>Encoding\<close>

lemma hex_digit_value: "n < 16 \<Longrightarrow> hex_value (hex_digit n) = Some n"
  by (simp add: hex_value_def hex_digit_def)

lemma hex_digit_no_space: "n < 16 \<Longrightarrow> \<not> ascii_space (hex_digit n)"
  by (simp add: ascii_space_def hex_digit_def)

text \<open>Ciphertext is relayed byte for byte: what the server writes out in hexadecimal for a pull reads
  back as the bytes that were stored, for every sequence of bytes.\<close>

lemma fromhex_tohex: "fromhex (tohex bs) = Some bs"
proof (induction bs)
  case (Cons c bs)
  let ?n = "of_char c :: nat"
  have "?n < 256" by simp
  then have n: "?n div 16 < 16" "?n mod 16 < 16" by (simp_all add: less_mult_imp_div_less)
  have "tohex (c # bs) = hex_digit (?n div 16) # hex_digit (?n mod 16) # tohex bs"
    by (simp add: tohex_def Let_def)
  moreover have "char_of (16 * (?n div 16) + ?n mod 16) = c" by simp
  ultimately show ?case using Cons hex_digit_value [OF n(1)] hex_digit_value [OF n(2)] hex_digit_no_space [OF n(1)] by simp
qed (simp add: tohex_def)

text \<open>The schema documents lowercase hexadecimal. Capitals and spaces pass it.\<close>

lemma hex_field_accepts_capitals_and_spaces: "hex_field (Some 2) (Some ''AB cd'')"
  by code_simp

lemma valid_encrypted:
  assumes "valid_op p" "is_encrypted p"
  obtains c k n where "so_ciphertext p = Some c" "so_content_key p = Some k" "so_nonce p = Some n"
    "fromhex c \<noteq> None" "fromhex n \<noteq> None" "so_value p = JNull"
proof -
  obtain c where c: "so_ciphertext p = Some c" using assms(2) by (auto simp: is_encrypted_def)
  have t: "encryption_together p" "hex_field None (so_ciphertext p)" "hex_field (Some NONCE_BYTES) (so_nonce p)"
    using assms(1) unfolding valid_op_def by blast+
  then obtain k n where kn: "so_content_key p = Some k" "so_nonce p = Some n" "so_value p = JNull"
    using c by (auto simp: encryption_together_def Let_def)
  have "fromhex c \<noteq> None" "fromhex n \<noteq> None"
    using t(2,3) c kn(2) unfolding hex_field_def by (auto split: option.splits)
  with c kn show thesis using that by blast
qed

end
