(* ===== verification/Quality.thy ===== *)
theory Quality
  imports Projection
begin

text \<open>
  \<open>quality/service.py\<close>: a project's quality rules run over a submission when its operations arrive. A
  rule is an expression; it raises a flag when it is false, and a rule that could not be run raises one
  that says so. The tables \<open>quality_rule\<close> and \<open>quality_flag\<close> are lists; fresh identifiers come from
  \<open>new_ulid\<close>, a parameter.
\<close>

definition VIOLATION :: string where "VIOLATION = ''violation''"
definition NOT_EVALUATED :: string where "NOT_EVALUATED = ''not_evaluated''"

record quality_rule =
  ru_id :: string
  ru_name :: string
  ru_definition :: dict
  ru_severity :: string
  ru_path :: "string option"

text \<open>The \<open>detail\<close> of an outcome, with its \<open>reason\<close> as the constructor.\<close>

datatype verdict = UnknownPath "string list" | Encrypted "string list" | Invalid py_error | Failed

record rule_outcome =
  oc_rule :: quality_rule
  oc_outcome :: string
  oc_detail :: verdict

subsection \<open>What a rule reads\<close>

function refs :: "json \<Rightarrow> string list" where
  "refs (JObj kvs) =
     (case (jget kvs ''op'', jget kvs ''path'') of
        (JStr p, JStr path) \<Rightarrow> if p = ''ref'' then [path] else [] | _ \<Rightarrow> []) @
     concat (map (\<lambda>kv. refs (snd kv)) kvs)"
| "refs (JList xs) = concat (map refs xs)"
| "refs JNull = []"
| "refs (JBool b) = []"
| "refs (JInt i) = []"
| "refs (JFloat x) = []"
| "refs (JStr s) = []"
  by pat_completeness auto
termination
  by (relation "measure depth") (auto intro: depth_JObj_elem depth_JList_elem simp del: depth.simps)

declare refs.simps(1) [simp del]

definition paths_read :: "dict \<Rightarrow> string list" where
  "paths_read definition = remdups (refs (JObj definition))"

subsection \<open>Running the rules\<close>

definition rule_context :: "dict \<Rightarrow> date \<Rightarrow> string \<Rightarrow> eval_ctx" where
  "rule_context resolved today now = \<lparr>c_values = resolved, c_today = today, c_now = now, c_row = None,
     c_metadata = None, c_scope = None, c_instances = None, c_datasets = None\<rparr>"

definition run_rule :: "pylib \<Rightarrow> dict \<Rightarrow> string list \<Rightarrow> date \<Rightarrow> string \<Rightarrow> quality_rule \<Rightarrow> rule_outcome list res" where
  "run_rule L resolved unreadable today now rule =
     (let reads = paths_read (ru_definition rule);
          unknown = str_sort (filter (\<lambda>p. p \<notin> set (map fst resolved) \<and> p \<notin> set unreadable) reads);
          blind = str_sort (filter (\<lambda>p. p \<in> set unreadable) reads)
      in if unknown \<noteq> [] then Inr [\<lparr>oc_rule = rule, oc_outcome = NOT_EVALUATED, oc_detail = UnknownPath unknown\<rparr>]
         else if blind \<noteq> [] then Inr [\<lparr>oc_rule = rule, oc_outcome = NOT_EVALUATED, oc_detail = Encrypted blind\<rparr>]
         else case evaluate L (rule_context resolved today now) (JObj (ru_definition rule)) of
           Inl e \<Rightarrow>
             (case e of
                EvaluationError m \<Rightarrow> Inr [\<lparr>oc_rule = rule, oc_outcome = NOT_EVALUATED, oc_detail = Invalid e\<rparr>]
              | CompileError m \<Rightarrow> Inr [\<lparr>oc_rule = rule, oc_outcome = NOT_EVALUATED, oc_detail = Invalid e\<rparr>]
              | _ \<Rightarrow> Inl e)
         | Inr held \<Rightarrow>
             Inr (if held = JNull \<or> held = JBool True then []
                  else [\<lparr>oc_rule = rule, oc_outcome = VIOLATION, oc_detail = Failed\<rparr>]))"

definition resolved_values :: "string list \<Rightarrow> dict \<Rightarrow> dict" where
  "resolved_values known_paths given = dict_update (map (\<lambda>p. (p, JNull)) (remdups known_paths)) given"

definition evaluate_rules :: "pylib \<Rightarrow> quality_rule list \<Rightarrow> dict \<Rightarrow> string list \<Rightarrow> string list \<Rightarrow> date \<Rightarrow> string
    \<Rightarrow> rule_outcome list res" where
  "evaluate_rules L rules given unreadable known_paths today now =
     rbind (mapM (run_rule L (resolved_values known_paths given) unreadable today now) rules) (\<lambda>parts. Inr (concat parts))"

subsection \<open>The flags of a submission\<close>

record quality_flag =
  fl_id :: string
  fl_submission :: string
  fl_rule :: string
  fl_path :: "string option"
  fl_name :: string
  fl_severity :: string
  fl_outcome :: string
  fl_definition :: dict
  fl_detail :: verdict
  fl_resolved :: bool

definition resolve_open :: "string \<Rightarrow> quality_flag list \<Rightarrow> quality_flag list" where
  "resolve_open submission flags =
     map (\<lambda>f. if fl_submission f = submission \<and> \<not> fl_resolved f then f\<lparr>fl_resolved := True\<rparr> else f) flags"

definition flag_of :: "(nat \<Rightarrow> string) \<Rightarrow> string \<Rightarrow> nat \<times> rule_outcome \<Rightarrow> quality_flag" where
  "flag_of ulid submission x = (case x of (k, oc) \<Rightarrow>
     \<lparr>fl_id = ulid k, fl_submission = submission, fl_rule = ru_id (oc_rule oc), fl_path = ru_path (oc_rule oc), fl_name = ru_name (oc_rule oc),
      fl_severity = ru_severity (oc_rule oc), fl_outcome = oc_outcome oc,
      fl_definition = ru_definition (oc_rule oc), fl_detail = oc_detail oc, fl_resolved = False\<rparr>)"

definition record_outcomes :: "(nat \<Rightarrow> string) \<Rightarrow> string \<Rightarrow> quality_flag list \<Rightarrow> rule_outcome list \<Rightarrow> quality_flag list" where
  "record_outcomes ulid submission flags outcomes =
     resolve_open submission flags @ map (flag_of ulid submission) (enumerate 0 outcomes)"

function question_ids :: "json \<Rightarrow> string list" where
  "question_ids nodes = (case nodes of
     JList xs \<Rightarrow> concat (map (\<lambda>node. case node of
        JObj kvs \<Rightarrow>
          (case (jget kvs ''type'', jget kvs ''id'') of
             (JStr t, JStr i) \<Rightarrow> if t = ''question'' then [i] else [] | _ \<Rightarrow> []) @
          question_ids (jget kvs ''children'')
      | _ \<Rightarrow> []) xs)
   | _ \<Rightarrow> [])"
  by pat_completeness auto
termination
proof (relation "measure depth", goal_cases)
  case (2 nodes xs node kvs)
  have "depth (jget kvs ''children'') < depth (JObj kvs)" by (rule depth_jget)
  also have "\<dots> < depth nodes" using 2 by (auto simp del: depth.simps intro: depth_JList_elem)
  finally show ?case by simp
qed simp

declare question_ids.simps [simp del]

definition declared_paths :: "json \<Rightarrow> string list" where
  "declared_paths ir = (case ir of JObj kvs \<Rightarrow> question_ids (jget kvs ''children'') | _ \<Rightarrow> [])"

text \<open>\<open>rules_for\<close> selects the enabled rules of the submission's project and form, in name order; the
  selection and the form's document are what the queries return.\<close>

definition evaluate_and_record :: "pylib \<Rightarrow> (nat \<Rightarrow> string) \<Rightarrow> quality_rule list \<Rightarrow> json \<Rightarrow> date \<Rightarrow> string
    \<Rightarrow> string \<Rightarrow> dict \<Rightarrow> string list \<Rightarrow> quality_flag list \<Rightarrow> (rule_outcome list \<times> quality_flag list) res" where
  "evaluate_and_record L ulid rules ir today now submission given unreadable flags =
     (if rules = [] then Inr ([], flags)
      else rbind (evaluate_rules L rules given unreadable (declared_paths ir) today now) (\<lambda>outcomes.
        Inr (outcomes, record_outcomes ulid submission flags outcomes)))"

subsection \<open>What the verdicts say\<close>

text \<open>Whether the server knows what a rule reads.\<close>

definition checkable :: "dict \<Rightarrow> string list \<Rightarrow> string list \<Rightarrow> quality_rule \<Rightarrow> bool" where
  "checkable given unreadable known rule \<longleftrightarrow>
     set (refs (JObj (ru_definition rule))) \<subseteq> (set known \<union> set (map fst given)) - set unreadable"

definition verdict_of :: "pylib \<Rightarrow> dict \<Rightarrow> string list \<Rightarrow> date \<Rightarrow> string \<Rightarrow> quality_rule \<Rightarrow> json res" where
  "verdict_of L given known today now rule =
     evaluate L (rule_context (resolved_values known given) today now) (JObj (ru_definition rule))"

lemma resolved_keys: "set (map fst (resolved_values known given)) = set known \<union> set (map fst given)"
proof -
  have upd: "fst ` set (AList.update k v al) = insert k (fst ` set al)" for k v and al :: dict
    unfolding set_map [symmetric] update_keys by auto
  have "set (map fst (dict_update d xs)) = set (map fst d) \<union> set (map fst xs)" for d xs :: dict
  proof (induction xs arbitrary: d)
    case (Cons x xs)
    then show ?case by (cases x) (simp add: dict_update_def upd)
  qed (simp add: dict_update_def)
  then show ?thesis by (simp add: resolved_values_def image_image)
qed

lemma str_sort_Nil: "str_sort xs = [] \<longleftrightarrow> xs = []"
  by (metis set_str_sort set_empty)

lemma run_rule_Inr:
  assumes "run_rule L (resolved_values known given) unreadable today now rule = Inr ocs"
  shows "ocs = [] \<longleftrightarrow> checkable given unreadable known rule \<and>
      verdict_of L given known today now rule \<in> {Inr JNull, Inr (JBool True)}"
    and "length ocs \<le> 1" "\<forall>oc \<in> set ocs. oc_rule oc = rule \<and> (oc_outcome oc = VIOLATION \<longleftrightarrow>
      checkable given unreadable known rule \<and> (\<exists>v. verdict_of L given known today now rule = Inr v))"
proof -
  let ?reads = "paths_read (ru_definition rule)" and ?R = "resolved_values known given"
  have c: "checkable given unreadable known rule \<longleftrightarrow>
      str_sort (filter (\<lambda>p. p \<notin> set (map fst ?R) \<and> p \<notin> set unreadable) ?reads) = [] \<and>
      str_sort (filter (\<lambda>p. p \<in> set unreadable) ?reads) = []"
    unfolding checkable_def str_sort_Nil filter_empty_conv resolved_keys paths_read_def set_remdups by blast
  have ne: "NOT_EVALUATED \<noteq> VIOLATION" by code_simp
  show "ocs = [] \<longleftrightarrow> checkable given unreadable known rule \<and>
      verdict_of L given known today now rule \<in> {Inr JNull, Inr (JBool True)}"
    "length ocs \<le> 1" "\<forall>oc \<in> set ocs. oc_rule oc = rule \<and> (oc_outcome oc = VIOLATION \<longleftrightarrow>
      checkable given unreadable known rule \<and> (\<exists>v. verdict_of L given known today now rule = Inr v))"
    using assms ne unfolding run_rule_def verdict_of_def c Let_def
    by (auto split: if_splits sum.splits py_error.splits)
qed


definition age_rule :: quality_rule where
  "age_rule = \<lparr>ru_id = ''r1'', ru_name = ''age'',
     ru_definition = [(''op'', JStr ''gte''), (''args'', JList [e_ref ''age'', e_lit (JInt 0)])], ru_severity = ''error'', ru_path = None\<rparr>"



definition old_flag :: quality_flag where
  "old_flag = \<lparr>fl_id = ''f'', fl_submission = ''s'', fl_rule = ''r0'', fl_path = None, fl_name = ''n'', fl_severity = ''error'',
     fl_outcome = VIOLATION, fl_definition = [], fl_detail = Failed, fl_resolved = False\<rparr>"


text \<open>A rule whose evaluation raises anything but an evaluation or compile error is not reported: the error
  goes through to the push that ran it.\<close>

lemma rule_error_escapes:
  "evaluate_rules sample_lib [age_rule\<lparr>ru_definition := [(''op'', JStr ''call''), (''fn'', JStr ''int''), (''args'', JList [e_ref ''age''])]\<rparr>]
     [(''age'', JStr ''inf'')] [] [] (mk_date 2024 1 1) [] = Inl OverflowError"
  by code_simp

text \<open>When no enabled rule is left, the flags of the rules that were disabled stay open.\<close>

lemma disabled_rules_leave_flags:
  "evaluate_and_record L ulid [] ir today now ''s'' given unreadable [old_flag] = Inr ([], [old_flag])"
  by (simp add: evaluate_and_record_def)

end
