(* ===== verification/Status_Machine.thy ===== *)
theory Status_Machine
  imports Py_Prelude Step_System
begin

text \<open>
  \<open>submissions/status.py\<close>: the one table both authors of a submission's status go through, the device
  (whose event is read off the folded op log) and the reviewer. A refusal is a value that carries the
  sentence a person reads; a sentence missing from its table would be a \<open>KeyError\<close>, and is one here.
\<close>

definition STATUSES :: "string list" where
  "STATUSES = [''draft'', ''finalized'', ''in_review'', ''approved'', ''rejected'', ''correction_required'']"

definition EVENTS :: "string list" where
  "EVENTS = [''finalize'', ''reopen'', ''approve'', ''reject'', ''request_correction'', ''comment'']"

definition TABLE :: "(string \<times> (string \<times> string) list) list" where
  "TABLE =
    [(''draft'',
       [(''finalize'', ''finalized''), (''reopen'', ''draft''), (''comment'', ''draft'')]),
     (''finalized'',
       [(''finalize'', ''finalized''), (''reopen'', ''draft''), (''approve'', ''approved''),
        (''reject'', ''rejected''), (''request_correction'', ''correction_required''),
        (''comment'', ''finalized'')]),
     (''in_review'',
       [(''finalize'', ''finalized''), (''reopen'', ''draft''), (''approve'', ''approved''),
        (''reject'', ''rejected''), (''request_correction'', ''correction_required''),
        (''comment'', ''in_review'')]),
     (''correction_required'',
       [(''finalize'', ''finalized''), (''reopen'', ''correction_required''), (''approve'', ''approved''),
        (''reject'', ''rejected''), (''request_correction'', ''correction_required''),
        (''comment'', ''correction_required'')]),
     (''approved'', []),
     (''rejected'', [])]"

definition DEVICE_EVENTS :: "string list" where
  "DEVICE_EVENTS = [''finalize'', ''reopen'']"

definition CLOSED :: "string list" where
  "CLOSED = map fst (filter (\<lambda>(s, moves). moves = []) TABLE)"

text \<open>Why the machine refuses. The sentences of the two lookups are kept; the two sentences built by
  interpolation are named by their case.\<close>

datatype refusal_message = NotAStatus | NotAnEvent | ClosedSays string | Cannot string

datatype status_error = Refused string string refusal_message | NoSentence

definition CLOSED_MESSAGE :: "(string \<times> string) list" where
  "CLOSED_MESSAGE =
    [(''approved'', ''This submission has been approved. Approving, rejecting or correcting it again would rewrite a decision somebody has already acted on.''),
     (''rejected'', ''This submission has been rejected. It is closed, and work on it cannot continue.'')]"

definition ASKED :: "(string \<times> string) list" where
  "ASKED =
    [(''finalize'', ''finalised''), (''reopen'', ''reopened''), (''approve'', ''approved''),
     (''reject'', ''rejected''), (''request_correction'', ''sent back for correction''),
     (''comment'', ''commented on'')]"

definition next_status :: "string \<Rightarrow> string \<Rightarrow> status_error + string" where
  "next_status current event =
     (case map_of TABLE current of
        None \<Rightarrow> Inl (Refused current event NotAStatus)
      | Some moves \<Rightarrow>
          (if event \<notin> set EVENTS then Inl (Refused current event NotAnEvent)
           else if moves = [] then
             (case map_of CLOSED_MESSAGE current of
                None \<Rightarrow> Inl NoSentence
              | Some says \<Rightarrow> Inl (Refused current event (ClosedSays says)))
           else (case map_of moves event of
                   None \<Rightarrow> (case map_of ASKED event of
                      None \<Rightarrow> Inl NoSentence
                    | Some asked \<Rightarrow> Inl (Refused current event (Cannot asked)))
                 | Some next \<Rightarrow> Inr next)))"

definition event_for_folded :: "string option \<Rightarrow> string option" where
  "event_for_folded folded = (case folded of
     None \<Rightarrow> None
   | Some s \<Rightarrow> Some (if s = ''finalized'' then ''finalize'' else ''reopen''))"

subsection \<open>The machine as a step relation\<close>

inductive moves_to :: "string \<Rightarrow> string \<Rightarrow> bool" where
  move: "next_status s e = Inr t \<Longrightarrow> moves_to s t"

inductive_cases moves_toE: "moves_to s t"

text \<open>Every status a submission can stand in once it has left the device as a draft.\<close>

definition lived :: "string \<Rightarrow> bool" where
  "lived s \<longleftrightarrow> s \<in> set [''draft'', ''finalized'', ''correction_required'', ''approved'', ''rejected'']"

text \<open>What the tables hold, computed once.\<close>

lemma table_facts:
  "map fst TABLE = [''draft'', ''finalized'', ''in_review'', ''correction_required'', ''approved'', ''rejected'']"
  "distinct (map fst TABLE)"
  "list_all (\<lambda>(s, moves). list_all (\<lambda>(e, t). e \<in> set EVENTS \<and> t \<in> set STATUSES \<and> (lived s \<longrightarrow> lived t)) moves) TABLE"
  "list_all (\<lambda>(s, moves). moves = [] \<longrightarrow> map_of CLOSED_MESSAGE s \<noteq> None) TABLE"
  "map fst ASKED = EVENTS"
  by code_simp+

lemma status_known: "s \<in> set STATUSES \<longleftrightarrow> map_of TABLE s \<noteq> None"
  unfolding map_of_eq_None_iff set_map [symmetric] table_facts(1) by (auto simp: STATUSES_def)

lemma next_status_Inr:
  assumes "next_status s e = Inr t"
  obtains moves where "(s, moves) \<in> set TABLE" "(e, t) \<in> set moves"
proof -
  obtain moves where m: "map_of TABLE s = Some moves"
    using assms by (cases "map_of TABLE s") (simp_all add: next_status_def)
  have "map_of moves e = Some t"
    using assms unfolding next_status_def m by (simp split: option.splits if_splits)
  with m show thesis by (intro that map_of_SomeD)
qed

lemma table_stays:
  assumes "(s, moves) \<in> set TABLE" "(e, t) \<in> set moves"
  shows "e \<in> set EVENTS" "t \<in> set STATUSES" "lived s \<Longrightarrow> lived t"
  using table_facts(3) assms unfolding list_all_iff by blast+

lemma next_status_cases:
  assumes "s \<in> set STATUSES" "e \<in> set EVENTS"
  shows "(\<exists>t \<in> set STATUSES. next_status s e = Inr t) \<or> (\<exists>m. next_status s e = Inl (Refused s e m))"
proof -
  obtain moves where m: "map_of TABLE s = Some moves" using assms(1) status_known by auto
  note mem = map_of_SomeD [OF m]
  obtain asked where a: "map_of ASKED e = Some asked"
    using assms(2) unfolding table_facts(5) [symmetric] set_map map_of_eq_None_iff [symmetric]
    by (metis map_of_eq_None_iff option.exhaust)
  show ?thesis
  proof (cases "moves = []")
    case True
    then obtain says where "map_of CLOSED_MESSAGE s = Some says"
      using table_facts(4) mem unfolding list_all_iff by blast
    then show ?thesis using m True assms(2) by (simp add: next_status_def)
  next
    case False
    then show ?thesis
      using m a assms(2) table_stays(2) [OF mem] map_of_SomeD [of moves e]
      by (cases "map_of moves e") (auto simp: next_status_def)
  qed
qed

lemma closed_refuses:
  assumes "s \<in> set STATUSES"
  shows "s \<in> set CLOSED \<longleftrightarrow> (\<forall>e \<in> set EVENTS. \<exists>m. next_status s e = Inl (Refused s e m))"
proof -
  obtain moves where m: "map_of TABLE s = Some moves" using assms status_known by auto
  have closed: "s \<in> set CLOSED \<longleftrightarrow> moves = []"
  proof
    assume "s \<in> set CLOSED"
    then have "(s, []) \<in> set TABLE" unfolding CLOSED_def by force
    then show "moves = []" using map_of_is_SomeI [OF table_facts(2), of s "[]"] m by simp
  next
    assume "moves = []"
    then show "s \<in> set CLOSED" using map_of_SomeD [OF m] unfolding CLOSED_def by force
  qed
  show ?thesis
  proof (cases moves)
    case Nil
    then have "next_status s e \<noteq> Inr t" if "e \<in> set EVENTS" for e t
      using m that by (simp add: next_status_def split: option.split)
    then show ?thesis using closed Nil next_status_cases [OF assms] by blast
  next
    case (Cons move rest)
    obtain e t where et: "move = (e, t)" by force
    have "e \<in> set EVENTS" using table_stays(1) [OF map_of_SomeD [OF m], of e t] by (simp add: Cons et)
    moreover have "next_status s e = Inr t" using m calculation by (simp add: next_status_def Cons et)
    ultimately show ?thesis using closed Cons by force
  qed
qed

interpretation status: step_system "\<lambda>s. s = ''draft''" moves_to lived
proof
  show "s = ''draft'' \<Longrightarrow> lived s" for s by (simp add: lived_def)
  show "lived s \<Longrightarrow> moves_to s t \<Longrightarrow> lived t" for s t
    by (auto elim!: moves_toE next_status_Inr intro: table_stays(3))
qed

lemma lived_reachable: "lived s \<Longrightarrow> reachable (\<lambda>s. s = ''draft'') moves_to s"
proof -
  let ?R = "reachable (\<lambda>s. s = ''draft'') moves_to"
  have d: "?R ''draft''" by (rule reach_start) simp
  have "next_status ''draft'' ''finalize'' = Inr ''finalized''" by code_simp
  then have f: "?R ''finalized''" by (rule reach_step [OF d move])
  have "next_status ''finalized'' ''approve'' = Inr ''approved''"
    "next_status ''finalized'' ''reject'' = Inr ''rejected''"
    "next_status ''finalized'' ''request_correction'' = Inr ''correction_required''" by code_simp+
  then have "?R ''approved''" "?R ''rejected''" "?R ''correction_required''"
    by (auto intro: reach_step [OF f move])
  then show "lived s \<Longrightarrow> ?R s" using d f unfolding lived_def by (simp only: list.set) blast
qed

text \<open>C33: The statuses a submission that starts as a draft can ever have are exactly draft, finalized,
  correction required, approved and rejected. The machine's rows for \<open>in_review\<close> are never used: no
  event leads there.\<close>

theorem reachable_statuses:
  "reachable (\<lambda>s. s = ''draft'') moves_to s \<longleftrightarrow>
     s \<in> {''draft'', ''finalized'', ''correction_required'', ''approved'', ''rejected''}"
  using status.reachable_inv [of s] lived_reachable [of s] unfolding lived_def list.set by (rule iffI)

text \<open>The machine is total on statuses and events, and its answers are as the table says: an event
  on a known status moves to a known status or is refused with a sentence, never with a missing key; the
  closed statuses, approved and rejected, refuse every event, and no other status refuses every event.\<close>

theorem next_status_total:
  assumes "s \<in> set STATUSES" "e \<in> set EVENTS"
  shows "((\<exists>t \<in> set STATUSES. next_status s e = Inr t) \<or> (\<exists>m. next_status s e = Inl (Refused s e m))) \<and>
    (s \<in> set CLOSED \<longleftrightarrow> (\<forall>e' \<in> set EVENTS. \<exists>m. next_status s e' = Inl (Refused s e' m)))"
  using next_status_cases [OF assms] closed_refuses [OF assms(1)] by blast

theorem next_status_total_witness:
  "''approved'' \<in> set CLOSED \<and> (\<exists>m. next_status ''approved'' ''approve'' = Inl (Refused ''approved'' ''approve'' m))"
proof -
  have k: "''approved'' \<in> set STATUSES" "''approve'' \<in> set EVENTS" "''approved'' \<in> set CLOSED" by code_simp+
  then show ?thesis using next_status_total [OF k(1,2)] by blast
qed

text \<open>What the device's half may do. The fold of a reopened log reads \<open>draft\<close>; the machine absorbs it
  while a correction is owed.\<close>

lemma device_event: "event_for_folded f = Some e \<Longrightarrow> e \<in> set DEVICE_EVENTS"
  by (auto simp: event_for_folded_def DEVICE_EVENTS_def split: option.splits if_splits)

lemma device_moves:
  "next_status ''correction_required'' ''reopen'' = Inr ''correction_required''"
  "next_status ''correction_required'' ''finalize'' = Inr ''finalized''"
  "next_status ''draft'' ''finalize'' = Inr ''finalized''"
  "next_status ''draft'' ''reopen'' = Inr ''draft''"
  "next_status ''finalized'' ''finalize'' = Inr ''finalized''"
  "next_status ''finalized'' ''reopen'' = Inr ''draft''"
  by code_simp+

end
