(* ===== verification/Sync_Push.thy ===== *)
theory Sync_Push
  imports Sync_Schema Quality Status_Machine
begin

text \<open>
  The push of \<open>sync/service.py\<close>, one transaction over the tables it writes. A table is a list in insertion
  order (a row's key first where the code looks rows up by key). What push only reads, and what decides
  over its writes, is the record \<open>server\<close>: the deployed form versions, the environments, the active
  project keys, the row-level policies, the database's report of a violated unique index, the collation of
  device ids, the quality rules, and fresh identifiers. Operations that other pushes commit between the
  checks and the insert are an argument.

  Sequence numbers are consecutive; the gaps a failed insert leaves are not modelled.
\<close>

subsection \<open>Tables\<close>

record device_row =
  dv_project :: string
  dv_user :: "string option"
  dv_revoked :: bool
  dv_last_counter :: int
  dv_pending :: "int option"

record submission_row =
  sb_project :: string
  sb_environment :: string
  sb_form_version :: string
  sb_case :: "string option"
  sb_origin :: string
  sb_created_by :: "string option"
  sb_status :: string
  sb_started_at :: string
  sb_finalized_at :: "string option"

record stored_op = fold_op +
  st_id :: string
  st_submission :: string
  st_nonce :: "string option"
  st_actor :: "string option"

record key_row =
  kr_id :: string
  kr_submission :: string
  kr_device :: string

record wrap_row =
  wr_content_key :: string
  wr_project_key :: string
  wr_submission :: string
  wr_ephemeral :: "string option"
  wr_nonce :: "string option"
  wr_wrapped :: "string option"

record tombstone_row =
  tb_id :: string
  tb_project :: string
  tb_subject_id :: string
  tb_submission :: string
  tb_path :: "string option"
  tb_device :: string
  tb_counter :: int
  tb_server_seq :: int

record media_row =
  md_id :: string
  md_submission :: string
  md_op :: "string option"
  md_path :: "string option"
  md_status :: string
  md_device :: "string option"
  md_mime :: string
  md_size :: int
  md_count :: int
  md_encrypted :: bool
  md_content_key :: "string option"
  md_hash :: "string option"
  md_storage :: "string option"

record outbox_row =
  ob_id :: string
  ob_project :: string
  ob_submission :: string
  ob_ops :: "string list"
  ob_pushed_by :: string

record db =
  db_devices :: "(string \<times> device_row) list"
  db_submissions :: "(string \<times> submission_row) list"
  db_ops :: "stored_op list"
  db_keys :: "key_row list"
  db_wraps :: "wrap_row list"
  db_tombstones :: "tombstone_row list"
  db_states :: "(string \<times> dict \<times> int) list"
  db_media :: "media_row list"
  db_flags :: "quality_flag list"
  db_outbox :: "outbox_row list"
  db_seq :: int
  db_ids :: nat

datatype violated = PrimaryKey | CounterKey | NonceKey | OtherKey

record server =
  sv_visible :: "string \<Rightarrow> bool"
  sv_version :: "string \<Rightarrow> string \<Rightarrow> int \<Rightarrow> string option"
  sv_environments :: "string \<Rightarrow> (string \<times> string) list"
  sv_project_keys :: "string \<Rightarrow> string list"
  sv_may_open :: "submission_row \<Rightarrow> bool"
  sv_reports :: "stored_op list \<Rightarrow> stored_op \<Rightarrow> violated option"
  sv_collate :: "string \<Rightarrow> int"
  sv_rules :: "string \<Rightarrow> quality_rule list"
  sv_ir :: "string \<Rightarrow> json"
  sv_lib :: pylib
  sv_today :: date
  sv_now :: string
  sv_ulid :: "nat \<Rightarrow> string"

datatype sync_error = IntegrityError | Raised py_error

record rejected_op =
  rj_id :: "string option"
  rj_reason :: string

record push_response =
  pr_accepted :: "string list"
  pr_rejected :: "rejected_op list"
  pr_cursor :: int

definition ENVIRONMENT_PREFERENCE :: "string list" where
  "ENVIRONMENT_PREFERENCE = [''production'', ''staging'', ''development'']"

definition LOCAL_ACTOR :: string where "LOCAL_ACTOR = ''usr_local''"

subsection \<open>Reading the batch\<close>

definition scan_raw :: "(dict \<Rightarrow> sync_op option) \<Rightarrow> string list \<times> rejected_op list \<times> sync_op list \<Rightarrow> dict
    \<Rightarrow> string list \<times> rejected_op list \<times> sync_op list" where
  "scan_raw parse acc raw =
     (case acc of (accepted, rejected, ops) \<Rightarrow>
        (case model_validate parse raw of
           None \<Rightarrow> (accepted, rejected @ [\<lparr>rj_id = (case jget raw ''opId'' of JStr s \<Rightarrow> Some s | _ \<Rightarrow> None),
                                        rj_reason = ''malformed''\<rparr>], ops)
         | Some p \<Rightarrow>
             (if so_id p \<in> set (map so_id ops) then (accepted @ [so_id p], rejected, ops)
              else (accepted, rejected, ops @ [p]))))"

definition scan_batch :: "(dict \<Rightarrow> sync_op option) \<Rightarrow> dict list \<Rightarrow> string list \<times> rejected_op list \<times> sync_op list" where
  "scan_batch parse raws = foldl (scan_raw parse) ([], [], []) raws"

subsection \<open>The gate of devices, forms and submissions\<close>

definition attribute :: "sync_op \<Rightarrow> device_row \<Rightarrow> string \<Rightarrow> string option \<Rightarrow> string + string option" where
  "attribute p device batch_device actor = (case actor of
     None \<Rightarrow> Inr (so_actor p)
   | Some a \<Rightarrow>
       (case (if so_device p = batch_device then Some a else dv_user device) of
          None \<Rightarrow> Inl ''not_authorized''
        | Some person \<Rightarrow>
            (if so_actor p \<in> {None, Some LOCAL_ACTOR, Some person} then Inr (Some person)
             else Inl ''not_authorized'')))"

definition resolve_environment :: "server \<Rightarrow> string \<Rightarrow> string option" where
  "resolve_environment V project =
     (case List.map_filter (map_of (sv_environments V project)) ENVIRONMENT_PREFERENCE of
        [] \<Rightarrow> None | e # _ \<Rightarrow> Some e)"

record gate_state =
  gs_db :: db
  gs_submissions :: "(string \<times> submission_row) list"
  gs_attributed :: "string option"
  gs_accepted :: "string list"
  gs_rejected :: "rejected_op list"
  gs_admitted :: "sync_op list"

definition reject :: "gate_state \<Rightarrow> sync_op \<Rightarrow> string \<Rightarrow> gate_state" where
  "reject g p reason = g\<lparr>gs_rejected := gs_rejected g @ [\<lparr>rj_id = Some (so_id p), rj_reason = reason\<rparr>]\<rparr>"

definition admit :: "gate_state \<Rightarrow> sync_op \<Rightarrow> gate_state" where
  "admit g p = g\<lparr>gs_admitted := gs_admitted g @ [p]\<rparr>"

definition new_submission :: "sync_op \<Rightarrow> device_row \<Rightarrow> string \<Rightarrow> string \<Rightarrow> string option \<Rightarrow> submission_row" where
  "new_submission p device environment form_version attributed =
     \<lparr>sb_project = dv_project device, sb_environment = environment, sb_form_version = form_version,
      sb_case = so_case p, sb_origin = so_device p, sb_created_by = attributed, sb_status = ''draft'',
      sb_started_at = so_wall_clock p, sb_finalized_at = None\<rparr>"

definition open_submission :: "server \<Rightarrow> gate_state \<Rightarrow> sync_op \<Rightarrow> device_row \<Rightarrow> string \<Rightarrow> sync_error + gate_state" where
  "open_submission V g p device form_version =
     (case resolve_environment V (dv_project device) of
        None \<Rightarrow> Inr (reject g p ''not_authorized'')
      | Some environment \<Rightarrow>
          (let row = new_submission p device environment form_version (gs_attributed g);
               d = gs_db g
           in if \<not> sv_may_open V row then Inr (reject g p ''not_assigned'')
              else if has_key (db_submissions d) (so_submission p) then Inl IntegrityError
              else Inr (admit (g\<lparr>gs_db := d\<lparr>db_submissions := db_submissions d @ [(so_submission p, row)]\<rparr>,
                                 gs_submissions := gs_submissions g @ [(so_submission p, row)]\<rparr>) p)))"

definition gate_op :: "server \<Rightarrow> string \<Rightarrow> string option \<Rightarrow> gate_state \<Rightarrow> sync_op \<Rightarrow> sync_error + gate_state" where
  "gate_op V batch_device actor g p =
     (case map_of (db_devices (gs_db g)) (so_device p) of
        None \<Rightarrow> Inr (reject g p ''not_authorized'')
      | Some device \<Rightarrow>
          (if dv_revoked device then Inr (reject g p ''not_authorized'')
           else case attribute p device batch_device actor of
             Inl reason \<Rightarrow> Inr (reject g p reason)
           | Inr person \<Rightarrow>
               (let g = g\<lparr>gs_attributed := person\<rparr>
                in case sv_version V (dv_project device) (so_form p) (so_version p) of
                     None \<Rightarrow> Inr (reject g p ''unknown_form_version'')
                   | Some form_version \<Rightarrow>
                       (case map_of (gs_submissions g) (so_submission p) of
                          None \<Rightarrow> open_submission V g p device form_version
                        | Some s \<Rightarrow>
                            Inr (if sb_project s \<noteq> dv_project device then reject g p ''not_authorized''
                                 else if sb_status s \<in> set CLOSED then reject g p ''submission_closed''
                                 else if sb_form_version s \<noteq> form_version then reject g p ''unknown_form_version''
                                 else admit g p)))))"

definition known_rows :: "db \<Rightarrow> sync_op list \<Rightarrow> stored_op list" where
  "known_rows d ops = filter (\<lambda>r. st_id r \<in> set (map so_id ops) \<or>
     (op_device r, op_counter r) \<in> set (map (\<lambda>p. (so_device p, so_counter p)) ops)) (db_ops d)"

definition gate_step :: "server \<Rightarrow> string \<Rightarrow> string option \<Rightarrow> stored_op list \<Rightarrow> gate_state \<Rightarrow> sync_op \<Rightarrow> sync_error + gate_state" where
  "gate_step V batch_device actor known g p =
     (if so_id p \<in> set (map st_id known) \<or> (so_device p, so_counter p) \<in> set (map (\<lambda>r. (op_device r, op_counter r)) known)
      then Inr (g\<lparr>gs_accepted := gs_accepted g @ [so_id p]\<rparr>)
      else gate_op V batch_device actor g p)"

subsection \<open>Content keys and nonces\<close>

text \<open>The loop of \<open>_admit_content_keys\<close>. A key that is stored already is admitted as it is stored; one whose
  submission, device, owner or recipients do not fit is dropped. Inserting a second row under a key's own
  identifier, or wrapping it twice for one recipient, is the database's error.\<close>

record key_state =
  ks_keys :: "key_row list"
  ks_wraps :: "wrap_row list"
  ks_owners :: "(string \<times> string) list"
  ks_admitted :: "(string \<times> string) list"

definition wrap_of :: "content_key_in \<Rightarrow> wrapped_key \<Rightarrow> wrap_row" where
  "wrap_of key w = \<lparr>wr_content_key = ck_id key, wr_project_key = wk_project_key w, wr_submission = ck_submission key,
     wr_ephemeral = fromhex (wk_ephemeral w), wr_nonce = fromhex (wk_nonce w), wr_wrapped = fromhex (wk_key w)\<rparr>"

definition key_fits :: "server \<Rightarrow> db \<Rightarrow> (string \<times> submission_row) list \<Rightarrow> (string \<times> string) list \<Rightarrow> content_key_in \<Rightarrow> bool" where
  "key_fits V d submissions owners key =
     (case (map_of submissions (ck_submission key), map_of (db_devices d) (ck_device key)) of
        (Some s, Some device) \<Rightarrow>
          \<not> dv_revoked device \<and> dv_project device = sb_project s \<and>
          (ck_submission key, ck_device key) \<notin> set owners \<and>
          list_all (\<lambda>w. wk_project_key w \<in> set (sv_project_keys V (sb_project s))) (ck_wraps key)
      | _ \<Rightarrow> False)"

definition admit_key :: "server \<Rightarrow> db \<Rightarrow> (string \<times> submission_row) list \<Rightarrow> (string \<times> string) list \<Rightarrow> key_state
    \<Rightarrow> content_key_in \<Rightarrow> sync_error + key_state" where
  "admit_key V d submissions stored k key =
     (case map_of stored (ck_id key) of
        Some s \<Rightarrow> Inr (k\<lparr>ks_admitted := AList.update (ck_id key) s (ks_admitted k)\<rparr>)
      | None \<Rightarrow>
          (if \<not> key_fits V d submissions (ks_owners k) key then Inr k
           else if ck_id key \<in> set (map kr_id (ks_keys k)) \<or> \<not> distinct (map wk_project_key (ck_wraps key))
           then Inl IntegrityError
           else Inr (k\<lparr>ks_keys := ks_keys k @ [\<lparr>kr_id = ck_id key, kr_submission = ck_submission key, kr_device = ck_device key\<rparr>],
                       ks_wraps := ks_wraps k @ map (wrap_of key) (ck_wraps key),
                       ks_owners := (ck_submission key, ck_device key) # ks_owners k,
                       ks_admitted := AList.update (ck_id key) (ck_submission key) (ks_admitted k)\<rparr>)))"

definition admit_content_keys :: "server \<Rightarrow> db \<Rightarrow> (string \<times> submission_row) list \<Rightarrow> content_key_in list
    \<Rightarrow> sync_error + (string \<times> string) list \<times> db" where
  "admit_content_keys V d submissions raw_keys =
     (let existing = filter (\<lambda>r. kr_submission r \<in> set (map ck_submission raw_keys)) (db_keys d)
      in rbind (foldM (admit_key V d submissions (map (\<lambda>r. (kr_id r, kr_submission r)) existing))
           \<lparr>ks_keys = db_keys d, ks_wraps = db_wraps d, ks_owners = map (\<lambda>r. (kr_submission r, kr_device r)) existing,
            ks_admitted = []\<rparr> raw_keys) (\<lambda>k.
           Inr (ks_admitted k, d\<lparr>db_keys := ks_keys k, db_wraps := ks_wraps k\<rparr>)))"

definition stored_content_keys :: "db \<Rightarrow> string list \<Rightarrow> (string \<times> string) list" where
  "stored_content_keys d wanted =
     map (\<lambda>r. (kr_id r, kr_submission r)) (filter (\<lambda>r. kr_id r \<in> set wanted) (db_keys d))"

definition nonce_pair :: "sync_op \<Rightarrow> (string \<times> string) option" where
  "nonce_pair p = (case (so_content_key p, op_bytes (so_nonce p)) of
     (Some k, Some n) \<Rightarrow> if is_encrypted p then Some (k, n) else None | _ \<Rightarrow> None)"

definition stored_pair :: "stored_op \<Rightarrow> (string \<times> string) option" where
  "stored_pair r = (case (op_content_key r, st_nonce r) of (Some k, Some n) \<Rightarrow> Some (k, n) | _ \<Rightarrow> None)"

definition taken_nonces :: "db \<Rightarrow> sync_op list \<Rightarrow> (string \<times> string) list" where
  "taken_nonces d ops = filter (\<lambda>pair. pair \<in> set (List.map_filter stored_pair (db_ops d))) (List.map_filter nonce_pair ops)"

subsection \<open>The crypto gate\<close>

record crypto_state =
  cs_taken :: "(string \<times> string) list"
  cs_counters :: "(string \<times> int) list"
  cs_accepted :: "string list"
  cs_rejected :: "rejected_op list"
  cs_insert :: "stored_op list"
  cs_tombstones :: "(string \<times> tombstone_row) list"
  cs_touched :: "(string \<times> string list) list"
  cs_ids :: nat

definition stored_of :: "string option \<Rightarrow> sync_op \<Rightarrow> stored_op" where
  "stored_of attributed p =
     \<lparr>op_kind = so_kind p, op_path = so_path p, op_value = (if is_encrypted p then JNull else so_value p),
      op_ciphertext = op_bytes (so_ciphertext p), op_content_key = so_content_key p,
      op_wall_clock = so_wall_clock p, op_server_seq = 0, op_counter = so_counter p, op_device = so_device p,
      st_id = so_id p, st_submission = so_submission p,
      st_nonce = (if is_encrypted p then op_bytes (so_nonce p) else None), st_actor = attributed\<rparr>"

definition tombstone_of :: "server \<Rightarrow> db \<Rightarrow> nat \<Rightarrow> sync_op \<Rightarrow> tombstone_row" where
  "tombstone_of V d n p =
     \<lparr>tb_id = sv_ulid V n,
      tb_project = (case map_of (db_devices d) (so_device p) of None \<Rightarrow> [] | Some device \<Rightarrow> dv_project device),
      tb_subject_id = so_submission p @ '':'' @ (case so_path p of None \<Rightarrow> ''None'' | Some path \<Rightarrow> path),
      tb_submission = so_submission p, tb_path = so_path p, tb_device = so_device p, tb_counter = so_counter p,
      tb_server_seq = 0\<rparr>"

definition touch :: "string \<Rightarrow> string \<Rightarrow> (string \<times> string list) list \<Rightarrow> (string \<times> string list) list" where
  "touch s i touched = AList.update s ((case map_of touched s of None \<Rightarrow> [] | Some ids \<Rightarrow> ids) @ [i]) touched"

definition crypto_refusal :: "(string \<times> string) list \<Rightarrow> crypto_state \<Rightarrow> sync_op \<Rightarrow> string option" where
  "crypto_refusal key_submissions c p =
     (case nonce_pair p of
        None \<Rightarrow> None
      | Some (k, n) \<Rightarrow>
          (if map_of key_submissions k \<noteq> Some (so_submission p) then Some ''unknown_content_key''
           else if (k, n) \<in> set (cs_taken c) then Some ''nonce_reused'' else None))"

definition crypto_step :: "server \<Rightarrow> db \<Rightarrow> (string \<times> string) list \<Rightarrow> string option \<Rightarrow> crypto_state \<Rightarrow> sync_op \<Rightarrow> crypto_state" where
  "crypto_step V d key_submissions attributed c p =
     (case crypto_refusal key_submissions c p of
        Some reason \<Rightarrow> c\<lparr>cs_rejected := cs_rejected c @ [\<lparr>rj_id = Some (so_id p), rj_reason = reason\<rparr>]\<rparr>
      | None \<Rightarrow>
          (let c = c\<lparr>cs_taken := (case nonce_pair p of None \<Rightarrow> [] | Some pair \<Rightarrow> [pair]) @ cs_taken c\<rparr>
           in if (so_device p, so_counter p) \<in> set (cs_counters c)
              then c\<lparr>cs_accepted := cs_accepted c @ [so_id p]\<rparr>
              else (let deletes = (so_kind p = ''repeat_delete'')
                    in c\<lparr>cs_counters := (so_device p, so_counter p) # cs_counters c,
                         cs_insert := cs_insert c @ [stored_of attributed p],
                         cs_tombstones := (if deletes then cs_tombstones c @ [(so_id p, tombstone_of V d (cs_ids c) p)]
                                           else cs_tombstones c),
                         cs_ids := (if deletes then Suc (cs_ids c) else cs_ids c),
                         cs_touched := touch (so_submission p) (so_id p) (cs_touched c),
                         cs_accepted := cs_accepted c @ [so_id p]\<rparr>)))"

subsection \<open>Inserting\<close>

text \<open>A row gets the next number of the stream when it is inserted.\<close>

definition insert_row :: "stored_op list \<times> int \<Rightarrow> stored_op \<Rightarrow> stored_op list \<times> int" where
  "insert_row t r = (case t of (rows, stream) \<Rightarrow> (rows @ [r\<lparr>op_server_seq := stream + 1\<rparr>], stream + 1))"

definition integrity_reason :: "violated \<Rightarrow> sync_error + string option" where
  "integrity_reason v = (case v of
     NonceKey \<Rightarrow> Inr (Some ''nonce_reused'') | CounterKey \<Rightarrow> Inr None | PrimaryKey \<Rightarrow> Inr None | OtherKey \<Rightarrow> Inl IntegrityError)"

text \<open>One flush for the batch when the database refuses none of it; a savepoint per row otherwise.\<close>

fun insert_batch :: "server \<Rightarrow> stored_op list \<times> int \<Rightarrow> stored_op list \<Rightarrow> (stored_op list \<times> int) option" where
  "insert_batch V t [] = Some t"
| "insert_batch V t (r # rs) =
     (case sv_reports V (fst t) r of None \<Rightarrow> insert_batch V (insert_row t r) rs | Some v \<Rightarrow> None)"

definition insert_each :: "server \<Rightarrow> (stored_op list \<times> int) \<times> (string \<times> string option) list \<Rightarrow> stored_op
    \<Rightarrow> sync_error + (stored_op list \<times> int) \<times> (string \<times> string option) list" where
  "insert_each V acc r = (case acc of (t, refused) \<Rightarrow>
     (case sv_reports V (fst t) r of
        None \<Rightarrow> Inr (insert_row t r, refused)
      | Some v \<Rightarrow> rbind (integrity_reason v) (\<lambda>reason. Inr (t, refused @ [(st_id r, reason)]))))"

definition insert_ops :: "server \<Rightarrow> stored_op list \<times> int \<Rightarrow> stored_op list
    \<Rightarrow> sync_error + (stored_op list \<times> int) \<times> (string \<times> string option) list" where
  "insert_ops V t rows = (case insert_batch V t rows of
     Some t' \<Rightarrow> Inr (t', []) | None \<Rightarrow> foldM (insert_each V) (t, []) rows)"

text \<open>\<open>accepted.remove(op_id)\<close> for the refused operations that are not replays.\<close>

definition refuse_late :: "string list \<times> rejected_op list \<Rightarrow> string \<times> string option \<Rightarrow> string list \<times> rejected_op list" where
  "refuse_late acc x = (case (acc, x) of ((accepted, rejected), (i, reason)) \<Rightarrow>
     (case reason of
        None \<Rightarrow> (accepted, rejected)
      | Some why \<Rightarrow> (remove1 i accepted, rejected @ [\<lparr>rj_id = Some i, rj_reason = why\<rparr>])))"

definition keep_touched :: "string list \<Rightarrow> (string \<times> string list) list \<Rightarrow> (string \<times> string list) list" where
  "keep_touched refused touched =
     filter (\<lambda>(s, ids). ids \<noteq> []) (map (\<lambda>(s, ids). (s, filter (\<lambda>i. i \<notin> set refused) ids)) touched)"

definition insert_tombstone :: "tombstone_row list \<times> int \<Rightarrow> tombstone_row \<Rightarrow> tombstone_row list \<times> int" where
  "insert_tombstone t r = (case t of (rows, stream) \<Rightarrow> (rows @ [r\<lparr>tb_server_seq := stream + 1\<rparr>], stream + 1))"

subsection \<open>Media references\<close>

definition MEDIA_REFERENCE_KEYS :: "string list" where
  "MEDIA_REFERENCE_KEYS = [''id'', ''filename'', ''hash'', ''size'']"

definition media_reference_id :: "json \<Rightarrow> string option" where
  "media_reference_id v = (case v of
     JObj kvs \<Rightarrow>
       (if \<not> list_all (\<lambda>(k, x). k \<in> set MEDIA_REFERENCE_KEYS) kvs then None
        else case jget kvs ''id'' of
          JStr i \<Rightarrow>
            (if i = [] \<or> 64 < length i then None
             else if \<not> list_ex (\<lambda>(k, x). k \<in> {''filename'', ''hash'', ''size''}) kvs then None
             else Some i)
        | _ \<Rightarrow> None)
   | _ \<Rightarrow> None)"

text \<open>One reference: media id, submission, operation, path. \<open>row.op_id or op_id\<close> keeps what is there.\<close>

definition or_else :: "string option \<Rightarrow> string \<Rightarrow> string option" where
  "or_else given other = (case given of Some s \<Rightarrow> if s = [] then Some other else Some s | None \<Rightarrow> Some other)"

definition register_reference :: "media_row list \<Rightarrow> string \<times> string \<times> string \<times> string \<Rightarrow> media_row list" where
  "register_reference rows x = (case x of (i, s, op_id, path) \<Rightarrow>
     (if i \<notin> set (map md_id rows)
      then rows @ [\<lparr>md_id = i, md_submission = s, md_op = Some op_id, md_path = Some path, md_status = ''pending'',
        md_device = None, md_mime = ''application/octet-stream'', md_size = 0, md_count = 0, md_encrypted = False,
        md_content_key = None, md_hash = None, md_storage = None\<rparr>]
      else map (\<lambda>r. if md_id r = i \<and> md_submission r = s
                   then r\<lparr>md_op := or_else (md_op r) op_id, md_path := or_else (md_path r) path\<rparr> else r) rows))"

fun first_of_each :: "string list \<Rightarrow> (string \<times> 'a) list \<Rightarrow> (string \<times> 'a) list" where
  "first_of_each seen [] = []"
| "first_of_each seen ((i, x) # xs) =
     (if i \<in> set seen then first_of_each seen xs else (i, x) # first_of_each (i # seen) xs)"

definition register_references :: "media_row list \<Rightarrow> (string \<times> string \<times> string \<times> string) list \<Rightarrow> media_row list" where
  "register_references rows references = foldl register_reference rows (first_of_each [] references)"

text \<open>The rows of a submission the caller does not see are not found: their id is then inserted again, which the primary
  key refuses.\<close>

definition register_pending_references :: "server \<Rightarrow> media_row list \<Rightarrow> (string \<times> string \<times> string \<times> string) list
    \<Rightarrow> sync_error + media_row list" where
  "register_pending_references V rows references =
     (if list_ex (\<lambda>r. \<not> sv_visible V (md_submission r) \<and> md_id r \<in> set (map fst references)) rows then Inl IntegrityError
      else Inr (register_references rows references))"

definition media_references :: "stored_op list \<Rightarrow> (string \<times> string \<times> string \<times> string) list" where
  "media_references rows =
     List.map_filter (\<lambda>r. if op_kind r = ''set'' \<and> op_ciphertext r = None
       then map_option (\<lambda>i. (i, st_submission r, st_id r, case op_path r of None \<Rightarrow> [] | Some p \<Rightarrow> p)) (media_reference_id (op_value r))
       else None) rows"

subsection \<open>Folding the submissions that changed\<close>

definition ops_of :: "db \<Rightarrow> string \<Rightarrow> fold_op list" where
  "ops_of d s = map fold_op.truncate (filter (\<lambda>r. st_submission r = s) (db_ops d))"

definition status_after :: "submission_row \<Rightarrow> fold_state \<Rightarrow> sync_error + submission_row" where
  "status_after row folded =
     (case event_for_folded (fo_status folded) of
        None \<Rightarrow> Inr row
      | Some event \<Rightarrow>
          (case next_status (sb_status row) event of
             Inr status \<Rightarrow> Inr (row\<lparr>sb_status := status, sb_finalized_at := fo_finalized_at folded\<rparr>)
           | Inl (Refused current event' message) \<Rightarrow> Inr row
           | Inl NoSentence \<Rightarrow> Inl (Raised KeyError)))"

definition fold_submission :: "server \<Rightarrow> db \<Rightarrow> string \<Rightarrow> sync_error + fold_state \<times> db" where
  "fold_submission V d s =
     (let folded = fold_ops (in_log_order (sv_collate V) (ops_of d s))
      in case map_of (db_submissions d) s of
           None \<Rightarrow> Inl (Raised KeyError)
         | Some row \<Rightarrow> rbind (status_after row folded) (\<lambda>row'.
             Inr (folded, d\<lparr>db_submissions := AList.update s row' (db_submissions d),
               db_states := AList.update s (fo_data folded, fo_high_water folded) (db_states d)\<rparr>)))"

definition settle_submission :: "server \<Rightarrow> string \<Rightarrow> db \<Rightarrow> string \<times> string list \<Rightarrow> sync_error + db" where
  "settle_submission V batch_device d x = (case x of (s, op_ids) \<Rightarrow>
     rbind (fold_submission V d s) (\<lambda>(folded, d).
     case map_of (db_submissions d) s of
       None \<Rightarrow> Inl (Raised KeyError)
     | Some row \<Rightarrow>
         (case evaluate_and_record (sv_lib V) (\<lambda>k. sv_ulid V (db_ids d + k)) (sv_rules V s) (sv_ir V (sb_form_version row))
             (sv_today V) (sv_now V) s (fo_data folded) (map fst (fo_unreadable folded)) (db_flags d) of
            Inl e \<Rightarrow> Inl (Raised e)
          | Inr (outcomes, flags) \<Rightarrow>
              Inr (d\<lparr>db_flags := flags,
                 db_outbox := db_outbox d @ [\<lparr>ob_id = sv_ulid V (db_ids d + length outcomes), ob_project = sb_project row,
                   ob_submission = s, ob_ops = op_ids, ob_pushed_by = batch_device\<rparr>],
                 db_ids := Suc (db_ids d + length outcomes)\<rparr>))))"

subsection \<open>Push\<close>

definition report_pending :: "string \<Rightarrow> int option \<Rightarrow> db \<Rightarrow> db" where
  "report_pending batch_device queued d =
     (case (queued, map_of (db_devices d) batch_device) of
        (Some n, Some device) \<Rightarrow> d\<lparr>db_devices := AList.update batch_device (device\<lparr>dv_pending := Some n\<rparr>) (db_devices d)\<rparr>
      | _ \<Rightarrow> d)"

definition advance_counter :: "(string \<times> device_row) list \<Rightarrow> stored_op \<Rightarrow> (string \<times> device_row) list" where
  "advance_counter devices r = (case map_of devices (op_device r) of
     None \<Rightarrow> devices
   | Some device \<Rightarrow> AList.update (op_device r)
       (device\<lparr>dv_last_counter := max (dv_last_counter device) (op_counter r)\<rparr>) devices)"

definition server_cursor :: "db \<Rightarrow> int" where
  "server_cursor d = Max (set (0 # map op_server_seq (db_ops d) @ map tb_server_seq (db_tombstones d)))"

record push_request =
  pq_device :: string
  pq_ops :: "dict list"
  pq_keys :: "content_key_in list"
  pq_actor :: "string option"
  pq_pending :: "int option"

text \<open>The first half: everything up to the rows to insert, against the database the checks see.\<close>

definition check_batch :: "server \<Rightarrow> (dict \<Rightarrow> sync_op option) \<Rightarrow> push_request \<Rightarrow> db \<Rightarrow> sync_error + crypto_state \<times> db" where
  "check_batch V parse q d =
     (case scan_batch parse (pq_ops q) of (accepted, rejected, ops) \<Rightarrow>
      let known = known_rows d ops;
          found = filter (\<lambda>(s, row). sv_visible V s) (db_submissions d)
      in rbind (foldM (gate_step V (pq_device q) (pq_actor q) known)
           \<lparr>gs_db = d, gs_submissions = found, gs_attributed = None, gs_accepted = accepted, gs_rejected = rejected,
            gs_admitted = []\<rparr> ops) (\<lambda>g.
         rbind (admit_content_keys V (gs_db g) (gs_submissions g) (pq_keys q)) (\<lambda>(admitted_keys, d).
         let wanted = List.map_filter (\<lambda>p. if is_encrypted p then so_content_key p else None) (gs_admitted g);
             key_submissions = dict_update admitted_keys (stored_content_keys d wanted)
         in Inr (foldl (crypto_step V d key_submissions (gs_attributed g))
              \<lparr>cs_taken = taken_nonces d (gs_admitted g), cs_counters = map (\<lambda>r. (op_device r, op_counter r)) known,
               cs_accepted = gs_accepted g, cs_rejected = gs_rejected g, cs_insert = [], cs_tombstones = [],
               cs_touched = [], cs_ids = db_ids d\<rparr> (gs_admitted g), d))))"

text \<open>The second half: the writes, after other pushes committed \<open>others\<close>.\<close>

definition write_batch :: "server \<Rightarrow> push_request \<Rightarrow> crypto_state \<Rightarrow> db \<Rightarrow> sync_error + push_response \<times> db" where
  "write_batch V q c d =
     rbind (insert_ops V (db_ops d, db_seq d) (cs_insert c)) (\<lambda>((rows, stream), refused).
     let inserted = filter (\<lambda>r. st_id r \<notin> set (map fst refused)) (cs_insert c);
         (accepted, rejected) = foldl refuse_late (cs_accepted c, cs_rejected c) refused;
         touched = (if refused = [] then cs_touched c else keep_touched (map fst refused) (cs_touched c));
         (tombstones, stream) = foldl insert_tombstone (db_tombstones d, stream)
           (map snd (filter (\<lambda>(i, t). i \<notin> set (map fst refused)) (cs_tombstones c)))
     in rbind (register_pending_references V (db_media d) (media_references inserted)) (\<lambda>media.
     let d = d\<lparr>db_ops := rows, db_tombstones := tombstones, db_seq := stream, db_ids := cs_ids c, db_media := media\<rparr>
     in rbind (foldM (settle_submission V (pq_device q)) d touched) (\<lambda>d.
        let d = report_pending (pq_device q) (pq_pending q) d;
            d = d\<lparr>db_devices := foldl advance_counter (db_devices d) inserted\<rparr>
        in Inr (\<lparr>pr_accepted = accepted, pr_rejected = rejected, pr_cursor = server_cursor d\<rparr>, d))))"

definition commit_others :: "stored_op list \<Rightarrow> db \<Rightarrow> db" where
  "commit_others others d = (let (rows, stream) = foldl insert_row (db_ops d, db_seq d) others
     in d\<lparr>db_ops := rows, db_seq := stream\<rparr>)"

definition push :: "server \<Rightarrow> (dict \<Rightarrow> sync_op option) \<Rightarrow> stored_op list \<Rightarrow> push_request \<Rightarrow> db
    \<Rightarrow> sync_error + push_response \<times> db" where
  "push V parse others q d =
     rbind (check_batch V parse q d) (\<lambda>(c, d). write_batch V q c (commit_others others d))"

end
