(* ===== verification/Sync_Laws.thy ===== *)
theory Sync_Laws
  imports Sync_Push
begin

text \<open>
  What a push keeps and promises: the log's three uniqueness rules, that no operation is lost without a
  reason, and that a retry changes nothing.
\<close>

subsection \<open>The database's unique indexes\<close>

fun conflicts :: "violated \<Rightarrow> stored_op list \<Rightarrow> stored_op \<Rightarrow> bool" where
  "conflicts PrimaryKey T r \<longleftrightarrow> st_id r \<in> st_id ` set T"
| "conflicts CounterKey T r \<longleftrightarrow> (op_device r, op_counter r) \<in> (\<lambda>r. (op_device r, op_counter r)) ` set T"
| "conflicts NonceKey T r \<longleftrightarrow> stored_pair r \<noteq> None \<and> stored_pair r \<in> stored_pair ` set T"
| "conflicts OtherKey T r \<longleftrightarrow> False"

text \<open>The database reports a violated index when and only when one is.\<close>

definition honest :: "server \<Rightarrow> bool" where
  "honest V \<longleftrightarrow> (\<forall>T r. (sv_reports V T r = None \<longleftrightarrow> (\<forall>v. \<not> conflicts v T r)) \<and>
     (\<forall>v. sv_reports V T r = Some v \<longrightarrow> conflicts v T r))"

definition log_ok :: "stored_op list \<Rightarrow> bool" where
  "log_ok T \<longleftrightarrow> distinct (map st_id T) \<and> distinct (map (\<lambda>r. (op_device r, op_counter r)) T) \<and>
     distinct (List.map_filter stored_pair T)"

lemma conflicts_seq [simp]: "conflicts v T (r\<lparr>op_server_seq := n\<rparr>) = conflicts v T r"
  by (cases v) (simp_all add: stored_pair_def)

lemma stored_pair_seq [simp]: "stored_pair (r\<lparr>op_server_seq := n\<rparr>) = stored_pair r"
  by (simp add: stored_pair_def)

lemma set_map_filter: "set (List.map_filter f xs) = {y. Some y \<in> f ` set xs}"
  by (induction xs) (force simp: List.map_filter_simps split: option.splits)+

lemma map_filter_append: "List.map_filter f (xs @ ys) = List.map_filter f xs @ List.map_filter f ys"
  by (simp add: List.map_filter_def)

lemma log_ok_snoc: "log_ok (T @ [r]) \<longleftrightarrow> log_ok T \<and> (\<forall>v. \<not> conflicts v T r)"
proof -
  have "(\<forall>v. \<not> conflicts v T r) \<longleftrightarrow> \<not> conflicts PrimaryKey T r \<and> \<not> conflicts CounterKey T r \<and> \<not> conflicts NonceKey T r"
    by (metis conflicts.simps(4) violated.exhaust)
  moreover have "distinct (List.map_filter stored_pair (T @ [r])) \<longleftrightarrow>
      distinct (List.map_filter stored_pair T) \<and> \<not> conflicts NonceKey T r"
    unfolding map_filter_append
    by (cases "stored_pair r") (auto simp: List.map_filter_simps set_map_filter)
  ultimately show ?thesis by (auto simp: log_ok_def)
qed

subsection \<open>Inserting\<close>

fun stream_from :: "int \<Rightarrow> stored_op list \<Rightarrow> stored_op list" where
  "stream_from n [] = []"
| "stream_from n (r # rs) = r\<lparr>op_server_seq := n + 1\<rparr> # stream_from (n + 1) rs"

lemma stream_from_snoc: "stream_from n (rs @ [r]) = stream_from n rs @ [r\<lparr>op_server_seq := n + int (length rs) + 1\<rparr>]"
  by (induction rs arbitrary: n) (simp_all add: algebra_simps)

text \<open>The single flush is an optimisation: row by row gives the same.\<close>

lemma insert_ops_each: "insert_ops V t rows = foldM (insert_each V) (t, []) rows"
proof -
  have "insert_batch V t rows = Some t' \<Longrightarrow> foldM (insert_each V) (t, R) rows = Inr (t', R)" for t t' R
    by (induction rows arbitrary: t) (auto simp: insert_each_def split: option.splits)
  then show ?thesis by (auto simp: insert_ops_def split: option.splits)
qed

text \<open>Whether an operation is in a log, under its own id or its device's counter.\<close>

definition in_log :: "stored_op list \<Rightarrow> string \<Rightarrow> string \<Rightarrow> int \<Rightarrow> bool" where
  "in_log T i device counter \<longleftrightarrow> i \<in> st_id ` set T \<or> (device, counter) \<in> (\<lambda>r. (op_device r, op_counter r)) ` set T"

lemma in_log_append: "in_log T i dev k \<Longrightarrow> in_log (T @ T') i dev k"
  by (auto simp: in_log_def)

lemma insert_each_cases:
  "sv_reports V T r = None \<Longrightarrow> insert_each V ((T, n), R) r = Inr ((T @ [r\<lparr>op_server_seq := n + 1\<rparr>], n + 1), R)"
  "sv_reports V T r = Some v \<Longrightarrow> insert_each V ((T, n), R) r = rbind (integrity_reason v) (\<lambda>why. Inr ((T, n), R @ [(st_id r, why)]))"
  by (simp_all add: insert_each_def insert_row_def)

lemma insert_each_run:
  assumes "honest V" "foldM (insert_each V) ((T, n), R) rows = Inr ((T', n'), R')"
  shows "\<exists>ins R1. T' = T @ stream_from n ins \<and> n' = n + int (length ins) \<and> R' = R @ R1 \<and> set ins \<subseteq> set rows \<and>
    (distinct (map st_id rows) \<longrightarrow> ins = filter (\<lambda>r. st_id r \<notin> set (map fst R1)) rows) \<and> set (map fst R1) \<subseteq> st_id ` set rows \<and>
    (log_ok T \<longrightarrow> log_ok T') \<and>
    (\<forall>r \<in> set rows. in_log T' (st_id r) (op_device r) (op_counter r) \<or> (st_id r, Some ''nonce_reused'') \<in> set R1)"
  using assms(2)
proof (induction rows arbitrary: T n R)
  case Nil
  then show ?case by (intro exI [of _ "[]"]) auto
next
  case (Cons r rows)
  show ?case
  proof (cases "sv_reports V T r")
    case None
    let ?r = "r\<lparr>op_server_seq := n + 1\<rparr>"
    have run: "foldM (insert_each V) ((T @ [?r], n + 1), R) rows = Inr ((T', n'), R')"
      using Cons.prems insert_each_cases(1) [OF None] by simp
    from Cons.IH [OF this] obtain ins R1 where *: "T' = (T @ [?r]) @ stream_from (n + 1) ins"
      "n' = n + 1 + int (length ins)" "R' = R @ R1" "set ins \<subseteq> set rows" "distinct (map st_id rows) \<longrightarrow> ins = filter (\<lambda>r. st_id r \<notin> set (map fst R1)) rows"
      "set (map fst R1) \<subseteq> st_id ` set rows" "log_ok (T @ [?r]) \<longrightarrow> log_ok T'"
      "\<forall>r \<in> set rows. in_log T' (st_id r) (op_device r) (op_counter r) \<or> (st_id r, Some ''nonce_reused'') \<in> set R1"
      by blast
    have "log_ok T \<longrightarrow> log_ok (T @ [?r])"
      using assms(1) None unfolding log_ok_snoc conflicts_seq honest_def by blast
    moreover have "in_log T' (st_id r) (op_device r) (op_counter r)"
      unfolding *(1) by (simp add: in_log_def)
    moreover have "distinct (map st_id (r # rows)) \<longrightarrow> r # ins = filter (\<lambda>r. st_id r \<notin> set (map fst R1)) (r # rows)"
      using *(5,6) by auto
    ultimately show ?thesis using * by (intro exI [of _ "r # ins"] exI [of _ R1]) auto
  next
    case (Some v)
    then obtain why where why: "integrity_reason v = Inr why"
      "foldM (insert_each V) ((T, n), R @ [(st_id r, why)]) rows = Inr ((T', n'), R')"
      using Cons.prems insert_each_cases(2) [OF Some] by (auto simp: rbind_Inr_iff)
    from Cons.IH [OF why(2)] obtain ins R1 where *: "T' = T @ stream_from n ins"
      "n' = n + int (length ins)" "R' = (R @ [(st_id r, why)]) @ R1" "set ins \<subseteq> set rows" "distinct (map st_id rows) \<longrightarrow> ins = filter (\<lambda>r. st_id r \<notin> set (map fst R1)) rows"
      "set (map fst R1) \<subseteq> st_id ` set rows" "log_ok T \<longrightarrow> log_ok T'"
      "\<forall>r \<in> set rows. in_log T' (st_id r) (op_device r) (op_counter r) \<or> (st_id r, Some ''nonce_reused'') \<in> set R1"
      by blast
    have "conflicts v T r" using assms(1) Some unfolding honest_def by blast
    then have "in_log T' (st_id r) (op_device r) (op_counter r) \<or> why = Some ''nonce_reused''"
      using why(1) unfolding *(1) by (cases v) (auto simp: integrity_reason_def in_log_def)
    moreover have "filter (\<lambda>x. st_id x \<notin> set (map fst ((st_id r, why) # R1))) rows = filter (\<lambda>x. st_id x \<notin> set (map fst R1)) rows"
      if "distinct (map st_id (r # rows))" using that by (intro filter_cong) (auto simp: image_iff)
    ultimately show ?thesis using * by (intro exI [of _ ins] exI [of _ "(st_id r, why) # R1"]) auto
  qed
qed

subsection \<open>Reading the batch\<close>

abbreviation batch_ops :: "(dict \<Rightarrow> sync_op option) \<Rightarrow> push_request \<Rightarrow> sync_op list" where
  "batch_ops parse q \<equiv> snd (snd (scan_batch parse (pq_ops q)))"

lemma scan_run:
  "case foldl (scan_raw parse) (acc, rej, ops) raws of (acc', rej', ops') \<Rightarrow>
     (\<exists>a r p. acc' = acc @ a \<and> rej' = rej @ r \<and> ops' = ops @ p \<and> set a \<subseteq> set (map so_id ops')) \<and>
     (distinct (map so_id ops) \<longrightarrow> distinct (map so_id ops'))"
proof (induction raws arbitrary: acc rej ops)
  case (Cons raw raws)
  obtain acc1 rej1 ops1 where s: "scan_raw parse (acc, rej, ops) raw = (acc1, rej1, ops1)" using prod_cases3 by blast
  then have "(\<exists>a r p. acc1 = acc @ a \<and> rej1 = rej @ r \<and> ops1 = ops @ p \<and> set a \<subseteq> set (map so_id ops1)) \<and>
      (distinct (map so_id ops) \<longrightarrow> distinct (map so_id ops1))"
    by (auto simp: scan_raw_def split: option.splits if_splits)
  then obtain a r p where a: "acc1 = acc @ a" "rej1 = rej @ r" "ops1 = ops @ p" "set a \<subseteq> set (map so_id ops1)"
      "distinct (map so_id ops) \<longrightarrow> distinct (map so_id ops1)" by blast
  obtain acc' rej' ops' where f: "foldl (scan_raw parse) (acc1, rej1, ops1) raws = (acc', rej', ops')" using prod_cases3 by blast
  then obtain a' r' p' where b: "acc' = acc1 @ a'" "rej' = rej1 @ r'" "ops' = ops1 @ p'" "set a' \<subseteq> set (map so_id ops')"
      "distinct (map so_id ops1) \<longrightarrow> distinct (map so_id ops')" using Cons.IH [of acc1 rej1 ops1] unfolding f prod.case by blast
  have run: "foldl (scan_raw parse) (acc, rej, ops) (raw # raws) = (acc', rej', ops')" using s f by simp
  show ?case
    unfolding run prod.case
  proof (intro conjI exI)
    show "acc' = acc @ (a @ a')" "rej' = rej @ (r @ r')" "ops' = ops @ (p @ p')" using a b by simp_all
    show "set (a @ a') \<subseteq> set (map so_id ops')" using a(4) b(3,4) by auto
    show "distinct (map so_id ops) \<longrightarrow> distinct (map so_id ops')" using a(5) b(5) by blast
  qed
qed simp

lemma scan_batch_parts:
  assumes "scan_batch parse raws = (acc, rej, ops)"
  shows "distinct (map so_id ops)" "set acc \<subseteq> set (map so_id ops)"
  using scan_run [where parse = parse and acc = "[]" and rej = "[]" and ops = "[]" and raws = raws] assms
  by (auto simp: scan_batch_def)

subsection \<open>The gate\<close>

definition known_op :: "stored_op list \<Rightarrow> sync_op \<Rightarrow> bool" where
  "known_op T p \<longleftrightarrow> in_log T (so_id p) (so_device p) (so_counter p)"

lemma known_rows_op: "p \<in> set ops \<Longrightarrow> known_op (known_rows d ops) p \<longleftrightarrow> known_op (db_ops d) p"
  by (force simp: known_op_def in_log_def known_rows_def)

lemma gate_step_known:
  "gate_step V b a known g p = (if known_op known p then Inr (g\<lparr>gs_accepted := gs_accepted g @ [so_id p]\<rparr>) else gate_op V b a g p)"
  by (auto simp: gate_step_def known_op_def in_log_def)

text \<open>What one operation may do to the gate: it is admitted, or rejected, and a submission may be opened for
  it as a draft. The submissions the gate knows are those of the database.\<close>

definition gate_inv :: "gate_state \<Rightarrow> bool" where
  "gate_inv g \<longleftrightarrow> (\<forall>s row. map_of (gs_submissions g) s = Some row \<longrightarrow> map_of (db_submissions (gs_db g)) s = Some row) \<and>
     distinct (map fst (db_submissions (gs_db g)))"

definition may_write :: "(string \<times> submission_row) list \<Rightarrow> sync_op \<Rightarrow> bool" where
  "may_write subs p \<longleftrightarrow> (\<exists>row. map_of subs (so_submission p) = Some row \<and> sb_status row \<notin> set CLOSED)"

definition gate_rel :: "gate_state \<Rightarrow> gate_state \<Rightarrow> bool" where
  "gate_rel g g' \<longleftrightarrow>
     (\<exists>new. gs_db g' = (gs_db g)\<lparr>db_submissions := db_submissions (gs_db g) @ new\<rparr> \<and>
        gs_submissions g' = gs_submissions g @ new \<and> list_all (\<lambda>(s, row). sb_status row = ''draft'') new) \<and>
     (\<exists>a r m. gs_accepted g' = gs_accepted g @ a \<and> gs_rejected g' = gs_rejected g @ r \<and>
        gs_admitted g' = gs_admitted g @ m)"

lemma gate_rel_refl: "gate_rel g g"
  by (auto simp: gate_rel_def intro!: exI [of _ "[]"])

lemma gate_rel_trans: "gate_rel g g' \<Longrightarrow> gate_rel g' g'' \<Longrightarrow> gate_rel g g''"
  unfolding gate_rel_def by (elim conjE exE, intro conjI) (auto simp: list_all_append)

definition rejects :: "rejected_op list \<Rightarrow> sync_op \<Rightarrow> bool" where
  "rejects rs p \<longleftrightarrow> (\<exists>why. \<lparr>rj_id = Some (so_id p), rj_reason = why\<rparr> \<in> set rs)"

lemma map_of_snoc: "map_of (xs @ [(k, v)]) s = (case map_of xs s of None \<Rightarrow> if s = k then Some v else None | Some x \<Rightarrow> Some x)"
  by (induction xs) auto

lemma draft_open: "''draft'' \<notin> set CLOSED"
  by code_simp

lemma gate_op_cases:
  assumes "gate_op V b a g p = Inr g'"
  obtains (rejected) x why where "g' = reject (g\<lparr>gs_attributed := x\<rparr>) p why"
  | (admitted) x s where "g' = admit (g\<lparr>gs_attributed := x\<rparr>) p" "map_of (gs_submissions g) (so_submission p) = Some s"
      "sb_status s \<notin> set CLOSED"
  | (opened) x row where "g' = admit (g\<lparr>gs_attributed := x, gs_db := (gs_db g)\<lparr>db_submissions := db_submissions (gs_db g) @ [(so_submission p, row)]\<rparr>,
        gs_submissions := gs_submissions g @ [(so_submission p, row)]\<rparr>) p"
      "\<not> has_key (db_submissions (gs_db g)) (so_submission p)" "sb_status row = ''draft''"
proof -
  note here = rejected [of "gs_attributed g"]
  show thesis
  proof (cases "map_of (db_devices (gs_db g)) (so_device p)")
    case None
    then show thesis using assms here by (auto simp: gate_op_def)
  next
    case (Some device)
    note dev = this
    show thesis
    proof (cases "attribute p device b a")
      case (Inl why)
      then show thesis using assms dev here by (auto simp: gate_op_def split: if_splits)
    next
      case (Inr x)
      show thesis
      proof (cases "dv_revoked device \<or> sv_version V (dv_project device) (so_form p) (so_version p) = None")
        case True
        then have "g' = reject g p ''not_authorized'' \<or> g' = reject (g\<lparr>gs_attributed := x\<rparr>) p ''unknown_form_version''"
          using assms dev Inr by (simp add: gate_op_def split: if_splits)
        then show thesis using rejected [of x] here by auto
      next
        case False
        then obtain fv where fv: "\<not> dv_revoked device" "sv_version V (dv_project device) (so_form p) (so_version p) = Some fv" by auto
        show thesis
        proof (cases "map_of (gs_submissions g) (so_submission p)")
          case None
          then have o: "open_submission V (g\<lparr>gs_attributed := x\<rparr>) p device fv = Inr g'"
            using assms dev Inr fv by (simp add: gate_op_def)
          then show thesis using rejected opened
            by (auto simp: open_submission_def Let_def new_submission_def split: option.splits if_splits)
        next
          case (Some s)
          then have "(\<exists>why. g' = reject (g\<lparr>gs_attributed := x\<rparr>) p why) \<or>
              (g' = admit (g\<lparr>gs_attributed := x\<rparr>) p \<and> sb_status s \<notin> set CLOSED)"
            using assms dev Inr fv by (simp add: gate_op_def Let_def) (metis (lifting))
          then show thesis using rejected [of x] admitted [of x s] Some by blast
        qed
      qed
    qed
  qed
qed

lemma gate_op_step:
  assumes "gate_op V b a g p = Inr g'" "gate_inv g"
  shows "gate_rel g g' \<and> gate_inv g' \<and>
    ((gs_admitted g' = gs_admitted g \<and> rejects (gs_rejected g') p) \<or>
     (gs_admitted g' = gs_admitted g @ [p] \<and> may_write (db_submissions (gs_db g')) p))"
  using assms(1)
proof (cases rule: gate_op_cases)
  case (rejected x why)
  then have "rejects (gs_rejected g') p" by (auto simp: reject_def rejects_def)
  with rejected assms(2) show ?thesis
    by (auto simp: reject_def gate_rel_def gate_inv_def intro!: exI [of _ "[]"])
next
  case (admitted x s)
  then show ?thesis using assms(2)
    by (auto simp: admit_def gate_rel_def gate_inv_def may_write_def intro!: exI [of _ "[]"])
next
  case (opened x row)
  then have "map_of (db_submissions (gs_db g)) (so_submission p) = None" by simp
  note fresh = this
  have "gate_rel g g'" using opened by (auto simp: admit_def gate_rel_def intro!: exI [of _ "[(so_submission p, row)]"])
  moreover have "gate_inv g'"
    unfolding gate_inv_def
  proof (intro conjI allI impI)
    fix s row' assume "map_of (gs_submissions g') s = Some row'"
    then have "map_of (gs_submissions g) s = Some row' \<or> (s = so_submission p \<and> row' = row)"
      using opened(1) by (auto simp: admit_def map_of_snoc simp del: map_of_append split: option.splits if_splits)
    moreover have "map_of (gs_submissions g) s = Some row' \<Longrightarrow> map_of (db_submissions (gs_db g)) s = Some row'"
      using assms(2) unfolding gate_inv_def by blast
    ultimately show "map_of (db_submissions (gs_db g')) s = Some row'"
      using opened(1) fresh by (auto simp: admit_def map_of_snoc simp del: map_of_append)
  next
    show "distinct (map fst (db_submissions (gs_db g')))"
      using assms(2) opened(1) fresh by (auto simp: admit_def gate_inv_def map_of_eq_None_iff)
  qed
  moreover have "may_write (db_submissions (gs_db g')) p"
    using opened(1,3) fresh draft_open by (simp add: admit_def may_write_def map_of_snoc del: map_of_append)
  ultimately show ?thesis using opened(1) by (simp add: admit_def)
qed

lemma may_write_append: "may_write subs p \<Longrightarrow> may_write (subs @ new) p"
  by (auto simp: may_write_def map_add_def split: option.splits)

lemma gate_rel_may_write: "gate_rel g g' \<Longrightarrow> may_write (db_submissions (gs_db g)) p \<Longrightarrow> may_write (db_submissions (gs_db g')) p"
  using may_write_append by (auto simp: gate_rel_def)

text \<open>Every operation that passes the gate is known, admitted or rejected.\<close>

lemma gate_run:
  assumes "foldM (gate_step V b a known) g ops = Inr g'" "gate_inv g"
  shows "gate_rel g g' \<and> gate_inv g' \<and> set (gs_admitted g') \<subseteq> set (gs_admitted g) \<union> {p \<in> set ops. \<not> known_op known p} \<and>
    (\<forall>p \<in> set (gs_admitted g'). p \<in> set (gs_admitted g) \<or> may_write (db_submissions (gs_db g')) p) \<and>
    (\<forall>p \<in> set ops. (known_op known p \<and> so_id p \<in> set (gs_accepted g')) \<or> p \<in> set (gs_admitted g') \<or> rejects (gs_rejected g') p)"
  using assms
proof (induction ops arbitrary: g)
  case Nil
  then show ?case by (simp add: gate_rel_refl)
next
  case (Cons p ops)
  then obtain g1 where s: "gate_step V b a known g p = Inr g1" "foldM (gate_step V b a known) g1 ops = Inr g'"
    by (auto simp: rbind_Inr_iff)
  have one: "gate_rel g g1 \<and> gate_inv g1 \<and>
      ((known_op known p \<and> gs_admitted g1 = gs_admitted g \<and> so_id p \<in> set (gs_accepted g1)) \<or>
       (\<not> known_op known p \<and> gs_admitted g1 = gs_admitted g \<and> rejects (gs_rejected g1) p) \<or>
       (\<not> known_op known p \<and> gs_admitted g1 = gs_admitted g @ [p] \<and> may_write (db_submissions (gs_db g1)) p))"
  proof (cases "known_op known p")
    case True
    then have "g1 = g\<lparr>gs_accepted := gs_accepted g @ [so_id p]\<rparr>" using s(1) by (simp add: gate_step_known)
    with True Cons.prems(2) show ?thesis by (auto simp: gate_rel_def gate_inv_def intro!: exI [of _ "[]"])
  next
    case False
    then show ?thesis using gate_op_step [OF _ Cons.prems(2)] s(1) by (auto simp: gate_step_known)
  qed
  note rest = Cons.IH [OF s(2)]
  have rel: "gate_rel g1 g'" using rest one by blast
  have keeps: "so_id p \<in> set (gs_accepted g1) \<Longrightarrow> so_id p \<in> set (gs_accepted g')"
    "rejects (gs_rejected g1) p \<Longrightarrow> rejects (gs_rejected g') p" "p \<in> set (gs_admitted g1) \<Longrightarrow> p \<in> set (gs_admitted g')"
    "may_write (db_submissions (gs_db g1)) p \<Longrightarrow> may_write (db_submissions (gs_db g')) p"
    using rel gate_rel_may_write [OF rel] by (auto simp: gate_rel_def rejects_def)
  have "gate_rel g g'" using one rel gate_rel_trans by blast
  then show ?case using one rest keeps by auto
qed

subsection \<open>The crypto gate\<close>

lemma crypto_step_cases:
  obtains (refused) why where "crypto_step V d ks a c p = c\<lparr>cs_rejected := cs_rejected c @ [\<lparr>rj_id = Some (so_id p), rj_reason = why\<rparr>]\<rparr>"
  | (replayed) t where "(so_device p, so_counter p) \<in> set (cs_counters c)"
      "crypto_step V d ks a c p = c\<lparr>cs_taken := t, cs_accepted := cs_accepted c @ [so_id p]\<rparr>"
  | (stored) t tombs n where "(so_device p, so_counter p) \<notin> set (cs_counters c)" "crypto_refusal ks c p = None"
      "crypto_step V d ks a c p = c\<lparr>cs_taken := t, cs_counters := (so_device p, so_counter p) # cs_counters c,
         cs_insert := cs_insert c @ [stored_of a p], cs_tombstones := tombs, cs_ids := n,
         cs_touched := touch (so_submission p) (so_id p) (cs_touched c), cs_accepted := cs_accepted c @ [so_id p]\<rparr>"
  by (cases "crypto_refusal ks c p"; cases "(so_device p, so_counter p) \<in> set (cs_counters c)")
    (auto simp: crypto_step_def Let_def)

lemma stored_of_fields [simp]:
  "st_id (stored_of a p) = so_id p" "op_device (stored_of a p) = so_device p" "op_counter (stored_of a p) = so_counter p"
  "st_submission (stored_of a p) = so_submission p"
  by (simp_all add: stored_of_def)

text \<open>Every admitted operation is rejected, is to be inserted, or repeats a counter that is known or taken.\<close>

definition own_key :: "(string \<times> string) list \<Rightarrow> sync_op \<Rightarrow> bool" where
  "own_key ks p \<longleftrightarrow> (\<forall>k n. nonce_pair p = Some (k, n) \<longrightarrow> map_of ks k = Some (so_submission p))"

definition touched_op :: "(string \<times> string list) list \<Rightarrow> string \<Rightarrow> string \<Rightarrow> bool" where
  "touched_op xs s i \<longleftrightarrow> (\<exists>ids. map_of xs s = Some ids \<and> i \<in> set ids)"

lemma touched_op_touch: "touched_op (touch s i xs) s' i' \<longleftrightarrow> touched_op xs s' i' \<or> (s' = s \<and> i' = i)"
  by (cases "map_of xs s") (auto simp: touched_op_def touch_def update_conv')

definition crypto_rel :: "(string \<times> string) list \<Rightarrow> string option \<Rightarrow> sync_op list \<Rightarrow> crypto_state \<Rightarrow> crypto_state \<Rightarrow> bool" where
  "crypto_rel ks a ops c c' \<longleftrightarrow>
     (\<exists>ins acc rej. cs_insert c' = cs_insert c @ ins \<and> cs_accepted c' = cs_accepted c @ acc \<and> cs_rejected c' = cs_rejected c @ rej \<and>
        set ins \<subseteq> stored_of a ` {p \<in> set ops. own_key ks p} \<and>
        set (cs_counters c') = set (cs_counters c) \<union> (\<lambda>r. (op_device r, op_counter r)) ` set ins \<and>
        (distinct (map so_id ops) \<longrightarrow> distinct (map st_id ins)) \<and>
        (\<forall>s i. touched_op (cs_touched c') s i \<longleftrightarrow> touched_op (cs_touched c) s i \<or> (s, i) \<in> (\<lambda>r. (st_submission r, st_id r)) ` set ins)) \<and>
     (\<forall>p \<in> set ops. rejects (cs_rejected c') p \<or> (so_id p \<in> set (cs_accepted c') \<and> (so_device p, so_counter p) \<in> set (cs_counters c'))) \<and>
     (distinct (map fst (cs_touched c)) \<longrightarrow> distinct (map fst (cs_touched c'))) \<and>
     set (map fst (cs_touched c')) \<subseteq> set (map fst (cs_touched c)) \<union> so_submission ` set ops"

lemma crypto_rel_step: "crypto_rel ks a [p] c (crypto_step V d ks a c p)"
proof -
  have keys: "map fst (touch s i xs) = (if s \<in> set (map fst xs) then map fst xs else map fst xs @ [s])" for s i xs
    by (simp add: touch_def update_keys)
  have own: "crypto_refusal ks c p = None \<Longrightarrow> own_key ks p"
    by (auto simp: crypto_refusal_def own_key_def split: if_splits)
  show ?thesis
    by (cases rule: crypto_step_cases [of V d ks a c p]) (auto simp: crypto_rel_def rejects_def keys own touched_op_touch)
qed

lemma crypto_rel_trans:
  assumes "crypto_rel ks a xs c c1" "crypto_rel ks a ys c1 c2"
  shows "crypto_rel ks a (xs @ ys) c c2"
proof -
  obtain ins acc rej where i:
      "cs_insert c1 = cs_insert c @ ins" "cs_accepted c1 = cs_accepted c @ acc" "cs_rejected c1 = cs_rejected c @ rej"
      "set ins \<subseteq> stored_of a ` {p \<in> set xs. own_key ks p}" "set (cs_counters c1) = set (cs_counters c) \<union> (\<lambda>r. (op_device r, op_counter r)) ` set ins"
      "distinct (map so_id xs) \<longrightarrow> distinct (map st_id ins)"
      "\<forall>s i. touched_op (cs_touched c1) s i \<longleftrightarrow> touched_op (cs_touched c) s i \<or> (s, i) \<in> (\<lambda>r. (st_submission r, st_id r)) ` set ins"
      "\<forall>p \<in> set xs. rejects (cs_rejected c1) p \<or> (so_id p \<in> set (cs_accepted c1) \<and> (so_device p, so_counter p) \<in> set (cs_counters c1))"
      "distinct (map fst (cs_touched c)) \<longrightarrow> distinct (map fst (cs_touched c1))"
      "set (map fst (cs_touched c1)) \<subseteq> set (map fst (cs_touched c)) \<union> so_submission ` set xs"
    using assms(1) unfolding crypto_rel_def by (elim conjE exE) (rule that)
  obtain ins' acc' rej' where k:
      "cs_insert c2 = cs_insert c1 @ ins'" "cs_accepted c2 = cs_accepted c1 @ acc'" "cs_rejected c2 = cs_rejected c1 @ rej'"
      "set ins' \<subseteq> stored_of a ` {p \<in> set ys. own_key ks p}" "set (cs_counters c2) = set (cs_counters c1) \<union> (\<lambda>r. (op_device r, op_counter r)) ` set ins'"
      "distinct (map so_id ys) \<longrightarrow> distinct (map st_id ins')"
      "\<forall>s i. touched_op (cs_touched c2) s i \<longleftrightarrow> touched_op (cs_touched c1) s i \<or> (s, i) \<in> (\<lambda>r. (st_submission r, st_id r)) ` set ins'"
      "\<forall>p \<in> set ys. rejects (cs_rejected c2) p \<or> (so_id p \<in> set (cs_accepted c2) \<and> (so_device p, so_counter p) \<in> set (cs_counters c2))"
      "distinct (map fst (cs_touched c1)) \<longrightarrow> distinct (map fst (cs_touched c2))"
      "set (map fst (cs_touched c2)) \<subseteq> set (map fst (cs_touched c1)) \<union> so_submission ` set ys"
    using assms(2) unfolding crypto_rel_def by (elim conjE exE) (rule that)
  have "\<exists>ins acc rej. cs_insert c2 = cs_insert c @ ins \<and> cs_accepted c2 = cs_accepted c @ acc \<and> cs_rejected c2 = cs_rejected c @ rej \<and>
        set ins \<subseteq> stored_of a ` {p \<in> set (xs @ ys). own_key ks p} \<and>
        set (cs_counters c2) = set (cs_counters c) \<union> (\<lambda>r. (op_device r, op_counter r)) ` set ins \<and>
        (distinct (map so_id (xs @ ys)) \<longrightarrow> distinct (map st_id ins)) \<and>
        (\<forall>s i. touched_op (cs_touched c2) s i \<longleftrightarrow> touched_op (cs_touched c) s i \<or> (s, i) \<in> (\<lambda>r. (st_submission r, st_id r)) ` set ins)"
  proof (intro exI conjI)
    show "cs_insert c2 = cs_insert c @ (ins @ ins')" "cs_accepted c2 = cs_accepted c @ (acc @ acc')"
      "cs_rejected c2 = cs_rejected c @ (rej @ rej')" using i k by simp_all
    show sub: "set (ins @ ins') \<subseteq> stored_of a ` {p \<in> set (xs @ ys). own_key ks p}" using i(4) k(4) by auto
    show "set (cs_counters c2) = set (cs_counters c) \<union> (\<lambda>r. (op_device r, op_counter r)) ` set (ins @ ins')" using i(5) k(5) by auto
    have "st_id ` set ins \<subseteq> so_id ` set xs" "st_id ` set ins' \<subseteq> so_id ` set ys" using i(4) k(4) by force+
    then show "distinct (map so_id (xs @ ys)) \<longrightarrow> distinct (map st_id (ins @ ins'))" using i(6) k(6) by auto
    show "\<forall>s i. touched_op (cs_touched c2) s i \<longleftrightarrow> touched_op (cs_touched c) s i \<or> (s, i) \<in> (\<lambda>r. (st_submission r, st_id r)) ` set (ins @ ins')"
      using i(7) k(7) by (simp add: image_Un)
  qed
  moreover have "\<forall>p \<in> set (xs @ ys). rejects (cs_rejected c2) p \<or>
      (so_id p \<in> set (cs_accepted c2) \<and> (so_device p, so_counter p) \<in> set (cs_counters c2))"
  proof
    fix p assume "p \<in> set (xs @ ys)"
    moreover have "rejects (cs_rejected c1) p \<Longrightarrow> rejects (cs_rejected c2) p" "set (cs_accepted c1) \<subseteq> set (cs_accepted c2)"
      "set (cs_counters c1) \<subseteq> set (cs_counters c2)"
      unfolding k(2,3,5) by (auto simp: rejects_def)
    ultimately show "rejects (cs_rejected c2) p \<or>
        (so_id p \<in> set (cs_accepted c2) \<and> (so_device p, so_counter p) \<in> set (cs_counters c2))"
      using i(8) k(8) unfolding set_append by blast
  qed
  moreover have "distinct (map fst (cs_touched c)) \<longrightarrow> distinct (map fst (cs_touched c2))" using i(9) k(9) by blast
  moreover have "set (map fst (cs_touched c2)) \<subseteq> set (map fst (cs_touched c)) \<union> so_submission ` set (xs @ ys)"
    using i(10) k(10) unfolding set_append image_Un by blast
  ultimately show ?thesis unfolding crypto_rel_def by (intro conjI)
qed

lemma crypto_run: "crypto_rel ks a ops c (foldl (crypto_step V d ks a) c ops)"
proof (induction ops arbitrary: c)
  case Nil
  then show ?case by (simp add: crypto_rel_def)
next
  case (Cons p ops)
  then show ?case using crypto_rel_trans [OF crypto_rel_step [of ks a p c V d]] by simp
qed

subsection \<open>Content keys\<close>

definition keyed :: "key_row list \<Rightarrow> string \<Rightarrow> string \<Rightarrow> bool" where
  "keyed rows k s \<longleftrightarrow> (\<exists>row \<in> set rows. kr_id row = k \<and> kr_submission row = s)"

lemma admit_key_step:
  assumes "admit_key V d subs stored k key = Inr k'" "\<And>i s. map_of stored i = Some s \<Longrightarrow> keyed (ks_keys k) i s"
    and "\<And>i s. map_of (ks_admitted k) i = Some s \<Longrightarrow> keyed (ks_keys k) i s"
  shows "set (ks_keys k) \<subseteq> set (ks_keys k') \<and> (\<forall>i s. map_of (ks_admitted k') i = Some s \<longrightarrow> keyed (ks_keys k') i s)"
proof (cases "map_of stored (ck_id key)")
  case (Some s)
  then have "k' = k\<lparr>ks_admitted := AList.update (ck_id key) s (ks_admitted k)\<rparr>" using assms(1) by (simp add: admit_key_def)
  then show ?thesis using assms(2) [OF Some] assms(3) by (auto simp: update_conv')
next
  case None
  then show ?thesis using assms(1,3) by (auto simp: admit_key_def update_conv' keyed_def split: if_splits)
qed

lemma admit_content_keys_run:
  assumes "admit_content_keys V d subs raw_keys = Inr (admitted, d1)"
  shows "\<exists>keys wraps. d1 = d\<lparr>db_keys := keys, db_wraps := wraps\<rparr> \<and> set (db_keys d) \<subseteq> set keys \<and>
    (\<forall>i s. map_of admitted i = Some s \<longrightarrow> keyed keys i s)"
proof -
  let ?ex = "filter (\<lambda>r. kr_submission r \<in> set (map ck_submission raw_keys)) (db_keys d)"
  let ?stored = "map (\<lambda>r. (kr_id r, kr_submission r)) ?ex"
  let ?I = "\<lambda>k. set (db_keys d) \<subseteq> set (ks_keys k) \<and> (\<forall>i s. map_of (ks_admitted k) i = Some s \<longrightarrow> keyed (ks_keys k) i s)"
  obtain k where f: "foldM (admit_key V d subs ?stored) \<lparr>ks_keys = db_keys d, ks_wraps = db_wraps d,
      ks_owners = map (\<lambda>r. (kr_submission r, kr_device r)) ?ex, ks_admitted = []\<rparr> raw_keys = Inr k"
    and k: "admitted = ks_admitted k" "d1 = d\<lparr>db_keys := ks_keys k, db_wraps := ks_wraps k\<rparr>"
    using assms by (auto simp: admit_content_keys_def Let_def rbind_Inr_iff)
  have stored: "keyed rows i s" if "map_of ?stored i = Some s" "set (db_keys d) \<subseteq> set rows" for i s rows
    using map_of_SomeD [OF that(1)] that(2) by (auto simp: keyed_def)
  have "?I k"
  proof (rule foldM_invariant [where I = ?I, OF _ _ f])
    fix k1 key k2 assume I: "?I k1" and s: "admit_key V d subs ?stored k1 key = Inr k2"
    have "set (ks_keys k1) \<subseteq> set (ks_keys k2) \<and> (\<forall>i s. map_of (ks_admitted k2) i = Some s \<longrightarrow> keyed (ks_keys k2) i s)"
      by (rule admit_key_step [OF s]) (use I stored in blast)+
    then show "?I k2" using I by blast
  qed simp
  then show ?thesis using k by blast
qed

lemma own_key_keyed:
  assumes "\<And>i s. map_of admitted i = Some s \<Longrightarrow> keyed (db_keys d) i s"
    and "map_of (dict_update admitted (stored_content_keys d wanted)) k = Some s"
  shows "keyed (db_keys d) k s"
proof -
  have "map_of (dict_update al xs) k = Some s \<Longrightarrow> map_of al k = Some s \<or> (k, s) \<in> set xs" for al xs :: "(string \<times> string) list"
  proof (induction xs arbitrary: al)
    case (Cons x xs)
    then show ?case using Cons.IH [of "AList.update (fst x) (snd x) al"]
      by (cases x) (auto simp: dict_update_def update_conv' split: if_splits)
  qed (simp add: dict_update_def)
  from this [OF assms(2)] show ?thesis
    using assms(1) by (auto simp: stored_content_keys_def keyed_def)
qed

end
