(* ===== verification/Sync_Props.thy ===== *)
theory Sync_Props
  imports Sync_Laws
begin

text \<open>
  What one push promises, over both halves of it: the checks and the writes.
\<close>

subsection \<open>The first half\<close>

definition batch_row :: "(dict \<Rightarrow> sync_op option) \<Rightarrow> push_request \<Rightarrow> db \<Rightarrow> db \<Rightarrow> stored_op \<Rightarrow> bool" where
  "batch_row parse q d d1 r \<longleftrightarrow> (\<exists>a. \<exists>p \<in> set (batch_ops parse q). r = stored_of a p \<and> \<not> known_op (db_ops d) p \<and>
     may_write (db_submissions d1) p \<and> (\<forall>k n. nonce_pair p = Some (k, n) \<longrightarrow> keyed (db_keys d1) k (so_submission p)))"

lemma map_of_visible: "map_of (filter (\<lambda>(s, row). P s) xs) s = (if P s then map_of xs s else None)"
  by (induction xs) auto

lemma check_batch_gate:
  assumes "check_batch V parse q d = Inr (c, d1)" "distinct (map fst (db_submissions d))"
  obtains g keys wraps ks new where
    "foldM (gate_step V (pq_device q) (pq_actor q) (known_rows d (batch_ops parse q)))
       \<lparr>gs_db = d, gs_submissions = filter (\<lambda>(s, row). sv_visible V s) (db_submissions d), gs_attributed = None,
        gs_accepted = fst (scan_batch parse (pq_ops q)), gs_rejected = fst (snd (scan_batch parse (pq_ops q))),
        gs_admitted = []\<rparr> (batch_ops parse q) = Inr g"
    "admit_content_keys V (gs_db g) (gs_submissions g) (pq_keys q) = Inr (ks, d1)"
    "c = foldl (crypto_step V d1 (dict_update ks (stored_content_keys d1
          (List.map_filter (\<lambda>p. if is_encrypted p then so_content_key p else None) (gs_admitted g)))) (gs_attributed g))
        \<lparr>cs_taken = taken_nonces d1 (gs_admitted g),
         cs_counters = map (\<lambda>r. (op_device r, op_counter r)) (known_rows d (batch_ops parse q)),
         cs_accepted = gs_accepted g, cs_rejected = gs_rejected g, cs_insert = [], cs_tombstones = [],
         cs_touched = [], cs_ids = db_ids d1\<rparr> (gs_admitted g)"
    "gs_db g = d\<lparr>db_submissions := db_submissions d @ new\<rparr>" "list_all (\<lambda>(s, row). sb_status row = ''draft'') new"
    "gs_submissions g = filter (\<lambda>(s, row). sv_visible V s) (db_submissions d) @ new"
    "d1 = (gs_db g)\<lparr>db_keys := keys, db_wraps := wraps\<rparr>" "gate_inv g"
proof -
  obtain acc rej ops where sc: "scan_batch parse (pq_ops q) = (acc, rej, ops)" using prod_cases3 by blast
  let ?g = "\<lparr>gs_db = d, gs_submissions = filter (\<lambda>(s, row). sv_visible V s) (db_submissions d), gs_attributed = None,
      gs_accepted = acc, gs_rejected = rej, gs_admitted = []\<rparr>"
  obtain g ks where g: "foldM (gate_step V (pq_device q) (pq_actor q) (known_rows d ops)) ?g ops = Inr g"
    and k: "admit_content_keys V (gs_db g) (gs_submissions g) (pq_keys q) = Inr (ks, d1)"
    and c: "c = foldl (crypto_step V d1 (dict_update ks (stored_content_keys d1
          (List.map_filter (\<lambda>p. if is_encrypted p then so_content_key p else None) (gs_admitted g)))) (gs_attributed g))
        \<lparr>cs_taken = taken_nonces d1 (gs_admitted g),
         cs_counters = map (\<lambda>r. (op_device r, op_counter r)) (known_rows d ops),
         cs_accepted = gs_accepted g, cs_rejected = gs_rejected g, cs_insert = [], cs_tombstones = [],
         cs_touched = [], cs_ids = db_ids d1\<rparr> (gs_admitted g)"
    using assms(1) unfolding check_batch_def sc Let_def prod.case rbind_Inr_iff
    by (elim exE conjE) (simp add: that split: prod.splits)
  have inv: "gate_inv ?g"
    using assms(2) by (simp add: gate_inv_def map_of_visible)
  have run: "gate_rel ?g g" "gate_inv g" using gate_run [OF g inv] by blast+
  obtain new where new: "gs_db g = d\<lparr>db_submissions := db_submissions d @ new\<rparr>"
      "gs_submissions g = filter (\<lambda>(s, row). sv_visible V s) (db_submissions d) @ new"
      "list_all (\<lambda>(s, row). sb_status row = ''draft'') new"
    using run(1) unfolding gate_rel_def by (elim conjE exE) (simp add: that)
  obtain keys wraps where d1: "d1 = (gs_db g)\<lparr>db_keys := keys, db_wraps := wraps\<rparr>"
    using admit_content_keys_run [OF k] by blast
  show thesis by (rule that [unfolded sc, simplified, OF g k c new(1,3,2) d1 run(2)])
qed

lemma gate_distinct:
  assumes "foldM (gate_step V b a known) g ops = Inr g'"
  shows "distinct (map so_id (gs_admitted g @ ops)) \<longrightarrow> distinct (map so_id (gs_admitted g'))"
  using assms
proof (induction ops arbitrary: g)
  case (Cons p ops)
  then obtain g1 where s: "gate_step V b a known g p = Inr g1" "foldM (gate_step V b a known) g1 ops = Inr g'"
    by (auto simp: rbind_Inr_iff)
  have "gs_admitted g1 = gs_admitted g \<or> gs_admitted g1 = gs_admitted g @ [p]"
  proof (cases "known_op known p")
    case False
    then have "gate_op V b a g p = Inr g1" using s(1) by (simp add: gate_step_known)
    then show ?thesis by (cases rule: gate_op_cases) (auto simp: admit_def reject_def)
  qed (use s(1) in \<open>auto simp: gate_step_known\<close>)
  then show ?case
  proof
    assume same: "gs_admitted g1 = gs_admitted g"
    have "distinct (map so_id (gs_admitted g @ p # ops)) \<Longrightarrow> distinct (map so_id (gs_admitted g @ ops))" by auto
    then show ?thesis using Cons.IH [OF s(2)] unfolding same by blast
  next
    assume more: "gs_admitted g1 = gs_admitted g @ [p]"
    show ?thesis using Cons.IH [OF s(2)] unfolding more by simp
  qed
qed simp

lemma check_batch_run:
  assumes "check_batch V parse q d = Inr (c, d1)" "distinct (map fst (db_submissions d))"
  shows "\<exists>new keys wraps. d1 = d\<lparr>db_submissions := db_submissions d @ new, db_keys := keys, db_wraps := wraps\<rparr> \<and>
      list_all (\<lambda>(s, row). sb_status row = ''draft'') new \<and> set (db_keys d) \<subseteq> set keys \<and> distinct (map fst (db_submissions d1))"
    and "\<forall>r \<in> set (cs_insert c). batch_row parse q d d1 r" "distinct (map st_id (cs_insert c))"
    and "\<forall>p \<in> set (batch_ops parse q). rejects (cs_rejected c) p \<or> (so_id p \<in> set (cs_accepted c) \<and>
      (known_op (db_ops d) p \<or> (so_device p, so_counter p) \<in> (\<lambda>r. (op_device r, op_counter r)) ` set (cs_insert c)))"
    and "distinct (map fst (cs_touched c))"
    "\<forall>s i. touched_op (cs_touched c) s i \<longleftrightarrow> (s, i) \<in> (\<lambda>r. (st_submission r, st_id r)) ` set (cs_insert c)"
    "\<forall>s \<in> set (map fst (cs_touched c)). \<exists>row. map_of (db_submissions d1) s = Some row \<and> sb_status row \<notin> set CLOSED"
proof -
  let ?ops = "batch_ops parse q" and ?known = "known_rows d (batch_ops parse q)"
  let ?g = "\<lparr>gs_db = d, gs_submissions = filter (\<lambda>(s, row). sv_visible V s) (db_submissions d), gs_attributed = None,
      gs_accepted = fst (scan_batch parse (pq_ops q)), gs_rejected = fst (snd (scan_batch parse (pq_ops q))), gs_admitted = []\<rparr>"
  obtain g keys wraps ks new where g: "foldM (gate_step V (pq_device q) (pq_actor q) ?known) ?g ?ops = Inr g"
    and k: "admit_content_keys V (gs_db g) (gs_submissions g) (pq_keys q) = Inr (ks, d1)"
    and c: "c = foldl (crypto_step V d1 (dict_update ks (stored_content_keys d1
          (List.map_filter (\<lambda>p. if is_encrypted p then so_content_key p else None) (gs_admitted g)))) (gs_attributed g))
        \<lparr>cs_taken = taken_nonces d1 (gs_admitted g), cs_counters = map (\<lambda>r. (op_device r, op_counter r)) ?known,
         cs_accepted = gs_accepted g, cs_rejected = gs_rejected g, cs_insert = [], cs_tombstones = [],
         cs_touched = [], cs_ids = db_ids d1\<rparr> (gs_admitted g)" (is "c = foldl (crypto_step V d1 ?ks ?a) ?c _")
    and db: "gs_db g = d\<lparr>db_submissions := db_submissions d @ new\<rparr>" "list_all (\<lambda>(s, row). sb_status row = ''draft'') new"
      "gs_submissions g = filter (\<lambda>(s, row). sv_visible V s) (db_submissions d) @ new"
      "d1 = (gs_db g)\<lparr>db_keys := keys, db_wraps := wraps\<rparr>" "gate_inv g"
    by (rule check_batch_gate [OF assms])
  have inv: "gate_inv ?g" using assms(2) by (simp add: gate_inv_def map_of_visible)
  note gate = gate_run [OF g inv, simplified]
  have subs: "db_submissions d1 = db_submissions (gs_db g)" using db(4) by simp
  have "\<exists>keys'. db_keys d1 = keys' \<and> set (db_keys (gs_db g)) \<subseteq> set keys' \<and> (\<forall>i s. map_of ks i = Some s \<longrightarrow> keyed keys' i s)"
    using admit_content_keys_run [OF k] by (elim exE conjE) simp
  moreover have "db_keys d1 = keys" "db_keys (gs_db g) = db_keys d" using db(1,4) by simp_all
  ultimately have keys: "set (db_keys d) \<subseteq> set keys" "map_of ks i = Some s \<Longrightarrow> keyed (db_keys d1) i s" for i s by simp_all
  show "\<exists>new keys wraps. d1 = d\<lparr>db_submissions := db_submissions d @ new, db_keys := keys, db_wraps := wraps\<rparr> \<and>
      list_all (\<lambda>(s, row). sb_status row = ''draft'') new \<and> set (db_keys d) \<subseteq> set keys \<and> distinct (map fst (db_submissions d1))"
    using db(5) unfolding gate_inv_def subs by (intro exI [of _ new] exI [of _ keys] exI [of _ wraps] conjI)
      (use db keys(1) in simp_all)
  have run: "crypto_rel ?ks ?a (gs_admitted g) ?c c" unfolding c by (rule crypto_run)
  have admitted: "set (gs_admitted g) \<subseteq> {p \<in> set ?ops. \<not> known_op ?known p}" using gate by simp
  show "\<forall>r \<in> set (cs_insert c). batch_row parse q d d1 r"
  proof
    fix r assume "r \<in> set (cs_insert c)"
    then obtain p where p: "p \<in> set (gs_admitted g)" "r = stored_of ?a p" "own_key ?ks p"
      using run unfolding crypto_rel_def by (elim conjE exE) (force simp: set_eq_iff)
    have "p \<in> set ?ops" "\<not> known_op (db_ops d) p" using p(1) admitted known_rows_op by blast+
    moreover have "may_write (db_submissions d1) p" using gate p(1) unfolding subs by blast
    moreover have "keyed (db_keys d1) k (so_submission p)" if "nonce_pair p = Some (k, n)" for k n
      using own_key_keyed [OF keys(2)] p(3) that unfolding own_key_def by blast
    ultimately show "batch_row parse q d d1 r" using p(2) unfolding batch_row_def by blast
  qed
  show "distinct (map st_id (cs_insert c))"
  proof -
    have "distinct (map so_id (gs_admitted g))"
      using gate_distinct [OF g]
      by (cases "scan_batch parse (pq_ops q)") (auto dest: scan_batch_parts(1))
    then show ?thesis using run unfolding crypto_rel_def by (elim conjE exE) simp
  qed
  show "\<forall>p \<in> set (batch_ops parse q). rejects (cs_rejected c) p \<or> (so_id p \<in> set (cs_accepted c) \<and>
      (known_op (db_ops d) p \<or> (so_device p, so_counter p) \<in> (\<lambda>r. (op_device r, op_counter r)) ` set (cs_insert c)))"
  proof
    fix p assume p: "p \<in> set ?ops"
    note cr = run [unfolded crypto_rel_def, simplified]
    from gate p consider "known_op ?known p" "so_id p \<in> set (gs_accepted g)" | "p \<in> set (gs_admitted g)" | "rejects (gs_rejected g) p" by blast
    then show "rejects (cs_rejected c) p \<or> (so_id p \<in> set (cs_accepted c) \<and>
      (known_op (db_ops d) p \<or> (so_device p, so_counter p) \<in> (\<lambda>r. (op_device r, op_counter r)) ` set (cs_insert c)))"
    proof cases
      case 1
      then show ?thesis using cr known_rows_op [OF p, of d] by auto
    next
      case 2
      moreover have "\<not> known_op ?known p" using 2 admitted by blast
      then have "(so_device p, so_counter p) \<notin> (\<lambda>r. (op_device r, op_counter r)) ` set ?known"
        by (simp add: known_op_def in_log_def)
      moreover have "set (cs_counters c) = (\<lambda>r. (op_device r, op_counter r)) ` set ?known \<union> (\<lambda>r. (op_device r, op_counter r)) ` set (cs_insert c)"
        using cr by (elim conjE exE) simp
      ultimately show ?thesis using cr by blast
    next
      case 3
      then show ?thesis using cr by (auto simp: rejects_def)
    qed
  qed
  show "distinct (map fst (cs_touched c))" using run by (simp add: crypto_rel_def)
  show "\<forall>s i. touched_op (cs_touched c) s i \<longleftrightarrow> (s, i) \<in> (\<lambda>r. (st_submission r, st_id r)) ` set (cs_insert c)"
    using run unfolding crypto_rel_def by (elim conjE exE) (simp add: touched_op_def)
  have "set (map fst (cs_touched c)) \<subseteq> so_submission ` set (gs_admitted g)" using run by (simp add: crypto_rel_def)
  moreover have "\<forall>p \<in> set (gs_admitted g). may_write (db_submissions d1) p" using gate unfolding subs by blast
  ultimately show "\<forall>s \<in> set (map fst (cs_touched c)). \<exists>row. map_of (db_submissions d1) s = Some row \<and> sb_status row \<notin> set CLOSED"
    unfolding may_write_def by blast
qed

subsection \<open>The second half\<close>

text \<open>What a device's push may do to a submission's row: nothing, or one move of the status machine by a
  device's event.\<close>

definition device_move :: "submission_row \<Rightarrow> submission_row \<Rightarrow> bool" where
  "device_move row row' \<longleftrightarrow> row' = row \<or> (\<exists>e \<in> set DEVICE_EVENTS. \<exists>status since.
     next_status (sb_status row) e = Inr status \<and> row' = row\<lparr>sb_status := status, sb_finalized_at := since\<rparr>)"

definition state_of :: "(string \<Rightarrow> int) \<Rightarrow> db \<Rightarrow> string \<Rightarrow> dict \<times> int" where
  "state_of C d s = (let folded = fold_ops (in_log_order C (ops_of d s)) in (fo_data folded, fo_high_water folded))"

lemma status_after_move: "status_after row folded = Inr row' \<Longrightarrow> device_move row row'"
  by (auto simp: status_after_def device_move_def split: option.splits sum.splits status_error.splits dest: device_event)

lemma settle_step:
  assumes "settle_submission V b d (s, ids) = Inr d'"
  shows "\<exists>row row' flags outbox n. map_of (db_submissions d) s = Some row \<and> device_move row row' \<and>
    d' = d\<lparr>db_submissions := AList.update s row' (db_submissions d), db_states := AList.update s (state_of (sv_collate V) d s) (db_states d),
      db_flags := flags, db_outbox := outbox, db_ids := n\<rparr>"
proof -
  obtain folded d1 where f: "fold_submission V d s = Inr (folded, d1)"
    using assms by (auto simp: settle_submission_def rbind_Inr_iff)
  then obtain row row' where r: "map_of (db_submissions d) s = Some row" "status_after row folded = Inr row'"
      "folded = fold_ops (in_log_order (sv_collate V) (ops_of d s))"
      "d1 = d\<lparr>db_submissions := AList.update s row' (db_submissions d),
        db_states := AList.update s (fo_data folded, fo_high_water folded) (db_states d)\<rparr>"
    by (auto simp: fold_submission_def Let_def rbind_Inr_iff split: option.splits)
  have "\<exists>flags outbox n. d' = d1\<lparr>db_flags := flags, db_outbox := outbox, db_ids := n\<rparr>"
    using assms f by (auto simp: settle_submission_def split: option.splits sum.splits)
  then show ?thesis using r status_after_move [OF r(2)]
    by (auto simp: state_of_def Let_def)
qed

definition settled :: "server \<Rightarrow> string set \<Rightarrow> db \<Rightarrow> db \<Rightarrow> bool" where
  "settled V S d d' \<longleftrightarrow> db_ops d' = db_ops d \<and> db_keys d' = db_keys d \<and> db_wraps d' = db_wraps d \<and> db_seq d' = db_seq d \<and>
     db_tombstones d' = db_tombstones d \<and> db_media d' = db_media d \<and> db_devices d' = db_devices d \<and>
     map fst (db_submissions d') = map fst (db_submissions d) \<and>
     (\<forall>s row. map_of (db_submissions d) s = Some row \<longrightarrow>
        (\<exists>row'. map_of (db_submissions d') s = Some row' \<and> device_move row row' \<and> (s \<notin> S \<longrightarrow> row' = row))) \<and>
     (\<forall>s. map_of (db_states d') s = (if s \<in> S then Some (state_of (sv_collate V) d s) else map_of (db_states d) s))"

lemma state_of_ops: "db_ops d' = db_ops d \<Longrightarrow> state_of C d' = state_of C d"
  by (simp add: state_of_def ops_of_def fun_eq_iff)

lemma settle_run:
  assumes "foldM (settle_submission V b) d touched = Inr d'" "distinct (map fst touched)"
  shows "settled V (set (map fst touched)) d d'"
  using assms
proof (induction touched arbitrary: d)
  case Nil
  then show ?case by (simp add: settled_def device_move_def)
next
  case (Cons x touched)
  obtain s ids where x: "x = (s, ids)" by fastforce
  obtain d1 where d1: "settle_submission V b d (s, ids) = Inr d1" "foldM (settle_submission V b) d1 touched = Inr d'"
    using Cons.prems(1) x by (auto simp: rbind_Inr_iff)
  obtain row row' flags outbox n where one: "map_of (db_submissions d) s = Some row" "device_move row row'"
    "d1 = d\<lparr>db_submissions := AList.update s row' (db_submissions d), db_states := AList.update s (state_of (sv_collate V) d s) (db_states d),
      db_flags := flags, db_outbox := outbox, db_ids := n\<rparr>"
    using settle_step [OF d1(1)] by blast
  have fresh: "s \<notin> set (map fst touched)" using Cons.prems(2) x by simp
  have rest: "settled V (set (map fst touched)) d1 d'" using Cons.IH [OF d1(2)] Cons.prems(2) by simp
  have "s \<in> set (map fst (db_submissions d))" using one(1) by (force dest: map_of_SomeD)
  then have keys: "map fst (db_submissions d1) = map fst (db_submissions d)" using one(3) by (simp add: update_keys)
  have subs: "map_of (db_submissions d1) t = (if t = s then Some row' else map_of (db_submissions d) t)"
    "map_of (db_states d1) t = (if t = s then Some (state_of (sv_collate V) d s) else map_of (db_states d) t)" for t
    using one(3) by (simp_all add: update_conv')
  have same: "state_of (sv_collate V) d1 = state_of (sv_collate V) d" by (rule state_of_ops) (simp add: one(3))
  have later: "map_of (db_submissions d1) t = Some r \<Longrightarrow>
      \<exists>r'. map_of (db_submissions d') t = Some r' \<and> device_move r r' \<and> (t \<notin> set (map fst touched) \<longrightarrow> r' = r)" for t r
    using rest unfolding settled_def by blast
  show ?case
    unfolding settled_def
  proof (intro conjI allI impI)
    fix t r assume t: "map_of (db_submissions d) t = Some r"
    show "\<exists>r'. map_of (db_submissions d') t = Some r' \<and> device_move r r' \<and> (t \<notin> set (map fst (x # touched)) \<longrightarrow> r' = r)"
    proof (cases "t = s")
      case True
      then have "map_of (db_submissions d') t = Some row'" using later [of s row'] fresh subs(1) [of s] by auto
      then show ?thesis using True t one(1,2) x by auto
    next
      case False
      then have "map_of (db_submissions d1) t = Some r" using t subs(1) by simp
      then show ?thesis using later [of t r] x by auto
    qed
  next
    fix t show "map_of (db_states d') t = (if t \<in> set (map fst (x # touched)) then Some (state_of (sv_collate V) d t) else map_of (db_states d) t)"
      using rest x subs(2) fresh same unfolding settled_def by auto
  qed (use rest one(3) keys in \<open>auto simp: settled_def\<close>)
qed

text \<open>Refusing late keeps every rejection and takes from the accepted only what it rejects.\<close>

lemma refuse_late_step [simp]:
  "refuse_late (acc, rej) (i, None) = (acc, rej)"
  "refuse_late (acc, rej) (i, Some why) = (remove1 i acc, rej @ [\<lparr>rj_id = Some i, rj_reason = why\<rparr>])"
  by (simp_all add: refuse_late_def)

lemma refuse_late_run:
  "foldl refuse_late (acc, rej) R = (acc', rej') \<Longrightarrow>
     (\<exists>more. rej' = rej @ more) \<and> (\<forall>i why. (i, Some why) \<in> set R \<longrightarrow> \<lparr>rj_id = Some i, rj_reason = why\<rparr> \<in> set rej') \<and>
     (\<forall>i \<in> set acc. i \<in> set acc' \<or> (\<exists>why. (i, Some why) \<in> set R))"
proof (induction R arbitrary: acc rej)
  case (Cons x R)
  obtain i why where x: "x = (i, why)" by fastforce
  show ?case
  proof (cases why)
    case None
    then show ?thesis using Cons x by auto
  next
    case (Some w)
    let ?a = "remove1 i acc" and ?r = "rej @ [\<lparr>rj_id = Some i, rj_reason = w\<rparr>]"
    have "foldl refuse_late (?a, ?r) R = (acc', rej')" using Cons.prems x Some by simp
    from Cons.IH [OF this] have *: "\<exists>more. rej' = ?r @ more"
      "\<forall>i why. (i, Some why) \<in> set R \<longrightarrow> \<lparr>rj_id = Some i, rj_reason = why\<rparr> \<in> set rej'"
      "\<forall>i \<in> set ?a. i \<in> set acc' \<or> (\<exists>why. (i, Some why) \<in> set R)" by blast+
    moreover have "j \<in> set ?a" if "j \<in> set acc" "j \<noteq> i" for j using that by (simp add: in_set_remove1)
    ultimately show ?thesis using x Some by fastforce
  qed
qed simp

definition number_tombstones :: "int \<Rightarrow> tombstone_row list \<Rightarrow> tombstone_row list" where
  "number_tombstones n ts = map (\<lambda>(k, t). t\<lparr>tb_server_seq := n + int k + 1\<rparr>) (enumerate 0 ts)"

lemma insert_tombstones_run:
  "foldl insert_tombstone (rows, n) ts = (rows @ number_tombstones n ts, n + int (length ts))"
proof (induction ts rule: rev_induct)
  case (snoc t ts)
  then show ?case by (simp add: insert_tombstone_def number_tombstones_def enumerate_append_eq)
qed (simp add: number_tombstones_def)


definition after_insert :: "crypto_state \<Rightarrow> db \<Rightarrow> stored_op list \<Rightarrow> tombstone_row list \<Rightarrow> db" where
  "after_insert c d ins ts = d\<lparr>db_ops := db_ops d @ stream_from (db_seq d) ins,
     db_tombstones := db_tombstones d @ number_tombstones (db_seq d + int (length ins)) ts,
     db_seq := db_seq d + int (length ins) + int (length ts), db_ids := cs_ids c,
     db_media := register_references (db_media d) (media_references ins)\<rparr>"

lemma keep_touched_distinct: "distinct (map fst xs) \<Longrightarrow> distinct (map fst (keep_touched R xs))"
  by (induction xs) (force simp: keep_touched_def)+

lemma keep_touched_keys: "s \<in> set (map fst (keep_touched R xs)) \<longleftrightarrow> (\<exists>ids i. (s, ids) \<in> set xs \<and> i \<in> set ids \<and> i \<notin> set R)"
proof (induction xs)
  case (Cons x xs)
  obtain t ids where x: "x = (t, ids)" by fastforce
  have "set (map fst (keep_touched R (x # xs))) =
      (if \<exists>i \<in> set ids. i \<notin> set R then {t} else {}) \<union> set (map fst (keep_touched R xs))"
    unfolding x by (auto simp: keep_touched_def filter_empty_conv)
  then show ?case using Cons.IH unfolding x by (auto split: if_splits)
qed (simp add: keep_touched_def)

lemma write_batch_run:
  assumes "honest V" "write_batch V q c d = Inr (r, d')" "distinct (map st_id (cs_insert c))" "distinct (map fst (cs_touched c))"
  obtains R ins ts touched d3 where
    "ins = filter (\<lambda>x. st_id x \<notin> set (map fst R)) (cs_insert c)"
    "log_ok (db_ops d) \<longrightarrow> log_ok (db_ops d')"
    "\<forall>x \<in> set (cs_insert c). in_log (db_ops d') (st_id x) (op_device x) (op_counter x) \<or> (st_id x, Some ''nonce_reused'') \<in> set R"
    "foldl refuse_late (cs_accepted c, cs_rejected c) R = (pr_accepted r, pr_rejected r)"
    "ts = map snd (filter (\<lambda>(i, t). i \<notin> set (map fst R)) (cs_tombstones c))"
    "touched = (if R = [] then cs_touched c else keep_touched (map fst R) (cs_touched c))"
    "settled V (set (map fst touched)) (after_insert c d ins ts) d3"
    "d' = d3\<lparr>db_devices := foldl advance_counter (db_devices (report_pending (pq_device q) (pq_pending q) d3)) ins\<rparr>"
    "touched = [] \<longrightarrow> d3 = after_insert c d ins ts"
    "pr_cursor r = server_cursor d'"
proof -
  obtain x where x: "insert_ops V (db_ops d, db_seq d) (cs_insert c) = Inr x"
    using assms(2) unfolding write_batch_def rbind_Inr_iff by blast
  obtain rows n R where "x = ((rows, n), R)" by (metis surj_pair)
  with x have i: "insert_ops V (db_ops d, db_seq d) (cs_insert c) = Inr ((rows, n), R)" by simp
  let ?ins = "filter (\<lambda>x. st_id x \<notin> set (map fst R)) (cs_insert c)"
  let ?ts = "map snd (filter (\<lambda>(i, t). i \<notin> set (map fst R)) (cs_tombstones c))"
  let ?touched = "if R = [] then cs_touched c else keep_touched (map fst R) (cs_touched c)"
  obtain ins where ins: "rows = db_ops d @ stream_from (db_seq d) ins" "n = db_seq d + int (length ins)" "ins = ?ins"
    "log_ok (db_ops d) \<longrightarrow> log_ok rows"
    "\<forall>x \<in> set (cs_insert c). in_log rows (st_id x) (op_device x) (op_counter x) \<or> (st_id x, Some ''nonce_reused'') \<in> set R"
    using insert_each_run [OF assms(1) i [unfolded insert_ops_each]] assms(3) by auto
  let ?d = "d\<lparr>db_ops := rows, db_tombstones := db_tombstones d @ number_tombstones n ?ts, db_seq := n + int (length ?ts),
       db_ids := cs_ids c, db_media := register_references (db_media d) (media_references ?ins)\<rparr>"
  obtain acc rej where l: "foldl refuse_late (cs_accepted c, cs_rejected c) R = (acc, rej)" by fastforce
  obtain d3 where d3: "foldM (settle_submission V (pq_device q)) ?d ?touched = Inr d3"
    and w: "r = \<lparr>pr_accepted = acc, pr_rejected = rej, pr_cursor = server_cursor d'\<rparr>"
      "d' = (report_pending (pq_device q) (pq_pending q) d3)\<lparr>db_devices :=
         foldl advance_counter (db_devices (report_pending (pq_device q) (pq_pending q) d3)) ?ins\<rparr>"
    using assms(2) unfolding write_batch_def i l rbind_simps insert_tombstones_run prod.case Let_def
    by (auto simp: rbind_Inr_iff register_pending_references_def split: if_splits)
  have "distinct (map fst ?touched)"
    using assms(4) keep_touched_distinct by simp
  from settle_run [OF d3 this] have s: "settled V (set (map fst ?touched)) ?d d3" .
  have frame: "(report_pending (pq_device q) (pq_pending q) d3)\<lparr>db_devices := x\<rparr> = d3\<lparr>db_devices := x\<rparr>" for x
    by (simp add: report_pending_def split: option.split)
  have ops: "db_ops d' = rows" using w(2) s unfolding frame by (simp add: settled_def)
  show thesis
  proof (rule that [of ins R ?ts ?touched d3])
    show "settled V (set (map fst ?touched)) (after_insert c d ins ?ts) d3"
      using s unfolding after_insert_def ins(1,2) ins(3) [symmetric] .
    show "?touched = [] \<longrightarrow> d3 = after_insert c d ins ?ts"
    proof
      assume none: "?touched = []"
      show "d3 = after_insert c d ins ?ts"
        using d3 unfolding none after_insert_def ins(1,2) ins(3) [symmetric] by simp
    qed
    show "d' = d3\<lparr>db_devices := foldl advance_counter (db_devices (report_pending (pq_device q) (pq_pending q) d3)) ins\<rparr>"
      using w(2) unfolding frame ins(3) [symmetric] .
  qed (use ins(3-5) l w(1) ops in simp_all)
qed

subsection \<open>No operation is lost\<close>

lemma commit_others_run:
  "commit_others others d = d\<lparr>db_ops := db_ops d @ stream_from (db_seq d) others, db_seq := db_seq d + int (length others)\<rparr>"
proof -
  have "foldl insert_row (T, n) others = (T @ stream_from n others, n + int (length others))" for T n
    by (induction others arbitrary: T n) (simp_all add: insert_row_def)
  then show ?thesis by (simp add: commit_others_def)
qed

lemma push_halves:
  assumes "push V parse others q d = Inr (r, d')"
  obtains c d1 where "check_batch V parse q d = Inr (c, d1)" "write_batch V q c (commit_others others d1) = Inr (r, d')"
  using assms by (auto simp: push_def rbind_Inr_iff)

lemma in_log_known: "known_op T p \<Longrightarrow> known_op (T @ T') p"
  by (simp add: known_op_def in_log_append)

lemma push_accounts:
  assumes "honest V" "push V parse others q d = Inr (r, d')" "distinct (map fst (db_submissions d))"
    and "distinct (map (\<lambda>p. (so_device p, so_counter p)) (batch_ops parse q))" "p \<in> set (batch_ops parse q)"
  shows "(known_op (db_ops d') p \<and> so_id p \<in> set (pr_accepted r)) \<or> rejects (pr_rejected r) p"
proof -
  obtain c d1 where h: "check_batch V parse q d = Inr (c, d1)" "write_batch V q c (commit_others others d1) = Inr (r, d')"
    by (rule push_halves [OF assms(2)])
  note run = check_batch_run [OF h(1) assms(3)]
  let ?d = "commit_others others d1"
  obtain R ins ts touched d3 where w:
      "ins = filter (\<lambda>x. st_id x \<notin> set (map fst R)) (cs_insert c)"
      "log_ok (db_ops ?d) \<longrightarrow> log_ok (db_ops d')"
      "\<forall>x \<in> set (cs_insert c). in_log (db_ops d') (st_id x) (op_device x) (op_counter x) \<or> (st_id x, Some ''nonce_reused'') \<in> set R"
      "foldl refuse_late (cs_accepted c, cs_rejected c) R = (pr_accepted r, pr_rejected r)"
      "ts = map snd (filter (\<lambda>(i, t). i \<notin> set (map fst R)) (cs_tombstones c))"
      "touched = (if R = [] then cs_touched c else keep_touched (map fst R) (cs_touched c))"
      "settled V (set (map fst touched)) (after_insert c ?d ins ts) d3"
      "d' = d3\<lparr>db_devices := foldl advance_counter (db_devices (report_pending (pq_device q) (pq_pending q) d3)) ins\<rparr>"
      "touched = [] \<longrightarrow> d3 = after_insert c ?d ins ts" "pr_cursor r = server_cursor d'"
    by (rule write_batch_run [OF assms(1) h(2) run(3,5)])
  have ops: "db_ops d1 = db_ops d" using run(1) by auto
  have grown: "db_ops d' = db_ops d @ stream_from (db_seq d1) others @ stream_from (db_seq (commit_others others d1)) ins"
    using w(7,8) ops by (simp add: settled_def commit_others_run after_insert_def)
  note late = refuse_late_run [OF w(4)]
  have keep: "so_id p \<in> set (cs_accepted c) \<Longrightarrow> so_id p \<in> set (pr_accepted r) \<or> rejects (pr_rejected r) p"
    using late unfolding rejects_def by blast
  consider "rejects (cs_rejected c) p" | "so_id p \<in> set (cs_accepted c)" "known_op (db_ops d) p"
    | x where "so_id p \<in> set (cs_accepted c)" "x \<in> set (cs_insert c)" "op_device x = so_device p" "op_counter x = so_counter p"
    using run(4) assms(5) by fastforce
  then show ?thesis
  proof cases
    case 1
    then show ?thesis using late by (auto simp: rejects_def)
  next
    case 2
    then show ?thesis using keep in_log_known unfolding grown by blast
  next
    case (3 x)
    obtain a p' where p': "p' \<in> set (batch_ops parse q)" "x = stored_of a p'" using run(2) 3(2) unfolding batch_row_def by blast
    have "p' = p" using assms(4,5) p' 3(3,4) by (auto simp: distinct_map inj_on_def)
    then have "st_id x = so_id p" using p'(2) by simp
    then have "known_op (db_ops d') p \<or> (so_id p, Some ''nonce_reused'') \<in> set R"
      using w(3) 3(2-4) unfolding known_op_def by metis
    then show ?thesis using keep [OF 3(1)] late unfolding rejects_def by blast
  qed
qed

subsection \<open>What a push keeps of the database\<close>

definition stream_numbers :: "db \<Rightarrow> int list" where
  "stream_numbers d = map op_server_seq (db_ops d) @ map tb_server_seq (db_tombstones d)"

definition row_sound :: "(string \<Rightarrow> int) \<Rightarrow> db \<Rightarrow> stored_op \<Rightarrow> bool" where
  "row_sound C d r \<longleftrightarrow> has_key (db_submissions d) (st_submission r) \<and>
     (\<forall>k n. stored_pair r = Some (k, n) \<longrightarrow> keyed (db_keys d) k (st_submission r)) \<and>
     map_of (db_states d) (st_submission r) = Some (state_of C d (st_submission r))"

definition sync_inv :: "(string \<Rightarrow> int) \<Rightarrow> db \<Rightarrow> bool" where
  "sync_inv C d \<longleftrightarrow> distinct (map fst (db_submissions d)) \<and> log_ok (db_ops d) \<and>
     distinct (stream_numbers d) \<and> 0 \<le> db_seq d \<and> (\<forall>n \<in> set (stream_numbers d). 0 < n \<and> n \<le> db_seq d) \<and>
     (\<forall>s row. map_of (db_submissions d) s = Some row \<longrightarrow> sb_status row \<in> set STATUSES) \<and>
     (\<forall>r \<in> set (db_ops d). row_sound C d r)"

lemma stored_pair_of [simp]: "stored_pair (stored_of a p) = nonce_pair p"
  by (auto simp: stored_pair_def stored_of_def nonce_pair_def op_bytes_def split: option.splits)

lemma stream_from_seqs: "map op_server_seq (stream_from n rs) = map (\<lambda>k. n + int k + 1) [0 ..< length rs]"
proof (induction rs rule: rev_induct)
  case (snoc r rs)
  then show ?case by (simp add: stream_from_snoc)
qed simp

lemma number_tombstones_seqs: "map tb_server_seq (number_tombstones n ts) = map (\<lambda>k. n + int k + 1) [0 ..< length ts]"
  by (rule nth_equalityI) (simp_all add: number_tombstones_def nth_enumerate_eq)

lemma stream_fields:
  "map st_submission (stream_from n rs) = map st_submission rs" "map st_id (stream_from n rs) = map st_id rs"
  "map stored_pair (stream_from n rs) = map stored_pair rs"
  by (induction rs arbitrary: n) simp_all

lemma stream_from_elem: "x \<in> set (stream_from n rs) \<Longrightarrow> \<exists>y m. y \<in> set rs \<and> x = y\<lparr>op_server_seq := m\<rparr>"
proof (induction rs arbitrary: n)
  case (Cons r rs)
  show ?case using Cons.prems Cons.IH [of "n + 1"] by auto
qed simp

lemma fresh_numbers:
  fixes n :: int
  assumes "distinct (A @ B)" "\<forall>m \<in> set (A @ B). 0 < m \<and> m \<le> n" "0 \<le> n"
  shows "distinct ((A @ map (\<lambda>k. n + int k + 1) [0 ..< a]) @ B @ map (\<lambda>k. n + int a + int k + 1) [0 ..< b]) \<and>
    (\<forall>m \<in> set ((A @ map (\<lambda>k. n + int k + 1) [0 ..< a]) @ B @ map (\<lambda>k. n + int a + int k + 1) [0 ..< b]).
      0 < m \<and> m \<le> n + int a + int b)"
proof -
  let ?U = "map (\<lambda>k. n + int k + 1) [0 ..< a]" and ?W = "map (\<lambda>k. n + int a + int k + 1) [0 ..< b]"
  have d: "distinct ?U" "distinct ?W" by (simp_all add: distinct_map inj_on_def)
  have u: "n < m \<and> m \<le> n + int a" if "m \<in> set ?U" for m using that by auto
  have w: "n + int a < m \<and> m \<le> n + int a + int b" if "m \<in> set ?W" for m using that by auto
  have old: "0 < m \<and> m \<le> n" if "m \<in> set A \<union> set B" for m using that assms(2) by auto
  have "set A \<inter> set ?U = {}" "set B \<inter> set ?W = {}" "set ?U \<inter> set B = {}" "set A \<inter> set ?W = {}" "set ?U \<inter> set ?W = {}"
    using u w old by (meson disjoint_iff not_le Un_iff add_increasing2 less_le_trans order_trans of_nat_0_le_iff)+
  then have "distinct ((A @ ?U) @ B @ ?W)" using assms(1) d unfolding distinct_append set_append by blast
  moreover have "0 < m \<and> m \<le> n + int a + int b" if m: "m \<in> set ((A @ ?U) @ B @ ?W)" for m
  proof -
    consider "m \<in> set A \<union> set B" | "m \<in> set ?U" | "m \<in> set ?W" using m unfolding set_append by blast
    then show ?thesis using old u w assms(3) by cases force+
  qed
  ultimately show ?thesis by blast
qed

lemma settled_parts:
  assumes "settled V S d d'"
  shows "db_ops d' = db_ops d" "db_keys d' = db_keys d" "db_seq d' = db_seq d" "db_tombstones d' = db_tombstones d"
    "map fst (db_submissions d') = map fst (db_submissions d)" "db_devices d' = db_devices d" "db_media d' = db_media d"
    "db_wraps d' = db_wraps d"
    "map_of (db_states d') s = (if s \<in> S then Some (state_of (sv_collate V) d s) else map_of (db_states d) s)"
    "map_of (db_submissions d) s = Some row \<Longrightarrow>
       \<exists>row'. map_of (db_submissions d') s = Some row' \<and> device_move row row' \<and> (s \<notin> S \<longrightarrow> row' = row)"
  using assms unfolding settled_def by blast+

lemma device_move_status: "device_move row row' \<Longrightarrow> sb_status row \<in> set STATUSES \<Longrightarrow> sb_status row' \<in> set STATUSES"
  by (auto simp: device_move_def elim!: next_status_Inr dest: table_stays(2))

text \<open>A push with nobody else in between, both halves at once.\<close>

lemma push_alone:
  assumes "honest V" "push V parse [] q d = Inr (r, d')" "distinct (map fst (db_submissions d))"
  obtains new keys wraps c ins ts S d1 d3 where
    "d1 = d\<lparr>db_submissions := db_submissions d @ new, db_keys := keys, db_wraps := wraps\<rparr>"
    "list_all (\<lambda>(s, row). sb_status row = ''draft'') new" "set (db_keys d) \<subseteq> set keys" "distinct (map fst (db_submissions d1))"
    "\<forall>x \<in> set ins. batch_row parse q d d1 x \<and> st_submission x \<in> S"
    "\<forall>s \<in> S. \<exists>row. map_of (db_submissions d1) s = Some row \<and> sb_status row \<notin> set CLOSED"
    "log_ok (db_ops d) \<longrightarrow> log_ok (db_ops d')"
    "settled V S (after_insert c d1 ins ts) d3"
    "d' = d3\<lparr>db_devices := foldl advance_counter (db_devices (report_pending (pq_device q) (pq_pending q) d3)) ins\<rparr>"
proof -
  obtain c d1 where h: "check_batch V parse q d = Inr (c, d1)" "write_batch V q c d1 = Inr (r, d')"
    by (rule push_halves [OF assms(2)]) (simp add: commit_others_run)
  note run = check_batch_run [OF h(1) assms(3)]
  obtain R ins ts touched d3 where w:
      "ins = filter (\<lambda>x. st_id x \<notin> set (map fst R)) (cs_insert c)"
      "log_ok (db_ops d1) \<longrightarrow> log_ok (db_ops d')"
      "\<forall>x \<in> set (cs_insert c). in_log (db_ops d') (st_id x) (op_device x) (op_counter x) \<or> (st_id x, Some ''nonce_reused'') \<in> set R"
      "foldl refuse_late (cs_accepted c, cs_rejected c) R = (pr_accepted r, pr_rejected r)"
      "ts = map snd (filter (\<lambda>(i, t). i \<notin> set (map fst R)) (cs_tombstones c))"
      "touched = (if R = [] then cs_touched c else keep_touched (map fst R) (cs_touched c))"
      "settled V (set (map fst touched)) (after_insert c d1 ins ts) d3"
      "d' = d3\<lparr>db_devices := foldl advance_counter (db_devices (report_pending (pq_device q) (pq_pending q) d3)) ins\<rparr>"
      "touched = [] \<longrightarrow> d3 = after_insert c d1 ins ts" "pr_cursor r = server_cursor d'"
    by (rule write_batch_run [OF assms(1) h(2) run(3,5)])
  obtain new keys wraps where d1: "d1 = d\<lparr>db_submissions := db_submissions d @ new, db_keys := keys, db_wraps := wraps\<rparr>"
      "list_all (\<lambda>(s, row). sb_status row = ''draft'') new" "set (db_keys d) \<subseteq> set keys" "distinct (map fst (db_submissions d1))"
    using run(1) by blast
  have touched: "s \<in> set (map fst touched) \<longleftrightarrow> s \<in> st_submission ` set ins \<or> (R = [] \<and> s \<in> set (map fst (cs_touched c)))" for s
  proof -
    have "touched_op (cs_touched c) t i \<longleftrightarrow> (\<exists>ids. (t, ids) \<in> set (cs_touched c) \<and> i \<in> set ids)" for t i
      using run(5) by (auto simp: touched_op_def)
    then have *: "(\<exists>ids. (t, ids) \<in> set (cs_touched c) \<and> i \<in> set ids) \<longleftrightarrow> (t, i) \<in> (\<lambda>r. (st_submission r, st_id r)) ` set (cs_insert c)" for t i
      using run(6) by blast
    show ?thesis
    proof (cases "R = []")
      case True
      then have "x \<in> set (cs_insert c) \<Longrightarrow> st_submission x \<in> set (map fst (cs_touched c))" for x
        using * [of "st_submission x" "st_id x"] by force
      then show ?thesis using w(1,6) True by auto
    next
      case False
      then have "s \<in> set (map fst touched) \<longleftrightarrow> (\<exists>i. (s, i) \<in> (\<lambda>r. (st_submission r, st_id r)) ` set (cs_insert c) \<and> i \<notin> set (map fst R))"
        unfolding w(6) using keep_touched_keys [of s "map fst R" "cs_touched c"] * [of s] by (simp add: conj_commute) blast
      then show ?thesis using w(1) False by auto
    qed
  qed
  have rows: "\<forall>x \<in> set ins. batch_row parse q d d1 x" using run(2) w(1) by simp
  then have open_rows: "\<forall>s \<in> set (map fst touched). \<exists>row. map_of (db_submissions d1) s = Some row \<and> sb_status row \<notin> set CLOSED"
    using run(7) touched unfolding batch_row_def may_write_def by fastforce
  have here: "\<forall>x \<in> set ins. batch_row parse q d d1 x \<and> st_submission x \<in> set (map fst touched)"
    using rows touched by blast
  have kept: "log_ok (db_ops d) \<longrightarrow> log_ok (db_ops d')" using w(2) d1(1) by simp
  show thesis by (rule that [OF d1 here open_rows kept w(7,8)])
qed

lemma has_key_keys: "map fst xs = map fst ys \<Longrightarrow> has_key xs k \<longleftrightarrow> has_key ys k"
  unfolding map_of_eq_None_iff set_map [symmetric] by simp

lemma keyed_mono: "keyed rows k s \<Longrightarrow> set rows \<subseteq> set rows' \<Longrightarrow> keyed rows' k s"
  unfolding keyed_def by blast

lemma ops_untouched:
  assumes "db_ops d' = db_ops d @ stream_from n ins" "s \<notin> st_submission ` set ins"
  shows "ops_of d' s = ops_of d s"
proof -
  have "set (map st_submission (stream_from n ins)) = st_submission ` set ins" unfolding stream_fields by simp
  then have "filter (\<lambda>r. st_submission r = s) (stream_from n ins) = []"
    using assms(2) by (auto simp: filter_empty_conv)
  then show ?thesis using assms(1) by (simp add: ops_of_def)
qed

lemma state_of_untouched:
  "db_ops d' = db_ops d @ stream_from n ins \<Longrightarrow> s \<notin> st_submission ` set ins \<Longrightarrow> state_of C d' s = state_of C d s"
  by (simp add: state_of_def ops_untouched)

lemma drafts_known: "list_all (\<lambda>(s, row). sb_status row = ''draft'') new \<Longrightarrow> map_of (subs @ new) s = Some row \<Longrightarrow>
    map_of subs s = Some row \<or> (map_of subs s = None \<and> sb_status row = ''draft'')"
  by (auto simp: map_add_Some_iff list_all_iff dest: map_of_SomeD)

lemma settled_row:
  assumes "settled V S d d'" "map_of (db_submissions d') s = Some row'"
  obtains row where "map_of (db_submissions d) s = Some row" "device_move row row'" "s \<notin> S \<longrightarrow> row' = row"
proof -
  have "s \<in> set (map fst (db_submissions d'))" using assms(2) by (force dest: map_of_SomeD)
  then obtain row where "map_of (db_submissions d) s = Some row"
    using settled_parts(5) [OF assms(1)] by (metis map_of_eq_None_iff not_Some_eq set_map)
  then show thesis using that settled_parts(10) [OF assms(1)] assms(2) by fastforce
qed

lemma push_keeps_inv:
  assumes "honest V" "push V parse [] q d = Inr (r, d')" "sync_inv (sv_collate V) d"
  shows "sync_inv (sv_collate V) d'"
proof -
  have "distinct (map fst (db_submissions d))" using assms(3) by (simp add: sync_inv_def)
  then obtain new keys wraps c ins ts S d1 d3 where *:
    "d1 = d\<lparr>db_submissions := db_submissions d @ new, db_keys := keys, db_wraps := wraps\<rparr>"
    "list_all (\<lambda>(s, row). sb_status row = ''draft'') new" "set (db_keys d) \<subseteq> set keys" "distinct (map fst (db_submissions d1))"
    "\<forall>x \<in> set ins. batch_row parse q d d1 x \<and> st_submission x \<in> S"
    "\<forall>s \<in> S. \<exists>row. map_of (db_submissions d1) s = Some row \<and> sb_status row \<notin> set CLOSED"
    "log_ok (db_ops d) \<longrightarrow> log_ok (db_ops d')"
    "settled V S (after_insert c d1 ins ts) d3"
    "d' = d3\<lparr>db_devices := foldl advance_counter (db_devices (report_pending (pq_device q) (pq_pending q) d3)) ins\<rparr>"
    by (rule push_alone [OF assms(1,2)])
  note set = settled_parts [OF *(8)]
  have ops: "db_ops d' = db_ops d @ stream_from (db_seq d) ins" and keys: "db_keys d' = keys"
    and subs: "map fst (db_submissions d') = map fst (db_submissions d1)"
    and seq: "db_seq d' = db_seq d + int (length ins) + int (length ts)"
    and tombs: "db_tombstones d' = db_tombstones d @ number_tombstones (db_seq d + int (length ins)) ts"
    using set *(1,9) by (simp_all add: after_insert_def)
  have "distinct (stream_numbers d') \<and> (\<forall>n \<in> set (stream_numbers d'). 0 < n \<and> n \<le> db_seq d')"
    unfolding stream_numbers_def ops tombs seq map_append stream_from_seqs number_tombstones_seqs
    by (rule fresh_numbers) (use assms(3) in \<open>simp_all add: sync_inv_def stream_numbers_def\<close>)
  moreover have "sb_status row' \<in> set STATUSES" if found: "map_of (db_submissions d') s = Some row'" for s row'
  proof -
    obtain row where row: "map_of (db_submissions d1) s = Some row" "device_move row row'"
    proof (rule settled_row [OF *(8)])
      show "map_of (db_submissions d3) s = Some row'" using found *(9) by simp
    qed (simp add: after_insert_def)
    have "''draft'' \<in> set STATUSES" by code_simp
    moreover have "map_of (db_submissions d @ new) s = Some row" using row(1) *(1) by simp
    moreover have "map_of (db_submissions d) s = Some row \<Longrightarrow> sb_status row \<in> set STATUSES"
      using assms(3) unfolding sync_inv_def by blast
    ultimately have "sb_status row \<in> set STATUSES" using drafts_known [OF *(2)] by metis
    then show ?thesis using row(2) device_move_status by blast
  qed
  moreover have "row_sound (sv_collate V) d' x" if x: "x \<in> set (db_ops d')" for x
  proof -
    have old: "y \<in> set (db_ops d) \<Longrightarrow> row_sound (sv_collate V) d y" for y using assms(3) by (simp add: sync_inv_def)
    let ?s = "st_submission x"
    have here: "has_key (db_submissions d1) ?s \<and> (\<forall>k n. stored_pair x = Some (k, n) \<longrightarrow> keyed keys k ?s) \<and>
        (?s \<notin> S \<longrightarrow> x \<in> set (db_ops d))"
    proof (cases "x \<in> set (db_ops d)")
      case True
      then show ?thesis using old [OF True] keyed_mono [OF _ *(3)] *(1) by (auto simp: row_sound_def)
    next
      case False
      then obtain y m where y: "y \<in> set ins" "x = y\<lparr>op_server_seq := m\<rparr>" using x stream_from_elem unfolding ops by fastforce
      then obtain a p where p: "y = stored_of a p" "may_write (db_submissions d1) p"
          "\<forall>k n. nonce_pair p = Some (k, n) \<longrightarrow> keyed (db_keys d1) k (so_submission p)" "so_submission p \<in> S"
        using *(5) unfolding batch_row_def by fastforce
      have "has_key (db_submissions d1) (so_submission p)" using p(2) unfolding may_write_def by fastforce
      then show ?thesis using p y(2) *(1) by simp
    qed
    have "map_of (db_states d') ?s = Some (state_of (sv_collate V) d' ?s)"
    proof (cases "?s \<in> S")
      case True
      have "state_of (sv_collate V) d' = state_of (sv_collate V) (after_insert c d1 ins ts)" using set(1) *(9) by (intro state_of_ops) simp
      then show ?thesis using set(9) [of ?s] True *(9) by simp
    next
      case False
      then have "x \<in> set (db_ops d)" "?s \<notin> st_submission ` set ins" using here *(5) by auto
      then show ?thesis
        using set(9) [of ?s] False *(1,9) old [of x] state_of_untouched [OF ops] by (simp add: row_sound_def after_insert_def)
    qed
    moreover have "has_key (db_submissions d') ?s" using here has_key_keys [OF subs] by blast
    ultimately show ?thesis using here keys unfolding row_sound_def by blast
  qed
  ultimately show ?thesis using *(4,7) assms(3) subs seq unfolding sync_inv_def by simp
qed

text \<open>A push never writes to a submission that is closed.\<close>

lemma push_leaves_closed:
  assumes "honest V" "push V parse [] q d = Inr (r, d')" "distinct (map fst (db_submissions d))"
    and "map_of (db_submissions d) s = Some row" "sb_status row \<in> set CLOSED"
  shows "map_of (db_submissions d') s = Some row \<and> ops_of d' s = ops_of d s \<and> map_of (db_states d') s = map_of (db_states d) s"
proof -
  obtain new keys wraps c ins ts S d1 d3 where *:
    "d1 = d\<lparr>db_submissions := db_submissions d @ new, db_keys := keys, db_wraps := wraps\<rparr>"
    "list_all (\<lambda>(s, row). sb_status row = ''draft'') new" "set (db_keys d) \<subseteq> set keys" "distinct (map fst (db_submissions d1))"
    "\<forall>x \<in> set ins. batch_row parse q d d1 x \<and> st_submission x \<in> S"
    "\<forall>s \<in> S. \<exists>row. map_of (db_submissions d1) s = Some row \<and> sb_status row \<notin> set CLOSED"
    "log_ok (db_ops d) \<longrightarrow> log_ok (db_ops d')"
    "settled V S (after_insert c d1 ins ts) d3"
    "d' = d3\<lparr>db_devices := foldl advance_counter (db_devices (report_pending (pq_device q) (pq_pending q) d3)) ins\<rparr>"
    by (rule push_alone [OF assms(1-3)])
  have row: "map_of (db_submissions d1) s = Some row" using *(1) assms(4) by (simp add: map_add_def)
  then have out: "s \<notin> S" using *(6) assms(5) by fastforce
  have ops: "db_ops d' = db_ops d @ stream_from (db_seq d) ins"
    using settled_parts(1) [OF *(8)] *(1,9) by (simp add: after_insert_def)
  have "s \<notin> st_submission ` set ins" using *(5) out by blast
  then have "ops_of d' s = ops_of d s" using ops_untouched [OF ops] by blast
  moreover have "map_of (db_submissions d') s = Some row"
    using settled_parts(10) [OF *(8), of s row] row out *(9) by (simp add: after_insert_def)
  moreover have "map_of (db_states d') s = map_of (db_states d) s"
    using settled_parts(9) [OF *(8), of s] out *(1,9) by (simp add: after_insert_def)
  ultimately show ?thesis by blast
qed

text \<open>What a push does to the submissions: one it opened starts as a draft, and each moves at most once, by a
  device's event.\<close>

lemma push_rows:
  assumes "honest V" "push V parse [] q d = Inr (r, d')" "distinct (map fst (db_submissions d))"
    and "map_of (db_submissions d') s = Some row'"
  obtains row where "device_move row row'"
    "map_of (db_submissions d) s = Some row \<or> (map_of (db_submissions d) s = None \<and> sb_status row = ''draft'')"
proof -
  obtain new keys wraps c ins ts S d1 d3 where *:
    "d1 = d\<lparr>db_submissions := db_submissions d @ new, db_keys := keys, db_wraps := wraps\<rparr>"
    "list_all (\<lambda>(s, row). sb_status row = ''draft'') new" "set (db_keys d) \<subseteq> set keys" "distinct (map fst (db_submissions d1))"
    "\<forall>x \<in> set ins. batch_row parse q d d1 x \<and> st_submission x \<in> S"
    "\<forall>s \<in> S. \<exists>row. map_of (db_submissions d1) s = Some row \<and> sb_status row \<notin> set CLOSED"
    "log_ok (db_ops d) \<longrightarrow> log_ok (db_ops d')"
    "settled V S (after_insert c d1 ins ts) d3"
    "d' = d3\<lparr>db_devices := foldl advance_counter (db_devices (report_pending (pq_device q) (pq_pending q) d3)) ins\<rparr>"
    by (rule push_alone [OF assms(1-3)])
  have "map_of (db_submissions d3) s = Some row'" using assms(4) *(9) by simp
  then obtain row where row: "map_of (db_submissions (after_insert c d1 ins ts)) s = Some row" "device_move row row'"
    using settled_row [OF *(8)] by blast
  then have "map_of (db_submissions d @ new) s = Some row" using *(1) by (simp add: after_insert_def)
  from drafts_known [OF *(2) this] show thesis using that row(2) by blast
qed

end
