(* ===== verification/Review.thy ===== *)
theory Review
  imports Sync_Props Step_System
begin

text \<open>
  \<open>quality/review.py\<close>: recording a review decision, and the statement of work handed back that a pull
  carries. A decision reads the submission's status, asks the status machine, appends a \<open>review\<close> row and
  moves the status. Which submissions the reviewer may see is an argument, as are the joined tables of
  form versions and display names.
\<close>

definition RETURNS_WORK :: "string list" where
  "RETURNS_WORK = [''rejected'', ''correction_required'']"

definition EVENT :: "(string \<times> string) list" where
  "EVENT = [(''approved'', ''approve''), (''rejected'', ''reject''), (''correction_required'', ''request_correction''),
     (''comment'', ''comment'')]"

record review_row =
  rv_id :: string
  rv_submission :: string
  rv_reviewer :: string
  rv_decision :: string
  rv_comment :: "string option"
  rv_created_at :: int

datatype review_error =
    UnknownDecision string
  | NotFound
  | ReasonRequired
  | NotAllowed refusal_message
  | NoMessage

record recorded =
  rc_review :: string
  rc_status :: string
  rc_returns_work :: bool

definition blank :: "string option \<Rightarrow> bool" where
  "blank c \<longleftrightarrow> strip (case c of None \<Rightarrow> [] | Some t \<Rightarrow> t) = []"

text \<open>The reads and checks, and the event's new status.\<close>

definition decide_check :: "(string \<Rightarrow> bool) \<Rightarrow> string \<Rightarrow> string \<Rightarrow> string option \<Rightarrow> db \<Rightarrow> review_error + string \<times> string" where
  "decide_check visible s decision comment d =
     (case map_of EVENT decision of
        None \<Rightarrow> Inl (UnknownDecision decision)
      | Some event \<Rightarrow>
          (case (if visible s then map_of (db_submissions d) s else None) of
             None \<Rightarrow> Inl NotFound
           | Some row \<Rightarrow>
               (if decision \<in> set RETURNS_WORK \<and> blank comment then Inl ReasonRequired
                else case next_status (sb_status row) event of
                  Inr moved \<Rightarrow> Inr (sb_status row, moved)
                | Inl (Refused _ _ message) \<Rightarrow> Inl (NotAllowed message)
                | Inl NoSentence \<Rightarrow> Inl NoMessage)))"

text \<open>The writes: the row of \<open>review\<close>, and the status where it moved.\<close>

definition decide_write :: "string \<Rightarrow> string \<Rightarrow> int \<Rightarrow> string \<Rightarrow> string \<Rightarrow> string option \<Rightarrow> string \<times> string \<Rightarrow> db \<times> review_row list
    \<Rightarrow> recorded \<times> db \<times> review_row list" where
  "decide_write review_id s now reviewer decision comment moves t = (case (moves, t) of ((current, moved), (d, reviews)) \<Rightarrow>
     (\<lparr>rc_review = review_id, rc_status = moved, rc_returns_work = decision \<in> set RETURNS_WORK\<rparr>,
      (if moved \<noteq> current
       then d\<lparr>db_submissions := map (\<lambda>(i, row). (i, if i = s then row\<lparr>sb_status := moved\<rparr> else row)) (db_submissions d)\<rparr>
       else d),
      reviews @ [\<lparr>rv_id = review_id, rv_submission = s, rv_reviewer = reviewer, rv_decision = decision, rv_comment = comment,
        rv_created_at = now\<rparr>]))"

definition decide :: "(string \<Rightarrow> bool) \<Rightarrow> string \<Rightarrow> int \<Rightarrow> string \<Rightarrow> string \<Rightarrow> string \<Rightarrow> string option \<Rightarrow> db \<times> review_row list
    \<Rightarrow> review_error + recorded \<times> db \<times> review_row list" where
  "decide visible review_id now s reviewer decision comment t =
     rbind (decide_check visible s decision comment (fst t)) (\<lambda>moves.
       Inr (decide_write review_id s now reviewer decision comment moves t))"

subsection \<open>Work handed back\<close>

record returned =
  rt_submission :: string
  rt_status :: string
  rt_case :: "string option"
  rt_form :: string
  rt_version :: int
  rt_reason :: "string option"
  rt_decided_at :: int
  rt_decided_by :: "string option"

text \<open>\<open>ORDER BY created_at DESC, id DESC LIMIT 1\<close>, over the decisions that return work.\<close>

definition last_return :: "(string \<Rightarrow> int) \<Rightarrow> review_row list \<Rightarrow> string \<Rightarrow> review_row option" where
  "last_return collate reviews s =
     (case rev (sort_key (\<lambda>r. (rv_created_at r, collate (rv_id r)))
        (filter (\<lambda>r. rv_submission r = s \<and> rv_decision r \<in> set RETURNS_WORK) reviews)) of
        [] \<Rightarrow> None | r # _ \<Rightarrow> Some r)"

definition returned_row :: "(string \<Rightarrow> int) \<Rightarrow> (string \<Rightarrow> (string \<times> int) option) \<Rightarrow> (string \<Rightarrow> string option) \<Rightarrow> review_row list
    \<Rightarrow> string \<times> submission_row \<Rightarrow> returned option" where
  "returned_row collate form_version display_name reviews x = (case x of (s, row) \<Rightarrow>
     (case (form_version (sb_form_version row), last_return collate reviews s) of
        (Some (form, version), Some r) \<Rightarrow>
          Some \<lparr>rt_submission = s, rt_status = sb_status row, rt_case = sb_case row, rt_form = form, rt_version = version,
            rt_reason = rv_comment r, rt_decided_at = rv_created_at r, rt_decided_by = display_name (rv_reviewer r)\<rparr>
      | _ \<Rightarrow> None))"

definition returned_to :: "(string \<Rightarrow> int) \<Rightarrow> (string \<Rightarrow> bool) \<Rightarrow> (string \<Rightarrow> (string \<times> int) option) \<Rightarrow> (string \<Rightarrow> string option)
    \<Rightarrow> string \<Rightarrow> db \<times> review_row list \<Rightarrow> returned list" where
  "returned_to collate visible form_version display_name user t = (case t of (d, reviews) \<Rightarrow>
     sort_key (\<lambda>x. (- rt_decided_at x, collate (rt_submission x)))
       (List.map_filter (returned_row collate form_version display_name reviews)
         (filter (\<lambda>(s, row). visible s \<and> sb_created_by row = Some user \<and> sb_status row \<in> set RETURNS_WORK)
           (db_submissions d))))"

subsection \<open>A decision\<close>

lemma map_of_update: "map_of (map (\<lambda>(i, row). (i, if i = s then f row else row)) xs) t =
    (if t = s then map_option f (map_of xs t) else map_of xs t)"
  by (induction xs) auto

lemma map_fst_update: "map fst (map (\<lambda>(i, row). (i, if i = s then f row else row)) xs) = map fst xs"
  by (induction xs) auto

lemma decide_cases:
  assumes "decide visible i now s reviewer decision comment (d, reviews) = Inr (rec, d', reviews')"
  obtains event row where "map_of EVENT decision = Some event" "map_of (db_submissions d) s = Some row"
    "next_status (sb_status row) event = Inr (rc_status rec)" "decision \<in> set RETURNS_WORK \<longrightarrow> \<not> blank comment"
    "rc_returns_work rec \<longleftrightarrow> decision \<in> set RETURNS_WORK"
    "map fst (db_submissions d') = map fst (db_submissions d)"
    "map_of (db_submissions d') = (map_of (db_submissions d))(s \<mapsto> row\<lparr>sb_status := rc_status rec\<rparr>)"
    "\<exists>subs. d' = d\<lparr>db_submissions := subs\<rparr>"
    "reviews' = reviews @ [\<lparr>rv_id = i, rv_submission = s, rv_reviewer = reviewer, rv_decision = decision, rv_comment = comment,
        rv_created_at = now\<rparr>]"
proof -
  obtain current moved where c: "decide_check visible s decision comment d = Inr (current, moved)"
    and w: "decide_write i s now reviewer decision comment (current, moved) (d, reviews) = (rec, d', reviews')"
    using assms by (auto simp: decide_def rbind_Inr_iff)
  obtain event row where e: "map_of EVENT decision = Some event" "map_of (db_submissions d) s = Some row"
      "next_status (sb_status row) event = Inr moved" "decision \<in> set RETURNS_WORK \<longrightarrow> \<not> blank comment" "current = sb_status row"
    using c by (auto simp: decide_check_def split: option.splits if_splits sum.splits status_error.splits)
  have d': "d' = (if moved \<noteq> current
       then d\<lparr>db_submissions := map (\<lambda>(i, row). (i, if i = s then row\<lparr>sb_status := moved\<rparr> else row)) (db_submissions d)\<rparr> else d)"
    and r: "rec = \<lparr>rc_review = i, rc_status = moved, rc_returns_work = decision \<in> set RETURNS_WORK\<rparr>"
      "reviews' = reviews @ [\<lparr>rv_id = i, rv_submission = s, rv_reviewer = reviewer, rv_decision = decision, rv_comment = comment,
        rv_created_at = now\<rparr>]"
    using w by (auto simp: decide_write_def)
  have "map fst (db_submissions d') = map fst (db_submissions d)"
    unfolding d' by auto
  moreover have "map_of (db_submissions d') = (map_of (db_submissions d))(s \<mapsto> row\<lparr>sb_status := moved\<rparr>)"
    unfolding d' using map_of_update [of s "\<lambda>row :: submission_row. row\<lparr>sb_status := moved\<rparr>"] e(2,5) by (auto simp: fun_eq_iff)
  moreover have "\<exists>subs. d' = d\<lparr>db_submissions := subs\<rparr>"
    unfolding d' by (cases "moved = current") (auto intro: exI [of _ "db_submissions d"])
  ultimately show thesis using that [OF e(1,2) _ e(4)] e(3) r by simp
qed

lemma decide_keeps_inv:
  assumes "decide visible i now s reviewer decision comment (d, reviews) = Inr (rec, d', reviews')" "sync_inv C d"
  shows "sync_inv C d'"
proof -
  obtain event row where e: "next_status (sb_status row) event = Inr (rc_status rec)"
    "map fst (db_submissions d') = map fst (db_submissions d)"
    "map_of (db_submissions d') = (map_of (db_submissions d))(s \<mapsto> row\<lparr>sb_status := rc_status rec\<rparr>)"
    "\<exists>subs. d' = d\<lparr>db_submissions := subs\<rparr>"
    using decide_cases [OF assms(1)] by metis
  have "rc_status rec \<in> set STATUSES" using e(1) by (auto elim!: next_status_Inr dest: table_stays(2))
  then have statuses: "\<forall>t row'. map_of (db_submissions d') t = Some row' \<longrightarrow> sb_status row' \<in> set STATUSES"
    using assms(2) unfolding e(3) sync_inv_def by auto
  have state: "state_of C d' = state_of C d" using e(4) by (intro state_of_ops) auto
  have "row_sound C d r \<Longrightarrow> row_sound C d' r" for r
    using e(4) has_key_keys [OF e(2), of "st_submission r"] unfolding row_sound_def state by auto
  moreover have "stream_numbers d' = stream_numbers d" "db_ops d' = db_ops d" "db_seq d' = db_seq d"
    using e(4) by (auto simp: stream_numbers_def)
  ultimately show ?thesis using assms(2) e(2) statuses unfolding sync_inv_def by simp
qed

subsection \<open>The server: pushes and decisions\<close>

text \<open>The work that is handed back has its reason on record.\<close>

definition reasons_on_record :: "db \<times> review_row list \<Rightarrow> bool" where
  "reasons_on_record t \<longleftrightarrow> (case t of (d, reviews) \<Rightarrow>
     (\<forall>r \<in> set reviews. rv_decision r \<in> set RETURNS_WORK \<longrightarrow> \<not> blank (rv_comment r)) \<and>
     (\<forall>s row. map_of (db_submissions d) s = Some row \<and> sb_status row \<in> set RETURNS_WORK \<longrightarrow>
        (\<exists>r \<in> set reviews. rv_submission r = s \<and> rv_decision r \<in> set RETURNS_WORK)))"

inductive server_step :: "(string \<Rightarrow> int) \<Rightarrow> db \<times> review_row list \<Rightarrow> db \<times> review_row list \<Rightarrow> bool" for C where
  pushed: "honest V \<Longrightarrow> sv_collate V = C \<Longrightarrow> push V parse [] q d = Inr (r, d') \<Longrightarrow> server_step C (d, reviews) (d', reviews)"
| decided: "decide visible i now s reviewer decision comment t = Inr (rec, t') \<Longrightarrow> server_step C t t'"

inductive_cases server_stepE: "server_step C t t'"

definition unused :: "db \<times> review_row list \<Rightarrow> bool" where
  "unused t \<longleftrightarrow> db_submissions (fst t) = [] \<and> db_ops (fst t) = [] \<and> db_tombstones (fst t) = [] \<and> db_seq (fst t) = 0 \<and> snd t = []"

definition server_inv :: "(string \<Rightarrow> int) \<Rightarrow> db \<times> review_row list \<Rightarrow> bool" where
  "server_inv C t \<longleftrightarrow> sync_inv C (fst t) \<and> reasons_on_record t"

lemma device_move_returned: "device_move row row' \<Longrightarrow> sb_status row' \<in> set RETURNS_WORK \<Longrightarrow> sb_status row \<in> set STATUSES \<Longrightarrow>
    sb_status row \<in> set RETURNS_WORK"
proof -
  have table: "list_all (\<lambda>e. list_all (\<lambda>s. case next_status s e of Inr t \<Rightarrow> t \<in> set RETURNS_WORK \<longrightarrow> s \<in> set RETURNS_WORK | Inl _ \<Rightarrow> True) STATUSES) DEVICE_EVENTS"
    by code_simp
  assume "device_move row row'" "sb_status row' \<in> set RETURNS_WORK" "sb_status row \<in> set STATUSES"
  then show ?thesis using table unfolding device_move_def list_all_iff by (auto split: sum.splits)
qed

lemma push_keeps_reasons:
  assumes "honest V" "push V parse [] q d = Inr (r, d')" "sync_inv (sv_collate V) d" "reasons_on_record (d, reviews)"
  shows "reasons_on_record (d', reviews)"
proof -
  have d: "distinct (map fst (db_submissions d))" using assms(3) by (simp add: sync_inv_def)
  have "\<exists>row. map_of (db_submissions d) s = Some row \<and> sb_status row \<in> set RETURNS_WORK"
    if found: "map_of (db_submissions d') s = Some row'" and status: "sb_status row' \<in> set RETURNS_WORK" for s row'
  proof -
    obtain row where row: "device_move row row'"
        "map_of (db_submissions d) s = Some row \<or> (map_of (db_submissions d) s = None \<and> sb_status row = ''draft'')"
      by (rule push_rows [OF assms(1,2) d found])
    have draft: "''draft'' \<in> set STATUSES" "''draft'' \<notin> set RETURNS_WORK" by code_simp+
    have "sb_status row \<in> set STATUSES" using row(2) assms(3) draft(1) unfolding sync_inv_def by metis
    then have "sb_status row \<in> set RETURNS_WORK" by (rule device_move_returned [OF row(1) status])
    then show ?thesis using row(2) draft(2) by auto
  qed
  then show ?thesis using assms(4) unfolding reasons_on_record_def prod.case by blast
qed

lemma decide_keeps_reasons:
  assumes "decide visible i now s reviewer decision comment (d, reviews) = Inr (rec, d', reviews')" "reasons_on_record (d, reviews)"
  shows "reasons_on_record (d', reviews')"
proof -
  obtain event row where e: "map_of EVENT decision = Some event" "map_of (db_submissions d) s = Some row"
    "next_status (sb_status row) event = Inr (rc_status rec)" "decision \<in> set RETURNS_WORK \<longrightarrow> \<not> blank comment"
    "rc_returns_work rec \<longleftrightarrow> decision \<in> set RETURNS_WORK"
    "map fst (db_submissions d') = map fst (db_submissions d)"
    "map_of (db_submissions d') = (map_of (db_submissions d))(s \<mapsto> row\<lparr>sb_status := rc_status rec\<rparr>)"
    "\<exists>subs. d' = d\<lparr>db_submissions := subs\<rparr>"
    "reviews' = reviews @ [\<lparr>rv_id = i, rv_submission = s, rv_reviewer = reviewer, rv_decision = decision, rv_comment = comment,
        rv_created_at = now\<rparr>]"
    by (rule decide_cases [OF assms(1)])
  have table: "list_all (\<lambda>(dn, ev). list_all (\<lambda>(st, moves). list_all (\<lambda>(e, t). e = ev \<longrightarrow> t \<in> set RETURNS_WORK \<longrightarrow>
      dn \<in> set RETURNS_WORK \<or> t = st) moves) TABLE) EVENT" by code_simp
  have "rc_status rec \<in> set RETURNS_WORK \<Longrightarrow> decision \<in> set RETURNS_WORK \<or> rc_status rec = sb_status row"
  proof (rule next_status_Inr [OF e(3)])
    fix moves assume "rc_status rec \<in> set RETURNS_WORK" "(sb_status row, moves) \<in> set TABLE" "(event, rc_status rec) \<in> set moves"
    then show ?thesis using table map_of_SomeD [OF e(1)] unfolding list_all_iff by fastforce
  qed
  note moves = this
  have old: "\<exists>r \<in> set reviews. rv_submission r = t \<and> rv_decision r \<in> set RETURNS_WORK"
    if "map_of (db_submissions d) t = Some row'" "sb_status row' \<in> set RETURNS_WORK" for t row'
    using assms(2) that unfolding reasons_on_record_def prod.case by blast
  show ?thesis
    unfolding reasons_on_record_def prod.case
  proof (intro conjI allI impI)
    show "\<forall>r \<in> set reviews'. rv_decision r \<in> set RETURNS_WORK \<longrightarrow> \<not> blank (rv_comment r)"
      using assms(2) e(4) unfolding e(9) reasons_on_record_def by auto
  next
    fix t row' assume "map_of (db_submissions d') t = Some row' \<and> sb_status row' \<in> set RETURNS_WORK"
    then show "\<exists>r \<in> set reviews'. rv_submission r = t \<and> rv_decision r \<in> set RETURNS_WORK"
      using old [of t] old [OF e(2)] moves unfolding e(7,9) by (auto split: if_splits)
  qed
qed

lemma server_step_inv: "server_inv C t \<Longrightarrow> server_step C t t' \<Longrightarrow> server_inv C t'"
proof (erule server_stepE)
  fix V parse q d r d' reviews
  assume "server_inv C t" "t = (d, reviews)" "t' = (d', reviews)" "honest V" "sv_collate V = C" "push V parse [] q d = Inr (r, d')"
  then show ?thesis using push_keeps_inv [of V parse q d r d'] push_keeps_reasons [of V parse q d r d' reviews]
    by (auto simp: server_inv_def)
next
  fix visible i now s reviewer decision comment rec
  assume "server_inv C t" "decide visible i now s reviewer decision comment t = Inr (rec, t')"
  then show ?thesis using decide_keeps_inv decide_keeps_reasons by (cases t; cases t') (auto simp: server_inv_def)
qed

interpretation server: step_system unused "server_step C" "server_inv C" for C
proof
  show "server_inv C t" if "unused t" for t
    using that by (cases t) (auto simp: unused_def server_inv_def sync_inv_def log_ok_def stream_numbers_def reasons_on_record_def List.map_filter_def)
  show "server_inv C t'" if "server_inv C t" "server_step C t t'" for t t' using that by (rule server_step_inv)
qed

end
