(* ===== verification/Quality_Rules.thy ===== *)
theory Quality_Rules
  imports Review
begin

text \<open>
  \<open>quality/rules.py\<close> and the rest of \<open>quality/service.py\<close>: the rules a project keeps, the check a rule passes
  before it is stored, the rules that apply to one submission, and the view of a submission's flags and
  reviews that a reviewer reads. \<open>ORDER BY\<close> on text is a parameter (\<open>collate\<close>), as is row-level security.
\<close>

record rule_row = quality_rule +
  rr_project :: string
  rr_form :: "string option"
  rr_enabled :: bool
  rr_created_at :: int

datatype rule_refused = InvalidExpression string | RuleNotFound | RuleRaised py_error

record rule_in =
  ri_name :: string
  ri_definition :: dict
  ri_severity :: string
  ri_enabled :: bool
  ri_form :: "string option"

text \<open>\<open>_Anything\<close> answers null for every path. Outside a repeat an expression only looks up the paths its
  references name, so those are the paths of the probe.\<close>

definition probe :: "dict \<Rightarrow> date \<Rightarrow> string \<Rightarrow> eval_ctx" where
  "probe definition today now = rule_context (map (\<lambda>p. (p, JNull)) (paths_read definition)) today now"

definition check_definition :: "pylib \<Rightarrow> date \<Rightarrow> string \<Rightarrow> dict \<Rightarrow> rule_refused + unit" where
  "check_definition L today now definition =
     (case evaluate L (probe definition today now) (JObj definition) of
        Inr v \<Rightarrow> Inr ()
      | Inl (CompileError message) \<Rightarrow> Inl (InvalidExpression message)
      | Inl (EvaluationError message) \<Rightarrow> Inr ()
      | Inl e \<Rightarrow> Inl (RuleRaised e))"

definition by_name :: "(string \<Rightarrow> int) \<Rightarrow> rule_row list \<Rightarrow> rule_row list" where
  "by_name collate rows = sort_key (\<lambda>r. (collate (ru_name r), collate (ru_id r))) rows"

definition list_rules :: "(string \<Rightarrow> int) \<Rightarrow> (rule_row \<Rightarrow> bool) \<Rightarrow> string \<Rightarrow> rule_row list \<Rightarrow> rule_row list" where
  "list_rules collate visible project rows = by_name collate (filter (\<lambda>r. visible r \<and> rr_project r = project) rows)"

definition create_rule :: "pylib \<Rightarrow> date \<Rightarrow> string \<Rightarrow> int \<Rightarrow> string \<Rightarrow> string \<Rightarrow> rule_in \<Rightarrow> rule_row list
    \<Rightarrow> rule_refused + rule_row \<times> rule_row list" where
  "create_rule L today now created ulid project request rows =
     rbind (check_definition L today now (ri_definition request)) (\<lambda>_.
       let row = \<lparr>ru_id = ulid, ru_name = ri_name request, ru_definition = ri_definition request,
             ru_severity = ri_severity request, ru_path = None, rr_project = project, rr_form = ri_form request,
             rr_enabled = ri_enabled request, rr_created_at = created\<rparr>
       in Inr (row, rows @ [row]))"

definition updated_rule :: "rule_in \<Rightarrow> rule_row \<Rightarrow> rule_row" where
  "updated_rule request r = r\<lparr>ru_name := ri_name request, ru_definition := ri_definition request, ru_severity := ri_severity request,
     rr_enabled := ri_enabled request, rr_form := ri_form request\<rparr>"

definition update_rule :: "pylib \<Rightarrow> date \<Rightarrow> string \<Rightarrow> (rule_row \<Rightarrow> bool) \<Rightarrow> string \<Rightarrow> rule_in \<Rightarrow> rule_row list
    \<Rightarrow> rule_refused + rule_row \<times> rule_row list" where
  "update_rule L today now visible rule_id request rows =
     rbind (check_definition L today now (ri_definition request)) (\<lambda>_.
       case find (\<lambda>r. ru_id r = rule_id \<and> visible r) rows of
         None \<Rightarrow> Inl RuleNotFound
       | Some r \<Rightarrow> Inr (updated_rule request r,
           map (\<lambda>r. if ru_id r = rule_id \<and> visible r then updated_rule request r else r) rows))"

text \<open>The rules that run on a submission: its project's, enabled, for its form or for every form.\<close>

definition rules_for :: "(string \<Rightarrow> int) \<Rightarrow> (string \<Rightarrow> string option) \<Rightarrow> rule_row list \<Rightarrow> db \<Rightarrow> string \<Rightarrow> quality_rule list" where
  "rules_for collate form_of rows d s =
     (case map_of (db_submissions d) s of
        None \<Rightarrow> []
      | Some row \<Rightarrow>
          (case form_of (sb_form_version row) of
             None \<Rightarrow> []
           | Some form \<Rightarrow> map quality_rule.truncate (by_name collate
               (filter (\<lambda>r. rr_project r = sb_project row \<and> rr_enabled r \<and> (rr_form r = None \<or> rr_form r = Some form)) rows))))"

subsection \<open>What a reviewer reads\<close>

record submission_quality_response =
  sq_flags :: "quality_flag list"
  sq_unevaluated :: "quality_flag list"
  sq_reviews :: "(review_row \<times> string option) list"

definition severity_rank :: "string \<Rightarrow> int" where
  "severity_rank severity = (if severity = ''error'' then 0 else if severity = ''warning'' then 1 else 2)"

definition open_flags :: "(string \<Rightarrow> int) \<Rightarrow> string \<Rightarrow> quality_flag list \<Rightarrow> quality_flag list" where
  "open_flags collate s flags =
     sort_key (\<lambda>f. (severity_rank (fl_severity f), collate (fl_name f), collate (fl_id f)))
       (filter (\<lambda>f. fl_submission f = s \<and> \<not> fl_resolved f) flags)"

definition submission_quality :: "(string \<Rightarrow> int) \<Rightarrow> (string \<Rightarrow> string option) \<Rightarrow> string \<Rightarrow> quality_flag list \<Rightarrow> review_row list
    \<Rightarrow> submission_quality_response" where
  "submission_quality collate display_name s flags reviews =
     \<lparr>sq_flags = filter (\<lambda>f. fl_outcome f \<noteq> NOT_EVALUATED) (open_flags collate s flags),
      sq_unevaluated = filter (\<lambda>f. fl_outcome f = NOT_EVALUATED) (open_flags collate s flags),
      sq_reviews = map (\<lambda>r. (r, display_name (rv_reviewer r)))
        (sort_key (\<lambda>r. (- rv_created_at r, - collate (rv_id r))) (filter (\<lambda>r. rv_submission r = s) reviews))\<rparr>"

subsection \<open>Stored rules\<close>

text \<open>A rule that is stored was checked: its definition compiles against unanswered questions, whichever
  requests created and changed it.\<close>

inductive rules_step :: "pylib \<Rightarrow> rule_row list \<Rightarrow> rule_row list \<Rightarrow> bool" for L where
  created: "create_rule L today now created_at ulid project request rows = Inr (row, rows') \<Longrightarrow> rules_step L rows rows'"
| updated: "update_rule L today now visible rule_id request rows = Inr (row, rows') \<Longrightarrow> rules_step L rows rows'"

definition checked :: "pylib \<Rightarrow> rule_row list \<Rightarrow> bool" where
  "checked L rows \<longleftrightarrow> (\<forall>r \<in> set rows. \<exists>today now. check_definition L today now (ru_definition r) = Inr ())"

interpretation rules: step_system "\<lambda>rows. rows = []" "rules_step L" "checked L" for L
proof
  show "checked L rows" if "rows = []" for rows using that by (simp add: checked_def)
  show "checked L rows'" if "checked L rows" "rules_step L rows rows'" for rows rows'
    using that(2)
  proof (cases rule: rules_step.cases)
    case (created today now created_at ulid project request row)
    then have "check_definition L today now (ri_definition request) = Inr ()" by (auto simp: create_rule_def rbind_Inr_iff)
    moreover have "\<exists>row. ru_definition row = ri_definition request \<and> rows' = rows @ [row]"
      using created by (auto simp: create_rule_def rbind_Inr_iff Let_def)
    ultimately show ?thesis using that(1) unfolding checked_def by fastforce
  next
    case (updated today now visible rule_id request row)
    then have "check_definition L today now (ri_definition request) = Inr ()" by (auto simp: update_rule_def rbind_Inr_iff)
    moreover have "rows' = map (\<lambda>r. if ru_id r = rule_id \<and> visible r then updated_rule request r else r) rows"
      using updated by (auto simp: update_rule_def rbind_Inr_iff split: option.splits)
    ultimately show ?thesis using that(1) by (fastforce simp: checked_def updated_rule_def)
  qed
qed

text \<open>The check runs the rule against unanswered questions only, and a branch those answers never reach is not
  looked at: a rule that calls a function that does not exist can be stored, and is then reported as not
  evaluated for every submission that reaches the branch.\<close>

definition branch_rule :: dict where
  "branch_rule = [(''op'', JStr ''if''), (''args'', JList [e_ref ''a'', JObj [(''op'', JStr ''call''), (''fn'', JStr ''no_such''), (''args'', JList [])], e_lit (JBool True)])]"

lemma unreached_branch_is_stored:
  "check_definition sample_lib (mk_date 2024 1 1) [] branch_rule = Inr ()"
  "(case evaluate_rules sample_lib [age_rule\<lparr>ru_definition := branch_rule\<rparr>] [(''a'', JBool True)] [] [] (mk_date 2024 1 1) [] of
     Inr [oc] \<Rightarrow> oc_outcome oc = NOT_EVALUATED | _ \<Rightarrow> False)"
  by code_simp+

end
