(* ===== verification/Media_Upload.thy ===== *)
theory Media_Upload
  imports Sync_Props
begin

text \<open>
  \<open>media/service.py\<close>: the resumable upload of one file in chunks, with the store of
  \<open>infrastructure/media_storage.py\<close> and the routes of \<open>api/v1/media.py\<close>. The hash is a parameter (\<open>sha\<close>), as are the clock,
  fresh ids and the time a session lasts. A media row, and through it its chunks, its wrapped keys and its upload
  session, is visible to a caller who sees its submission. A request that is refused leaves the tables as they were.
\<close>

subsection \<open>Tables\<close>

record chunk_row =
  ch_media :: string
  ch_index :: int
  ch_size :: int
  ch_hash :: string
  ch_key :: string

record upload_row =
  up_id :: string
  up_media :: string
  up_chunk_size :: int
  up_received :: int
  up_expires :: int

record media_wrap_row =
  mw_media :: string
  mw_project_key :: string
  mw_ephemeral :: "string option"
  mw_nonce :: "string option"
  mw_wrapped :: "string option"

text \<open>The blobs of the store are under their resolved path, the names below the root.\<close>

type_synonym blobs = "(string list \<times> string) list"

record media_db =
  mb_db :: db
  mb_chunks :: "chunk_row list"
  mb_uploads :: "upload_row list"
  mb_wraps :: "media_wrap_row list"
  mb_store :: blobs

datatype media_error =
    DeviceMismatch | DeviceNotAuthorized | SubmissionNotFound | UnwrappedMediaKey | UnknownRecipient "string list"
  | MediaConflict | SessionNotFound | SessionExpired | ChunkOutOfRange | ChunkSizeMismatch | ChunksMissing "int list"
  | HashMismatch string | MediaIntegrity | StorageEscapes | StorageError

subsection \<open>Requests\<close>

definition EPHEMERAL_PUBLIC_BYTES :: nat where "EPHEMERAL_PUBLIC_BYTES = 32"
definition WRAPPED_KEY_BYTES :: nat where "WRAPPED_KEY_BYTES = 48"
definition CHUNK_SIZE_BYTES :: int where "CHUNK_SIZE_BYTES = 4 * 1024 * 1024"
definition GCM_TAG_BYTES :: int where "GCM_TAG_BYTES = 16"

definition wire_chunk_size :: "bool \<Rightarrow> int" where
  "wire_chunk_size encrypted = CHUNK_SIZE_BYTES + (if encrypted then GCM_TAG_BYTES else 0)"

definition MAX_MEDIA_BYTES :: int where "MAX_MEDIA_BYTES = 512 * 1024 * 1024"
definition MAX_CHUNKS :: int where "MAX_CHUNKS = (MAX_MEDIA_BYTES + CHUNK_SIZE_BYTES - 1) div CHUNK_SIZE_BYTES"

record session_request =
  sq_media :: string
  sq_submission :: string
  sq_device :: string
  sq_op :: "string option"
  sq_path :: "string option"
  sq_mime :: string
  sq_size :: int
  sq_count :: int
  sq_encrypted :: bool
  sq_content_key :: "string option"
  sq_wraps :: "wrapped_key list"

definition hex_size :: "nat \<Rightarrow> string \<Rightarrow> bool" where
  "hex_size expect_bytes s = (case fromhex s of None \<Rightarrow> False | Some raw \<Rightarrow> length raw = expect_bytes)"

definition length_in :: "nat \<Rightarrow> nat \<Rightarrow> string \<Rightarrow> bool" where
  "length_in lo hi s \<longleftrightarrow> lo \<le> length s \<and> length s \<le> hi"

definition opt_within :: "nat \<Rightarrow> string option \<Rightarrow> bool" where
  "opt_within hi v = (case v of None \<Rightarrow> True | Some s \<Rightarrow> length s \<le> hi)"

definition wrap_ok :: "wrapped_key \<Rightarrow> bool" where
  "wrap_ok w \<longleftrightarrow> length_in 1 64 (wk_project_key w) \<and> hex_size EPHEMERAL_PUBLIC_BYTES (wk_ephemeral w) \<and>
     hex_size NONCE_BYTES (wk_nonce w) \<and> hex_size WRAPPED_KEY_BYTES (wk_key w)"

definition session_request_ok :: "session_request \<Rightarrow> bool" where
  "session_request_ok q \<longleftrightarrow> length_in 1 64 (sq_media q) \<and> length_in 1 64 (sq_submission q) \<and> length_in 1 64 (sq_device q) \<and>
     opt_within 64 (sq_op q) \<and> opt_within 500 (sq_path q) \<and> length_in 1 200 (sq_mime q) \<and>
     1 \<le> sq_size q \<and> sq_size q \<le> MAX_MEDIA_BYTES \<and> 1 \<le> sq_count q \<and> sq_count q \<le> MAX_CHUNKS \<and>
     opt_within 64 (sq_content_key q) \<and> length (sq_wraps q) \<le> 32 \<and> list_all wrap_ok (sq_wraps q)"

subsection \<open>The store\<close>

definition pad8 :: "int \<Rightarrow> string" where
  "pad8 n = (let s = str_of_int n in replicate (8 - length s) (CHR ''0'') @ s)"

definition chunk_storage_key :: "string \<Rightarrow> int \<Rightarrow> string" where
  "chunk_storage_key media_id chunk_index = ''media/'' @ media_id @ ''/'' @ pad8 chunk_index"

text \<open>\<open>resolve\<close> of the joined path, as the parts below the root: \<open>.\<close> and empty parts go, \<open>..\<close> takes the part
  before it. A key that climbs above the root is refused. The store holds no symbolic links.\<close>

fun resolve_parts :: "string list \<Rightarrow> string list \<Rightarrow> string list option" where
  "resolve_parts acc [] = Some (rev acc)"
| "resolve_parts acc (p # ps) =
     (if p = [] \<or> p = ''.'' then resolve_parts acc ps
      else if p = ''..'' then (case acc of [] \<Rightarrow> None | _ # rest \<Rightarrow> resolve_parts rest ps)
      else resolve_parts (p # acc) ps)"

definition store_path :: "string \<Rightarrow> media_error + string list" where
  "store_path key = (case resolve_parts [] (split_on (CHR ''/'') key) of None \<Rightarrow> Inl StorageEscapes | Some path \<Rightarrow> Inr path)"

definition below :: "string list \<Rightarrow> string list \<Rightarrow> bool" where
  "below p q \<longleftrightarrow> length p < length q \<and> take (length p) q = p"

definition partial_path :: "string list \<Rightarrow> string list" where
  "partial_path path = butlast path @ [last path @ ''.partial'']"

text \<open>Write, then rename over: what was under the temporary name is gone afterwards. A name that is a file cannot be a
  directory of the path, nor a directory be replaced by a file.\<close>

definition store_put :: "string \<Rightarrow> string \<Rightarrow> blobs \<Rightarrow> media_error + blobs" where
  "store_put key data store = rbind (store_path key) (\<lambda>path.
     if path = [] \<or> list_ex (\<lambda>(p, d). below p path \<or> below path p \<or> below (partial_path path) p) store then Inl StorageError
     else Inr (AList.update path data (AList.delete (partial_path path) store)))"

definition store_get :: "string \<Rightarrow> blobs \<Rightarrow> media_error + string" where
  "store_get key store = rbind (store_path key) (\<lambda>path.
     case map_of store path of None \<Rightarrow> Inl StorageError | Some data \<Rightarrow> Inr data)"

definition store_delete_prefix :: "string \<Rightarrow> blobs \<Rightarrow> media_error + blobs" where
  "store_delete_prefix key store = rbind (store_path key) (\<lambda>target. Inr (filter (\<lambda>(p, d). \<not> below target p) store))"

subsection \<open>Opening a session\<close>

definition check_media_key :: "session_request \<Rightarrow> media_error + unit" where
  "check_media_key q =
     (if \<not> sq_encrypted q then Inr ()
      else if sq_content_key q = None then Inl UnwrappedMediaKey
      else if sq_wraps q = [] then Inl UnwrappedMediaKey else Inr ())"

definition check_recipients :: "string list \<Rightarrow> session_request \<Rightarrow> media_error + unit" where
  "check_recipients active q =
     (let unknown = str_sort (remdups (filter (\<lambda>k. k \<notin> set active) (map wk_project_key (sq_wraps q))))
      in if unknown \<noteq> [] then Inl (UnknownRecipient unknown) else Inr ())"

text \<open>A recipient named twice breaks the key of the wrapped keys' table.\<close>

definition media_wrap_of :: "string \<Rightarrow> wrapped_key \<Rightarrow> media_wrap_row" where
  "media_wrap_of media_id w = \<lparr>mw_media = media_id, mw_project_key = wk_project_key w, mw_ephemeral = fromhex (wk_ephemeral w),
     mw_nonce = fromhex (wk_nonce w), mw_wrapped = fromhex (wk_key w)\<rparr>"

definition store_wraps :: "string \<Rightarrow> session_request \<Rightarrow> media_wrap_row list \<Rightarrow> media_error + media_wrap_row list" where
  "store_wraps media_id q rows =
     (if distinct (map wk_project_key (sq_wraps q)) then Inr (rows @ map (media_wrap_of media_id) (sq_wraps q)) else Inl MediaIntegrity)"

definition received_indexes :: "media_db \<Rightarrow> string \<Rightarrow> int list" where
  "received_indexes t media_id = sort (map ch_index (filter (\<lambda>c. ch_media c = media_id) (mb_chunks t)))"

definition or_given :: "string option \<Rightarrow> string option \<Rightarrow> string option" where
  "or_given kept other = (case kept of Some s \<Rightarrow> if s = [] then other else Some s | None \<Rightarrow> other)"

definition media_rows :: "media_db \<Rightarrow> media_row list" where "media_rows t = db_media (mb_db t)"

definition find_media :: "server \<Rightarrow> media_db \<Rightarrow> string \<Rightarrow> media_row option" where
  "find_media V t media_id = find (\<lambda>m. md_id m = media_id \<and> sv_visible V (md_submission m)) (media_rows t)"

definition set_media :: "media_row \<Rightarrow> media_db \<Rightarrow> media_db" where
  "set_media m t = t\<lparr>mb_db := (mb_db t)\<lparr>db_media := map (\<lambda>r. if md_id r = md_id m then m else r) (media_rows t)\<rparr>\<rparr>"

definition new_media :: "session_request \<Rightarrow> media_row" where
  "new_media q = \<lparr>md_id = sq_media q, md_submission = sq_submission q, md_op = sq_op q, md_path = sq_path q, md_status = ''uploading'',
     md_device = Some (sq_device q), md_mime = sq_mime q, md_size = sq_size q, md_count = sq_count q, md_encrypted = sq_encrypted q,
     md_content_key = sq_content_key q, md_hash = None, md_storage = None\<rparr>"

definition restate :: "session_request \<Rightarrow> media_row \<Rightarrow> media_row" where
  "restate q m = m\<lparr>md_mime := sq_mime q, md_size := sq_size q, md_count := sq_count q, md_encrypted := sq_encrypted q,
     md_content_key := sq_content_key q\<rparr>"

definition claim_media :: "session_request \<Rightarrow> media_row \<Rightarrow> media_row" where
  "claim_media q m = m\<lparr>md_op := or_given (md_op m) (sq_op q), md_path := or_given (md_path m) (sq_path q), md_status := ''uploading'',
     md_device := or_given (md_device m) (Some (sq_device q))\<rparr>"

definition resume_media :: "session_request \<Rightarrow> media_row \<Rightarrow> media_db \<Rightarrow> media_error + media_db" where
  "resume_media q m t =
     (if md_submission m \<noteq> sq_submission q \<or> (md_device m \<noteq> None \<and> md_device m \<noteq> Some (sq_device q)) then Inl MediaConflict
      else if md_status m = ''complete'' then Inr t
      else if received_indexes t (md_id m) = []
      then rbind (store_wraps (md_id m) q (filter (\<lambda>w. mw_media w \<noteq> md_id m) (mb_wraps t))) (\<lambda>wraps.
             Inr (set_media (claim_media q (restate q m)) (t\<lparr>mb_wraps := wraps\<rparr>)))
      else Inr (set_media (claim_media q m) t))"

definition add_media :: "session_request \<Rightarrow> media_db \<Rightarrow> media_error + media_db" where
  "add_media q t =
     (if sq_media q \<in> set (map md_id (media_rows t)) then Inl MediaIntegrity
      else rbind (store_wraps (sq_media q) q (mb_wraps t)) (\<lambda>wraps.
        Inr (t\<lparr>mb_db := (mb_db t)\<lparr>db_media := media_rows t @ [new_media q]\<rparr>, mb_wraps := wraps\<rparr>)))"

definition place_media :: "server \<Rightarrow> session_request \<Rightarrow> media_db \<Rightarrow> media_error + media_db" where
  "place_media V q t = (case find_media V t (sq_media q) of None \<Rightarrow> add_media q t | Some m \<Rightarrow> resume_media q m t)"

definition place_session :: "string \<Rightarrow> int \<Rightarrow> string \<Rightarrow> upload_row list \<Rightarrow> media_error + upload_row \<times> upload_row list" where
  "place_session ulid expires_at media_id uploads =
     (case find (\<lambda>u. up_media u = media_id) uploads of
        None \<Rightarrow>
          (let u = \<lparr>up_id = ulid, up_media = media_id, up_chunk_size = CHUNK_SIZE_BYTES, up_received = 0, up_expires = expires_at\<rparr>
           in if ulid \<in> set (map up_id uploads) then Inl MediaIntegrity else Inr (u, uploads @ [u]))
      | Some u \<Rightarrow> Inr (u\<lparr>up_expires := expires_at\<rparr>,
                   map (\<lambda>v. if up_id v = up_id u then v\<lparr>up_expires := expires_at\<rparr> else v) uploads))"

record session_response =
  sr_upload :: string
  sr_media :: string
  sr_chunk_size :: int
  sr_count :: int
  sr_received :: "int list"
  sr_status :: string
  sr_expires :: int

definition session_view :: "upload_row \<Rightarrow> media_row \<Rightarrow> media_db \<Rightarrow> session_response" where
  "session_view u m t = \<lparr>sr_upload = up_id u, sr_media = md_id m, sr_chunk_size = CHUNK_SIZE_BYTES, sr_count = md_count m,
     sr_received = received_indexes t (md_id m), sr_status = md_status m, sr_expires = up_expires u\<rparr>"

definition upload_device :: "string \<Rightarrow> media_db \<Rightarrow> media_error + device_row" where
  "upload_device device_id t = (case map_of (db_devices (mb_db t)) device_id of
     None \<Rightarrow> Inl DeviceNotAuthorized
   | Some device \<Rightarrow> if dv_revoked device then Inl DeviceNotAuthorized else Inr device)"

definition upload_submission :: "server \<Rightarrow> device_row \<Rightarrow> string \<Rightarrow> media_db \<Rightarrow> media_error + submission_row" where
  "upload_submission V device s t = (case (if sv_visible V s then map_of (db_submissions (mb_db t)) s else None) of
     None \<Rightarrow> Inl SubmissionNotFound
   | Some row \<Rightarrow> if sb_project row \<noteq> dv_project device then Inl SubmissionNotFound else Inr row)"

definition open_session :: "server \<Rightarrow> int \<Rightarrow> int \<Rightarrow> string \<Rightarrow> session_request \<Rightarrow> media_db \<Rightarrow> media_error + session_response \<times> media_db" where
  "open_session V now ttl ulid q t =
     rbind (upload_device (sq_device q) t) (\<lambda>device.
     rbind (upload_submission V device (sq_submission q) t) (\<lambda>row.
     rbind (check_media_key q) (\<lambda>_.
     rbind (check_recipients (sv_project_keys V (dv_project device)) q) (\<lambda>_.
     rbind (place_media V q t) (\<lambda>t.
     rbind (place_session ulid (now + ttl) (sq_media q) (mb_uploads t)) (\<lambda>(u, uploads).
       case find_media V t (sq_media q) of
         None \<Rightarrow> Inl MediaIntegrity
       | Some m \<Rightarrow> Inr (session_view u m t, t\<lparr>mb_uploads := uploads\<rparr>)))))))"

definition open_upload_session :: "server \<Rightarrow> int \<Rightarrow> int \<Rightarrow> string \<Rightarrow> string option \<Rightarrow> session_request \<Rightarrow> media_db
    \<Rightarrow> media_error + session_response \<times> media_db" where
  "open_upload_session V now ttl ulid bound q t =
     (if bound \<noteq> Some (sq_device q) then Inl DeviceMismatch else open_session V now ttl ulid q t)"

subsection \<open>Chunks\<close>

definition session_and_media :: "server \<Rightarrow> int \<Rightarrow> string \<Rightarrow> media_db \<Rightarrow> media_error + upload_row \<times> media_row" where
  "session_and_media V now upload_id t =
     (case find (\<lambda>u. up_id u = upload_id \<and> find_media V t (up_media u) \<noteq> None) (mb_uploads t) of
        None \<Rightarrow> Inl SessionNotFound
      | Some u \<Rightarrow>
          (if up_expires u \<le> now then Inl SessionExpired
           else case find_media V t (up_media u) of None \<Rightarrow> Inl MediaIntegrity | Some m \<Rightarrow> Inr (u, m)))"

definition chunk_fits :: "media_row \<Rightarrow> int \<Rightarrow> string \<Rightarrow> media_error + unit" where
  "chunk_fits m chunk_index data =
     (let full = wire_chunk_size (md_encrypted m); n = int (length data)
      in if \<not> (0 \<le> chunk_index \<and> chunk_index < md_count m) then Inl ChunkOutOfRange
         else if data = [] then Inl ChunkSizeMismatch
         else if chunk_index \<noteq> md_count m - 1 \<and> n \<noteq> full then Inl ChunkSizeMismatch
         else if full < n then Inl ChunkSizeMismatch else Inr ())"

definition find_chunk :: "media_db \<Rightarrow> string \<Rightarrow> int \<Rightarrow> chunk_row option" where
  "find_chunk t media_id chunk_index = find (\<lambda>c. ch_media c = media_id \<and> ch_index c = chunk_index) (mb_chunks t)"

definition write_chunk :: "(string \<Rightarrow> string) \<Rightarrow> string \<Rightarrow> int \<Rightarrow> string \<Rightarrow> media_db \<Rightarrow> media_error + media_db" where
  "write_chunk sha media_id chunk_index data t =
     (let key = chunk_storage_key media_id chunk_index; digest = sha data
      in case find_chunk t media_id chunk_index of
           None \<Rightarrow> rbind (store_put key data (mb_store t)) (\<lambda>store.
             Inr (t\<lparr>mb_chunks := mb_chunks t @ [\<lparr>ch_media = media_id, ch_index = chunk_index,
               ch_size = int (length data), ch_hash = digest, ch_key = key\<rparr>], mb_store := store\<rparr>))
         | Some c \<Rightarrow>
             (if ch_hash c = digest then Inr t
              else rbind (store_put key data (mb_store t)) (\<lambda>store.
                Inr (t\<lparr>mb_chunks := map (\<lambda>c. if ch_media c = media_id \<and> ch_index c = chunk_index
                  then c\<lparr>ch_size := int (length data), ch_hash := digest\<rparr> else c) (mb_chunks t), mb_store := store\<rparr>))))"

record chunk_response =
  cr_media :: string
  cr_index :: int
  cr_size :: int
  cr_received :: int
  cr_count :: int

definition count_chunks :: "media_db \<Rightarrow> string \<Rightarrow> int" where
  "count_chunks t media_id = int (length (filter (\<lambda>c. ch_media c = media_id) (mb_chunks t)))"

definition put_chunk :: "(string \<Rightarrow> string) \<Rightarrow> server \<Rightarrow> int \<Rightarrow> string \<Rightarrow> int \<Rightarrow> string \<Rightarrow> media_db
    \<Rightarrow> media_error + chunk_response \<times> media_db" where
  "put_chunk sha V now upload_id chunk_index data t =
     rbind (session_and_media V now upload_id t) (\<lambda>(u, m).
     rbind (chunk_fits m chunk_index data) (\<lambda>_.
     rbind (write_chunk sha (md_id m) chunk_index data t) (\<lambda>t.
       let t = set_media (m\<lparr>md_status := ''uploading''\<rparr>) t;
           received = count_chunks t (md_id m)
       in Inr (\<lparr>cr_media = md_id m, cr_index = chunk_index, cr_size = int (length data), cr_received = received,
            cr_count = md_count m\<rparr>,
            t\<lparr>mb_uploads := map (\<lambda>v. if up_id v = up_id u then v\<lparr>up_received := received\<rparr> else v) (mb_uploads t)\<rparr>))))"

subsection \<open>Completion\<close>

definition chunks_in_order :: "media_db \<Rightarrow> string \<Rightarrow> chunk_row list" where
  "chunks_in_order t media_id = sort_key ch_index (filter (\<lambda>c. ch_media c = media_id) (mb_chunks t))"

record complete_response =
  cm_media :: string
  cm_hash :: string
  cm_size :: int
  cm_count :: int
  cm_status :: string

definition sealed :: "string \<Rightarrow> string \<Rightarrow> media_row \<Rightarrow> media_row" where
  "sealed computed content m = m\<lparr>md_status := ''complete'', md_size := int (length content), md_hash := Some computed,
     md_storage := Some (''media/'' @ md_id m)\<rparr>"

text \<open>\<open>complete\<close> returns its outcome and the tables as the session holds them then. A mismatch marks the file \<open>failed\<close> and
  raises; \<open>complete_upload\<close>, the route, runs it in a transaction that the exception rolls back.\<close>

definition complete :: "(string \<Rightarrow> string) \<Rightarrow> server \<Rightarrow> int \<Rightarrow> string \<Rightarrow> string \<Rightarrow> media_db
    \<Rightarrow> (media_error + complete_response) \<times> media_db" where
  "complete sha V now upload_id ciphertext_hash t =
     (case session_and_media V now upload_id t of
        Inl e \<Rightarrow> (Inl e, t)
      | Inr (u, m) \<Rightarrow>
          (let chunks = chunks_in_order t (md_id m);
               missing = filter (\<lambda>i. i \<notin> set (map ch_index chunks)) [0 .. md_count m - 1]
           in if missing \<noteq> [] then (Inl (ChunksMissing missing), t)
              else case mapM (\<lambda>c. store_get (ch_key c) (mb_store t)) chunks of
                Inl e \<Rightarrow> (Inl e, t)
              | Inr datas \<Rightarrow>
                  (let computed = sha (concat datas)
                   in if computed \<noteq> ciphertext_hash then (Inl (HashMismatch computed), set_media (m\<lparr>md_status := ''failed''\<rparr>) t)
                      else (Inr \<lparr>cm_media = md_id m, cm_hash = computed, cm_size = int (length (concat datas)), cm_count = md_count m,
                        cm_status = ''complete''\<rparr>, set_media (sealed computed (concat datas) m) t))))"

definition complete_upload :: "(string \<Rightarrow> string) \<Rightarrow> server \<Rightarrow> int \<Rightarrow> string \<Rightarrow> string \<Rightarrow> media_db
    \<Rightarrow> media_error + complete_response \<times> media_db" where
  "complete_upload sha V now upload_id ciphertext_hash t =
     (case complete sha V now upload_id ciphertext_hash t of (Inl e, t') \<Rightarrow> Inl e | (Inr r, t') \<Rightarrow> Inr (r, t'))"

subsection \<open>Reading\<close>

record media_view =
  mv_row :: media_row
  mv_received :: int
  mv_resolved :: bool

record submission_media_response =
  sm_submission :: string
  sm_media :: "media_view list"
  sm_keys :: "(string \<times> string option \<times> media_wrap_row list) list"
  sm_pending :: int

text \<open>\<open>created\<close> and \<open>rank\<close> stand for the rows' creation times and for the database's collation of ids.\<close>

definition resolved_in :: "db \<Rightarrow> media_row \<Rightarrow> bool" where
  "resolved_in d m \<longleftrightarrow> md_status m = ''complete'' \<and>
     (case md_op m of None \<Rightarrow> False | Some i \<Rightarrow> i \<noteq> [] \<and> i \<in> set (map st_id (db_ops d)))"

definition submission_media :: "server \<Rightarrow> (string \<Rightarrow> int) \<Rightarrow> (string \<Rightarrow> int) \<Rightarrow> string \<Rightarrow> media_db \<Rightarrow> submission_media_response option" where
  "submission_media V created rank s t =
     (if \<not> sv_visible V s \<or> map_of (db_submissions (mb_db t)) s = None then None
      else let rows = sort_key (created \<circ> md_id) (sort_key (rank \<circ> md_id) (filter (\<lambda>m. md_submission m = s) (media_rows t)));
               views = map (\<lambda>m. \<lparr>mv_row = m, mv_received = count_chunks t (md_id m), mv_resolved = resolved_in (mb_db t) m\<rparr>) rows
           in Some \<lparr>sm_submission = s, sm_media = views,
                sm_keys = map (\<lambda>m. (md_id m, md_content_key m,
                    sort_key (rank \<circ> mw_project_key) (filter (\<lambda>w. mw_media w = md_id m) (mb_wraps t)))) (filter md_encrypted rows),
                sm_pending = int (length (filter (\<lambda>v. \<not> mv_resolved v) views))\<rparr>)"

subsection \<open>Capture settings\<close>

record media_policy =
  mp_dimension :: int
  mp_quality :: int
  mp_accuracy :: int

record policy_update =
  pu_dimension :: "int option"
  pu_quality :: "int option"
  pu_accuracy :: "int option"

definition opt_in :: "int \<Rightarrow> int \<Rightarrow> int option \<Rightarrow> bool" where
  "opt_in lo hi v = (case v of None \<Rightarrow> True | Some n \<Rightarrow> lo \<le> n \<and> n \<le> hi)"

definition policy_update_ok :: "policy_update \<Rightarrow> bool" where
  "policy_update_ok u \<longleftrightarrow> opt_in 320 8192 (pu_dimension u) \<and> opt_in 1 100 (pu_quality u) \<and> opt_in 1 10000 (pu_accuracy u)"

definition keep_or :: "int option \<Rightarrow> int \<Rightarrow> int" where
  "keep_or given kept = (case given of None \<Rightarrow> kept | Some n \<Rightarrow> n)"

definition project_media_policy :: "string \<Rightarrow> (string \<times> media_policy) list \<Rightarrow> (string \<times> int \<times> media_policy) option" where
  "project_media_policy project policies = map_option (\<lambda>p. (project, CHUNK_SIZE_BYTES, p)) (map_of policies project)"

definition device_media_policy :: "db \<Rightarrow> string \<Rightarrow> (string \<times> media_policy) list \<Rightarrow> (string \<times> int \<times> media_policy) option" where
  "device_media_policy d device_id policies = (case map_of (db_devices d) device_id of
     None \<Rightarrow> None
   | Some device \<Rightarrow> if dv_revoked device then None else project_media_policy (dv_project device) policies)"

definition update_media_policy :: "string \<Rightarrow> policy_update \<Rightarrow> (string \<times> media_policy) list
    \<Rightarrow> (string \<times> int \<times> media_policy) option \<times> (string \<times> media_policy) list" where
  "update_media_policy project u policies = (case map_of policies project of
     None \<Rightarrow> (None, policies)
   | Some p \<Rightarrow>
       (let p' = \<lparr>mp_dimension = keep_or (pu_dimension u) (mp_dimension p), mp_quality = keep_or (pu_quality u) (mp_quality p),
                  mp_accuracy = keep_or (pu_accuracy u) (mp_accuracy p)\<rparr>
        in (Some (project, CHUNK_SIZE_BYTES, p'), AList.update project p' policies)))"

end
