(* ===== verification/Media_Laws.thy ===== *)
theory Media_Laws
  imports Media_Upload Review Instance_Laws
begin

text \<open>
  The store as its clients use it: the contract of \<open>MediaStore\<close>, discharged by the file store for the keys
  \<open>chunk_storage_key\<close> builds from plain media ids. Then the invariant of the media tables and what each request
  keeps of it.
\<close>

subsection \<open>The contract of a store\<close>

locale media_store =
  fixes put :: "'k \<Rightarrow> 'v \<Rightarrow> 's \<Rightarrow> 'e + 's" and get :: "'k \<Rightarrow> 's \<Rightarrow> 'e + 'v" and key_ok :: "'k \<Rightarrow> bool" and store_ok :: "'s \<Rightarrow> bool"
  assumes put_works: "key_ok k \<Longrightarrow> store_ok s \<Longrightarrow> \<exists>s'. put k v s = Inr s' \<and> store_ok s'"
    and get_put_same: "key_ok k \<Longrightarrow> store_ok s \<Longrightarrow> put k v s = Inr s' \<Longrightarrow> get k s' = Inr v"
    and get_put_other: "key_ok k \<Longrightarrow> store_ok s \<Longrightarrow> put k v s = Inr s' \<Longrightarrow> key_ok k' \<Longrightarrow> k' \<noteq> k \<Longrightarrow> get k' s' = get k' s"
begin

lemma put_ok: "key_ok k \<Longrightarrow> store_ok s \<Longrightarrow> put k v s = Inr s' \<Longrightarrow> store_ok s'"
  using put_works [of k s v] by auto

lemma put_get: "key_ok k \<Longrightarrow> store_ok s \<Longrightarrow> put k v s = Inr s' \<Longrightarrow> key_ok k' \<Longrightarrow> get k' s' = (if k' = k then Inr v else get k' s)"
  using get_put_same get_put_other by simp

lemma put_keeps_all: "key_ok k \<Longrightarrow> store_ok s \<Longrightarrow> put k v s = Inr s' \<Longrightarrow> \<forall>x \<in> set ks. key_ok x \<and> x \<noteq> k \<Longrightarrow>
    mapM (\<lambda>x. get x s') ks = mapM (\<lambda>x. get x s) ks"
  using get_put_other by (intro mapM_cong) auto

end

subsection \<open>Paths of chunks\<close>

definition safe_name :: "string \<Rightarrow> bool" where
  "safe_name i \<longleftrightarrow> i \<noteq> [] \<and> i \<noteq> ''.'' \<and> i \<noteq> ''..'' \<and> CHR ''/'' \<notin> set i"

definition chunk_path :: "string \<times> int \<Rightarrow> string list" where
  "chunk_path k = [''media'', fst k, pad8 (snd k)]"

definition key_ok :: "string \<times> int \<Rightarrow> bool" where "key_ok k \<longleftrightarrow> safe_name (fst k) \<and> 0 \<le> snd k"

definition store_ok :: "blobs \<Rightarrow> bool" where "store_ok store \<longleftrightarrow> (\<forall>p \<in> set (map fst store). \<exists>k. key_ok k \<and> p = chunk_path k)"

definition put_blob :: "string \<times> int \<Rightarrow> string \<Rightarrow> blobs \<Rightarrow> media_error + blobs" where
  "put_blob k = store_put (chunk_storage_key (fst k) (snd k))"

definition get_blob :: "string \<times> int \<Rightarrow> blobs \<Rightarrow> media_error + string" where
  "get_blob k = store_get (chunk_storage_key (fst k) (snd k))"

lemma split_on_none: "d \<notin> set xs \<Longrightarrow> split_on d xs = [xs]"
  by (induction xs) auto

lemma split_on_first: "d \<notin> set xs \<Longrightarrow> split_on d (xs @ d # ys) = xs # split_on d ys"
  by (induction xs) auto

lemma int_of_digits_zeros: "int_of_digits 0 (replicate k (CHR ''0'') @ s) = int_of_digits 0 s"
  by (induction k) (simp_all add: digit_val_def)

lemma pad8_digits:
  assumes "0 \<le> n"
  shows "int_of_digits 0 (pad8 n) = n" "list_all is_digit (pad8 n)" "pad8 n \<noteq> []"
proof -
  have s: "str_of_int n = digits_of n" using assms by (simp add: str_of_int_def)
  have z: "is_digit (CHR ''0'')" by (simp add: is_digit_def)
  show "int_of_digits 0 (pad8 n) = n" "list_all is_digit (pad8 n)" "pad8 n \<noteq> []"
    using digits_of_props [OF assms] z by (auto simp: pad8_def s Let_def int_of_digits_zeros list_all_iff)
qed

lemma pad8_inject: "0 \<le> m \<Longrightarrow> 0 \<le> n \<Longrightarrow> pad8 m = pad8 n \<longleftrightarrow> m = n"
  using pad8_digits(1) by metis

lemma not_digits: "\<not> is_digit (CHR ''/'')" "\<not> is_digit (CHR ''.'')" "\<not> is_digit (CHR ''l'')"
  by (simp_all add: is_digit_def)

lemma pad8_not: 
  assumes "0 \<le> n"
  shows "CHR ''/'' \<notin> set (pad8 n)" "pad8 n \<noteq> ''.''" "pad8 n \<noteq> ''..''" "pad8 m @ ''.partial'' \<noteq> pad8 n"
proof -
  have d: "\<forall>c \<in> set (pad8 n). is_digit c" using pad8_digits(2) [OF assms] by (simp add: list_all_iff)
  show "CHR ''/'' \<notin> set (pad8 n)" "pad8 n \<noteq> ''.''" "pad8 n \<noteq> ''..''" using d not_digits by auto
  have "CHR ''l'' \<in> set (pad8 m @ ''.partial'')" by simp
  then show "pad8 m @ ''.partial'' \<noteq> pad8 n" using d not_digits by metis
qed

lemma chunk_key_path: "key_ok k \<Longrightarrow> store_path (chunk_storage_key (fst k) (snd k)) = Inr (chunk_path k)"
proof -
  assume k: "key_ok k"
  have m: "CHR ''/'' \<notin> set ''media''" by simp
  have i: "CHR ''/'' \<notin> set (fst k)" and n: "CHR ''/'' \<notin> set (pad8 (snd k))" using k pad8_not by (auto simp: key_ok_def safe_name_def)
  have "split_on (CHR ''/'') (''media'' @ CHR ''/'' # fst k @ CHR ''/'' # pad8 (snd k)) = [''media'', fst k, pad8 (snd k)]"
    by (simp only: split_on_first [OF m] split_on_first [OF i] split_on_none [OF n])
  then show ?thesis using k pad8_not pad8_digits(3)
    by (simp add: store_path_def chunk_storage_key_def chunk_path_def key_ok_def safe_name_def)
qed

lemma chunk_path_inject: "key_ok k \<Longrightarrow> key_ok k' \<Longrightarrow> chunk_path k = chunk_path k' \<longleftrightarrow> k = k'"
  by (auto simp: chunk_path_def key_ok_def pad8_inject prod_eq_iff)

lemma partial_chunk_path: "key_ok k \<Longrightarrow> key_ok k' \<Longrightarrow> partial_path (chunk_path k) \<noteq> chunk_path k'"
  using pad8_not(4) [of "snd k'" "snd k"] by (simp add: partial_path_def chunk_path_def key_ok_def)

lemma not_below: "length p = length q \<Longrightarrow> \<not> below p q"
  by (simp add: below_def)

lemma put_blob_runs:
  assumes "key_ok k" "store_ok store"
  shows "put_blob k data store = Inr (AList.update (chunk_path k) data (AList.delete (partial_path (chunk_path k)) store))"
proof -
  have "\<not> below p (chunk_path k) \<and> \<not> below (chunk_path k) p \<and> \<not> below (partial_path (chunk_path k)) p" if "(p, d) \<in> set store" for p d
  proof -
    from that have "p \<in> set (map fst store)" by force
    then have "length p = 3" using assms(2) by (auto simp: store_ok_def chunk_path_def)
    then show ?thesis by (auto simp: below_def chunk_path_def partial_path_def)
  qed
  then have none: "\<not> list_ex (\<lambda>(p, d). below p (chunk_path k) \<or> below (chunk_path k) p \<or> below (partial_path (chunk_path k)) p) store"
    by (auto simp: list_ex_iff)
  show ?thesis using none by (simp add: put_blob_def store_put_def chunk_key_path [OF assms(1)] chunk_path_def)
qed

lemma get_blob_is: "key_ok k \<Longrightarrow> get_blob k store = (case map_of store (chunk_path k) of None \<Rightarrow> Inl StorageError | Some d \<Rightarrow> Inr d)"
  by (simp add: get_blob_def store_get_def chunk_key_path)

interpretation blobs: media_store put_blob get_blob key_ok store_ok
proof
  fix k :: "string \<times> int" and s v
  assume k: "key_ok k" "store_ok s"
  have "set (map fst (AList.update (chunk_path k) v (AList.delete (partial_path (chunk_path k)) s))) \<subseteq> insert (chunk_path k) (set (map fst s))"
    by (auto simp: update_keys delete_keys)
  then have "store_ok (AList.update (chunk_path k) v (AList.delete (partial_path (chunk_path k)) s))"
    using k unfolding store_ok_def by blast
  then show "\<exists>s'. put_blob k v s = Inr s' \<and> store_ok s'" using put_blob_runs [OF k] by simp
next
  fix k :: "string \<times> int" and s v s'
  assume k: "key_ok k" "store_ok s" "put_blob k v s = Inr s'"
  then show "get_blob k s' = Inr v" using put_blob_runs [OF k(1,2)] by (auto simp: get_blob_is update_conv)
  fix k' :: "string \<times> int" assume k': "key_ok k'" "k' \<noteq> k"
  then have "chunk_path k' \<noteq> chunk_path k" using chunk_path_inject k(1) by blast
  moreover have "partial_path (chunk_path k) \<noteq> chunk_path k'" by (rule partial_chunk_path [OF k(1) k'(1)])
  ultimately show "get_blob k' s' = get_blob k' s"
    using k put_blob_runs [OF k(1,2)] k'(1) by (auto simp: get_blob_is update_conv delete_conv)
qed

subsection \<open>The invariant of the tables\<close>

definition blob :: "media_db \<Rightarrow> string \<Rightarrow> int \<Rightarrow> media_error + string" where "blob t i n = get_blob (i, n) (mb_store t)"

definition chunk_keys :: "media_db \<Rightarrow> (string \<times> int) list" where "chunk_keys t = map (\<lambda>c. (ch_media c, ch_index c)) (mb_chunks t)"

definition tables_ok :: "media_db \<Rightarrow> bool" where
  "tables_ok t \<longleftrightarrow> distinct (map md_id (media_rows t)) \<and> distinct (chunk_keys t) \<and> distinct (map up_id (mb_uploads t)) \<and>
     distinct (map up_media (mb_uploads t)) \<and> store_ok (mb_store t)"

definition chunk_ok :: "(string \<Rightarrow> string) \<Rightarrow> media_db \<Rightarrow> chunk_row \<Rightarrow> bool" where
  "chunk_ok sha t c \<longleftrightarrow> safe_name (ch_media c) \<and> ch_key c = chunk_storage_key (ch_media c) (ch_index c) \<and>
     (\<exists>m data. m \<in> set (media_rows t) \<and> md_id m = ch_media c \<and> chunk_fits m (ch_index c) data = Inr () \<and>
        blob t (ch_media c) (ch_index c) = Inr data \<and> ch_hash c = sha data \<and> ch_size c = int (length data))"

definition sessions_ok :: "media_db \<Rightarrow> bool" where
  "sessions_ok t \<longleftrightarrow> (\<forall>u \<in> set (mb_uploads t). safe_name (up_media u) \<and> (\<exists>m \<in> set (media_rows t). md_id m = up_media u \<and> 1 \<le> md_count m))"

text \<open>A file that is whole: all its chunks are there, in order, and what the row says of it is true of their bytes.\<close>

definition whole :: "(string \<Rightarrow> string) \<Rightarrow> media_db \<Rightarrow> media_row \<Rightarrow> bool" where
  "whole sha t m \<longleftrightarrow> 1 \<le> md_count m \<and> received_indexes t (md_id m) = [0 .. md_count m - 1] \<and>
     (\<exists>datas. mapM (blob t (md_id m)) [0 .. md_count m - 1] = Inr datas \<and>
        md_hash m = Some (sha (concat datas)) \<and> md_size m = int (length (concat datas)))"

definition seals_ok :: "(string \<Rightarrow> string) \<Rightarrow> media_db \<Rightarrow> bool" where
  "seals_ok sha t \<longleftrightarrow> (\<forall>m \<in> set (media_rows t). md_status m = ''complete'' \<longrightarrow> whole sha t m)"

definition readable :: "media_db \<Rightarrow> media_row \<Rightarrow> bool" where
  "readable t m \<longleftrightarrow> md_content_key m \<noteq> None \<and> (\<exists>w \<in> set (mb_wraps t). mw_media w = md_id m)"

definition wraps_ok :: "media_db \<Rightarrow> bool" where
  "wraps_ok t \<longleftrightarrow> (\<forall>m \<in> set (media_rows t). md_encrypted m \<longrightarrow> readable t m) \<and>
     distinct (map (\<lambda>w. (mw_media w, mw_project_key w)) (mb_wraps t)) \<and> mw_media ` set (mb_wraps t) \<subseteq> md_id ` set (media_rows t)"

definition media_inv :: "(string \<Rightarrow> string) \<Rightarrow> media_db \<Rightarrow> bool" where
  "media_inv sha t \<longleftrightarrow> tables_ok t \<and> (\<forall>c \<in> set (mb_chunks t). chunk_ok sha t c) \<and> sessions_ok t \<and> seals_ok sha t \<and> wraps_ok t"

lemma media_invD:
  assumes "media_inv sha t"
  shows "tables_ok t" "c \<in> set (mb_chunks t) \<Longrightarrow> chunk_ok sha t c" "sessions_ok t" "seals_ok sha t" "wraps_ok t"
  using assms by (auto simp: media_inv_def)

lemma media_rows_simps [simp]:
  "media_rows (t\<lparr>mb_chunks := a\<rparr>) = media_rows t" "media_rows (t\<lparr>mb_uploads := b\<rparr>) = media_rows t"
  "media_rows (t\<lparr>mb_wraps := c\<rparr>) = media_rows t" "media_rows (t\<lparr>mb_store := s\<rparr>) = media_rows t"
  "media_rows (t\<lparr>mb_db := d\<rparr>) = db_media d"
  "media_rows (set_media m t) = map (\<lambda>r. if md_id r = md_id m then m else r) (media_rows t)"
  by (simp_all add: media_rows_def set_media_def)

lemma set_media_simps [simp]:
  "mb_chunks (set_media m t) = mb_chunks t" "mb_uploads (set_media m t) = mb_uploads t"
  "mb_wraps (set_media m t) = mb_wraps t" "mb_store (set_media m t) = mb_store t"
  by (simp_all add: set_media_def)

lemma set_media_ids: "map md_id (media_rows (set_media m t)) = map md_id (media_rows t)"
  by (simp add: comp_def)

lemma set_media_row: "m' \<in> set (media_rows (set_media m t)) \<Longrightarrow> m' = m \<or> (m' \<in> set (media_rows t) \<and> md_id m' \<noteq> md_id m)"
  by (auto split: if_splits)

lemma row_unique: "tables_ok t \<Longrightarrow> m \<in> set (media_rows t) \<Longrightarrow> m' \<in> set (media_rows t) \<Longrightarrow> md_id m = md_id m' \<Longrightarrow> m = m'"
  unfolding tables_ok_def by (metis distinct_map inj_on_def)

lemma find_media_Some: "find_media V t i = Some m \<Longrightarrow> m \<in> set (media_rows t) \<and> md_id m = i \<and> sv_visible V (md_submission m)"
  unfolding find_media_def by (auto simp: find_Some_iff)

subsection \<open>Rows that change\<close>

text \<open>What the invariant needs of rows that change while chunks, sessions, wraps and store stay: a row with a chunk or a
  session keeps its size in chunks, a sealed row was sealed alike, an encrypted row was encrypted alike.\<close>

definition same_shape :: "media_row \<Rightarrow> media_row \<Rightarrow> bool" where
  "same_shape m m' \<longleftrightarrow> md_id m' = md_id m \<and> md_count m' = md_count m \<and> md_encrypted m' = md_encrypted m \<and> md_content_key m' = md_content_key m"

definition same_seal :: "media_row \<Rightarrow> media_row \<Rightarrow> bool" where
  "same_seal m m' \<longleftrightarrow> md_id m' = md_id m \<and> md_status m' = md_status m \<and> md_count m' = md_count m \<and> md_hash m' = md_hash m \<and> md_size m' = md_size m"

definition rows_grow :: "media_row list \<Rightarrow> media_row list \<Rightarrow> bool" where
  "rows_grow rows rows' \<longleftrightarrow> (distinct (map md_id rows) \<longrightarrow> distinct (map md_id rows')) \<and>
     (\<forall>m \<in> set rows. \<exists>m' \<in> set rows'. same_shape m m') \<and>
     (\<forall>m' \<in> set rows'. (\<exists>m \<in> set rows. same_shape m m') \<or> \<not> md_encrypted m') \<and>
     (\<forall>m' \<in> set rows'. md_status m' = ''complete'' \<longrightarrow> (\<exists>m \<in> set rows. same_seal m m'))"

lemma rows_grow_refl: "rows_grow rows rows"
  unfolding rows_grow_def same_shape_def same_seal_def by blast

lemma same_trans: "same_shape m m' \<Longrightarrow> same_shape m' m'' \<Longrightarrow> same_shape m m''" "same_seal m m' \<Longrightarrow> same_seal m' m'' \<Longrightarrow> same_seal m m''"
  by (simp_all add: same_shape_def same_seal_def)

lemma rows_growD:
  assumes "rows_grow rows rows'"
  shows "distinct (map md_id rows) \<Longrightarrow> distinct (map md_id rows')"
    and "m \<in> set rows \<Longrightarrow> \<exists>m'. m' \<in> set rows' \<and> same_shape m m'"
    and "m' \<in> set rows' \<Longrightarrow> md_encrypted m' \<Longrightarrow> \<exists>m. m \<in> set rows \<and> same_shape m m' \<and> md_encrypted m"
    and "m' \<in> set rows' \<Longrightarrow> md_status m' = ''complete'' \<Longrightarrow> \<exists>m. m \<in> set rows \<and> same_seal m m' \<and> md_status m = ''complete''"
  using assms unfolding rows_grow_def same_shape_def same_seal_def by (simp, metis, metis, metis)

lemma rows_grow_trans:
  assumes "rows_grow a b" "rows_grow b c"
  shows "rows_grow a c"
  unfolding rows_grow_def
proof (intro conjI ballI impI)
  show "distinct (map md_id a) \<Longrightarrow> distinct (map md_id c)" using rows_growD(1) assms by blast
  show "\<exists>m' \<in> set c. same_shape m m'" if m: "m \<in> set a" for m
    using rows_growD(2) [OF assms(1) m] rows_growD(2) [OF assms(2)] same_trans(1) by metis
  show "(\<exists>m \<in> set a. same_shape m m') \<or> \<not> md_encrypted m'" if m': "m' \<in> set c" for m'
    using rows_growD(3) [OF assms(2) m'] rows_growD(3) [OF assms(1)] same_trans(1) by metis
  show "\<exists>m \<in> set a. same_seal m m'" if m': "m' \<in> set c" "md_status m' = ''complete''" for m'
    using rows_growD(4) [OF assms(2) m'] rows_growD(4) [OF assms(1)] same_trans(2) by metis
qed

lemma chunk_fits_shape: "same_shape m m' \<Longrightarrow> chunk_fits m' n data = chunk_fits m n data"
  by (simp add: same_shape_def chunk_fits_def Let_def)

lemma chunk_fits_status [simp]: "chunk_fits (m\<lparr>md_status := x\<rparr>) n data = chunk_fits m n data"
  by (rule chunk_fits_shape) (simp add: same_shape_def)

lemma chunk_ok_rows:
  assumes "chunk_ok sha t c" "\<forall>m \<in> set (media_rows t). \<exists>m' \<in> set (media_rows t'). same_shape m m'" "mb_store t' = mb_store t"
  shows "chunk_ok sha t' c"
proof -
  obtain m data where m: "m \<in> set (media_rows t)" "md_id m = ch_media c" "chunk_fits m (ch_index c) data = Inr ()"
      "blob t (ch_media c) (ch_index c) = Inr data" "ch_hash c = sha data" "ch_size c = int (length data)"
    using assms(1) by (auto simp: chunk_ok_def)
  obtain m' where m': "m' \<in> set (media_rows t')" "same_shape m m'" using assms(2) m(1) by blast
  have "md_id m' = ch_media c" "chunk_fits m' (ch_index c) data = Inr ()" "blob t' (ch_media c) (ch_index c) = Inr data"
    using m m'(2) chunk_fits_shape [OF m'(2)] assms(3) by (simp_all add: same_shape_def blob_def)
  then show ?thesis using assms(1) m(5,6) m'(1) unfolding chunk_ok_def by blast
qed

lemma whole_seal: "same_seal m m' \<Longrightarrow> mb_chunks t' = mb_chunks t \<Longrightarrow> mb_store t' = mb_store t \<Longrightarrow> whole sha t m \<Longrightarrow> whole sha t' m'"
proof -
  assume "same_seal m m'" "mb_chunks t' = mb_chunks t" "mb_store t' = mb_store t" "whole sha t m"
  moreover from this have "blob t' = blob t" by (simp add: blob_def fun_eq_iff)
  ultimately show ?thesis by (simp add: whole_def same_seal_def received_indexes_def)
qed

lemma rows_shape_inv:
  assumes inv: "media_inv sha t" and d: "distinct (map md_id (media_rows t'))"
    and shape: "\<And>m. m \<in> set (media_rows t) \<Longrightarrow> \<exists>m'. m' \<in> set (media_rows t') \<and> same_shape m m'"
    and enc: "\<And>m'. m' \<in> set (media_rows t') \<Longrightarrow> md_encrypted m' \<Longrightarrow> \<exists>m. m \<in> set (media_rows t) \<and> same_shape m m' \<and> md_encrypted m"
    and seals: "seals_ok sha t'"
    and same: "mb_chunks t' = mb_chunks t" "mb_uploads t' = mb_uploads t" "mb_wraps t' = mb_wraps t" "mb_store t' = mb_store t"
  shows "media_inv sha t'"
proof -
  have shape': "\<forall>m \<in> set (media_rows t). \<exists>m' \<in> set (media_rows t'). same_shape m m'" using shape by blast
  have "tables_ok t'" using media_invD(1) [OF inv] d by (simp add: tables_ok_def same chunk_keys_def)
  moreover have "\<forall>c \<in> set (mb_chunks t'). chunk_ok sha t' c"
    using chunk_ok_rows [OF media_invD(2) [OF inv] shape' same(4)] by (simp add: same)
  moreover have "sessions_ok t'"
    using media_invD(3) [OF inv] shape unfolding sessions_ok_def same same_shape_def by metis
  moreover have "wraps_ok t'"
  proof -
    have w: "wraps_ok t" by (rule media_invD(5) [OF inv])
    have "md_id ` set (media_rows t) \<subseteq> md_id ` set (media_rows t')"
    proof
      fix x assume "x \<in> md_id ` set (media_rows t)"
      then obtain m where "m \<in> set (media_rows t)" "x = md_id m" by blast
      then show "x \<in> md_id ` set (media_rows t')" using shape [of m] unfolding same_shape_def by (metis image_eqI)
    qed
    moreover have "readable t' m'" if m': "m' \<in> set (media_rows t')" "md_encrypted m'" for m'
    proof -
      obtain m where m: "m \<in> set (media_rows t)" "same_shape m m'" using enc [OF m'] by blast
      then have "readable t m" using w m'(2) by (auto simp: wraps_ok_def same_shape_def)
      then show ?thesis using m(2) by (simp add: readable_def same_shape_def same)
    qed
    moreover have "distinct (map (\<lambda>w. (mw_media w, mw_project_key w)) (mb_wraps t))" "mw_media ` set (mb_wraps t) \<subseteq> md_id ` set (media_rows t)"
      using w by (simp_all add: wraps_ok_def)
    ultimately show ?thesis unfolding wraps_ok_def same by (metis subset_trans)
  qed
  ultimately show ?thesis using seals by (simp add: media_inv_def)
qed

lemma rows_keep_inv:
  assumes inv: "media_inv sha t" and grow: "rows_grow (media_rows t) (media_rows t')"
    and same: "mb_chunks t' = mb_chunks t" "mb_uploads t' = mb_uploads t" "mb_wraps t' = mb_wraps t" "mb_store t' = mb_store t"
  shows "media_inv sha t'"
proof (rule rows_shape_inv [OF inv _ rows_growD(2,3) [OF grow] _ same])
  show "distinct (map md_id (media_rows t'))" using rows_growD(1) [OF grow] media_invD(1) [OF inv] by (simp add: tables_ok_def)
  show "seals_ok sha t'"
    unfolding seals_ok_def
  proof (intro ballI impI)
    fix m' assume "m' \<in> set (media_rows t')" "md_status m' = ''complete''"
    from rows_growD(4) [OF grow this] obtain m where m: "m \<in> set (media_rows t)" "same_seal m m'" "md_status m = ''complete''" by blast
    then have "whole sha t m" using media_invD(4) [OF inv] by (simp add: seals_ok_def)
    then show "whole sha t' m'" by (rule whole_seal [OF m(2) same(1,4)])
  qed
qed

lemma rows_grow_map:
  assumes "\<And>m. m \<in> set rows \<Longrightarrow> same_shape m (f m) \<and> (md_status (f m) = ''complete'' \<longrightarrow> same_seal m (f m))"
  shows "rows_grow rows (map f rows)"
proof -
  have ids: "map md_id (map f rows) = map md_id rows" using assms by (auto simp: same_shape_def)
  show ?thesis unfolding rows_grow_def ids using assms by auto
qed

lemma rows_grow_add:
  assumes "md_id m \<notin> set (map md_id rows)" "\<not> md_encrypted m" "md_status m \<noteq> ''complete''"
  shows "rows_grow rows (rows @ [m])"
  using assms rows_grow_refl [of rows] unfolding rows_grow_def by auto

lemma register_references_grow: "rows_grow rows (register_references rows references)"
proof -
  have step: "rows_grow rows (register_reference rows x)" for rows x
    unfolding register_reference_def
    by (cases x) (auto intro!: rows_grow_add rows_grow_map simp: same_shape_def same_seal_def)
  have "rows_grow rows (foldl register_reference rows xs)" for xs
    by (induction xs arbitrary: rows) (auto intro: rows_grow_refl rows_grow_trans [OF step])
  then show ?thesis by (simp add: register_references_def)
qed

lemma set_media_grow:
  assumes "tables_ok t" "m \<in> set (media_rows t)" "same_shape m m'" "md_status m' \<noteq> ''complete''"
  shows "rows_grow (media_rows t) (media_rows (set_media m' t))"
  unfolding media_rows_simps
proof (rule rows_grow_map)
  fix r assume r: "r \<in> set (media_rows t)"
  have "md_id r = md_id m' \<Longrightarrow> r = m" using row_unique [OF assms(1) r assms(2)] assms(3) by (simp add: same_shape_def)
  then show "same_shape r (if md_id r = md_id m' then m' else r) \<and>
      (md_status (if md_id r = md_id m' then m' else r) = ''complete'' \<longrightarrow> same_seal r (if md_id r = md_id m' then m' else r))"
    using assms(3,4) by (auto simp: same_shape_def same_seal_def)
qed

lemma set_media_keeps_inv:
  assumes "media_inv sha t" "m \<in> set (media_rows t)" "same_shape m m'" "md_status m' \<noteq> ''complete''"
  shows "media_inv sha (set_media m' t)"
  by (rule rows_keep_inv [OF assms(1) set_media_grow [OF media_invD(1) [OF assms(1)] assms(2-4)]]) simp_all

text \<open>A row that begins anew, with its own wrapped keys and no chunk.\<close>

lemma new_row_keeps_inv:
  assumes inv: "media_inv sha t"
    and same: "mb_chunks t' = mb_chunks t" "mb_uploads t' = mb_uploads t" "mb_store t' = mb_store t"
    and rows: "set (media_rows t') = insert m' {m \<in> set (media_rows t). md_id m \<noteq> md_id m'}" "distinct (map md_id (media_rows t'))"
    and none: "\<forall>c \<in> set (mb_chunks t). ch_media c \<noteq> md_id m'" and m': "md_status m' \<noteq> ''complete''" "1 \<le> md_count m'"
    and key: "md_encrypted m' \<longrightarrow> md_content_key m' \<noteq> None \<and> ws \<noteq> []"
    and wraps: "mb_wraps t' = filter (\<lambda>w. mw_media w \<noteq> md_id m') (mb_wraps t) @ map (media_wrap_of (md_id m')) ws"
      "distinct (map wk_project_key ws)"
  shows "media_inv sha t'"
proof -
  have b: "blob t' = blob t" by (simp add: blob_def fun_eq_iff same)
  have "tables_ok t'" using media_invD(1) [OF inv] rows(2) by (simp add: tables_ok_def same chunk_keys_def)
  moreover have "\<forall>c \<in> set (mb_chunks t'). chunk_ok sha t' c"
    using media_invD(2) [OF inv] none unfolding chunk_ok_def same b rows(1) by fastforce
  moreover have "sessions_ok t'"
    using media_invD(3) [OF inv] m'(2) unfolding sessions_ok_def same rows(1) by fastforce
  moreover have "seals_ok sha t'"
    using media_invD(4) [OF inv] m'(1) unfolding seals_ok_def rows(1) whole_def b received_indexes_def same by auto
  moreover have "wraps_ok t'"
  proof -
    have w: "wraps_ok t" by (rule media_invD(5) [OF inv])
    have "readable t' m" if m: "m \<in> set (media_rows t')" and enc: "md_encrypted m" for m
    proof (cases "m = m'")
      case True
      obtain x where "x \<in> set ws" using key enc unfolding True by (cases ws) auto
      then have "media_wrap_of (md_id m') x \<in> set (mb_wraps t')" "mw_media (media_wrap_of (md_id m') x) = md_id m'"
        unfolding wraps(1) by (auto simp: media_wrap_of_def)
      then show ?thesis using key enc unfolding True readable_def by blast
    next
      case False
      then have m: "m \<in> set (media_rows t)" "md_id m \<noteq> md_id m'" using m unfolding rows(1) by auto
      then have "readable t m" using w enc by (simp add: wraps_ok_def)
      then show ?thesis using m(2) unfolding readable_def wraps(1) by auto
    qed
    moreover have "distinct (map (\<lambda>w. (mw_media w, mw_project_key w)) (mb_wraps t'))"
    proof -
      have "map (\<lambda>w. (mw_media w, mw_project_key w)) (map (media_wrap_of (md_id m')) ws) = map (Pair (md_id m')) (map wk_project_key ws)"
        by (simp add: media_wrap_of_def)
      moreover have "distinct (map (Pair (md_id m')) (map wk_project_key ws))" using wraps(2) by (simp only: distinct_map) (simp add: inj_on_def)
      ultimately have "distinct (map (\<lambda>w. (mw_media w, mw_project_key w)) (map (media_wrap_of (md_id m')) ws))" by (simp only:)
      moreover have "distinct (map (\<lambda>w. (mw_media w, mw_project_key w)) (filter (\<lambda>w. mw_media w \<noteq> md_id m') (mb_wraps t)))"
        using w by (auto simp: wraps_ok_def intro: distinct_map_filter)
      ultimately show ?thesis unfolding wraps(1) by (auto simp: media_wrap_of_def)
    qed
    moreover have "mw_media ` set (mb_wraps t') \<subseteq> md_id ` set (media_rows t')"
    proof
      fix x assume "x \<in> mw_media ` set (mb_wraps t')"
      then have "x = md_id m' \<or> x \<in> mw_media ` set (mb_wraps t)" unfolding wraps(1) by (auto simp: media_wrap_of_def)
      then have "x = md_id m' \<or> x \<in> md_id ` set (media_rows t)" using w by (auto simp: wraps_ok_def)
      then show "x \<in> md_id ` set (media_rows t')" unfolding rows(1) by blast
    qed
    ultimately show ?thesis by (simp add: wraps_ok_def)
  qed
  ultimately show ?thesis by (simp add: media_inv_def)
qed

subsection \<open>Opening a session keeps the invariant\<close>

definition placed :: "media_db \<Rightarrow> string \<Rightarrow> bool" where
  "placed t i \<longleftrightarrow> (\<exists>m \<in> set (media_rows t). md_id m = i \<and> 1 \<le> md_count m)"

lemma no_chunks: "received_indexes t i = [] \<longleftrightarrow> (\<forall>c \<in> set (mb_chunks t). ch_media c \<noteq> i)"
proof -
  have "received_indexes t i = [] \<longleftrightarrow> length (received_indexes t i) = 0" by simp
  also have "\<dots> \<longleftrightarrow> filter (\<lambda>c. ch_media c = i) (mb_chunks t) = []" unfolding received_indexes_def length_sort length_map by simp
  finally show ?thesis by (simp add: filter_empty_conv)
qed

lemma chunk_needs_count: "chunk_fits m n data = Inr () \<Longrightarrow> 0 \<le> n \<and> n < md_count m"
  by (auto simp: chunk_fits_def Let_def split: if_splits)

lemma resume_keeps_inv:
  assumes inv: "media_inv sha t" and m: "m \<in> set (media_rows t)" and run: "resume_media q m t = Inr t'"
    and ok: "session_request_ok q" "check_media_key q = Inr ()"
  shows "media_inv sha t' \<and> placed t' (md_id m)"
proof -
  consider (whole) "md_status m = ''complete''" "t' = t"
    | (anew) wraps where "received_indexes t (md_id m) = []" "distinct (map wk_project_key (sq_wraps q))"
        "wraps = filter (\<lambda>w. mw_media w \<noteq> md_id m) (mb_wraps t) @ map (media_wrap_of (md_id m)) (sq_wraps q)"
        "t' = set_media (claim_media q (restate q m)) (t\<lparr>mb_wraps := wraps\<rparr>)"
    | (goes_on) "received_indexes t (md_id m) \<noteq> []" "t' = set_media (claim_media q m) t"
    using run unfolding resume_media_def store_wraps_def rbind_def
    by (cases "distinct (map wk_project_key (sq_wraps q))"; cases "received_indexes t (md_id m) = []"; cases "md_status m = ''complete''")
      (simp_all split: if_splits)
  then show ?thesis
  proof cases
    case whole
    then have "1 \<le> md_count m" using media_invD(4) [OF inv] m by (simp add: seals_ok_def whole_def)
    then show ?thesis using whole inv m by (auto simp: placed_def)
  next
    case anew
    let ?m = "claim_media q (restate q m)"
    have id: "md_id ?m = md_id m" by (simp add: claim_media_def restate_def)
    have count: "1 \<le> md_count ?m" using ok(1) by (simp add: claim_media_def restate_def session_request_ok_def)
    have mem: "set (media_rows t') = insert ?m {r \<in> set (media_rows t). md_id r \<noteq> md_id ?m}"
      using m by (auto simp: anew(4) id)
    have "media_inv sha t'"
    proof (rule new_row_keeps_inv [OF inv _ _ _ mem])
      show "distinct (map md_id (media_rows t'))"
        using media_invD(1) [OF inv] unfolding anew(4) set_media_ids by (simp add: tables_ok_def)
      show "\<forall>c \<in> set (mb_chunks t). ch_media c \<noteq> md_id ?m" using anew(1) unfolding no_chunks id .
      show "md_status ?m \<noteq> ''complete''" by (simp add: claim_media_def)
      show "md_encrypted ?m \<longrightarrow> md_content_key ?m \<noteq> None \<and> sq_wraps q \<noteq> []"
        using ok(2) by (auto simp: claim_media_def restate_def check_media_key_def split: if_splits)
      show "mb_wraps t' = filter (\<lambda>w. mw_media w \<noteq> md_id ?m) (mb_wraps t) @ map (media_wrap_of (md_id ?m)) (sq_wraps q)"
        by (simp add: anew(3,4) id)
    qed (use anew count in simp_all)
    moreover have "placed t' (md_id m)" using mem count id unfolding placed_def by blast
    ultimately show ?thesis by simp
  next
    case goes_on
    have shape: "same_shape m (claim_media q m)" by (simp add: same_shape_def claim_media_def)
    obtain c where c: "c \<in> set (mb_chunks t)" "ch_media c = md_id m" using goes_on(1) by (auto simp: no_chunks)
    obtain m1 data where m1: "m1 \<in> set (media_rows t)" "md_id m1 = ch_media c" "chunk_fits m1 (ch_index c) data = Inr ()"
      using media_invD(2) [OF inv c(1)] unfolding chunk_ok_def by blast
    have "m1 = m" using row_unique [OF media_invD(1) [OF inv] m1(1) m] m1(2) c(2) by simp
    then have "1 \<le> md_count m" using chunk_needs_count [OF m1(3)] by simp
    then have "placed t' (md_id m)" unfolding placed_def goes_on(2) using m
      by (intro bexI [of _ "claim_media q m"]) (auto simp: claim_media_def)
    moreover have "media_inv sha t'" unfolding goes_on(2)
      by (rule set_media_keeps_inv [OF inv m shape]) (simp add: claim_media_def)
    ultimately show ?thesis by simp
  qed
qed

lemma add_media_keeps_inv:
  assumes inv: "media_inv sha t" and run: "add_media q t = Inr t'"
    and ok: "session_request_ok q" "check_media_key q = Inr ()"
  shows "media_inv sha t' \<and> placed t' (sq_media q)"
proof -
  have new: "sq_media q \<notin> set (map md_id (media_rows t))" and d: "distinct (map wk_project_key (sq_wraps q))"
    and t': "t' = t\<lparr>mb_db := (mb_db t)\<lparr>db_media := media_rows t @ [new_media q]\<rparr>,
      mb_wraps := mb_wraps t @ map (media_wrap_of (sq_media q)) (sq_wraps q)\<rparr>"
    using run by (auto simp: add_media_def store_wraps_def rbind_def split: if_splits)
  have id: "md_id (new_media q) = sq_media q" by (simp add: new_media_def)
  have count: "1 \<le> md_count (new_media q)" using ok(1) by (simp add: new_media_def session_request_ok_def)
  have rows: "media_rows t' = media_rows t @ [new_media q]" by (simp add: t')
  have mem: "set (media_rows t') = insert (new_media q) {r \<in> set (media_rows t). md_id r \<noteq> md_id (new_media q)}"
    using new unfolding rows id by (auto simp: image_iff)
  have "media_inv sha t'"
  proof (rule new_row_keeps_inv [OF inv _ _ _ mem])
    show "distinct (map md_id (media_rows t'))" using media_invD(1) [OF inv] new unfolding rows by (simp add: tables_ok_def id)
    show "\<forall>c \<in> set (mb_chunks t). ch_media c \<noteq> md_id (new_media q)"
    proof
      fix c assume "c \<in> set (mb_chunks t)"
      then have "ch_media c \<in> md_id ` set (media_rows t)" using media_invD(2) [OF inv, of c] unfolding chunk_ok_def by (metis image_eqI)
      then show "ch_media c \<noteq> md_id (new_media q)" using new unfolding id by auto
    qed
    show "md_status (new_media q) \<noteq> ''complete''" by (simp add: new_media_def)
    show "md_encrypted (new_media q) \<longrightarrow> md_content_key (new_media q) \<noteq> None \<and> sq_wraps q \<noteq> []"
      using ok(2) by (auto simp: new_media_def check_media_key_def split: if_splits)
    have "mw_media ` set (mb_wraps t) \<subseteq> md_id ` set (media_rows t)" using media_invD(5) [OF inv] by (simp add: wraps_ok_def)
    then have "filter (\<lambda>w. mw_media w \<noteq> sq_media q) (mb_wraps t) = mb_wraps t"
      using new unfolding filter_id_conv list.set_map by (metis image_eqI subsetD)
    then show "mb_wraps t' = filter (\<lambda>w. mw_media w \<noteq> md_id (new_media q)) (mb_wraps t) @
        map (media_wrap_of (md_id (new_media q))) (sq_wraps q)"
      by (simp add: t' id)
  qed (use t' count d in simp_all)
  then show ?thesis using count id unfolding placed_def rows by auto
qed

lemma place_session_run:
  assumes "place_session ulid e i ups = Inr (u, ups')" "distinct (map up_id ups)" "distinct (map up_media ups)"
  shows "u \<in> set ups'" "up_media u = i" "up_expires u = e" "distinct (map up_id ups')" "distinct (map up_media ups')"
    "up_media ` set ups' = insert i (up_media ` set ups)"
proof -
  have "u \<in> set ups' \<and> up_media u = i \<and> up_expires u = e \<and> distinct (map up_id ups') \<and> distinct (map up_media ups') \<and>
      up_media ` set ups' = insert i (up_media ` set ups)"
  proof (cases "find (\<lambda>u. up_media u = i) ups")
    case None
    then have "\<forall>v \<in> set ups. up_media v \<noteq> i" by (simp add: find_None_iff)
    then show ?thesis using assms None by (auto simp: place_session_def Let_def split: if_splits)
  next
    case (Some v)
    then have v: "v \<in> set ups" "up_media v = i" by (auto simp: find_Some_iff)
    have ups': "u = v\<lparr>up_expires := e\<rparr>" "ups' = map (\<lambda>w. if up_id w = up_id v then w\<lparr>up_expires := e\<rparr> else w) ups"
      using assms(1) Some by (simp_all add: place_session_def)
    have keep: "map up_id ups' = map up_id ups" "map up_media ups' = map up_media ups" unfolding ups'(2) by simp_all
    have "up_media ` set ups' = up_media ` set ups" using keep(2) by (metis list.set_map)
    moreover have "u \<in> set ups'" unfolding ups' using v(1) by (auto intro!: image_eqI [of _ _ v])
    ultimately show ?thesis using v assms(2,3) keep unfolding ups'(1) by auto
  qed
  then show "u \<in> set ups'" "up_media u = i" "up_expires u = e" "distinct (map up_id ups')" "distinct (map up_media ups')"
    "up_media ` set ups' = insert i (up_media ` set ups)" by simp_all
qed

lemma uploads_keep_inv:
  assumes "media_inv sha t" "distinct (map up_id ups)" "distinct (map up_media ups)"
    and "\<forall>u \<in> set ups. up_media u \<in> up_media ` set (mb_uploads t) \<or> (safe_name (up_media u) \<and> placed t (up_media u))"
  shows "media_inv sha (t\<lparr>mb_uploads := ups\<rparr>)"
proof -
  let ?t = "t\<lparr>mb_uploads := ups\<rparr>"
  have b: "blob ?t = blob t" by (simp add: blob_def fun_eq_iff)
  have "chunk_ok sha ?t c \<longleftrightarrow> chunk_ok sha t c" for c by (simp add: chunk_ok_def b)
  moreover have "seals_ok sha ?t \<longleftrightarrow> seals_ok sha t" by (simp add: seals_ok_def whole_def b received_indexes_def)
  moreover have "wraps_ok ?t \<longleftrightarrow> wraps_ok t" by (simp add: wraps_ok_def readable_def)
  moreover have "tables_ok ?t" using media_invD(1) [OF assms(1)] assms(2,3) by (simp add: tables_ok_def chunk_keys_def)
  moreover have "sessions_ok ?t" using media_invD(3) [OF assms(1)] assms(4) unfolding sessions_ok_def placed_def by fastforce
  ultimately show ?thesis using assms(1) by (simp add: media_inv_def)
qed

lemma open_session_run:
  assumes inv: "media_inv sha t" and run: "open_session V now ttl ulid q t = Inr (r, t')"
    and ok: "session_request_ok q" "safe_name (sq_media q)"
  obtains t1 u ups m where "media_inv sha t1" "placed t1 (sq_media q)" "place_media V q t = Inr t1"
    "place_session ulid (now + ttl) (sq_media q) (mb_uploads t1) = Inr (u, ups)" "t' = t1\<lparr>mb_uploads := ups\<rparr>"
    "find_media V t1 (sq_media q) = Some m" "r = session_view u m t1"
proof -
  obtain t1 u ups m where h: "check_media_key q = Inr ()" "place_media V q t = Inr t1"
    "place_session ulid (now + ttl) (sq_media q) (mb_uploads t1) = Inr (u, ups)"
    "find_media V t1 (sq_media q) = Some m" "r = session_view u m t1" "t' = t1\<lparr>mb_uploads := ups\<rparr>"
    using run unfolding open_session_def by (auto simp: rbind_Inr_iff split: option.splits)
  have "media_inv sha t1 \<and> placed t1 (sq_media q)"
  proof (cases "find_media V t (sq_media q)")
    case None
    then have "add_media q t = Inr t1" using h(2) by (simp add: place_media_def)
    then show ?thesis by (rule add_media_keeps_inv [OF inv _ ok(1) h(1)])
  next
    case (Some m)
    then have "resume_media q m t = Inr t1" "m \<in> set (media_rows t)" "md_id m = sq_media q"
      using h(2) find_media_Some [OF Some] by (simp_all add: place_media_def)
    then show ?thesis using resume_keeps_inv [OF inv _ _ ok(1) h(1), of m t1] by simp
  qed
  then show thesis using h by (intro that) auto
qed

lemma open_session_keeps_inv:
  assumes inv: "media_inv sha t" and run: "open_session V now ttl ulid q t = Inr (r, t')"
    and ok: "session_request_ok q" "safe_name (sq_media q)"
  shows "media_inv sha t'"
proof -
  obtain t1 u ups m where h: "media_inv sha t1" "placed t1 (sq_media q)" "place_media V q t = Inr t1"
    "place_session ulid (now + ttl) (sq_media q) (mb_uploads t1) = Inr (u, ups)" "t' = t1\<lparr>mb_uploads := ups\<rparr>"
    "find_media V t1 (sq_media q) = Some m" "r = session_view u m t1"
    by (rule open_session_run [OF assms])
  have "distinct (map up_id (mb_uploads t1))" "distinct (map up_media (mb_uploads t1))"
    using media_invD(1) [OF h(1)] by (simp_all add: tables_ok_def)
  note s = place_session_run [OF h(4) this]
  have "\<forall>v \<in> set ups. up_media v \<in> up_media ` set (mb_uploads t1) \<or> (safe_name (up_media v) \<and> placed t1 (up_media v))"
    using s(6) h(2) ok(2) by (metis image_eqI insertE)
  then show ?thesis unfolding h(5) by (rule uploads_keep_inv [OF h(1) s(4,5)])
qed

subsection \<open>Storing a chunk keeps the invariant\<close>

lemma session_and_media_Inr:
  assumes "session_and_media V now upload_id t = Inr (u, m)"
  shows "u \<in> set (mb_uploads t)" "up_id u = upload_id" "now < up_expires u" "find_media V t (up_media u) = Some m"
    "m \<in> set (media_rows t)" "md_id m = up_media u"
proof -
  have "find (\<lambda>u. up_id u = upload_id \<and> find_media V t (up_media u) \<noteq> None) (mb_uploads t) = Some u" "now < up_expires u"
    "find_media V t (up_media u) = Some m"
    using assms by (auto simp: session_and_media_def split: option.splits if_splits)
  then show "u \<in> set (mb_uploads t)" "up_id u = upload_id" "now < up_expires u" "find_media V t (up_media u) = Some m"
    "m \<in> set (media_rows t)" "md_id m = up_media u"
    using find_media_Some [of V t "up_media u" m] by (auto simp: find_Some_iff)
qed

lemma find_chunk_None: "find_chunk t i n = None \<longleftrightarrow> (i, n) \<notin> set (chunk_keys t)"
  by (auto simp: find_chunk_def find_None_iff chunk_keys_def)

lemma find_chunk_Some: "find_chunk t i n = Some c \<Longrightarrow> c \<in> set (mb_chunks t) \<and> ch_media c = i \<and> ch_index c = n"
  by (auto simp: find_chunk_def find_Some_iff)

lemma chunk_unique: "tables_ok t \<Longrightarrow> c \<in> set (mb_chunks t) \<Longrightarrow> c' \<in> set (mb_chunks t) \<Longrightarrow> ch_media c = ch_media c' \<Longrightarrow>
    ch_index c = ch_index c' \<Longrightarrow> c = c'"
  unfolding tables_ok_def chunk_keys_def distinct_map inj_on_def by blast

text \<open>What a written chunk leaves: the other chunks and their bytes as they were, and a row true of the bytes.\<close>

definition row_written :: "(string \<Rightarrow> string) \<Rightarrow> media_db \<Rightarrow> string \<Rightarrow> int \<Rightarrow> string \<Rightarrow> media_db \<Rightarrow> chunk_row \<Rightarrow> string \<Rightarrow> bool" where
  "row_written sha t i n data t1 c bytes \<longleftrightarrow> ch_media c = i \<and> ch_index c = n \<and> ch_key c = chunk_storage_key i n \<and>
     ch_hash c = sha bytes \<and> sha bytes = sha data \<and> ch_size c = int (length bytes) \<and> blob t1 i n = Inr bytes \<and>
     (bytes = data \<or> blob t i n = Inr bytes \<and> c \<in> set (mb_chunks t)) \<and>
     set (mb_chunks t1) = insert c {c' \<in> set (mb_chunks t). (ch_media c', ch_index c') \<noteq> (i, n)}"

definition wrote :: "(string \<Rightarrow> string) \<Rightarrow> media_db \<Rightarrow> string \<Rightarrow> int \<Rightarrow> string \<Rightarrow> media_db \<Rightarrow> bool" where
  "wrote sha t i n data t1 \<longleftrightarrow> (\<exists>c bytes. row_written sha t i n data t1 c bytes) \<and>
     distinct (chunk_keys t1) \<and> store_ok (mb_store t1) \<and>
     (\<forall>j k. safe_name j \<and> 0 \<le> k \<and> (j, k) \<noteq> (i, n) \<longrightarrow> blob t1 j k = blob t j k) \<and>
     (\<exists>chunks store. t1 = t\<lparr>mb_chunks := chunks, mb_store := store\<rparr>) \<and>
     set (chunk_keys t1) = insert (i, n) (set (chunk_keys t)) \<and>
     (\<forall>j. j \<noteq> i \<longrightarrow> filter (\<lambda>c. ch_media c = j) (mb_chunks t1) = filter (\<lambda>c. ch_media c = j) (mb_chunks t))"

lemma wroteD:
  assumes "wrote sha t i n data t1"
  shows "\<exists>c bytes. row_written sha t i n data t1 c bytes" "distinct (chunk_keys t1)" "store_ok (mb_store t1)"
    "safe_name j \<Longrightarrow> 0 \<le> k \<Longrightarrow> (j, k) \<noteq> (i, n) \<Longrightarrow> blob t1 j k = blob t j k"
    "\<exists>chunks store. t1 = t\<lparr>mb_chunks := chunks, mb_store := store\<rparr>"
    "set (chunk_keys t1) = insert (i, n) (set (chunk_keys t))"
    "j \<noteq> i \<Longrightarrow> filter (\<lambda>c. ch_media c = j) (mb_chunks t1) = filter (\<lambda>c. ch_media c = j) (mb_chunks t)"
  using assms unfolding wrote_def by blast+

lemma stored_blob:
  assumes "store_ok (mb_store t)" "key_ok (i, n)" "store_put (chunk_storage_key i n) data (mb_store t) = Inr s"
  shows "store_ok s" "get_blob (i, n) s = Inr data"
    "\<forall>j k. safe_name j \<and> 0 \<le> k \<and> (j, k) \<noteq> (i, n) \<longrightarrow> get_blob (j, k) s = get_blob (j, k) (mb_store t)"
proof -
  have p: "put_blob (i, n) data (mb_store t) = Inr s" using assms(3) by (simp add: put_blob_def)
  show "store_ok s" "get_blob (i, n) s = Inr data"
    "\<forall>j k. safe_name j \<and> 0 \<le> k \<and> (j, k) \<noteq> (i, n) \<longrightarrow> get_blob (j, k) s = get_blob (j, k) (mb_store t)"
    using blobs.put_ok [OF assms(2,1) p] blobs.put_get [OF assms(2,1) p] assms(2) by (auto simp: key_ok_def)
qed

lemma wrote_new:
  assumes tab: "tables_ok t" and k: "key_ok (i, n)" and none: "find_chunk t i n = None" and run: "write_chunk sha i n data t = Inr t1"
  shows "wrote sha t i n data t1"
proof -
  let ?new = "\<lparr>ch_media = i, ch_index = n, ch_size = int (length data), ch_hash = sha data, ch_key = chunk_storage_key i n\<rparr>"
  have ok: "store_ok (mb_store t)" "distinct (chunk_keys t)" using tab by (simp_all add: tables_ok_def)
  obtain s where s: "store_put (chunk_storage_key i n) data (mb_store t) = Inr s"
    and t1: "t1 = t\<lparr>mb_chunks := mb_chunks t @ [?new], mb_store := s\<rparr>"
    using run none by (auto simp: write_chunk_def Let_def rbind_Inr_iff)
  note st = stored_blob [OF ok(1) k s]
  have new: "(i, n) \<notin> set (chunk_keys t)" using none by (simp add: find_chunk_None)
  then have "set (mb_chunks t1) = insert ?new {c' \<in> set (mb_chunks t). (ch_media c', ch_index c') \<noteq> (i, n)}"
    by (auto simp: t1 chunk_keys_def image_iff)
  then have "row_written sha t i n data t1 ?new data" using st(2) by (simp add: row_written_def blob_def t1)
  moreover have "distinct (chunk_keys t1) \<and> set (chunk_keys t1) = insert (i, n) (set (chunk_keys t))"
    using new ok(2) by (simp add: t1 chunk_keys_def)
  moreover have "\<exists>chunks store. t1 = t\<lparr>mb_chunks := chunks, mb_store := store\<rparr>" using t1 by blast
  ultimately show ?thesis using st(1,3) unfolding wrote_def by (auto simp: t1 blob_def)
qed

lemma wrote_over:
  assumes tab: "tables_ok t" and k: "key_ok (i, n)" and c: "find_chunk t i n = Some c" "ch_key c = chunk_storage_key i n"
    and run: "write_chunk sha i n data t = Inr t1" and differs: "ch_hash c \<noteq> sha data"
  shows "wrote sha t i n data t1"
proof -
  let ?f = "\<lambda>c. if ch_media c = i \<and> ch_index c = n then c\<lparr>ch_size := int (length data), ch_hash := sha data\<rparr> else c"
  let ?c = "c\<lparr>ch_size := int (length data), ch_hash := sha data\<rparr>"
  have ok: "store_ok (mb_store t)" "distinct (chunk_keys t)" using tab by (simp_all add: tables_ok_def)
  obtain s where s: "store_put (chunk_storage_key i n) data (mb_store t) = Inr s"
    and t1: "t1 = t\<lparr>mb_chunks := map ?f (mb_chunks t), mb_store := s\<rparr>"
    using run c(1) differs by (auto simp: write_chunk_def Let_def rbind_Inr_iff)
  note st = stored_blob [OF ok(1) k s] and found = find_chunk_Some [OF c(1)]
  have keys: "chunk_keys t1 = chunk_keys t" by (auto simp: t1 chunk_keys_def)
  have "(i, n) \<in> set (chunk_keys t)" using c(1) find_chunk_None [of t i n] by simp
  then have keys': "set (chunk_keys t1) = insert (i, n) (set (chunk_keys t))" unfolding keys by blast
  have "?f c' = (if c' = c then ?c else c')" if "c' \<in> set (mb_chunks t)" for c'
  proof -
    have "c' = c \<longleftrightarrow> ch_media c' = i \<and> ch_index c' = n" using found chunk_unique [OF tab that] by metis
    then show ?thesis by metis
  qed
  then have "set (mb_chunks t1) = (\<lambda>c'. if c' = c then ?c else c') ` set (mb_chunks t)" by (auto simp: t1)
  also have "\<dots> = insert ?c (set (mb_chunks t) - {c})" using found by auto
  also have "set (mb_chunks t) - {c} = {c' \<in> set (mb_chunks t). (ch_media c', ch_index c') \<noteq> (i, n)}"
    using found chunk_unique [OF tab] by auto
  finally have "row_written sha t i n data t1 ?c data" using st(2) found c(2) by (simp add: row_written_def blob_def t1)
  moreover have "filter (\<lambda>c. ch_media c = j) (map ?f xs) = filter (\<lambda>c. ch_media c = j) xs" if "j \<noteq> i" for j xs
    using that by (induction xs) auto
  moreover have "\<exists>chunks store. t1 = t\<lparr>mb_chunks := chunks, mb_store := store\<rparr>" using t1 by blast
  ultimately show ?thesis using st(1,3) keys keys' ok(2) unfolding wrote_def by (auto simp: t1 blob_def)
qed

lemma write_chunk_wrote:
  assumes inv: "media_inv sha t" and k: "key_ok (i, n)" and run: "write_chunk sha i n data t = Inr t1"
  shows "wrote sha t i n data t1"
proof (cases "find_chunk t i n")
  case None
  then show ?thesis by (rule wrote_new [OF media_invD(1) [OF inv] k _ run])
next
  case (Some c)
  note found = find_chunk_Some [OF Some] and tab = media_invD(1) [OF inv]
  have "chunk_ok sha t c" using media_invD(2) [OF inv] found by blast
  then obtain bytes where b: "blob t i n = Inr bytes" "ch_hash c = sha bytes" "ch_size c = int (length bytes)"
    "ch_key c = chunk_storage_key i n" using found unfolding chunk_ok_def by auto
  show ?thesis
  proof (cases "ch_hash c = sha data")
    case True
    then have t1: "t1 = t" using run Some by (simp add: write_chunk_def Let_def)
    have "set (mb_chunks t) = insert c {c' \<in> set (mb_chunks t). (ch_media c', ch_index c') \<noteq> (i, n)}"
      using found chunk_unique [OF tab] by auto
    then have row: "row_written sha t i n data t c bytes" using True b found by (simp add: row_written_def)
    have key: "(i, n) \<in> set (chunk_keys t)" using Some find_chunk_None [of t i n] by simp
    have frame: "\<exists>chunks store. t = t\<lparr>mb_chunks := chunks, mb_store := store\<rparr>"
      by (intro exI [of _ "mb_chunks t"] exI [of _ "mb_store t"]) simp
    show ?thesis unfolding wrote_def t1
      by (intro conjI frame exI, rule row) (use key tab in \<open>auto simp: tables_ok_def\<close>)
  next
    case False
    then show ?thesis by (rule wrote_over [OF tab k Some b(4) run])
  qed
qed

lemma put_chunk_run:
  assumes "put_chunk sha V now upload_id n data t = Inr (r, t')"
  obtains u m t1 where "session_and_media V now upload_id t = Inr (u, m)" "chunk_fits m n data = Inr ()"
    "write_chunk sha (md_id m) n data t = Inr t1"
    "t' = (set_media (m\<lparr>md_status := ''uploading''\<rparr>) t1)\<lparr>mb_uploads :=
       map (\<lambda>v. if up_id v = up_id u then v\<lparr>up_received := count_chunks t1 (md_id m)\<rparr> else v) (mb_uploads t1)\<rparr>"
    "r = \<lparr>cr_media = md_id m, cr_index = n, cr_size = int (length data), cr_received = count_chunks t1 (md_id m), cr_count = md_count m\<rparr>"
  using assms unfolding put_chunk_def by (auto simp: rbind_Inr_iff Let_def count_chunks_def)

text \<open>The chunk is written and the file is open again: all of the invariant but the seal of the file itself is kept by the
  write, and the row that follows breaks that seal.\<close>

lemma written_keeps_inv:
  assumes inv: "media_inv sha t" and m: "m \<in> set (media_rows t)" and k: "key_ok (md_id m, n)"
    and fits: "chunk_fits m n data = Inr ()" and w: "wrote sha t (md_id m) n data t1"
  shows "media_inv sha (set_media (m\<lparr>md_status := ''uploading''\<rparr>) t1)"
proof -
  let ?m = "m\<lparr>md_status := ''uploading''\<rparr>" and ?i = "md_id m"
  let ?t = "set_media ?m t1"
  obtain chunks store where t1: "t1 = t\<lparr>mb_chunks := chunks, mb_store := store\<rparr>" using wroteD(5) [OF w] by blast
  obtain c bytes where c: "row_written sha t ?i n data t1 c bytes" using wroteD(1) [OF w] by blast
  have b: "blob ?t = blob t1" by (simp add: blob_def fun_eq_iff)
  have rows: "media_rows ?t = media_rows (set_media ?m t)" "mb_uploads ?t = mb_uploads t" "mb_wraps ?t = mb_wraps t"
    by (simp_all add: t1)
  have old: "media_inv sha (set_media ?m t)"
    by (rule set_media_keeps_inv [OF inv m]) (simp_all add: same_shape_def)
  have "tables_ok ?t"
    using media_invD(1) [OF old] wroteD(2,3) [OF w] unfolding tables_ok_def rows by (simp add: chunk_keys_def)
  moreover have "chunk_ok sha ?t x" if "x \<in> set (mb_chunks ?t)" for x
  proof -
    have "x = c \<or> (x \<in> set (mb_chunks t) \<and> (ch_media x, ch_index x) \<noteq> (?i, n))"
      using that c unfolding row_written_def by auto
    then show ?thesis
    proof
      assume x: "x = c"
      have "chunk_fits ?m n bytes = Inr ()"
      proof (cases "bytes = data")
        case True
        then show ?thesis using fits by simp
      next
        case False
        then have "c \<in> set (mb_chunks t)" "blob t ?i n = Inr bytes" using c by (auto simp: row_written_def)
        then obtain m1 where m1: "m1 \<in> set (media_rows t)" "md_id m1 = ?i" "chunk_fits m1 n bytes = Inr ()"
          using media_invD(2) [OF inv, of c] c unfolding chunk_ok_def row_written_def by force
        then show ?thesis using row_unique [OF media_invD(1) [OF inv] m1(1) m m1(2)] by simp
      qed
      moreover have "?m \<in> set (media_rows ?t)" unfolding rows(1) using m by (auto intro!: image_eqI [of _ _ m])
      ultimately show ?thesis unfolding x chunk_ok_def b using c k
        by (intro conjI exI [of _ ?m] exI [of _ bytes]) (auto simp: row_written_def key_ok_def)
    next
      assume x: "x \<in> set (mb_chunks t) \<and> (ch_media x, ch_index x) \<noteq> (?i, n)"
      then have ok: "chunk_ok sha (set_media ?m t) x" using media_invD(2) [OF old] by simp
      then have "safe_name (ch_media x)" "0 \<le> ch_index x" using chunk_needs_count by (auto simp: chunk_ok_def)
      then have "blob ?t (ch_media x) (ch_index x) = blob (set_media ?m t) (ch_media x) (ch_index x)"
        unfolding b using wroteD(4) [OF w] x by (simp add: blob_def)
      then show ?thesis using ok unfolding chunk_ok_def rows(1) by simp
    qed
  qed
  moreover have "sessions_ok ?t" using media_invD(3) [OF old] unfolding sessions_ok_def rows by simp
  moreover have "wraps_ok ?t" using media_invD(5) [OF old] unfolding wraps_ok_def readable_def rows by simp
  moreover have "seals_ok sha ?t"
    unfolding seals_ok_def
  proof (intro ballI impI)
    fix r assume r: "r \<in> set (media_rows ?t)" "md_status r = ''complete''"
    then have "whole sha (set_media ?m t) r" using media_invD(4) [OF old] unfolding seals_ok_def rows(1) by blast
    moreover have other: "md_id r \<noteq> ?i" using r unfolding rows(1) by (auto split: if_splits)
    then have "received_indexes ?t (md_id r) = received_indexes (set_media ?m t) (md_id r)"
      unfolding received_indexes_def by (simp add: wroteD(7) [OF w])
    moreover have "safe_name (md_id r)"
    proof -
      have "received_indexes t (md_id r) \<noteq> []"
        using calculation(1) by (auto simp: whole_def received_indexes_def)
      then obtain x where "x \<in> set (mb_chunks t)" "ch_media x = md_id r" by (auto simp: no_chunks)
      then show ?thesis using media_invD(2) [OF inv, of x] by (simp add: chunk_ok_def)
    qed
    then have "mapM (blob ?t (md_id r)) [0 .. md_count r - 1] = mapM (blob (set_media ?m t) (md_id r)) [0 .. md_count r - 1]"
      unfolding b using wroteD(4) [OF w, of "md_id r"] other by (intro mapM_cong) (auto simp: blob_def)
    ultimately show "whole sha ?t r" by (simp add: whole_def)
  qed
  ultimately show ?thesis by (simp add: media_inv_def)
qed

lemma put_chunk_keeps_inv:
  assumes inv: "media_inv sha t" and run: "put_chunk sha V now upload_id n data t = Inr (r, t')"
  shows "media_inv sha t'"
proof -
  obtain u m t1 where h: "session_and_media V now upload_id t = Inr (u, m)" "chunk_fits m n data = Inr ()"
    "write_chunk sha (md_id m) n data t = Inr t1"
    "t' = (set_media (m\<lparr>md_status := ''uploading''\<rparr>) t1)\<lparr>mb_uploads :=
       map (\<lambda>v. if up_id v = up_id u then v\<lparr>up_received := count_chunks t1 (md_id m)\<rparr> else v) (mb_uploads t1)\<rparr>"
    "r = \<lparr>cr_media = md_id m, cr_index = n, cr_size = int (length data), cr_received = count_chunks t1 (md_id m), cr_count = md_count m\<rparr>"
    by (rule put_chunk_run [OF run])
  note s = session_and_media_Inr [OF h(1)]
  have k: "key_ok (md_id m, n)"
    using media_invD(3) [OF inv] s(1,6) chunk_needs_count [OF h(2)] by (auto simp: sessions_ok_def key_ok_def)
  note w = write_chunk_wrote [OF inv k h(3)]
  have inv1: "media_inv sha (set_media (m\<lparr>md_status := ''uploading''\<rparr>) t1)"
    by (rule written_keeps_inv [OF inv s(5) k h(2) w])
  let ?ups = "map (\<lambda>v. if up_id v = up_id u then v\<lparr>up_received := count_chunks t1 (md_id m)\<rparr> else v) (mb_uploads t1)"
  have keep: "map up_id ?ups = map up_id (mb_uploads t1)" "map up_media ?ups = map up_media (mb_uploads t1)" by simp_all
  show ?thesis unfolding h(4)
  proof (rule uploads_keep_inv [OF inv1])
    show "distinct (map up_id ?ups)" "distinct (map up_media ?ups)"
      unfolding keep using media_invD(1) [OF inv1] by (simp_all add: tables_ok_def)
    have "up_media ` set ?ups = up_media ` set (mb_uploads t1)" using keep(2) by (metis list.set_map)
    then show "\<forall>v \<in> set ?ups. up_media v \<in> up_media ` set (mb_uploads (set_media (m\<lparr>md_status := ''uploading''\<rparr>) t1)) \<or>
        (safe_name (up_media v) \<and> placed (set_media (m\<lparr>md_status := ''uploading''\<rparr>) t1) (up_media v))"
      unfolding set_media_simps by blast
  qed
qed

subsection \<open>Sealing a file keeps the invariant\<close>

lemma map_sort_key: "map f (sort_key f xs) = sort (map f xs)"
  by (rule properties_for_sort [symmetric]) simp_all

lemma received_sorted:
  assumes "tables_ok t"
  shows "sorted (received_indexes t i)" "distinct (received_indexes t i)" "map ch_index (chunks_in_order t i) = received_indexes t i"
    "set (received_indexes t i) = {n. (i, n) \<in> set (chunk_keys t)}"
proof -
  show "sorted (received_indexes t i)" by (simp add: received_indexes_def)
  have "inj_on ch_index {c \<in> set (mb_chunks t). ch_media c = i}"
    using chunk_unique [OF assms] by (auto simp: inj_on_def)
  moreover have "distinct (mb_chunks t)" using assms by (auto simp: tables_ok_def chunk_keys_def distinct_map)
  ultimately show "distinct (received_indexes t i)" by (simp add: received_indexes_def distinct_map)
  show "map ch_index (chunks_in_order t i) = received_indexes t i" by (simp add: chunks_in_order_def received_indexes_def map_sort_key)
  show "set (received_indexes t i) = {n. (i, n) \<in> set (chunk_keys t)}" by (auto simp: received_indexes_def chunk_keys_def)
qed

lemma chunk_in_range:
  assumes inv: "media_inv sha t" and m: "m \<in> set (media_rows t)" and n: "n \<in> set (received_indexes t (md_id m))"
  shows "0 \<le> n \<and> n < md_count m \<and> safe_name (md_id m)"
    and "\<exists>data. blob t (md_id m) n = Inr data \<and> chunk_fits m n data = Inr ()"
proof -
  obtain c where c: "c \<in> set (mb_chunks t)" "ch_media c = md_id m" "ch_index c = n"
    using n by (auto simp: received_indexes_def)
  note ok = media_invD(2) [OF inv c(1)]
  obtain m1 data where m1: "m1 \<in> set (media_rows t)" "md_id m1 = md_id m" "chunk_fits m1 n data = Inr ()" "blob t (md_id m) n = Inr data"
    using ok unfolding chunk_ok_def c(2,3) by blast
  have "m1 = m" using row_unique [OF media_invD(1) [OF inv] m1(1) m m1(2)] .
  then show "0 \<le> n \<and> n < md_count m \<and> safe_name (md_id m)" "\<exists>data. blob t (md_id m) n = Inr data \<and> chunk_fits m n data = Inr ()"
    using chunk_needs_count [OF m1(3)] ok c(2) m1(3,4) by (auto simp: chunk_ok_def)
qed

lemma all_received:
  assumes inv: "media_inv sha t" and m: "m \<in> set (media_rows t)" and all: "\<forall>n. 0 \<le> n \<and> n < md_count m \<longrightarrow> n \<in> set (received_indexes t (md_id m))"
  shows "received_indexes t (md_id m) = [0 .. md_count m - 1]"
proof (rule sorted_distinct_set_unique)
  show "set (received_indexes t (md_id m)) = set [0 .. md_count m - 1]"
    unfolding set_upto
  proof (intro equalityI subsetI)
    fix n assume "n \<in> set (received_indexes t (md_id m))"
    then show "n \<in> {0 .. md_count m - 1}" using chunk_in_range(1) [OF inv m, of n] by simp
  qed (use all in simp)
qed (use received_sorted [OF media_invD(1) [OF inv]] in simp_all)

lemma mapM_map: "mapM f (map g xs) = mapM (\<lambda>x. f (g x)) xs"
  by (induction xs) simp_all

lemma chunks_read:
  assumes inv: "media_inv sha t"
  shows "mapM (\<lambda>c. store_get (ch_key c) (mb_store t)) (chunks_in_order t i) = mapM (blob t i) (received_indexes t i)"
proof -
  have "store_get (ch_key c) (mb_store t) = blob t i (ch_index c)" if "c \<in> set (chunks_in_order t i)" for c
    using that media_invD(2) [OF inv, of c] by (auto simp: chunks_in_order_def chunk_ok_def blob_def get_blob_def)
  then have "mapM (\<lambda>c. store_get (ch_key c) (mb_store t)) (chunks_in_order t i) = mapM (\<lambda>c. blob t i (ch_index c)) (chunks_in_order t i)"
    by (intro mapM_cong) auto
  also have "\<dots> = mapM (blob t i) (map ch_index (chunks_in_order t i))" by (simp add: mapM_map)
  finally show ?thesis by (simp add: received_sorted(3) [OF media_invD(1) [OF inv]])
qed

lemma complete_upload_run:
  assumes inv: "media_inv sha t" and run: "complete_upload sha V now upload_id h t = Inr (r, t')"
  obtains u m datas where "session_and_media V now upload_id t = Inr (u, m)" "received_indexes t (md_id m) = [0 .. md_count m - 1]"
    "mapM (blob t (md_id m)) [0 .. md_count m - 1] = Inr datas" "sha (concat datas) = h" "t' = set_media (sealed h (concat datas) m) t"
    "r = \<lparr>cm_media = md_id m, cm_hash = h, cm_size = int (length (concat datas)), cm_count = md_count m, cm_status = ''complete''\<rparr>"
proof -
  obtain u m where s: "session_and_media V now upload_id t = Inr (u, m)"
    using run by (auto simp: complete_upload_def complete_def split: sum.splits)
  let ?chunks = "chunks_in_order t (md_id m)"
  have none: "filter (\<lambda>i. i \<notin> set (map ch_index ?chunks)) [0 .. md_count m - 1] = []"
    using run by (auto simp: complete_upload_def complete_def s Let_def split: sum.splits if_splits)
  obtain datas where d: "mapM (\<lambda>c. store_get (ch_key c) (mb_store t)) ?chunks = Inr datas" "sha (concat datas) = h"
    "t' = set_media (sealed h (concat datas) m) t"
    "r = \<lparr>cm_media = md_id m, cm_hash = h, cm_size = int (length (concat datas)), cm_count = md_count m, cm_status = ''complete''\<rparr>"
    using run none by (auto simp: complete_upload_def complete_def s Let_def split: sum.splits if_splits)
  have "received_indexes t (md_id m) = [0 .. md_count m - 1]"
    using none by (intro all_received [OF inv session_and_media_Inr(5) [OF s]])
      (auto simp: filter_empty_conv received_sorted(3) [OF media_invD(1) [OF inv], symmetric])
  then show thesis using d chunks_read [OF inv, of "md_id m"] by (intro that [OF s]) simp_all
qed

lemma complete_keeps_inv:
  assumes inv: "media_inv sha t" and run: "complete_upload sha V now upload_id h t = Inr (r, t')"
  shows "media_inv sha t'"
proof -
  obtain u m datas where h: "session_and_media V now upload_id t = Inr (u, m)" "received_indexes t (md_id m) = [0 .. md_count m - 1]"
    "mapM (blob t (md_id m)) [0 .. md_count m - 1] = Inr datas" "sha (concat datas) = h" "t' = set_media (sealed h (concat datas) m) t"
    "r = \<lparr>cm_media = md_id m, cm_hash = h, cm_size = int (length (concat datas)), cm_count = md_count m, cm_status = ''complete''\<rparr>"
    by (rule complete_upload_run [OF assms])
  note s = session_and_media_Inr [OF h(1)]
  let ?m = "sealed h (concat datas) m"
  have id: "md_id ?m = md_id m" by (simp add: sealed_def)
  have shape: "same_shape m ?m" by (simp add: same_shape_def sealed_def)
  have one: "r = m" if "r \<in> set (media_rows t)" "md_id r = md_id m" for r using row_unique [OF media_invD(1) [OF inv] that(1) s(5) that(2)] .
  have b: "blob t' = blob t" by (simp add: blob_def fun_eq_iff h(5))
  have count: "1 \<le> md_count m"
    using media_invD(3) [OF inv] s(1,6) one unfolding sessions_ok_def by metis
  show ?thesis
  proof (rule rows_shape_inv [OF inv])
    show "distinct (map md_id (media_rows t'))"
      using media_invD(1) [OF inv] unfolding h(5) set_media_ids by (simp add: tables_ok_def)
    show "\<exists>m'. m' \<in> set (media_rows t') \<and> same_shape r m'" if "r \<in> set (media_rows t)" for r
    proof (cases "md_id r = md_id m")
      case True
      then have "?m \<in> set (media_rows t')" unfolding h(5) using that id by (auto intro!: image_eqI [of _ _ r])
      then show ?thesis using shape one [OF that True] by blast
    next
      case False
      then have "r \<in> set (media_rows t')" unfolding h(5) using that id by (auto intro!: image_eqI [of _ _ r])
      then show ?thesis by (auto simp: same_shape_def)
    qed
    show "\<exists>r. r \<in> set (media_rows t) \<and> same_shape r m' \<and> md_encrypted r" if "m' \<in> set (media_rows t')" "md_encrypted m'" for m'
      using set_media_row [OF that(1) [unfolded h(5)]] that(2) shape s(5) by (auto simp: same_shape_def)
    show "seals_ok sha t'"
      unfolding seals_ok_def
    proof (intro ballI impI)
      fix r assume r: "r \<in> set (media_rows t')" "md_status r = ''complete''"
      consider "r = ?m" | "r \<in> set (media_rows t)" using set_media_row [OF r(1) [unfolded h(5)]] by blast
      then show "whole sha t' r"
      proof cases
        case 1
        then show ?thesis using h(2-4) count unfolding whole_def b by (simp add: sealed_def received_indexes_def h(5))
      next
        case 2
        then have "whole sha t r" using media_invD(4) [OF inv] r(2) by (simp add: seals_ok_def)
        then show ?thesis unfolding whole_def b by (simp add: received_indexes_def h(5))
      qed
    qed
  qed (simp_all add: h(5))
qed

end
