(* ===== verification/Sync_Retry.thy ===== *)
theory Sync_Retry
  imports Sync_Props
begin

text \<open>
  A retried push: when the first was accepted whole, sending the same request again leaves every table as
  it is, whether or not the client saw the first answer.
\<close>

subsection \<open>Content keys on a retry\<close>

definition rows_for :: "content_key_in list \<Rightarrow> key_row list \<Rightarrow> key_row list" where
  "rows_for raw_keys rows = filter (\<lambda>r. kr_submission r \<in> set (map ck_submission raw_keys)) rows"

definition owner_pairs :: "content_key_in list \<Rightarrow> key_row list \<Rightarrow> (string \<times> string) list" where
  "owner_pairs raw_keys rows = map (\<lambda>r. (kr_submission r, kr_device r)) (rows_for raw_keys rows)"

definition settled_key :: "server \<Rightarrow> db \<Rightarrow> (string \<times> submission_row) list \<Rightarrow> content_key_in list \<Rightarrow> key_row list \<Rightarrow> content_key_in \<Rightarrow> bool" where
  "settled_key V d subs raw_keys rows key \<longleftrightarrow>
     ck_id key \<in> kr_id ` set (rows_for raw_keys rows) \<or> \<not> key_fits V d subs (owner_pairs raw_keys rows) key"

lemma key_fits_mono: "key_fits V d subs O2 key \<Longrightarrow> set O1 \<subseteq> set O2 \<Longrightarrow> key_fits V d subs O1 key"
  by (auto simp: key_fits_def split: option.splits)

lemma rows_for_mono: "set rows \<subseteq> set rows' \<Longrightarrow> set (rows_for raw rows) \<subseteq> set (rows_for raw rows')"
  by (auto simp: rows_for_def)

lemma settled_key_mono:
  assumes "settled_key V d subs raw rows key" "set rows \<subseteq> set rows'"
  shows "settled_key V d subs raw rows' key"
proof -
  have "set (owner_pairs raw rows) \<subseteq> set (owner_pairs raw rows')"
    using rows_for_mono [OF assms(2)] by (auto simp: owner_pairs_def)
  then show ?thesis using assms(1) rows_for_mono [OF assms(2)] key_fits_mono unfolding settled_key_def by blast
qed

lemma admit_key_settles:
  assumes "admit_key V d subs stored k key = Inr k'" "key \<in> set raw"
    and "set (ks_owners k) \<subseteq> set (owner_pairs raw (ks_keys k))"
    and "\<And>i s. map_of stored i = Some s \<Longrightarrow> i \<in> kr_id ` set (rows_for raw (ks_keys k))"
  shows "set (ks_keys k) \<subseteq> set (ks_keys k') \<and> set (ks_owners k') \<subseteq> set (owner_pairs raw (ks_keys k')) \<and>
    settled_key V d subs raw (ks_keys k') key"
proof (cases "map_of stored (ck_id key)")
  case (Some s)
  then have "ck_id key \<in> kr_id ` set (rows_for raw (ks_keys k))" by (rule assms(4))
  moreover have "ks_keys k' = ks_keys k" "ks_owners k' = ks_owners k" using assms(1) Some by (auto simp: admit_key_def)
  ultimately show ?thesis using assms(3) by (simp add: settled_key_def)
next
  case None
  show ?thesis
  proof (cases "key_fits V d subs (ks_owners k) key")
    case True
    then have "ks_keys k' = ks_keys k @ [\<lparr>kr_id = ck_id key, kr_submission = ck_submission key, kr_device = ck_device key\<rparr>]"
      "ks_owners k' = (ck_submission key, ck_device key) # ks_owners k"
      using assms(1) None by (auto simp: admit_key_def split: if_splits)
    then show ?thesis using assms(2,3) by (auto simp: settled_key_def rows_for_def owner_pairs_def)
  next
    case False
    then have "k' = k" using assms(1) None by (simp add: admit_key_def)
    then show ?thesis using False key_fits_mono [OF _ assms(3)] assms(3) by (auto simp: settled_key_def)
  qed
qed

lemma admit_keys_settle:
  assumes "foldM (admit_key V d subs stored) k keys = Inr k'" "set keys \<subseteq> set raw"
    and "set (ks_owners k) \<subseteq> set (owner_pairs raw (ks_keys k))"
    and "\<And>i s. map_of stored i = Some s \<Longrightarrow> i \<in> kr_id ` set (rows_for raw (ks_keys k))"
  shows "set (ks_keys k) \<subseteq> set (ks_keys k') \<and> (\<forall>key \<in> set keys. settled_key V d subs raw (ks_keys k') key)"
  using assms
proof (induction keys arbitrary: k)
  case (Cons key keys)
  obtain k1 where k1: "admit_key V d subs stored k key = Inr k1" "foldM (admit_key V d subs stored) k1 keys = Inr k'"
    using Cons.prems(1) by (auto simp: rbind_Inr_iff)
  have one: "set (ks_keys k) \<subseteq> set (ks_keys k1)" "set (ks_owners k1) \<subseteq> set (owner_pairs raw (ks_keys k1))"
      "settled_key V d subs raw (ks_keys k1) key"
    using admit_key_settles [OF k1(1) _ Cons.prems(3,4)] Cons.prems(2) by auto
  have "set (ks_keys k1) \<subseteq> set (ks_keys k') \<and> (\<forall>key \<in> set keys. settled_key V d subs raw (ks_keys k') key)"
  proof (rule Cons.IH [OF k1(2) _ one(2)])
    fix i s assume "map_of stored i = Some s"
    from Cons.prems(4) [OF this] show "i \<in> kr_id ` set (rows_for raw (ks_keys k1))" using rows_for_mono [OF one(1), of raw] by blast
  qed (use Cons.prems(2) in simp)
  then show ?case using one settled_key_mono [OF one(3)] by auto
qed simp

lemma admit_content_keys_settle:
  assumes "admit_content_keys V d subs raw = Inr (ks, d1)" "key \<in> set raw"
  shows "settled_key V d subs raw (db_keys d1) key"
proof -
  let ?ex = "rows_for raw (db_keys d)"
  obtain k where f: "foldM (admit_key V d subs (map (\<lambda>r. (kr_id r, kr_submission r)) ?ex))
      \<lparr>ks_keys = db_keys d, ks_wraps = db_wraps d, ks_owners = map (\<lambda>r. (kr_submission r, kr_device r)) ?ex, ks_admitted = []\<rparr> raw = Inr k"
    and d1: "db_keys d1 = ks_keys k"
    using assms(1) by (auto simp: admit_content_keys_def Let_def rbind_Inr_iff rows_for_def)
  have "\<forall>key \<in> set raw. settled_key V d subs raw (ks_keys k) key"
    using admit_keys_settle [OF f, of raw] by (force simp: owner_pairs_def dest: map_of_SomeD)
  then show ?thesis using assms(2) d1 by simp
qed

text \<open>Keys that are settled are admitted again without a write.\<close>

lemma admit_settled_keys:
  assumes "\<forall>key \<in> set raw. settled_key V d subs raw (db_keys d) key"
  shows "\<exists>ks. admit_content_keys V d subs raw = Inr (ks, d)"
proof -
  let ?stored = "map (\<lambda>r. (kr_id r, kr_submission r)) (rows_for raw (db_keys d))"
  have "\<exists>x. foldM (admit_key V d subs ?stored) k keys = Inr (k\<lparr>ks_admitted := x\<rparr>)"
    if "set keys \<subseteq> set raw" "ks_owners k = owner_pairs raw (db_keys d)" for k keys
    using that
  proof (induction keys arbitrary: k)
    case Nil
    then show ?case by (intro exI [of _ "ks_admitted k"]) simp
  next
    case (Cons key keys)
    have "\<exists>x. admit_key V d subs ?stored k key = Inr (k\<lparr>ks_admitted := x\<rparr>)"
    proof (cases "map_of ?stored (ck_id key)")
      case None
      then have "\<not> key_fits V d subs (ks_owners k) key"
        using assms Cons.prems by (auto simp: settled_key_def map_of_eq_None_iff image_image)
      then show ?thesis using None by (intro exI [of _ "ks_admitted k"]) (simp add: admit_key_def)
    qed (auto simp: admit_key_def)
    then obtain x where x: "admit_key V d subs ?stored k key = Inr (k\<lparr>ks_admitted := x\<rparr>)" by blast
    show ?case using Cons.IH [of "k\<lparr>ks_admitted := x\<rparr>"] Cons.prems x by simp
  qed
  from this [of raw "\<lparr>ks_keys = db_keys d, ks_wraps = db_wraps d, ks_owners = owner_pairs raw (db_keys d), ks_admitted = []\<rparr>"]
  obtain x where "foldM (admit_key V d subs ?stored)
      \<lparr>ks_keys = db_keys d, ks_wraps = db_wraps d, ks_owners = owner_pairs raw (db_keys d), ks_admitted = []\<rparr> raw =
    Inr \<lparr>ks_keys = db_keys d, ks_wraps = db_wraps d, ks_owners = owner_pairs raw (db_keys d), ks_admitted = x\<rparr>" by auto
  then show ?thesis
    by (simp add: admit_content_keys_def Let_def rows_for_def owner_pairs_def)
qed

subsection \<open>Devices on a retry\<close>

lemma update_same: "map_of al k = Some v \<Longrightarrow> AList.update k v al = al"
  by (induction al) (auto split: if_splits)

text \<open>What a push may change of a device: the counter it has reached and what it says is queued.\<close>

definition device_view :: "device_row \<Rightarrow> string \<times> bool \<times> int option" where
  "device_view x = (dv_project x, dv_revoked x, dv_pending x)"

definition same_device :: "(string \<times> device_row) list \<Rightarrow> (string \<times> device_row) list \<Rightarrow> bool" where
  "same_device xs ys \<longleftrightarrow> (\<forall>i. map_option device_view (map_of xs i) = map_option device_view (map_of ys i))"

lemma advance_counters_same: "same_device (foldl advance_counter devices rows) devices"
proof (induction rows arbitrary: devices)
  case (Cons r rows)
  have "same_device (advance_counter devices r) devices"
    by (auto simp: same_device_def advance_counter_def update_conv' device_view_def split: option.split)
  then show ?case using Cons.IH [of "advance_counter devices r"] by (simp add: same_device_def)
qed (simp add: same_device_def)

lemma pending_reported:
  assumes "same_device ds (db_devices (report_pending b queued d))"
  shows "report_pending b queued (d\<lparr>db_devices := ds\<rparr>) = d\<lparr>db_devices := ds\<rparr>"
proof (cases "queued = None \<or> map_of ds b = None")
  case False
  then obtain n dev where q: "queued = Some n" "map_of ds b = Some dev" by auto
  have view: "map_option device_view (map_of ds b) = map_option device_view (map_of (db_devices (report_pending b queued d)) b)"
    using assms unfolding same_device_def by blast
  have "dv_pending dev = Some n"
    using view unfolding q report_pending_def by (cases "map_of (db_devices d) b") (simp_all add: device_view_def update_conv')
  then have "AList.update b (dev\<lparr>dv_pending := Some n\<rparr>) ds = ds" by (intro update_same) (simp add: q(2))
  then show ?thesis using q by (simp add: report_pending_def)
qed (auto simp: report_pending_def split: option.split)

lemma key_fits_later:
  assumes "key_fits V d' subs' own key"
    and "\<And>s row'. map_of subs' s = Some row' \<Longrightarrow> \<exists>row. map_of subs s = Some row \<and> sb_project row = sb_project row'"
    and "\<And>i dev'. map_of (db_devices d') i = Some dev' \<Longrightarrow>
      \<exists>dev. map_of (db_devices d) i = Some dev \<and> dv_project dev = dv_project dev' \<and> dv_revoked dev = dv_revoked dev'"
  shows "key_fits V d subs own key"
proof -
  obtain row' dev' where r: "map_of subs' (ck_submission key) = Some row'" "map_of (db_devices d') (ck_device key) = Some dev'"
    using assms(1) by (auto simp: key_fits_def split: option.splits)
  obtain row dev where "map_of subs (ck_submission key) = Some row" "sb_project row = sb_project row'"
      "map_of (db_devices d) (ck_device key) = Some dev" "dv_project dev = dv_project dev'" "dv_revoked dev = dv_revoked dev'"
    using assms(2) [OF r(1)] assms(3) [OF r(2)] by blast
  then show ?thesis using assms(1) r by (simp add: key_fits_def)
qed

subsection \<open>The whole push\<close>

lemma gate_all_known:
  "\<forall>p \<in> set ops. known_op known p \<Longrightarrow>
     foldM (gate_step V b a known) g ops = Inr (g\<lparr>gs_accepted := gs_accepted g @ map so_id ops\<rparr>)"
  by (induction ops arbitrary: g) (simp_all add: gate_step_known)

lemma push_nothing_new:
  assumes "\<forall>p \<in> set (batch_ops parse q). known_op (db_ops d) p"
    and "\<forall>key \<in> set (pq_keys q). settled_key V d (filter (\<lambda>(s, row). sv_visible V s) (db_submissions d)) (pq_keys q) (db_keys d) key"
    and "report_pending (pq_device q) (pq_pending q) d = d"
  shows "push V parse [] q d = Inr (\<lparr>pr_accepted = fst (scan_batch parse (pq_ops q)) @ map so_id (batch_ops parse q),
    pr_rejected = fst (snd (scan_batch parse (pq_ops q))), pr_cursor = server_cursor d\<rparr>, d)"
proof -
  obtain acc rej ops where sc: "scan_batch parse (pq_ops q) = (acc, rej, ops)" using prod_cases3 by blast
  have "\<forall>p \<in> set ops. known_op (known_rows d ops) p" using assms(1) known_rows_op unfolding sc by auto
  note gate = gate_all_known [OF this]
  obtain ks where ks: "admit_content_keys V d (filter (\<lambda>(s, row). sv_visible V s) (db_submissions d)) (pq_keys q) = Inr (ks, d)"
    using admit_settled_keys [OF assms(2)] by blast
  have none: "List.map_filter f [] = []" for f :: "sync_op \<Rightarrow> string option" by (simp add: List.map_filter_def)
  have same: "register_pending_references V (db_media d) (media_references []) = Inr (db_media d)"
    by (simp add: register_pending_references_def register_references_def list_ex_iff media_references_def List.map_filter_def)
  show ?thesis
    by (simp add: push_def check_batch_def sc gate ks Let_def write_batch_def insert_ops_def commit_others_run assms(3) same)
qed

text \<open>What the checks leave for the retry: the rejections they began with, and the keys they settled.\<close>

lemma check_batch_leaves:
  assumes "check_batch V parse q d = Inr (c, d1)" "distinct (map fst (db_submissions d))"
  shows "\<exists>more. cs_rejected c = fst (snd (scan_batch parse (pq_ops q))) @ more"
    and "\<exists>subs. (\<forall>s row. sv_visible V s \<and> map_of (db_submissions d1) s = Some row \<longrightarrow> map_of subs s = Some row) \<and>
      (\<forall>key \<in> set (pq_keys q). settled_key V d1 subs (pq_keys q) (db_keys d1) key)"
proof -
  obtain g keys wraps ks new where g:
    "foldM (gate_step V (pq_device q) (pq_actor q) (known_rows d (batch_ops parse q)))
       \<lparr>gs_db = d, gs_submissions = filter (\<lambda>(s, row). sv_visible V s) (db_submissions d), gs_attributed = None,
        gs_accepted = fst (scan_batch parse (pq_ops q)), gs_rejected = fst (snd (scan_batch parse (pq_ops q))),
        gs_admitted = []\<rparr> (batch_ops parse q) = Inr g"
    "admit_content_keys V (gs_db g) (gs_submissions g) (pq_keys q) = Inr (ks, d1)"
    "c = foldl (crypto_step V d1 (dict_update ks (stored_content_keys d1
          (List.map_filter (\<lambda>p. if is_encrypted p then so_content_key p else None) (gs_admitted g)))) (gs_attributed g))
        \<lparr>cs_taken = taken_nonces d1 (gs_admitted g),
         cs_counters = map (\<lambda>r. (op_device r, op_counter r)) (known_rows d (batch_ops parse q)),
         cs_accepted = gs_accepted g, cs_rejected = gs_rejected g, cs_insert = [], cs_tombstones = [],
         cs_touched = [], cs_ids = db_ids d1\<rparr> (gs_admitted g)"
    "gs_db g = d\<lparr>db_submissions := db_submissions d @ new\<rparr>" "list_all (\<lambda>(s, row). sb_status row = ''draft'') new"
    "gs_submissions g = filter (\<lambda>(s, row). sv_visible V s) (db_submissions d) @ new"
    "d1 = (gs_db g)\<lparr>db_keys := keys, db_wraps := wraps\<rparr>" "gate_inv g"
    by (rule check_batch_gate [OF assms])
  have inv: "gate_inv \<lparr>gs_db = d, gs_submissions = filter (\<lambda>(s, row). sv_visible V s) (db_submissions d), gs_attributed = None,
        gs_accepted = fst (scan_batch parse (pq_ops q)), gs_rejected = fst (snd (scan_batch parse (pq_ops q))),
        gs_admitted = []\<rparr>" using assms(2) by (simp add: gate_inv_def map_of_visible)
  have "\<exists>more. gs_rejected g = fst (snd (scan_batch parse (pq_ops q))) @ more"
    using gate_run [OF g(1) inv] unfolding gate_rel_def by auto
  moreover have "\<exists>more. cs_rejected c = gs_rejected g @ more"
  proof -
    have "\<exists>ks a ops c0. crypto_rel ks a ops c0 c \<and> cs_rejected c0 = gs_rejected g"
      unfolding g(3) by (intro exI conjI, rule crypto_run) simp
    then show ?thesis unfolding crypto_rel_def by (elim exE conjE) simp
  qed
  ultimately show "\<exists>more. cs_rejected c = fst (snd (scan_batch parse (pq_ops q))) @ more" by auto
  have "map_of (gs_submissions g) s = Some row" if "sv_visible V s" "map_of (db_submissions d1) s = Some row" for s row
    using that g(4,7) unfolding g(6) by (auto simp: map_of_visible map_add_def split: option.splits)
  moreover have "settled_key V d1 (gs_submissions g) (pq_keys q) (db_keys d1) key" if "key \<in> set (pq_keys q)" for key
    using admit_content_keys_settle [OF g(2) that] g(7) by (simp add: settled_key_def key_fits_def)
  ultimately show "\<exists>subs. (\<forall>s row. sv_visible V s \<and> map_of (db_submissions d1) s = Some row \<longrightarrow> map_of subs s = Some row) \<and>
      (\<forall>key \<in> set (pq_keys q). settled_key V d1 subs (pq_keys q) (db_keys d1) key)" by blast
qed

lemma push_again:
  assumes "honest V" "push V parse [] q d = Inr (r, d')" "distinct (map fst (db_submissions d))"
    and "distinct (map (\<lambda>p. (so_device p, so_counter p)) (batch_ops parse q))" "pr_rejected r = []"
  shows "\<exists>accepted. push V parse [] q d' = Inr (\<lparr>pr_accepted = accepted, pr_rejected = [], pr_cursor = pr_cursor r\<rparr>, d')"
proof -
  obtain c d1 where h: "check_batch V parse q d = Inr (c, d1)" "write_batch V q c d1 = Inr (r, d')"
    by (rule push_halves [OF assms(2)]) (simp add: commit_others_run)
  note run = check_batch_run [OF h(1) assms(3)]
  obtain R ins ts touched d3 where w:
      "ins = filter (\<lambda>x. st_id x \<notin> set (map fst R)) (cs_insert c)"
      "log_ok (db_ops d1) \<longrightarrow> log_ok (db_ops d')"
      "\<forall>x \<in> set (cs_insert c). in_log (db_ops d') (st_id x) (op_device x) (op_counter x) \<or> (st_id x, Some ''nonce_reused'') \<in> set R"
      "foldl refuse_late (cs_accepted c, cs_rejected c) R = (pr_accepted r, pr_rejected r)"
      "ts = map snd (filter (\<lambda>(i, t). i \<notin> set (map fst R)) (cs_tombstones c))"
      "touched = (if R = [] then cs_touched c else keep_touched (map fst R) (cs_touched c))"
      "settled V (set (map fst touched)) (after_insert c d1 ins ts) d3"
      "d' = d3\<lparr>db_devices := foldl advance_counter (db_devices (report_pending (pq_device q) (pq_pending q) d3)) ins\<rparr>"
      "touched = [] \<longrightarrow> d3 = after_insert c d1 ins ts" "pr_cursor r = server_cursor d'"
    by (rule write_batch_run [OF assms(1) h(2) run(3,5)])
  have known: "\<forall>p \<in> set (batch_ops parse q). known_op (db_ops d') p"
    using push_accounts [OF assms(1-4)] assms(5) by (auto simp: rejects_def)
  have clean: "fst (snd (scan_batch parse (pq_ops q))) = []"
    using check_batch_leaves(1) [OF h(1) assms(3)] refuse_late_run [OF w(4)] assms(5) by auto
  have pending: "report_pending (pq_device q) (pq_pending q) d' = d'"
    unfolding w(8) by (rule pending_reported) (rule advance_counters_same)
  have keys: "settled_key V d' (filter (\<lambda>(s, row). sv_visible V s) (db_submissions d')) (pq_keys q) (db_keys d') key"
    if "key \<in> set (pq_keys q)" for key
  proof -
    obtain subs where subs: "\<forall>s row. sv_visible V s \<and> map_of (db_submissions d1) s = Some row \<longrightarrow> map_of subs s = Some row"
        "\<forall>key \<in> set (pq_keys q). settled_key V d1 subs (pq_keys q) (db_keys d1) key"
      using check_batch_leaves(2) [OF h(1) assms(3)] by blast
    have rows: "db_keys d' = db_keys d1" using settled_parts(2) [OF w(7)] w(8) by (simp add: after_insert_def)
    have "key_fits V d1 subs O1 key" if "key_fits V d' (filter (\<lambda>(s, row). sv_visible V s) (db_submissions d')) O1 key" for O1
    proof (rule key_fits_later [OF that])
      fix s row' assume "map_of (filter (\<lambda>(s, row). sv_visible V s) (db_submissions d')) s = Some row'"
      then have s: "sv_visible V s" "map_of (db_submissions d3) s = Some row'" using w(8) by (auto simp: map_of_visible split: if_splits)
      obtain row where row: "map_of (db_submissions (after_insert c d1 ins ts)) s = Some row" "device_move row row'"
        using settled_row [OF w(7) s(2)] by blast
      then show "\<exists>row. map_of subs s = Some row \<and> sb_project row = sb_project row'"
        using subs(1) s(1) by (auto simp: after_insert_def device_move_def)
    next
      fix i dev' assume "map_of (db_devices d') i = Some dev'"
      moreover have "map_option device_view (map_of (db_devices d') i) =
          map_option device_view (map_of (db_devices (report_pending (pq_device q) (pq_pending q) d3)) i)"
        using advance_counters_same w(8) unfolding same_device_def by simp
      ultimately show "\<exists>dev. map_of (db_devices d1) i = Some dev \<and> dv_project dev = dv_project dev' \<and> dv_revoked dev = dv_revoked dev'"
        using settled_parts(6) [OF w(7)]
        by (cases "map_of (db_devices d1) i")
          (auto simp: device_view_def report_pending_def after_insert_def update_conv' split: option.splits if_splits)
    qed
    then show ?thesis using subs(2) that unfolding settled_key_def rows by blast
  qed
  show ?thesis using push_nothing_new [OF known _ pending] keys clean w(10) by auto
qed

end
