(* ===== verification/Sync_Pull.thy ===== *)
theory Sync_Pull
  imports Review
begin

text \<open>
  The pull of \<open>sync/service.py\<close>: operations and tombstones after a cursor, merged into one stream by the
  sequence they share, cut to a limit, and said again in the wire's shape. Which submissions the caller
  may see is an argument, and so is the join that names a submission's form and version. The manifests of
  forms, data sets and assignments that ride on a pull belong to other services and are not part of the
  response modelled here; the statement of returned work is.
\<close>

datatype entry = OpEntry stored_op | TombEntry tombstone_row

fun entry_seq :: "entry \<Rightarrow> int" where
  "entry_seq (OpEntry r) = op_server_seq r"
| "entry_seq (TombEntry t) = tb_server_seq t"

definition is_tomb :: "entry \<Rightarrow> bool" where
  "is_tomb e = (case e of OpEntry _ \<Rightarrow> False | TombEntry _ \<Rightarrow> True)"

definition ops_after :: "(string \<Rightarrow> bool) \<Rightarrow> int \<Rightarrow> db \<Rightarrow> stored_op list" where
  "ops_after visible cursor d =
     sort_key op_server_seq (filter (\<lambda>r. visible (st_submission r) \<and> cursor < op_server_seq r) (db_ops d))"

definition tombstones_after :: "(string \<Rightarrow> bool) \<Rightarrow> int \<Rightarrow> db \<Rightarrow> tombstone_row list" where
  "tombstones_after visible cursor d =
     sort_key tb_server_seq (filter (\<lambda>t. visible (tb_submission t) \<and> cursor < tb_server_seq t) (db_tombstones d))"

definition merged :: "(string \<Rightarrow> bool) \<Rightarrow> int \<Rightarrow> nat \<Rightarrow> db \<Rightarrow> entry list" where
  "merged visible cursor limit d =
     (if limit = 0 then []
      else sort_key (\<lambda>e. (entry_seq e, is_tomb e))
        (map OpEntry (take (limit + 1) (ops_after visible cursor d)) @
         map TombEntry (take (limit + 1) (tombstones_after visible cursor d))))"

record pulled_op =
  po_id :: string
  po_submission :: string
  po_form :: string
  po_version :: int
  po_kind :: string
  po_path :: "string option"
  po_value :: json
  po_ciphertext :: "string option"
  po_content_key :: "string option"
  po_nonce :: "string option"
  po_device :: string
  po_actor :: "string option"
  po_counter :: int
  po_wall_clock :: string
  po_server_seq :: int

definition pulled_of :: "string \<times> int \<Rightarrow> stored_op \<Rightarrow> pulled_op" where
  "pulled_of info r = (case info of (form_key, version) \<Rightarrow>
     \<lparr>po_id = st_id r, po_submission = st_submission r, po_form = form_key, po_version = version, po_kind = op_kind r,
      po_path = op_path r, po_value = op_value r, po_ciphertext = map_option tohex (op_ciphertext r),
      po_content_key = op_content_key r, po_nonce = map_option tohex (st_nonce r), po_device = op_device r,
      po_actor = st_actor r, po_counter = op_counter r, po_wall_clock = op_wall_clock r, po_server_seq = op_server_seq r\<rparr>)"

record pull_response =
  pl_ops :: "pulled_op list"
  pl_tombstones :: "tombstone_row list"
  pl_returned :: "returned list option"
  pl_cursor :: int
  pl_more :: bool

definition pull_step :: "(string \<Rightarrow> (string \<times> int) option) \<Rightarrow> pulled_op list \<times> tombstone_row list \<Rightarrow> entry
    \<Rightarrow> sync_error + pulled_op list \<times> tombstone_row list" where
  "pull_step form_info acc e = (case acc of (ops, tombstones) \<Rightarrow>
     (case e of
        OpEntry r \<Rightarrow>
          (case form_info (st_submission r) of
             None \<Rightarrow> Inl (Raised KeyError)
           | Some info \<Rightarrow> Inr (ops @ [pulled_of info r], tombstones))
      | TombEntry t \<Rightarrow> Inr (ops, tombstones @ [t])))"

definition pull :: "(string \<Rightarrow> bool) \<Rightarrow> (string \<Rightarrow> (string \<times> int) option) \<Rightarrow> (db \<Rightarrow> string \<Rightarrow> returned list) \<Rightarrow> int \<Rightarrow> nat
    \<Rightarrow> string option \<Rightarrow> db \<Rightarrow> sync_error + pull_response" where
  "pull visible form_info returned_work cursor limit assignments_for d =
     (let all = merged visible cursor limit d;
          batch = take limit all
      in rbind (foldM (pull_step form_info) ([], []) batch) (\<lambda>(ops, tombstones).
         Inr \<lparr>pl_ops = ops, pl_tombstones = tombstones,
           pl_returned = map_option (returned_work d) assignments_for,
           pl_cursor = (if batch = [] then cursor else entry_seq (last batch)),
           pl_more = (0 < limit \<and> length batch < length all)\<rparr>))"

subsection \<open>The stream a pull reads from\<close>

definition stream_after :: "(string \<Rightarrow> bool) \<Rightarrow> int \<Rightarrow> db \<Rightarrow> entry list" where
  "stream_after visible cursor d = sort_key entry_seq
     (map OpEntry (filter (\<lambda>r. visible (st_submission r) \<and> cursor < op_server_seq r) (db_ops d)) @
      map TombEntry (filter (\<lambda>t. visible (tb_submission t) \<and> cursor < tb_server_seq t) (db_tombstones d)))"

definition rising :: "('a \<Rightarrow> int) \<Rightarrow> 'a list \<Rightarrow> bool" where
  "rising k xs \<longleftrightarrow> sorted_wrt (\<lambda>a b. k a < k b) xs"

lemma rising_simps [simp]: "rising k []" "rising k (x # xs) \<longleftrightarrow> (\<forall>y \<in> set xs. k x < k y) \<and> rising k xs"
  by (simp_all add: rising_def)

lemma rising_distinct: "rising k xs \<Longrightarrow> distinct xs"
  by (induction xs) auto

lemma rising_sort:
  assumes "distinct (map k xs)"
  shows "rising k (sort_key k xs)"
proof -
  have "distinct (map k (sort_key k xs))" using assms by (simp add: distinct_map)
  moreover have "sorted (map k (sort_key k xs))" by simp
  ultimately have "sorted_wrt (<) (map k (sort_key k xs))" by (simp add: strict_sorted_iff)
  then show ?thesis by (simp add: rising_def sorted_wrt_map)
qed

lemma rising_unique: "rising k xs \<Longrightarrow> rising k ys \<Longrightarrow> set xs = set ys \<Longrightarrow> xs = ys"
proof (induction xs arbitrary: ys)
  case (Cons x xs)
  then obtain y ys' where ys: "ys = y # ys'" by (cases ys) auto
  have "x = y"
  proof (rule ccontr)
    assume "x \<noteq> y"
    then have "x \<in> set ys'" "y \<in> set xs" using Cons.prems(3) ys by auto
    then show False using Cons.prems(1,2) ys by fastforce
  qed
  moreover have "set xs = set ys'" using Cons.prems ys calculation rising_distinct [of k "x # xs"] rising_distinct [of k ys] by auto
  ultimately show ?case using Cons ys by auto
qed simp

lemma rising_filter: "rising k xs \<Longrightarrow> rising k (filter P xs)"
  by (induction xs) auto

lemma in_take: "rising k xs \<Longrightarrow> e \<in> set (take m xs) \<longleftrightarrow> e \<in> set xs \<and> length (filter (\<lambda>x. k x < k e) xs) < m"
proof (induction xs arbitrary: m)
  case (Cons x xs)
  show ?case
  proof (cases m)
    case (Suc n)
    show ?thesis
    proof (cases "e = x")
      case True
      then have "filter (\<lambda>y. k y < k e) (x # xs) = []" using Cons.prems by (auto simp: filter_empty_conv dest: less_asym)
      then show ?thesis using True Suc by simp
    next
      case False
      then show ?thesis using Cons Suc by auto
    qed
  qed simp
qed simp

text \<open>Cutting the two halves before merging them loses nothing that the cut merge would hold.\<close>

lemma take_merge:
  assumes "rising k F" "rising k A" "rising k B" "set F = set A \<union> set B" "rising k T" "set T = set (take m A) \<union> set (take m B)"
  shows "take m T = take m F"
proof -
  let ?P = "\<lambda>e. e \<in> set (take m A) \<union> set (take m B)"
  have less: "length (filter P X) \<le> length (filter P F)" if "distinct X" "set X \<subseteq> set F" for P X
  proof -
    have "card (set (filter P X)) \<le> card (set (filter P F))" using that by (intro card_mono) auto
    then show ?thesis
      using distinct_card [of "filter P X"] distinct_card [of "filter P F"] that(1) rising_distinct [OF assms(1)] by simp
  qed
  have "T = filter ?P F"
    by (rule rising_unique [OF assms(5) rising_filter [OF assms(1)]])
      (use assms(4,6) in_take [OF assms(2)] in_take [OF assms(3)] in auto)
  moreover have "\<forall>e \<in> set (take m F). ?P e"
  proof
    fix e assume e: "e \<in> set (take m F)"
    then have "length (filter (\<lambda>x. k x < k e) F) < m" "e \<in> set A \<or> e \<in> set B" using in_take [OF assms(1)] assms(4) by auto
    then show "?P e"
      using in_take [OF assms(2)] in_take [OF assms(3)] less [of A "\<lambda>x. k x < k e"] less [of B "\<lambda>x. k x < k e"]
        rising_distinct [OF assms(2)] rising_distinct [OF assms(3)] assms(4) by (auto dest: le_less_trans)
  qed
  moreover have "take m (filter P F') = take m F'" if "\<forall>e \<in> set (take m F'). P e" for P and F' :: "'a list"
    using that by (induction F' arbitrary: m) (auto simp: take_Cons split: nat.splits)
  ultimately show ?thesis by metis
qed

lemma entry_seqs: "map entry_seq (map OpEntry xs @ map TombEntry ys) = map op_server_seq xs @ map tb_server_seq ys"
  by (simp add: comp_def)

lemma stream_distinct:
  assumes "distinct (stream_numbers d)"
  shows "distinct (map entry_seq (map OpEntry (filter P (db_ops d)) @ map TombEntry (filter Q (db_tombstones d))))"
  using assms unfolding stream_numbers_def entry_seqs by (auto simp: distinct_map_filter)

lemma rising_sorted: "rising k xs \<longleftrightarrow> sorted (map k xs) \<and> distinct (map k xs)"
  by (induction xs) (auto simp: less_le image_iff)

lemma sort_by_seq:
  assumes "distinct (map entry_seq xs)"
  shows "sort_key (\<lambda>e. (entry_seq e, is_tomb e)) xs = sort_key entry_seq xs"
proof (rule rising_unique [of entry_seq])
  let ?L = "sort_key (\<lambda>e. (entry_seq e, is_tomb e)) xs"
  have "sorted (map (\<lambda>e. (entry_seq e, is_tomb e)) ?L)" by simp
  then have "sorted (map entry_seq ?L)"
    unfolding sorted_map by (rule sorted_wrt_mono_rel [rotated]) (auto simp: less_eq_prod_def)
  moreover have "distinct (map entry_seq ?L)" using assms by (simp add: distinct_map)
  ultimately show "rising entry_seq ?L" by (simp add: rising_sorted)
qed (simp_all add: rising_sort [OF assms])

lemma rising_map: "rising (\<lambda>x. k (f x)) xs \<Longrightarrow> rising k (map f xs)"
  by (induction xs) auto

lemma rising_take: "rising k xs \<Longrightarrow> rising k (take m xs)"
  by (simp add: rising_def sorted_wrt_take)

lemma merged_is_stream:
  assumes "distinct (stream_numbers d)" "0 < limit"
  shows "take (limit + 1) (merged visible cursor limit d) = take (limit + 1) (stream_after visible cursor d)"
proof -
  let ?ops = "filter (\<lambda>r. visible (st_submission r) \<and> cursor < op_server_seq r) (db_ops d)"
  let ?tombs = "filter (\<lambda>t. visible (tb_submission t) \<and> cursor < tb_server_seq t) (db_tombstones d)"
  let ?A = "map OpEntry (ops_after visible cursor d)" and ?B = "map TombEntry (tombstones_after visible cursor d)"
  note distinct = stream_distinct [OF assms(1)]
  have F: "rising entry_seq (stream_after visible cursor d)" unfolding stream_after_def by (rule rising_sort) (rule distinct)
  have d: "distinct (map op_server_seq ?ops)" "distinct (map tb_server_seq ?tombs)"
    using assms(1) unfolding stream_numbers_def by (auto simp: distinct_map_filter)
  have A: "rising entry_seq ?A" "rising entry_seq ?B"
    using rising_sort [OF d(1)] rising_sort [OF d(2)] by (auto simp: ops_after_def tombstones_after_def intro!: rising_map)
  let ?T0 = "map OpEntry (take (limit + 1) (ops_after visible cursor d)) @ map TombEntry (take (limit + 1) (tombstones_after visible cursor d))"
  have T0: "distinct (map entry_seq ?T0)"
  proof -
    let ?a = "take (limit + 1) (ops_after visible cursor d)" and ?b = "take (limit + 1) (tombstones_after visible cursor d)"
    have apart: "op_server_seq ` set ?ops \<inter> tb_server_seq ` set ?tombs = {}"
      using assms(1) unfolding stream_numbers_def by auto
    have "distinct (map op_server_seq (ops_after visible cursor d))" "distinct (map tb_server_seq (tombstones_after visible cursor d))"
      using rising_sort [OF d(1)] rising_sort [OF d(2)] by (simp_all add: rising_sorted ops_after_def tombstones_after_def)
    then have "distinct (map op_server_seq ?a)" "distinct (map tb_server_seq ?b)" by (simp_all add: take_map [symmetric] distinct_take)
    moreover have "set ?a \<subseteq> set ?ops" "set ?b \<subseteq> set ?tombs"
      using set_take_subset [of "limit + 1" "ops_after visible cursor d"] set_take_subset [of "limit + 1" "tombstones_after visible cursor d"]
      by (simp_all add: ops_after_def tombstones_after_def)
    then have "op_server_seq ` set ?a \<inter> tb_server_seq ` set ?b = {}" using apart by blast
    ultimately show ?thesis unfolding entry_seqs distinct_append set_map by blast
  qed
  have same: "sort_key (\<lambda>e. (entry_seq e, is_tomb e)) ?T0 = sort_key entry_seq ?T0" by (rule sort_by_seq [OF T0])
  have T: "rising entry_seq (merged visible cursor limit d)"
    using rising_sort [OF T0] assms(2) unfolding merged_def same by simp
  show ?thesis
    by (rule take_merge [OF F A _ T])
      (use assms(2) in \<open>auto simp: stream_after_def merged_def ops_after_def tombstones_after_def take_map\<close>)
qed


text \<open>The cursor a pull hands back is where the next one goes on.\<close>

lemma rising_after_last:
  assumes "rising k xs" "0 < n" "xs \<noteq> []"
  shows "filter (\<lambda>x. k (last (take n xs)) < k x) xs = drop n xs"
proof -
  have split: "xs = take n xs @ drop n xs" by simp
  have r: "sorted_wrt (\<lambda>a b. k a < k b) (take n xs @ drop n xs)" using assms(1) by (simp add: rising_def)
  have ne: "take n xs \<noteq> []" using assms(2,3) by simp
  have "\<forall>x \<in> set (drop n xs). k (last (take n xs)) < k x" using r ne last_in_set unfolding sorted_wrt_append by blast
  moreover have "\<forall>x \<in> set (take n xs). \<not> k (last (take n xs)) < k x"
  proof -
    obtain ys y where y: "take n xs = ys @ [y]" using ne by (metis append_butlast_last_id)
    moreover have "sorted_wrt (\<lambda>a b. k a < k b) (take n xs)" using r unfolding sorted_wrt_append by blast
    ultimately have "sorted_wrt (\<lambda>a b. k a < k b) (ys @ [y])" by simp
    then show ?thesis unfolding y by (auto simp: sorted_wrt_append dest: less_asym)
  qed
  ultimately have "filter (\<lambda>x. k (last (take n xs)) < k x) (take n xs @ drop n xs) = drop n xs"
    unfolding filter_append by (simp add: filter_id_conv)
  then show ?thesis unfolding append_take_drop_id .
qed

lemma stream_from_cursor:
  assumes "cursor \<le> later"
  shows "stream_after visible later d = filter (\<lambda>e. later < entry_seq e) (stream_after visible cursor d)"
proof -
  have "filter (\<lambda>e. later < entry_seq e) (stream_after visible cursor d) = sort_key entry_seq (filter (\<lambda>e. later < entry_seq e)
     (map OpEntry (filter (\<lambda>r. visible (st_submission r) \<and> cursor < op_server_seq r) (db_ops d)) @
      map TombEntry (filter (\<lambda>t. visible (tb_submission t) \<and> cursor < tb_server_seq t) (db_tombstones d))))"
    by (simp add: stream_after_def filter_sort)
  also have "\<dots> = stream_after visible later d"
    using assms unfolding stream_after_def filter_append filter_map filter_filter comp_def
    by (intro arg_cong [where f = "sort_key entry_seq"] arg_cong2 [where f = "(@)"] arg_cong [where f = "map _"] filter_cong) auto
  finally show ?thesis by simp
qed

lemma pull_parts:
  assumes "pull visible form_info returned_work cursor limit who d = Inr r"
  shows "pl_cursor r = (if take limit (merged visible cursor limit d) = [] then cursor else entry_seq (last (take limit (merged visible cursor limit d))))"
    "pl_more r \<longleftrightarrow> 0 < limit \<and> limit < length (merged visible cursor limit d)"
    "pl_returned r = map_option (returned_work d) who"
    "foldM (pull_step form_info) ([], []) (take limit (merged visible cursor limit d)) = Inr (pl_ops r, pl_tombstones r)"
  using assms by (auto simp: pull_def Let_def rbind_Inr_iff)


lemma pull_batch:
  assumes "distinct (stream_numbers d)" "0 < limit"
  shows "take limit (merged visible cursor limit d) = take limit (stream_after visible cursor d)"
    and "limit < length (merged visible cursor limit d) \<longleftrightarrow> limit < length (stream_after visible cursor d)"
proof -
  note m = merged_is_stream [OF assms, of visible cursor]
  have "take limit (take (limit + 1) xs) = take limit xs" for xs :: "entry list" by simp
  then show "take limit (merged visible cursor limit d) = take limit (stream_after visible cursor d)" using m by metis
  show "limit < length (merged visible cursor limit d) \<longleftrightarrow> limit < length (stream_after visible cursor d)"
    using arg_cong [OF m, of length] by (simp add: min_def split: if_splits)
qed

lemma stream_above: "e \<in> set (stream_after visible cursor d) \<Longrightarrow> cursor < entry_seq e"
  by (auto simp: stream_after_def)

lemma pull_goes_on:
  assumes "distinct (stream_numbers d)" "0 < limit" "pull visible form_info returned_work cursor limit who d = Inr r"
  shows "stream_after visible (pl_cursor r) d = drop limit (stream_after visible cursor d) \<and>
    (pl_more r \<longleftrightarrow> stream_after visible (pl_cursor r) d \<noteq> []) \<and>
    foldM (pull_step form_info) ([], []) (take limit (stream_after visible cursor d)) = Inr (pl_ops r, pl_tombstones r)"
proof -
  note p = pull_parts [OF assms(3), unfolded pull_batch [OF assms(1,2)]]
  let ?F = "stream_after visible cursor d"
  have rise: "rising entry_seq ?F" unfolding stream_after_def by (rule rising_sort) (rule stream_distinct [OF assms(1)])
  have "stream_after visible (pl_cursor r) d = drop limit ?F"
  proof (cases "?F = []")
    case True
    then show ?thesis using p(1) by simp
  next
    case False
    then have "take limit ?F \<noteq> []" using assms(2) by simp
    then have "last (take limit ?F) \<in> set ?F" using last_in_set in_set_takeD by metis
    then have "cursor < entry_seq (last (take limit ?F))" by (rule stream_above)
    then show ?thesis
      using stream_from_cursor [of cursor "pl_cursor r" visible d] rising_after_last [OF rise assms(2) False] p(1) False assms(2) by simp
  qed
  then show ?thesis using p(2,4) assms(2) by auto
qed

end
