(* ===== verification/Sync_Claims.thy ===== *)
theory Sync_Claims
  imports Sync_Retry Sync_Pull
begin

text \<open>
  The promises of the sync service, each at a small concrete server: one device, one form, no rules, and a
  database whose unique indexes report what they find.
\<close>

subsection \<open>A small server\<close>

definition find_conflict :: "stored_op list \<Rightarrow> stored_op \<Rightarrow> violated option" where
  "find_conflict T r =
     (if st_id r \<in> set (map st_id T) then Some PrimaryKey
      else if (op_device r, op_counter r) \<in> set (map (\<lambda>r. (op_device r, op_counter r)) T) then Some CounterKey
      else if stored_pair r \<noteq> None \<and> stored_pair r \<in> set (map stored_pair T) then Some NonceKey else None)"

definition demo :: server where
  "demo = \<lparr>sv_visible = (\<lambda>s. True), sv_version = (\<lambda>project form version. Some ''v1''),
     sv_environments = (\<lambda>project. [(''production'', ''env'')]), sv_project_keys = (\<lambda>project. [''pk'']), sv_may_open = (\<lambda>row. True),
     sv_reports = find_conflict, sv_collate = (\<lambda>s. int (length s)), sv_rules = (\<lambda>s. []), sv_ir = (\<lambda>v. JNull),
     sv_lib = sample_lib, sv_today = mk_date 2024 1 1, sv_now = ''now'', sv_ulid = (\<lambda>n. replicate n CHR ''u'')\<rparr>"

lemma demo_honest: "honest demo"
proof -
  have "(\<forall>v. \<not> conflicts v T r) \<longleftrightarrow> \<not> conflicts PrimaryKey T r \<and> \<not> conflicts CounterKey T r \<and> \<not> conflicts NonceKey T r" for T r
    by (metis conflicts.simps(4) violated.exhaust)
  then show ?thesis by (auto simp: honest_def demo_def find_conflict_def)
qed

definition tablet :: device_row where
  "tablet = \<lparr>dv_project = ''p'', dv_user = Some ''asha'', dv_revoked = False, dv_last_counter = 0, dv_pending = None\<rparr>"

definition empty_db :: db where
  "empty_db = \<lparr>db_devices = [(''t1'', tablet), (''t2'', tablet\<lparr>dv_user := Some ''bilal''\<rparr>)], db_submissions = [], db_ops = [], db_keys = [],
     db_wraps = [], db_tombstones = [], db_states = [], db_media = [], db_flags = [], db_outbox = [], db_seq = 0, db_ids = 0\<rparr>"

definition set_op :: "string \<Rightarrow> string \<Rightarrow> string \<Rightarrow> int \<Rightarrow> sync_op" where
  "set_op i s device counter = \<lparr>so_id = i, so_submission = s, so_form = ''f'', so_version = 1, so_kind = ''set'', so_path = Some ''q'',
     so_value = JInt counter, so_ciphertext = None, so_content_key = None, so_nonce = None, so_device = device, so_actor = None,
     so_case = None, so_counter = counter, so_wall_clock = ''12:00''\<rparr>"

text \<open>The validation library, for a handful of operations known by their ids.\<close>

definition parse_from :: "sync_op list \<Rightarrow> dict \<Rightarrow> sync_op option" where
  "parse_from ops raw = (case jget raw ''n'' of JInt n \<Rightarrow> if nat n < length ops then Some (ops ! nat n) else None | _ \<Rightarrow> None)"

definition request :: "sync_op list \<Rightarrow> push_request" where
  "request ops = \<lparr>pq_device = ''t1'', pq_ops = map (\<lambda>(n, p). [(''opId'', JStr (so_id p)), (''n'', JInt (int n))]) (enumerate 0 ops),
     pq_keys = [], pq_actor = Some ''asha'', pq_pending = Some 0\<rparr>"

abbreviation push_ops :: "sync_op list \<Rightarrow> db \<Rightarrow> sync_error + push_response \<times> db" where
  "push_ops ops d \<equiv> push demo (parse_from ops) [] (request ops) d"

definition two_ops :: "sync_op list" where
  "two_ops = [set_op ''o1'' ''s1'' ''t1'' 1, (set_op ''o2'' ''s1'' ''t1'' 2)\<lparr>so_kind := ''finalize''\<rparr>]"

definition after_two :: db where
  "after_two = (case push_ops two_ops empty_db of Inr (r, d) \<Rightarrow> d | Inl _ \<Rightarrow> empty_db)"

lemma two_ops_pushed:
  "push_ops two_ops empty_db = Inr (\<lparr>pr_accepted = [''o1'', ''o2''], pr_rejected = [], pr_cursor = 2\<rparr>, after_two)"
  by code_simp

lemma two_ops_batch: "batch_ops (parse_from two_ops) (request two_ops) = two_ops"
  by code_simp

subsection \<open>Pushing\<close>





text \<open>Inserting a batch in one flush, with a savepoint per row only when the flush fails, gives what
  inserting row by row gives: the same rows, numbers and refusals.\<close>

theorem flush_is_row_by_row: "insert_ops V t rows = foldM (insert_each V) (t, []) rows"
  by (rule insert_ops_each)

subsection \<open>Pushes and decisions\<close>

text \<open>C4: Whatever pushes are accepted and whatever decisions are recorded, in any order, the server's log
  stays sound: operation ids, device counters and (content key, nonce) pairs are unique, the numbers of
  the stream are unique and within the sequence, every operation belongs to a stored submission, an
  encrypted one is under a content key of that submission, and the materialised state of every
  submission is the fold of its log.\<close>

theorem server_log_sound: "reachable unused (server_step C) t \<Longrightarrow> sync_inv C (fst t)"
  using server.reachable_inv by (auto simp: server_inv_def)

lemma two_reached: "reachable unused (server_step (sv_collate demo)) (after_two, [])"
proof -
  have "unused (empty_db, [])" by (simp add: unused_def empty_db_def)
  from reach_start [of unused, OF this] show ?thesis
    by (rule reach_step) (rule pushed [OF demo_honest refl two_ops_pushed])
qed

theorem server_log_sound_witness: "sync_inv (sv_collate demo) after_two"
  using server_log_sound [OF two_reached] by simp

lemma step_leaves_closed:
  assumes "server_step C (d, reviews) (d', reviews')" "sync_inv C d" "map_of (db_submissions d) s = Some row" "sb_status row \<in> set CLOSED"
  shows "map_of (db_submissions d') s = Some row \<and> ops_of d' s = ops_of d s"
  using assms(1)
proof (cases rule: server_step.cases)
  case (pushed V parse q r)
  then show ?thesis using push_leaves_closed [OF _ _ _ assms(3,4)] assms(2) by (simp add: sync_inv_def)
next
  case (decided visible i now t reviewer decision comment rec)
  obtain event row' where e: "map_of EVENT decision = Some event" "map_of (db_submissions d) t = Some row'"
    "next_status (sb_status row') event = Inr (rc_status rec)" "decision \<in> set RETURNS_WORK \<longrightarrow> \<not> blank comment"
    "rc_returns_work rec \<longleftrightarrow> decision \<in> set RETURNS_WORK" "map fst (db_submissions d') = map fst (db_submissions d)"
    "map_of (db_submissions d') = (map_of (db_submissions d))(t \<mapsto> row'\<lparr>sb_status := rc_status rec\<rparr>)"
    "\<exists>subs. d' = d\<lparr>db_submissions := subs\<rparr>"
    "reviews' = reviews @ [\<lparr>rv_id = i, rv_submission = t, rv_reviewer = reviewer, rv_decision = decision, rv_comment = comment,
        rv_created_at = now\<rparr>]"
    by (rule decide_cases [OF decided])
  have "sb_status row \<in> set STATUSES" using assms(2,3) unfolding sync_inv_def by blast
  moreover have "event \<in> set EVENTS" using map_of_SomeD [OF e(1)] by (auto simp: EVENT_def EVENTS_def)
  ultimately have "t \<noteq> s" using closed_refuses [of "sb_status row"] assms(3,4) e(2,3) by fastforce
  then show ?thesis using e(7,8) assms(3) by (auto simp: ops_of_def)
qed

text \<open>C6: A closed submission is final. Once a submission of the server is approved or rejected, no sequence of
  pushes and decisions changes its row or adds an operation to its log.\<close>

theorem closed_is_final:
  assumes "reachable unused (server_step C) t" "map_of (db_submissions (fst t)) s = Some row" "sb_status row \<in> set CLOSED"
    and "(server_step C)\<^sup>*\<^sup>* t t'"
  shows "map_of (db_submissions (fst t')) s = Some row \<and> ops_of (fst t') s = ops_of (fst t) s"
  using assms(4)
proof (induction rule: rtranclp_induct)
  case base
  then show ?case using assms(2) by simp
next
  case (step u v)
  have "sync_inv C (fst u)" using server.reachable_inv [OF reachable_run [OF step(1) assms(1)]] by (simp add: server_inv_def)
  then show ?case using step_leaves_closed [of C "fst u" "snd u" "fst v" "snd v"] step assms(3) by simp
qed

text \<open>The two submissions of the witnesses: one approved and pushed to again, one sent back.\<close>

definition decide_on :: "string \<Rightarrow> string option \<Rightarrow> db \<times> review_row list \<Rightarrow> review_error + recorded \<times> db \<times> review_row list" where
  "decide_on decision comment t = decide (\<lambda>s. True) ''rev1'' 7 ''s1'' ''omar'' decision comment t"

definition approved_db :: "db \<times> review_row list" where
  "approved_db = (case decide_on ''approved'' None (after_two, []) of Inr (rec, t) \<Rightarrow> t | Inl _ \<Rightarrow> (empty_db, []))"

definition sent_back_db :: "db \<times> review_row list" where
  "sent_back_db = (case decide_on ''correction_required'' (Some ''see q'') (after_two, []) of Inr (rec, t) \<Rightarrow> t | Inl _ \<Rightarrow> (empty_db, []))"

definition late_op :: "sync_op list" where
  "late_op = [set_op ''o3'' ''s1'' ''t1'' 3]"

definition late_db :: db where
  "late_db = (case push_ops late_op (fst approved_db) of Inr (r, d) \<Rightarrow> d | Inl _ \<Rightarrow> empty_db)"

lemma decisions_recorded:
  "decide_on ''approved'' None (after_two, []) =
     Inr (\<lparr>rc_review = ''rev1'', rc_status = ''approved'', rc_returns_work = False\<rparr>, approved_db)"
  "decide_on ''correction_required'' (Some ''see q'') (after_two, []) =
     Inr (\<lparr>rc_review = ''rev1'', rc_status = ''correction_required'', rc_returns_work = True\<rparr>, sent_back_db)"
  by code_simp+

lemma late_refused:
  "push_ops late_op (fst approved_db) =
     Inr (\<lparr>pr_accepted = [], pr_rejected = [\<lparr>rj_id = Some ''o3'', rj_reason = ''submission_closed''\<rparr>], pr_cursor = 2\<rparr>, late_db)"
  by code_simp

lemma approved_reached: "reachable unused (server_step (sv_collate demo)) approved_db"
  using two_reached by (rule reach_step) (rule decided [OF decisions_recorded(1) [unfolded decide_on_def]])

lemma sent_back_reached: "reachable unused (server_step (sv_collate demo)) sent_back_db"
  using two_reached by (rule reach_step) (rule decided [OF decisions_recorded(2) [unfolded decide_on_def]])

lemma late_run: "(server_step (sv_collate demo))\<^sup>*\<^sup>* approved_db (late_db, snd approved_db)"
proof -
  have "server_step (sv_collate demo) (fst approved_db, snd approved_db) (late_db, snd approved_db)"
    by (rule pushed [OF demo_honest refl late_refused])
  then show ?thesis by simp
qed

definition closed_row :: submission_row where
  "closed_row = (case map_of (db_submissions (fst approved_db)) ''s1'' of Some row \<Rightarrow> row
     | None \<Rightarrow> new_submission (hd two_ops) tablet [] [] None)"

theorem closed_is_final_witness:
  "map_of (db_submissions late_db) ''s1'' = Some closed_row \<and> ops_of late_db ''s1'' = ops_of (fst approved_db) ''s1''"
proof -
  have "map_of (db_submissions (fst approved_db)) ''s1'' = Some closed_row" "sb_status closed_row \<in> set CLOSED" by code_simp+
  from closed_is_final [OF approved_reached this late_run] show ?thesis by simp
qed

text \<open>C7: Work that is sent back says why. In every state the server can reach, a submission that was rejected or
  sent back for correction is in its author's statement of returned work, with a reason that is not blank.\<close>

theorem returned_work_has_reason:
  assumes "reachable unused (server_step C) (d, reviews)" "map_of (db_submissions d) s = Some row"
    and "sb_status row \<in> set RETURNS_WORK" "sb_created_by row = Some user" "visible s" "form_version (sb_form_version row) \<noteq> None"
  shows "\<exists>x \<in> set (returned_to collate visible form_version display_name user (d, reviews)).
    rt_submission x = s \<and> rt_status x = sb_status row \<and> \<not> blank (rt_reason x)"
proof -
  have inv: "reasons_on_record (d, reviews)" using server.reachable_inv [OF assms(1)] by (simp add: server_inv_def)
  let ?rs = "filter (\<lambda>r. rv_submission r = s \<and> rv_decision r \<in> set RETURNS_WORK) reviews"
  have some: "?rs \<noteq> []" using inv assms(2,3) unfolding reasons_on_record_def by (force simp: filter_empty_conv)
  let ?sorted = "rev (sort_key (\<lambda>r. (rv_created_at r, collate (rv_id r))) ?rs)"
  have members: "set ?sorted = set ?rs" by simp
  obtain r rest where rs: "?sorted = r # rest"
  proof (cases ?sorted)
    case Nil
    then have "set ?rs = {}" unfolding members [symmetric] by simp
    then show thesis using some by simp
  qed
  have "r \<in> set ?rs" unfolding members [symmetric] rs by simp
  then have why: "\<not> blank (rv_comment r)" using inv unfolding reasons_on_record_def by auto
  obtain form version where fv: "form_version (sb_form_version row) = Some (form, version)" using assms(6) by auto
  have "last_return collate reviews s = Some r" unfolding last_return_def rs by simp
  then obtain x where x: "returned_row collate form_version display_name reviews (s, row) = Some x" "rt_submission x = s"
      "rt_status x = sb_status row" "rt_reason x = rv_comment r"
    using fv by (simp add: returned_row_def)
  have "(s, row) \<in> set (filter (\<lambda>(s, row). visible s \<and> sb_created_by row = Some user \<and> sb_status row \<in> set RETURNS_WORK) (db_submissions d))"
    using map_of_SomeD [OF assms(2)] assms(3-5) by simp
  then have "x \<in> set (returned_to collate visible form_version display_name user (d, reviews))"
    using x(1) unfolding returned_to_def prod.case set_sort set_map_filter by force
  then show ?thesis using x why by auto
qed

definition sent_back_row :: submission_row where
  "sent_back_row = (case map_of (db_submissions (fst sent_back_db)) ''s1'' of Some row \<Rightarrow> row
     | None \<Rightarrow> new_submission (hd two_ops) tablet [] [] None)"

theorem returned_work_has_reason_witness:
  "\<exists>x \<in> set (returned_to (\<lambda>s. 0) (\<lambda>s. True) (\<lambda>v. Some (''f'', 1)) (\<lambda>u. None) ''asha'' sent_back_db).
     rt_submission x = ''s1'' \<and> rt_status x = ''correction_required'' \<and> \<not> blank (rt_reason x)"
proof -
  have row: "map_of (db_submissions (fst sent_back_db)) ''s1'' = Some sent_back_row" "sb_status sent_back_row \<in> set RETURNS_WORK"
    "sb_created_by sent_back_row = Some ''asha''" "sb_status sent_back_row = ''correction_required''" by code_simp+
  have r: "reachable unused (server_step (sv_collate demo)) (fst sent_back_db, snd sent_back_db)" using sent_back_reached by simp
  from returned_work_has_reason [OF r row(1-3), of "\<lambda>s. True" "\<lambda>v. Some (''f'', 1)" "\<lambda>s. 0" "\<lambda>u. None"] row(4)
  show ?thesis by simp
qed

subsection \<open>Decisions\<close>

text \<open>A decision is recorded whole. When it is accepted, the submission moves to the status the machine gives
  for the decision's event and nothing else of any submission changes, one row is appended to the
  reviews, and a decision that returns work carries a reason that is not blank.\<close>

theorem decision_recorded:
  assumes "decide visible i now s reviewer decision comment (d, reviews) = Inr (rec, d', reviews')"
  shows "\<exists>event row. map_of EVENT decision = Some event \<and> map_of (db_submissions d) s = Some row \<and>
    next_status (sb_status row) event = Inr (rc_status rec) \<and>
    map_of (db_submissions d') = (map_of (db_submissions d))(s \<mapsto> row\<lparr>sb_status := rc_status rec\<rparr>) \<and>
    db_ops d' = db_ops d \<and> rc_returns_work rec = (decision \<in> set RETURNS_WORK) \<and>
    (rc_returns_work rec \<longrightarrow> \<not> blank comment) \<and>
    reviews' = reviews @ [\<lparr>rv_id = i, rv_submission = s, rv_reviewer = reviewer, rv_decision = decision, rv_comment = comment,
        rv_created_at = now\<rparr>]"
  by (rule decide_cases [OF assms]) auto

theorem decision_recorded_witness:
  "\<exists>event row. map_of EVENT ''approved'' = Some event \<and> map_of (db_submissions after_two) ''s1'' = Some row \<and>
     next_status (sb_status row) event = Inr ''approved'' \<and> db_ops (fst approved_db) = db_ops after_two"
proof -
  have "decide (\<lambda>s. True) ''rev1'' 7 ''s1'' ''omar'' ''approved'' None (after_two, []) =
      Inr (\<lparr>rc_review = ''rev1'', rc_status = ''approved'', rc_returns_work = False\<rparr>, fst approved_db, snd approved_db)"
    using decisions_recorded(1) unfolding decide_on_def by simp
  from decision_recorded [OF this] show ?thesis by auto
qed

subsection \<open>Pulling\<close>


text \<open>C40: The server is a courier for what it cannot read. The ciphertext and the nonce that a pull relays of an
  operation, whatever number it was given in the stream, are byte for byte what was pushed; a plaintext
  operation is relayed with neither, and its value as it was pushed.\<close>

theorem relayed_as_pushed:
  "let out = pulled_of info ((stored_of actor p)\<lparr>op_server_seq := n\<rparr>)
   in op_bytes (po_ciphertext out) = op_bytes (so_ciphertext p) \<and> po_content_key out = so_content_key p \<and>
      op_bytes (po_nonce out) = (if is_encrypted p then op_bytes (so_nonce p) else None) \<and>
      po_value out = (if is_encrypted p then JNull else so_value p)"
proof -
  have "op_bytes (map_option tohex x) = x" for x by (cases x) (simp_all add: op_bytes_def fromhex_tohex)
  moreover have "op_bytes None = None" by (simp add: op_bytes_def)
  ultimately show ?thesis by (simp add: pulled_of_def stored_of_def split: prod.split)
qed

definition first_pull :: "sync_error + pull_response" where
  "first_pull = pull (\<lambda>s. True) (\<lambda>s. Some (''f'', 1)) (\<lambda>d u. []) 0 1 None after_two"


subsection \<open>Where the service falls short of its comments\<close>

text \<open>The person an operation is stored under is the last one the gate looked at, not the operation's own: a
  batch that relays another device's operation files both under that device's person.\<close>

lemma relayed_batch_files_under_one_person:
  "map_option (map st_actor) (case push_ops [set_op ''o1'' ''s1'' ''t1'' 1, set_op ''o2'' ''s2'' ''t2'' 1] empty_db of
     Inr (r, d) \<Rightarrow> Some (db_ops d) | Inl _ \<Rightarrow> None) = Some [Some ''bilal'', Some ''bilal'']"
  "attribute (set_op ''o1'' ''s1'' ''t1'' 1) tablet ''t1'' (Some ''asha'') = Inr (Some ''asha'')"
  by code_simp+

text \<open>A second copy of an operation in one batch is reported accepted even when the first was rejected, so the
  same id is in both lists and the operation is in no log.\<close>

lemma duplicate_accepted_though_rejected:
  "(case push_ops [set_op ''o1'' ''s1'' ''lost'' 1, set_op ''o1'' ''s1'' ''lost'' 1] empty_db of
     Inr (r, d) \<Rightarrow> Some (pr_accepted r, map rj_id (pr_rejected r), db_ops d) | Inl _ \<Rightarrow> None) = Some ([''o1''], [Some ''o1''], [])"
  by code_simp

text \<open>A submission that was sent back for correction is finalized again by the next operation of any kind: the
  fold still carries the finalize that came before the decision.\<close>

lemma old_finalize_ends_correction:
  "(case push_ops late_op (fst sent_back_db) of
     Inr (r, d) \<Rightarrow> map_option sb_status (map_of (db_submissions d) ''s1'') | Inl _ \<Rightarrow> None) = Some ''finalized''"
  "map so_kind late_op = [''set'']"
  by code_simp+

text \<open>A content key whose id is already stored under another submission is not dropped: it aborts the push.\<close>

definition demo_key :: "string \<Rightarrow> content_key_in" where
  "demo_key s = \<lparr>ck_id = ''k'', ck_submission = s, ck_device = ''t1'',
     ck_wraps = [\<lparr>wk_project_key = ''pk'', wk_ephemeral = ''00'', wk_nonce = ''00'', wk_key = ''00''\<rparr>]\<rparr>"

lemma foreign_key_id_aborts_push:
  "(case push demo (parse_from [set_op ''o1'' ''s1'' ''t1'' 1]) [] ((request [set_op ''o1'' ''s1'' ''t1'' 1])\<lparr>pq_keys := [demo_key ''s1'']\<rparr>) empty_db of
     Inr (r, d) \<Rightarrow> (case push demo (parse_from [set_op ''o2'' ''s2'' ''t1'' 2]) [] ((request [set_op ''o2'' ''s2'' ''t1'' 2])\<lparr>pq_keys := [demo_key ''s2'']\<rparr>) d of
        Inl IntegrityError \<Rightarrow> True | _ \<Rightarrow> False)
   | Inl _ \<Rightarrow> False)"
  by code_simp

text \<open>A row that gets its number first and is committed later is behind a cursor that has gone past it: a device
  that pulled in between never sees it.\<close>

lemma late_commit_is_skipped:
  "(case pull (\<lambda>s. True) (\<lambda>s. Some (''f'', 1)) (\<lambda>d u. []) 0 5 None (after_two\<lparr>db_ops := tl (db_ops after_two)\<rparr>) of
     Inr r \<Rightarrow> (case pull (\<lambda>s. True) (\<lambda>s. Some (''f'', 1)) (\<lambda>d u. []) (pl_cursor r) 5 None after_two of
        Inr r' \<Rightarrow> map po_id (pl_ops r @ pl_ops r') = [''o2''] | Inl _ \<Rightarrow> False)
   | Inl _ \<Rightarrow> False)"
  by code_simp

text \<open>Two decisions that read the status before either writes are both recorded, and the second overwrites a
  status the machine never leaves.\<close>

lemma racing_decisions_overwrite:
  "(case (decide_check (\<lambda>s. True) ''s1'' ''approved'' None after_two, decide_check (\<lambda>s. True) ''s1'' ''rejected'' (Some ''no'') after_two) of
     (Inr first, Inr second) \<Rightarrow>
       (case decide_write ''r1'' ''s1'' 1 ''omar'' ''approved'' None first (after_two, []) of
          (rec1, t) \<Rightarrow> (case decide_write ''r2'' ''s1'' 1 ''sara'' ''rejected'' (Some ''no'') second t of
             (rec2, d, reviews) \<Rightarrow> rc_status rec1 = ''approved'' \<and> map rv_decision reviews = [''approved'', ''rejected''] \<and>
                map_option sb_status (map_of (db_submissions d) ''s1'') = Some ''rejected''))
   | _ \<Rightarrow> False)"
  by code_simp

end
