(* ===== verification/Media_Claims.thy ===== *)
theory Media_Claims
  imports Media_Laws Sync_Claims
begin

text \<open>
  The upload as a state machine over the whole server: sessions opened, chunks stored, files completed, between pushes
  and review decisions in any order. What holds of every file in every state it reaches, that a chunk may be sent twice,
  and that an upload resumed finishes.
\<close>

subsection \<open>The server with its media\<close>

inductive media_step :: "(string \<Rightarrow> int) \<Rightarrow> (string \<Rightarrow> string) \<Rightarrow> media_db \<times> review_row list \<Rightarrow> media_db \<times> review_row list \<Rightarrow> bool"
  for C sha where
  served: "server_step C (mb_db t, reviews) (d', reviews') \<Longrightarrow> media_step C sha (t, reviews) (t\<lparr>mb_db := d'\<rparr>, reviews')"
| opened: "session_request_ok q \<Longrightarrow> safe_name (sq_media q) \<Longrightarrow> open_upload_session V now ttl ulid bound q t = Inr (r, t') \<Longrightarrow>
    media_step C sha (t, reviews) (t', reviews)"
| chunked: "put_chunk sha V now upload_id n data t = Inr (c, t') \<Longrightarrow> media_step C sha (t, reviews) (t', reviews)"
| completed: "complete_upload sha V now upload_id h t = Inr (f, t') \<Longrightarrow> media_step C sha (t, reviews) (t', reviews)"

inductive_cases media_stepE: "media_step C sha (t, reviews) x"

definition media_unused :: "media_db \<times> review_row list \<Rightarrow> bool" where
  "media_unused x \<longleftrightarrow> (case x of (t, reviews) \<Rightarrow> unused (mb_db t, reviews) \<and> media_rows t = [] \<and> mb_chunks t = [] \<and> mb_uploads t = [] \<and>
     mb_wraps t = [] \<and> mb_store t = [])"

definition media_server_inv :: "(string \<Rightarrow> int) \<Rightarrow> (string \<Rightarrow> string) \<Rightarrow> media_db \<times> review_row list \<Rightarrow> bool" where
  "media_server_inv C sha x \<longleftrightarrow> (case x of (t, reviews) \<Rightarrow> server_inv C (mb_db t, reviews) \<and> media_inv sha t)"

lemma push_media:
  assumes "honest V" "push V parse [] q d = Inr (r, d')" "distinct (map fst (db_submissions d))"
  shows "rows_grow (db_media d) (db_media d')"
proof -
  obtain c d1 where h: "check_batch V parse q d = Inr (c, d1)" "write_batch V q c (commit_others [] d1) = Inr (r, d')"
    by (rule push_halves [OF assms(2)])
  note run = check_batch_run [OF h(1) assms(3)]
  let ?d = "commit_others [] d1"
  obtain R ins ts touched d3 where w:
      "ins = filter (\<lambda>x. st_id x \<notin> set (map fst R)) (cs_insert c)"
      "log_ok (db_ops ?d) \<longrightarrow> log_ok (db_ops d')"
      "\<forall>x \<in> set (cs_insert c). in_log (db_ops d') (st_id x) (op_device x) (op_counter x) \<or> (st_id x, Some ''nonce_reused'') \<in> set R"
      "foldl refuse_late (cs_accepted c, cs_rejected c) R = (pr_accepted r, pr_rejected r)"
      "ts = map snd (filter (\<lambda>(i, t). i \<notin> set (map fst R)) (cs_tombstones c))"
      "touched = (if R = [] then cs_touched c else keep_touched (map fst R) (cs_touched c))"
      "settled V (set (map fst touched)) (after_insert c ?d ins ts) d3"
      "d' = d3\<lparr>db_devices := foldl advance_counter (db_devices (report_pending (pq_device q) (pq_pending q) d3)) ins\<rparr>"
      "touched = [] \<longrightarrow> d3 = after_insert c ?d ins ts" "pr_cursor r = server_cursor d'"
    by (rule write_batch_run [OF assms(1) h(2) run(3,5)])
  have "db_media d' = register_references (db_media ?d) (media_references ins)"
    using w(7,8) by (simp add: settled_def after_insert_def)
  moreover have "db_media ?d = db_media d" using run(1) by (auto simp: commit_others_run)
  ultimately show ?thesis using register_references_grow by metis
qed

lemma server_step_media:
  assumes "server_step C (d, reviews) (d', reviews')" "server_inv C (d, reviews)"
  shows "rows_grow (db_media d) (db_media d')"
  using assms(1)
proof (cases rule: server_step.cases)
  case (pushed V parse q r)
  then show ?thesis using push_media assms(2) by (auto simp: server_inv_def sync_inv_def)
next
  case (decided visible i now s reviewer decision comment rec)
  obtain event row where e: "map_of EVENT decision = Some event" "map_of (db_submissions d) s = Some row"
    "next_status (sb_status row) event = Inr (rc_status rec)" "decision \<in> set RETURNS_WORK \<longrightarrow> \<not> blank comment"
    "rc_returns_work rec \<longleftrightarrow> decision \<in> set RETURNS_WORK" "map fst (db_submissions d') = map fst (db_submissions d)"
    "map_of (db_submissions d') = (map_of (db_submissions d))(s \<mapsto> row\<lparr>sb_status := rc_status rec\<rparr>)"
    "\<exists>subs. d' = d\<lparr>db_submissions := subs\<rparr>"
    "reviews' = reviews @ [\<lparr>rv_id = i, rv_submission = s, rv_reviewer = reviewer, rv_decision = decision, rv_comment = comment,
        rv_created_at = now\<rparr>]"
    by (rule decide_cases [OF decided])
  then have "db_media d' = db_media d" by auto
  then show ?thesis by (simp add: rows_grow_refl)
qed

text \<open>The uploads write no other table of the server than that of the media rows.\<close>

lemma server_inv_media: "server_inv C (d\<lparr>db_media := rows\<rparr>, reviews) \<longleftrightarrow> server_inv C (d, reviews)"
  using state_of_ops [of "d\<lparr>db_media := rows\<rparr>" d C]
  by (simp add: server_inv_def sync_inv_def stream_numbers_def reasons_on_record_def row_sound_def)

lemma same_db [simp]: "\<exists>rows. d = d\<lparr>db_media := rows\<rparr>"
  by (rule exI [of _ "db_media d"]) simp

lemma set_media_db: "\<exists>rows. mb_db (set_media m t) = (mb_db t)\<lparr>db_media := rows\<rparr>"
  by (simp add: set_media_def) blast

lemma open_session_db: "open_session V now ttl ulid q t = Inr (r, t') \<Longrightarrow> \<exists>rows. mb_db t' = (mb_db t)\<lparr>db_media := rows\<rparr>"
  unfolding open_session_def place_media_def add_media_def resume_media_def
  by (auto simp: rbind_Inr_iff set_media_def media_rows_def split: option.splits if_splits)

lemma put_chunk_db:
  assumes "put_chunk sha V now upload_id n data t = Inr (r, t')"
  shows "\<exists>rows. mb_db t' = (mb_db t)\<lparr>db_media := rows\<rparr>"
proof (rule put_chunk_run [OF assms])
  fix u :: upload_row and m :: media_row and t1 :: media_db
  assume "write_chunk sha (md_id m) n data t = Inr t1"
  then have "mb_db t1 = mb_db t" by (auto simp: write_chunk_def Let_def rbind_Inr_iff split: option.splits if_splits)
  moreover assume "t' = (set_media (m\<lparr>md_status := ''uploading''\<rparr>) t1)\<lparr>mb_uploads :=
       map (\<lambda>v. if up_id v = up_id u then v\<lparr>up_received := count_chunks t1 (md_id m)\<rparr> else v) (mb_uploads t1)\<rparr>"
  ultimately show ?thesis using set_media_db [of "m\<lparr>md_status := ''uploading''\<rparr>" t1] by simp
qed

lemma complete_db: "complete_upload sha V now upload_id h t = Inr (r, t') \<Longrightarrow> \<exists>rows. mb_db t' = (mb_db t)\<lparr>db_media := rows\<rparr>"
  unfolding complete_upload_def complete_def
  by (auto simp: Let_def intro: set_media_db split: sum.splits if_splits)

lemma media_step_inv:
  assumes "media_server_inv C sha x" "media_step C sha x y"
  shows "media_server_inv C sha y"
proof -
  obtain t reviews where x: "x = (t, reviews)" by fastforce
  have inv: "server_inv C (mb_db t, reviews)" "media_inv sha t" using assms(1) by (simp_all add: x media_server_inv_def)
  show ?thesis using assms(2) unfolding x
  proof (cases rule: media_step.cases)
    case (served d' reviews')
    have "rows_grow (media_rows t) (media_rows (t\<lparr>mb_db := d'\<rparr>))"
      using server_step_media [OF served(2) inv(1)] by (simp add: media_rows_def)
    then have "media_inv sha (t\<lparr>mb_db := d'\<rparr>)" by (rule rows_keep_inv [OF inv(2)]) simp_all
    then show ?thesis using server_step_inv [OF inv(1) served(2)] by (simp add: served(1) media_server_inv_def)
  next
    case (opened q V now ttl ulid bound r t')
    then have o: "open_session V now ttl ulid q t = Inr (r, t')" by (simp add: open_upload_session_def split: if_splits)
    then show ?thesis using open_session_db [OF o] open_session_keeps_inv [OF inv(2) o opened(2,3)] inv(1)
      by (auto simp: opened(1) media_server_inv_def server_inv_media)
  next
    case (chunked V now upload_id n data c t')
    then show ?thesis using put_chunk_db [OF chunked(2)] put_chunk_keeps_inv [OF inv(2) chunked(2)] inv(1)
      by (auto simp: media_server_inv_def server_inv_media)
  next
    case (completed V now upload_id h f t')
    then show ?thesis using complete_db [OF completed(2)] complete_keeps_inv [OF inv(2) completed(2)] inv(1)
      by (auto simp: media_server_inv_def server_inv_media)
  qed
qed

interpretation media: step_system media_unused "media_step C sha" "media_server_inv C sha" for C sha
proof
  fix x :: "media_db \<times> review_row list" assume "media_unused x"
  moreover obtain t reviews where "x = (t, reviews)" by fastforce
  ultimately show "media_server_inv C sha x"
    using server.start_inv [of "(mb_db t, reviews)" C]
    by (simp add: media_unused_def media_server_inv_def media_inv_def tables_ok_def chunk_keys_def store_ok_def sessions_ok_def
        seals_ok_def wraps_ok_def)
qed (rule media_step_inv)

lemma reached_inv: "reachable media_unused (media_step C sha) (t, reviews) \<Longrightarrow> media_inv sha t"
  using media.reachable_inv [of C sha "(t, reviews)"] by (simp add: media_server_inv_def)

subsection \<open>Sending chunks\<close>

lemma find_one:
  assumes "x \<in> set xs" "P x" and one: "\<And>y. y \<in> set xs \<Longrightarrow> P y \<Longrightarrow> y = x"
  shows "find P xs = Some x"
proof (cases "find P xs")
  case None
  then show ?thesis using assms(1,2) by (metis find_None_iff)
next
  case (Some y)
  then have "y \<in> set xs" "P y" by (auto simp: find_Some_iff)
  then show ?thesis using Some one by blast
qed

lemma find_media_iff:
  assumes "tables_ok t"
  shows "find_media V t i = Some m \<longleftrightarrow> m \<in> set (media_rows t) \<and> md_id m = i \<and> sv_visible V (md_submission m)"
proof
  show "m \<in> set (media_rows t) \<and> md_id m = i \<and> sv_visible V (md_submission m) \<Longrightarrow> find_media V t i = Some m"
    unfolding find_media_def using row_unique [OF assms] by (intro find_one) auto
qed (rule find_media_Some)

lemma session_and_media_iff:
  assumes "tables_ok t"
  shows "session_and_media V now upload_id t = Inr (u, m) \<longleftrightarrow>
    u \<in> set (mb_uploads t) \<and> up_id u = upload_id \<and> now < up_expires u \<and> find_media V t (up_media u) = Some m"
proof
  have one: "v = u" if "v \<in> set (mb_uploads t)" "u \<in> set (mb_uploads t)" "up_id v = up_id u" for v
    using that assms unfolding tables_ok_def distinct_map inj_on_def by blast
  assume h: "u \<in> set (mb_uploads t) \<and> up_id u = upload_id \<and> now < up_expires u \<and> find_media V t (up_media u) = Some m"
  then have "find (\<lambda>u. up_id u = upload_id \<and> find_media V t (up_media u) \<noteq> None) (mb_uploads t) = Some u"
    using one by (intro find_one) auto
  then show "session_and_media V now upload_id t = Inr (u, m)" using h by (simp add: session_and_media_def)
qed (use session_and_media_Inr in metis)

lemma write_chunk_works:
  assumes "tables_ok t" "key_ok (i, n)"
  shows "\<exists>t1. write_chunk sha i n data t = Inr t1"
proof -
  obtain s where "store_put (chunk_storage_key i n) data (mb_store t) = Inr s"
    using blobs.put_works [OF assms(2), of "mb_store t" data] assms(1) by (auto simp: tables_ok_def put_blob_def)
  then show ?thesis by (simp add: write_chunk_def Let_def split: option.split)
qed

text \<open>A chunk that fits its file is stored, and the session goes on.\<close>

lemma put_next:
  assumes inv: "media_inv sha t" and s: "session_and_media V now upload_id t = Inr (u, m)" and fits: "chunk_fits m n data = Inr ()"
  obtains r t1 t' where "put_chunk sha V now upload_id n data t = Inr (r, t')" "media_inv sha t'"
    "wrote sha t (md_id m) n data t1" "mb_chunks t' = mb_chunks t1" "mb_store t' = mb_store t1"
    "session_and_media V now upload_id t' = Inr (u\<lparr>up_received := count_chunks t1 (md_id m)\<rparr>, m\<lparr>md_status := ''uploading''\<rparr>)"
proof -
  note in_s = session_and_media_Inr [OF s]
  have k: "key_ok (md_id m, n)"
    using media_invD(3) [OF inv] in_s(1,6) chunk_needs_count [OF fits] by (auto simp: sessions_ok_def key_ok_def)
  obtain t1 where w: "write_chunk sha (md_id m) n data t = Inr t1" using write_chunk_works [OF media_invD(1) [OF inv] k] by blast
  let ?ups = "map (\<lambda>v. if up_id v = up_id u then v\<lparr>up_received := count_chunks t1 (md_id m)\<rparr> else v) (mb_uploads t1)"
  let ?m = "m\<lparr>md_status := ''uploading''\<rparr>" and ?u = "u\<lparr>up_received := count_chunks t1 (md_id m)\<rparr>"
  let ?t = "(set_media ?m t1)\<lparr>mb_uploads := ?ups\<rparr>"
  obtain r where r: "put_chunk sha V now upload_id n data t = Inr (r, ?t)"
    by (simp add: put_chunk_def s fits w Let_def count_chunks_def)
  have inv': "media_inv sha ?t" by (rule put_chunk_keeps_inv [OF inv r])
  note wr = write_chunk_wrote [OF inv k w]
  have frame: "media_rows t1 = media_rows t" "mb_uploads t1 = mb_uploads t" using wroteD(5) [OF wr] by auto
  have "?u \<in> set ?ups" using in_s(1) unfolding frame by (auto intro!: image_eqI [of _ _ u])
  moreover have "find_media V ?t (up_media ?u) = Some ?m"
    unfolding find_media_iff [OF media_invD(1) [OF inv']]
    using in_s find_media_Some [OF in_s(4)] by (auto simp: frame intro!: image_eqI [of _ _ m])
  ultimately have "session_and_media V now upload_id ?t = Inr (?u, ?m)"
    unfolding session_and_media_iff [OF media_invD(1) [OF inv']] using in_s(2,3) by simp
  then show thesis using that [OF r inv' wr] by simp
qed

text \<open>C11: A chunk may be sent again. In every state the server can reach, a chunk that was accepted is accepted a second time
  with the same answer, and the second time changes nothing: no row, no count, no byte of the store.\<close>

theorem chunk_retry:
  assumes "reachable media_unused (media_step C sha) (t, reviews)" "put_chunk sha V now upload_id n data t = Inr (r, t')"
  shows "put_chunk sha V now upload_id n data t' = Inr (r, t')"
proof -
  have inv: "media_inv sha t" by (rule reached_inv [OF assms(1)])
  obtain u m t1 where h: "session_and_media V now upload_id t = Inr (u, m)" "chunk_fits m n data = Inr ()"
    "write_chunk sha (md_id m) n data t = Inr t1"
    "t' = (set_media (m\<lparr>md_status := ''uploading''\<rparr>) t1)\<lparr>mb_uploads :=
       map (\<lambda>v. if up_id v = up_id u then v\<lparr>up_received := count_chunks t1 (md_id m)\<rparr> else v) (mb_uploads t1)\<rparr>"
    "r = \<lparr>cr_media = md_id m, cr_index = n, cr_size = int (length data), cr_received = count_chunks t1 (md_id m), cr_count = md_count m\<rparr>"
    by (rule put_chunk_run [OF assms(2)])
  obtain r2 t2 t3 where p: "put_chunk sha V now upload_id n data t = Inr (r2, t3)" "media_inv sha t3"
    "wrote sha t (md_id m) n data t2" "mb_chunks t3 = mb_chunks t2" "mb_store t3 = mb_store t2"
    "session_and_media V now upload_id t3 = Inr (u\<lparr>up_received := count_chunks t2 (md_id m)\<rparr>, m\<lparr>md_status := ''uploading''\<rparr>)"
    by (rule put_next [OF inv h(1,2)])
  have t3: "t3 = t'" using p(1) assms(2) by simp
  have chunks: "mb_chunks t2 = mb_chunks t1" using p(4) t3 h(4) by simp
  let ?m = "m\<lparr>md_status := ''uploading''\<rparr>" and ?u = "u\<lparr>up_received := count_chunks t1 (md_id m)\<rparr>"
  have s: "session_and_media V now upload_id t' = Inr (?u, ?m)" using p(6) chunks by (simp add: t3 count_chunks_def)
  obtain c bytes where c: "row_written sha t (md_id m) n data t2 c bytes" using wroteD(1) [OF p(3)] by blast
  then have "c \<in> set (mb_chunks t')" "ch_media c = md_id m" "ch_index c = n" "ch_hash c = sha data"
    using p(4) t3 by (auto simp: row_written_def)
  moreover from this have "find_chunk t' (md_id m) n = Some c"
    unfolding find_chunk_def using chunk_unique [OF media_invD(1) [OF p(2) [unfolded t3]]] by (intro find_one) auto
  ultimately have "write_chunk sha (md_id m) n data t' = Inr t'" by (simp add: write_chunk_def Let_def)
  moreover have "set_media ?m t' = t'" by (simp add: h(4) set_media_def media_rows_def comp_def cong: map_cong)
  moreover have "count_chunks t' (md_id m) = count_chunks t1 (md_id m)" by (simp add: h(4) count_chunks_def)
  moreover have "t'\<lparr>mb_uploads := map (\<lambda>v. if up_id v = up_id u then v\<lparr>up_received := count_chunks t1 (md_id m)\<rparr> else v) (mb_uploads t')\<rparr> = t'"
    by (simp add: h(4) comp_def cong: map_cong)
  ultimately show ?thesis using h(2,5) by (simp add: put_chunk_def s Let_def cong: if_cong)
qed

subsection \<open>A small upload\<close>

definition media_start :: "db \<Rightarrow> media_db" where
  "media_start d = \<lparr>mb_db = d, mb_chunks = [], mb_uploads = [], mb_wraps = [], mb_store = []\<rparr>"

definition demo_wrap :: wrapped_key where
  "demo_wrap = \<lparr>wk_project_key = ''pk'', wk_ephemeral = replicate 64 (CHR ''0''), wk_nonce = replicate 24 (CHR ''0''), wk_key = replicate 96 (CHR ''0'')\<rparr>"

definition photo :: session_request where
  "photo = \<lparr>sq_media = ''ph'', sq_submission = ''s1'', sq_device = ''t1'', sq_op = Some ''o1'', sq_path = Some ''q'', sq_mime = ''image/jpeg'',
     sq_size = 3, sq_count = 1, sq_encrypted = True, sq_content_key = Some ''mk'', sq_wraps = [demo_wrap]\<rparr>"

definition demo_open :: "session_request \<Rightarrow> string \<Rightarrow> media_db \<Rightarrow> media_error + session_response \<times> media_db" where
  "demo_open q ulid = open_upload_session demo 0 100 ulid (Some (sq_device q)) q"

definition ran :: "media_error + 'a \<times> media_db \<Rightarrow> media_db" where
  "ran x = (case x of Inr (r, t) \<Rightarrow> t | Inl _ \<Rightarrow> media_start empty_db)"

definition answer :: "'a \<Rightarrow> media_error + 'a \<times> media_db \<Rightarrow> 'a" where
  "answer d x = (case x of Inr (r, t) \<Rightarrow> r | Inl _ \<Rightarrow> d)"

definition photo_open :: media_db where "photo_open = ran (demo_open photo ''up'' (media_start after_two))"
definition photo_sent :: media_db where "photo_sent = ran (put_chunk id demo 1 ''up'' 0 ''abc'' photo_open)"
definition photo_sealed :: media_db where "photo_sealed = ran (complete_upload id demo 1 ''up'' ''abc'' photo_sent)"

definition photo_session :: session_response where
  "photo_session = \<lparr>sr_upload = ''up'', sr_media = ''ph'', sr_chunk_size = CHUNK_SIZE_BYTES, sr_count = 1, sr_received = [],
     sr_status = ''uploading'', sr_expires = 100\<rparr>"

definition photo_row :: media_row where
  "photo_row = \<lparr>md_id = ''ph'', md_submission = ''s1'', md_op = Some ''o1'', md_path = Some ''q'', md_status = ''complete'', md_device = Some ''t1'',
     md_mime = ''image/jpeg'', md_size = 3, md_count = 1, md_encrypted = True, md_content_key = Some ''mk'', md_hash = Some ''abc'',
     md_storage = Some ''media/ph''\<rparr>"

lemma photo_opened: "demo_open photo ''up'' (media_start after_two) = Inr (photo_session, photo_open)"
  by code_simp

lemma photo_put: "put_chunk id demo 1 ''up'' 0 ''abc'' photo_open =
    Inr (\<lparr>cr_media = ''ph'', cr_index = 0, cr_size = 3, cr_received = 1, cr_count = 1\<rparr>, photo_sent)"
  by code_simp

lemma photo_completed: "complete_upload id demo 1 ''up'' ''abc'' photo_sent =
    Inr (\<lparr>cm_media = ''ph'', cm_hash = ''abc'', cm_size = 3, cm_count = 1, cm_status = ''complete''\<rparr>, photo_sealed)"
  by code_simp

lemma photo_ok: "session_request_ok photo" "safe_name (sq_media photo)"
  by (code_simp, simp add: safe_name_def photo_def)

abbreviation demo_reached :: "media_db \<Rightarrow> bool" where
  "demo_reached t \<equiv> reachable media_unused (media_step (sv_collate demo) id) (t, [])"

lemma after_two_reached: "demo_reached (media_start after_two)"
proof -
  have start: "media_unused (media_start empty_db, [])" by code_simp
  have d: "mb_db (media_start empty_db) = empty_db" "(media_start empty_db)\<lparr>mb_db := after_two\<rparr> = media_start after_two"
    by (simp_all add: media_start_def)
  have "server_step (sv_collate demo) (mb_db (media_start empty_db), []) (after_two, [])"
    unfolding d by (rule server_step.pushed [OF demo_honest refl two_ops_pushed])
  from served [OF this, of id] have "media_step (sv_collate demo) id (media_start empty_db, []) (media_start after_two, [])"
    unfolding d .
  then show ?thesis by (rule reach_step [OF reach_start [of media_unused, OF start]])
qed

lemma photo_open_reached: "demo_reached photo_open"
  by (rule reach_step [OF after_two_reached opened [OF photo_ok photo_opened [unfolded demo_open_def]]])

lemma photo_sent_reached: "demo_reached photo_sent"
  by (rule reach_step [OF photo_open_reached chunked [OF photo_put]])

lemma photo_sealed_reached: "demo_reached photo_sealed"
  by (rule reach_step [OF photo_sent_reached completed [OF photo_completed]])

theorem chunk_retry_witness: "put_chunk id demo 1 ''up'' 0 ''abc'' photo_sent =
    Inr (\<lparr>cr_media = ''ph'', cr_index = 0, cr_size = 3, cr_received = 1, cr_count = 1\<rparr>, photo_sent)"
  by (rule chunk_retry [OF photo_open_reached photo_put])

subsection \<open>What holds of a file\<close>



text \<open>C12: An encrypted file can be opened by somebody. In every state the server can reach, an encrypted file names its media key
  and has that key wrapped to at least one recipient: neither a restated session nor a push leaves it without.\<close>

theorem encrypted_file_has_reader:
  assumes "reachable media_unused (media_step C sha) (t, reviews)" "m \<in> set (media_rows t)" "md_encrypted m"
  shows "md_content_key m \<noteq> None \<and> (\<exists>w \<in> set (mb_wraps t). mw_media w = md_id m)"
  using media_invD(5) [OF reached_inv [OF assms(1)]] assms(2,3) by (simp add: wraps_ok_def readable_def)

theorem encrypted_file_has_reader_witness:
  "\<exists>w \<in> set (mb_wraps photo_sealed). mw_media w = ''ph''"
proof -
  have row: "photo_row \<in> set (media_rows photo_sealed)" "md_encrypted photo_row" by code_simp+
  then show ?thesis using encrypted_file_has_reader [OF photo_sealed_reached row] by (simp add: photo_row_def)
qed

subsection \<open>An upload finishes\<close>

definition send_chunks :: "(string \<Rightarrow> string) \<Rightarrow> server \<Rightarrow> int \<Rightarrow> string \<Rightarrow> string list \<Rightarrow> media_db \<Rightarrow> int list \<Rightarrow> media_error + media_db" where
  "send_chunks sha V now upload_id file t indexes =
     foldM (\<lambda>t i. rbind (put_chunk sha V now upload_id i (file ! nat i) t) (\<lambda>(c, t). Inr t)) t indexes"

lemma chunk_keys_cong: "mb_chunks t = mb_chunks t' \<Longrightarrow> chunk_keys t = chunk_keys t'"
  by (simp add: chunk_keys_def)

lemma send_chunks_run:
  assumes "media_inv sha t" "session_and_media V now upload_id t = Inr (u, m)" "safe_name (md_id m)"
    and "\<forall>i \<in> set indexes. chunk_fits m i (file ! nat i) = Inr ()" "distinct indexes"
    and "\<forall>i \<in> set indexes. (md_id m, i) \<notin> set (chunk_keys t)"
  shows "\<exists>t' u' m'. send_chunks sha V now upload_id file t indexes = Inr t' \<and> media_inv sha t' \<and>
    session_and_media V now upload_id t' = Inr (u', m') \<and> same_shape m m' \<and>
    set (chunk_keys t') = Pair (md_id m) ` set indexes \<union> set (chunk_keys t) \<and>
    (\<forall>i \<in> set indexes. blob t' (md_id m) i = Inr (file ! nat i)) \<and>
    (\<forall>i. 0 \<le> i \<and> i \<notin> set indexes \<longrightarrow> blob t' (md_id m) i = blob t (md_id m) i)"
  using assms
proof (induction indexes arbitrary: t u m)
  case Nil
  then show ?case by (auto simp: send_chunks_def same_shape_def)
next
  case (Cons i ks)
  have fits: "chunk_fits m i (file ! nat i) = Inr ()" using Cons.prems(4) by simp
  obtain r t1 t2 where p: "put_chunk sha V now upload_id i (file ! nat i) t = Inr (r, t2)" "media_inv sha t2"
    "wrote sha t (md_id m) i (file ! nat i) t1" "mb_chunks t2 = mb_chunks t1" "mb_store t2 = mb_store t1"
    "session_and_media V now upload_id t2 = Inr (u\<lparr>up_received := count_chunks t1 (md_id m)\<rparr>, m\<lparr>md_status := ''uploading''\<rparr>)"
    by (rule put_next [OF Cons.prems(1,2) fits])
  have b: "blob t2 = blob t1" by (simp add: blob_def fun_eq_iff p(5))
  have keys: "set (chunk_keys t2) = insert (md_id m, i) (set (chunk_keys t))"
    using wroteD(6) [OF p(3)] chunk_keys_cong [OF p(4)] by simp
  have "\<forall>j \<in> set ks. (md_id m, j) \<notin> set (chunk_keys t2)" using Cons.prems(5,6) unfolding keys by auto
  then obtain t' u' m' where IH: "send_chunks sha V now upload_id file t2 ks = Inr t'" "media_inv sha t'"
    "session_and_media V now upload_id t' = Inr (u', m')" "same_shape (m\<lparr>md_status := ''uploading''\<rparr>) m'"
    "set (chunk_keys t') = Pair (md_id m) ` set ks \<union> set (chunk_keys t2)"
    "\<forall>j \<in> set ks. blob t' (md_id m) j = Inr (file ! nat j)"
    "\<forall>j. 0 \<le> j \<and> j \<notin> set ks \<longrightarrow> blob t' (md_id m) j = blob t2 (md_id m) j"
    using Cons.IH [OF p(2,6)] Cons.prems(3-5) by auto
  have i: "0 \<le> i" "i \<notin> set ks" using chunk_needs_count [OF fits] Cons.prems(5) by auto
  obtain c bytes where c: "row_written sha t (md_id m) i (file ! nat i) t1 c bytes" using wroteD(1) [OF p(3)] by blast
  have "(ch_media c, ch_index c) \<notin> set (chunk_keys t)" using c Cons.prems(6) by (simp add: row_written_def)
  then have "c \<notin> set (mb_chunks t)" by (auto simp: chunk_keys_def)
  then have first: "blob t1 (md_id m) i = Inr (file ! nat i)" using c by (auto simp: row_written_def)
  have "blob t' (md_id m) i = Inr (file ! nat i)" using IH(7) i first unfolding b by simp
  moreover have "blob t' (md_id m) j = blob t (md_id m) j" if "0 \<le> j" "j \<notin> set (i # ks)" for j
    using IH(7) that wroteD(4) [OF p(3) Cons.prems(3) that(1)] unfolding b by simp
  ultimately show ?case using IH(1-6) p(1) keys by (simp add: send_chunks_def same_shape_def insert_commute)
qed

lemma file_bytes: "int (length file) = n \<Longrightarrow> map (\<lambda>i. file ! nat i) [0 .. n - 1] = file"
  by (rule nth_equalityI) (auto simp: nth_upto)

lemma complete_works:
  assumes inv: "media_inv sha t" and s: "session_and_media V now upload_id t = Inr (u, m)"
    and len: "int (length file) = md_count m"
    and stored: "\<And>i. 0 \<le> i \<Longrightarrow> i < md_count m \<Longrightarrow> i \<in> set (received_indexes t (md_id m)) \<and> blob t (md_id m) i = Inr (file ! nat i)"
  shows "\<exists>t'. complete_upload sha V now upload_id (sha (concat file)) t =
    Inr (\<lparr>cm_media = md_id m, cm_hash = sha (concat file), cm_size = int (length (concat file)), cm_count = md_count m, cm_status = ''complete''\<rparr>, t')"
proof -
  note m = session_and_media_Inr(5) [OF s]
  have rec: "received_indexes t (md_id m) = [0 .. md_count m - 1]"
    using stored by (intro all_received [OF inv m]) blast
  have "mapM (blob t (md_id m)) [0 .. md_count m - 1] = mapM (\<lambda>i. Inr (file ! nat i)) [0 .. md_count m - 1]"
    using stored by (intro mapM_cong) auto
  also have "\<dots> = Inr file" unfolding mapM_pure file_bytes [OF len] ..
  finally have "mapM (\<lambda>c. store_get (ch_key c) (mb_store t)) (chunks_in_order t (md_id m)) = Inr file"
    using chunks_read [OF inv, of "md_id m"] by (simp add: rec)
  moreover have "filter (\<lambda>i. i \<notin> set (map ch_index (chunks_in_order t (md_id m)))) [0 .. md_count m - 1] = []"
    unfolding received_sorted(3) [OF media_invD(1) [OF inv]] rec by (auto simp: filter_empty_conv)
  ultimately show ?thesis by (simp add: complete_upload_def complete_def s Let_def)
qed



subsection \<open>What the uploads can also do\<close>

text \<open>A chunk sent again after completion, the same bytes, opens the file again: \<open>put_chunk\<close> sets \<open>uploading\<close> whatever it found.\<close>

lemma late_chunk_unseals:
  "map md_status (media_rows (ran (put_chunk id demo 2 ''up'' 0 ''abc'' photo_sealed))) = [''uploading'']"
  by code_simp

text \<open>A media id is only checked for its length. One with \<open>..\<close> in it writes over another file's chunk: the other file still
  says complete, with a hash that is not the hash of what is stored.\<close>

definition stray :: session_request where
  "stray = photo\<lparr>sq_media := ''x/../ph'', sq_device := ''t2''\<rparr>"

definition photo_overwritten :: media_db where
  "photo_overwritten = ran (put_chunk id demo 1 ''up2'' 0 ''zzz'' (ran (demo_open stray ''up2'' photo_sealed)))"

lemma stray_id_overwrites:
  "session_request_ok stray \<and> photo_row \<in> set (media_rows photo_overwritten) \<and> md_hash photo_row = Some ''abc'' \<and>
   store_get (chunk_storage_key ''ph'' 0) (mb_store photo_overwritten) = Inr ''zzz''"
  by code_simp

text \<open>The mark \<open>failed\<close> of a mismatch is rolled back with the request that sets it.\<close>

lemma failed_is_rolled_back:
  "map md_status (media_rows (snd (complete id demo 1 ''up'' ''abd'' photo_sent))) = [''failed''] \<and>
   complete_upload id demo 1 ''up'' ''abd'' photo_sent = Inl (HashMismatch ''abc'')"
  by code_simp

end
