(* ===== verification/Expression_Text.thy ===== *)
theory Expression_Text
  imports Expression_Laws Datasets
begin

text \<open>
  \<open>forms/expression_text.py\<close> and \<open>forms/xlsform/expressions.py\<close>: expressions as text, and back. The printer with its
  precedences, the tokenizer, and the recursive descent over the tokens left. Text is code points below 256, so
  the curly quotes the tokenizer also takes do not occur. The parser has fuel, one for each call it nests;
  \<open>translate\<close> gives it more than any text can use.
\<close>

subsection \<open>Printing\<close>

definition BINARY :: "(string \<times> nat \<times> string) list" where
  "BINARY = [(''or'', 1, ''or''), (''and'', 2, ''and''), (''eq'', 3, ''=''), (''ne'', 3, ''!=''), (''lt'', 3, ''<''), (''lte'', 3, ''<=''),
     (''gt'', 3, ''>''), (''gte'', 3, ''>=''), (''add'', 4, ''+''), (''sub'', 4, ''-''), (''div'', 4, ''div''), (''mod'', 4, ''mod''),
     (''idiv'', 4, ''idiv''), (''mul'', 5, ''*'')]"

definition NARY :: "string list" where "NARY = [''and'', ''or'']"

definition LEFT_ASSOCIATIVE :: "string list" where
  "LEFT_ASSOCIATIVE = [''add'', ''sub'', ''mul'', ''div'', ''mod'', ''idiv'']"

definition UNARY_PRECEDENCE :: nat where "UNARY_PRECEDENCE = 6"

definition paren_if :: "bool \<Rightarrow> string \<Rightarrow> string" where
  "paren_if b t = (if b then ''('' @ t @ '')'' else t)"

definition is_negative_number :: "json \<Rightarrow> bool" where
  "is_negative_number v = (case v of JInt i \<Rightarrow> i < 0 | JFloat (Fin r) \<Rightarrow> r < 0 | JFloat NegInf \<Rightarrow> True | _ \<Rightarrow> False)"

text \<open>\<open>format(Decimal(text), "f")\<close> of a text \<open>d.ddde\<plusminus>n\<close>: the digits with the point moved.\<close>

definition positional :: "string \<Rightarrow> string" where
  "positional s = (case split_first ''e'' s of
     None \<Rightarrow> s
   | Some (mantissa, exponent) \<Rightarrow>
       (case parse_exponent exponent of
          None \<Rightarrow> s
        | Some k \<Rightarrow>
            (let (whole, part) = (case split_first ''.'' mantissa of None \<Rightarrow> (mantissa, []) | Some x \<Rightarrow> x);
                 digits = whole @ part; point = int (length whole) + k
             in if point \<le> 0 then ''0.'' @ replicate (nat (- point)) (CHR ''0'') @ digits
                else if int (length digits) \<le> point then digits @ replicate (nat (point - int (length digits))) (CHR ''0'')
                else take (nat point) digits @ ''.'' @ drop (nat point) digits)))"

definition number_text :: "pylib \<Rightarrow> json \<Rightarrow> string option" where
  "number_text L v = (case v of
     JInt i \<Rightarrow> Some (str_of_int i)
   | JFloat (Fin r) \<Rightarrow>
       (let t = py_float_repr L (Fin r);
            t = (if contains ''e'' t \<or> contains ''E'' t then positional t else t)
        in Some (if contains ''.'' t then t else t @ ''.0''))
   | _ \<Rightarrow> None)"

definition literal_text :: "pylib \<Rightarrow> json \<Rightarrow> string option" where
  "literal_text L v = (case v of
     JBool True \<Rightarrow> Some ''true()''
   | JBool False \<Rightarrow> Some ''false()''
   | JNull \<Rightarrow> Some ''null()''
   | JInt i \<Rightarrow> number_text L v
   | JFloat x \<Rightarrow> number_text L v
   | _ \<Rightarrow>
       (let t = py_str L v
        in if CHR 0x27 \<notin> set t then Some ([CHR 0x27] @ t @ [CHR 0x27])
           else if CHR 0x22 \<notin> set t then Some ([CHR 0x22] @ t @ [CHR 0x22])
           else None))"

definition negated :: "json \<Rightarrow> json" where
  "negated v = (case v of JInt i \<Rightarrow> JInt (- i) | JFloat x \<Rightarrow> JFloat (fneg x) | _ \<Rightarrow> v)"

definition lit_text :: "pylib \<Rightarrow> nat \<Rightarrow> json \<Rightarrow> string option" where
  "lit_text L p v = (if is_negative_number v
     then map_option (\<lambda>t. paren_if (UNARY_PRECEDENCE < p) (''-'' @ t)) (literal_text L (negated v))
     else literal_text L v)"

definition ref_text :: "pylib \<Rightarrow> dict \<Rightarrow> string" where
  "ref_text L kvs = (let path = (case map_of kvs ''path'' of None \<Rightarrow> [] | Some v \<Rightarrow> py_str L v)
     in if starts_with ROW_PREFIX path then drop (length ROW_PREFIX) path else ''${'' @ path @ ''}'')"

text \<open>\<open>node.get("args") or []\<close>.\<close>

definition text_args :: "dict \<Rightarrow> json list option" where
  "text_args kvs = (if \<not> truthy (jget kvs ''args'') then Some []
     else case py_iter (jget kvs ''args'') of Inr xs \<Rightarrow> Some xs | Inl e \<Rightarrow> None)"

fun joined :: "string \<Rightarrow> string list \<Rightarrow> string" where
  "joined sep [] = []"
| "joined sep [x] = x"
| "joined sep (x # y # ys) = x @ sep @ joined sep (y # ys)"

primrec all_some :: "'a option list \<Rightarrow> 'a list option" where
  "all_some [] = Some []"
| "all_some (x # xs) = (case x of None \<Rightarrow> None | Some a \<Rightarrow> map_option (Cons a) (all_some xs))"

definition call_text :: "string \<Rightarrow> string option list \<Rightarrow> string option" where
  "call_text name xs = map_option (\<lambda>ts. name @ ''('' @ joined '', '' ts @ '')'') (all_some xs)"

lemma depth_text_args [depth_intros]: "text_args kvs = Some xs \<Longrightarrow> x \<in> set xs \<Longrightarrow> depth x < depth (JObj kvs)"
proof -
  assume h: "text_args kvs = Some xs" "x \<in> set xs"
  then have "py_iter (jget kvs ''args'') = Inr xs" by (auto simp: text_args_def split: if_splits sum.splits)
  then have "xs = args_of kvs" by (simp add: args_of_def)
  then show ?thesis using h(2) depth_args_of by blast
qed

lemma depth_text_nth [depth_intros]: "text_args kvs = Some xs \<Longrightarrow> i < length xs \<Longrightarrow> depth (xs ! i) < depth (JObj kvs)"
  using depth_text_args nth_mem by blast

text \<open>\<open>_render\<close>. \<open>None\<close>: it raises, \<open>RenderError\<close> or the error of a node that is not an expression.\<close>

function render_at :: "pylib \<Rightarrow> nat \<Rightarrow> json \<Rightarrow> string option" where
  "render_at L p (JObj kvs) =
     (case map_of kvs ''op'' of
        Some (JStr op) \<Rightarrow>
          (if op = ''lit'' then lit_text L p (jget kvs ''value'')
           else if op = ''ref'' then Some (ref_text L kvs)
           else case text_args kvs of
             None \<Rightarrow> None
           | Some xs \<Rightarrow>
               (case map_of BINARY op of
                  Some (q, symbol) \<Rightarrow>
                    (if op \<in> set NARY then
                       (if length xs < 2 then None
                        else map_option (\<lambda>ts. paren_if (q < p) (joined ('' '' @ symbol @ '' '') ts))
                               (all_some (map (render_at L (Suc q)) xs)))
                     else if length xs \<noteq> 2 then None
                     else case render_at L (if op \<in> set LEFT_ASSOCIATIVE then q else Suc q) (xs ! 0) of
                       None \<Rightarrow> None
                     | Some left \<Rightarrow>
                         (case render_at L (Suc q) (xs ! 1) of
                            None \<Rightarrow> None
                          | Some right \<Rightarrow> Some (paren_if (q < p) (left @ '' '' @ symbol @ '' '' @ right))))
                | None \<Rightarrow>
                    (if op = ''not'' then (if xs = [] then None else call_text ''not'' [render_at L 0 (xs ! 0)])
                     else if op = ''neg'' then
                       (if xs = [] then None
                        else map_option (\<lambda>t. paren_if (UNARY_PRECEDENCE < p) (''-'' @ t)) (render_at L UNARY_PRECEDENCE (xs ! 0)))
                     else if op = ''selected'' then
                       (if length xs < 2 then None else call_text ''selected'' [render_at L 0 (xs ! 0), render_at L 0 (xs ! 1)])
                     else if op = ''if'' then call_text ''if'' (map (render_at L 0) xs)
                     else if op = ''call'' then
                       (let name = (case map_of kvs ''fn'' of None \<Rightarrow> [] | Some v \<Rightarrow> py_str L v)
                        in if name = ''null'' then None else call_text name (map (render_at L 0) xs))
                     else None)))
      | _ \<Rightarrow> None)"
| "render_at L p (JList xs) = None"
| "render_at L p JNull = None"
| "render_at L p (JBool b) = None"
| "render_at L p (JInt i) = None"
| "render_at L p (JFloat x) = None"
| "render_at L p (JStr s) = None"
  by pat_completeness auto
termination
  by (relation "measure (\<lambda>(L, p, v). depth v)")
    (simp_all del: depth.simps, (erule (1) depth_text_args | erule depth_text_nth, fastforce)+)

definition render_node :: "pylib \<Rightarrow> json \<Rightarrow> string option" where
  "render_node L node = render_at L 0 node"

subsection \<open>Tokens\<close>

datatype text_error = ExpressionError "string option" "int option" | TokenAssertion | OutOfFuel

datatype token_kind = KRef | KString | KNumber | KDot | KOp | KName

record token =
  tk_kind :: token_kind
  tk_text :: string
  tk_offset :: int

definition is_word :: "char \<Rightarrow> bool" where
  "is_word c \<longleftrightarrow> (let n = (of_char c :: nat) in (48 \<le> n \<and> n \<le> 57) \<or> (65 \<le> n \<and> n \<le> 90) \<or> n = 95 \<or> (97 \<le> n \<and> n \<le> 122) \<or>
     n \<in> {170, 178, 179, 181, 185, 186, 188, 189, 190} \<or> (192 \<le> n \<and> n \<noteq> 215 \<and> n \<noteq> 247))"

definition is_name_start :: "char \<Rightarrow> bool" where
  "is_name_start c \<longleftrightarrow> (let n = (of_char c :: nat) in (65 \<le> n \<and> n \<le> 90) \<or> n = 95 \<or> (97 \<le> n \<and> n \<le> 122))"

definition is_name_char :: "char \<Rightarrow> bool" where
  "is_name_char c \<longleftrightarrow> is_word c \<or> c = CHR ''.'' \<or> c = CHR ''-''"

text \<open>The number at the start of a text: \<open>\d+(\.\d+)?|\.\d+\<close>.\<close>

definition number_match :: "string \<Rightarrow> string option" where
  "number_match cs =
     (let ds = takeWhile is_digit cs; rest = dropWhile is_digit cs
      in if ds \<noteq> []
         then Some (case rest of
                c # rest' \<Rightarrow> if c = CHR ''.'' \<and> takeWhile is_digit rest' \<noteq> [] then ds @ ''.'' @ takeWhile is_digit rest' else ds
              | [] \<Rightarrow> ds)
         else case cs of
           c # rest' \<Rightarrow> if c = CHR ''.'' \<and> takeWhile is_digit rest' \<noteq> [] then Some (''.'' @ takeWhile is_digit rest') else None
         | [] \<Rightarrow> None)"

definition mk_token :: "token_kind \<Rightarrow> string \<Rightarrow> int \<Rightarrow> token" where
  "mk_token k t i = \<lparr>tk_kind = k, tk_text = t, tk_offset = i\<rparr>"

definition token_error :: "int \<Rightarrow> text_error" where "token_error i = ExpressionError None (Some i)"

text \<open>The token at the start of a text that begins with no space, and how many characters it takes.\<close>

definition next_token :: "int \<Rightarrow> string \<Rightarrow> text_error + token \<times> nat" where
  "next_token i cs =
     (let c = hd cs; rest = tl cs
      in if starts_with ''${'' cs then
           (let body = takeWhile (\<lambda>c. c \<noteq> CHR ''}'') (drop 2 cs)
            in if length body + 2 = length cs then Inl (token_error i)
               else Inr (mk_token KRef (strip body) i, length body + 3))
         else if c = CHR 0x27 \<or> c = CHR 0x22 then
           (let body = takeWhile (\<lambda>d. d \<noteq> c) rest
            in if length body = length rest then Inl (token_error i)
               else Inr (mk_token KString body i, length body + 2))
         else if py_isdigit [c] \<or> (c = CHR ''.'' \<and> rest \<noteq> [] \<and> py_isdigit [hd rest]) then
           (case number_match cs of
              None \<Rightarrow> Inl TokenAssertion
            | Some t \<Rightarrow> Inr (mk_token KNumber t i, length t))
         else if c = CHR ''.'' \<and> \<not> starts_with ''..'' cs then Inr (mk_token KDot ''.'' i, 1)
         else if take 2 cs \<in> {''!='', ''<='', ''>='', ''==''} then Inr (mk_token KOp (take 2 cs) i, 2)
         else if c \<in> set ''=<>+-*(),'' then Inr (mk_token KOp [c] i, 1)
         else if is_name_start c then
           (let t = takeWhile is_name_char cs in Inr (mk_token KName t i, length t))
         else Inl (token_error i))"

lemma number_match_length: "number_match cs = Some t \<Longrightarrow> 0 < length t"
  by (auto simp: number_match_def Let_def split: if_splits list.splits)

lemma next_token_length: "cs \<noteq> [] \<Longrightarrow> next_token i cs = Inr (t, n) \<Longrightarrow> 0 < n"
  by (cases cs) (auto simp: next_token_def Let_def is_name_char_def is_name_start_def is_word_def dest: number_match_length
      split: if_splits option.splits)

function tokenize :: "int \<Rightarrow> string \<Rightarrow> text_error + token list" where
  "tokenize i cs =
     (if cs = [] then Inr []
      else if is_space (hd cs) then tokenize (i + 1) (tl cs)
      else case next_token i cs of
        Inl e \<Rightarrow> Inl e
      | Inr (t, n) \<Rightarrow> rbind (tokenize (i + int n) (drop n cs)) (\<lambda>ts. Inr (t # ts)))"
  by pat_completeness auto
termination
  by (relation "measure (\<lambda>(i, cs). length cs)") (auto intro!: diff_less dest: next_token_length)

declare tokenize.simps [simp del]

subsection \<open>Parsing\<close>

definition XPATH_FUNCTIONS :: "(string \<times> string) list" where
  "XPATH_FUNCTIONS = [(''count'', ''count''), (''sum'', ''sum''), (''min'', ''min''), (''max'', ''max''), (''count-selected'', ''count_selected''),
     (''coalesce'', ''coalesce''), (''today'', ''today''), (''now'', ''now''), (''string-length'', ''len''), (''upper-case'', ''upper''),
     (''lower-case'', ''lower''), (''normalize-space'', ''trim''), (''concat'', ''concat''), (''substr'', ''substr''),
     (''contains'', ''contains''), (''starts-with'', ''starts_with''), (''ends-with'', ''ends_with''), (''regex'', ''regex''),
     (''round'', ''round''), (''int'', ''int''), (''number'', ''dec''), (''string'', ''str''), (''distance'', ''distance''),
     (''pulldata'', ''pulldata''), (''sqrt'', ''sqrt''), (''sin'', ''sin''), (''cos'', ''cos''), (''tan'', ''tan''), (''atan'', ''atan'')]"

definition COMPARISONS :: "(string \<times> string) list" where
  "COMPARISONS = [(''='', ''eq''), (''=='', ''eq''), (''!='', ''ne''), (''<'', ''lt''), (''<='', ''lte''), (''>'', ''gt''), (''>='', ''gte'')]"

record parser =
  ps_self :: "string option"
  ps_row :: bool
  ps_end :: int
  ps_ir :: bool

definition lower_char :: "char \<Rightarrow> char" where
  "lower_char c = (let n = (of_char c :: nat) in
     if (65 \<le> n \<and> n \<le> 90) \<or> (192 \<le> n \<and> n \<le> 222 \<and> n \<noteq> 215) then char_of (n + 32) else c)"

definition lower_text :: "string \<Rightarrow> string" where "lower_text s = map lower_char s"

definition function_target :: "parser \<Rightarrow> string \<Rightarrow> string option" where
  "function_target P name = (if ps_ir P \<and> name \<in> set (map fst fn_arity) then Some name else map_of XPATH_FUNCTIONS name)"

definition at_token :: "token_kind \<Rightarrow> string \<Rightarrow> token list \<Rightarrow> bool" where
  "at_token k t ts = (case ts of [] \<Rightarrow> False | x # xs \<Rightarrow> tk_kind x = k \<and> lower_text (tk_text x) = t)"

definition stuck :: "parser \<Rightarrow> token list \<Rightarrow> text_error" where
  "stuck P ts = ExpressionError None (Some (case ts of [] \<Rightarrow> ps_end P | x # xs \<Rightarrow> tk_offset x))"

definition expect_op :: "parser \<Rightarrow> string \<Rightarrow> token list \<Rightarrow> text_error + token list" where
  "expect_op P t ts = (if at_token KOp t ts then Inr (tl ts) else Inl (stuck P ts))"

text \<open>The operator of \<open>parse_additive\<close> at the head of the tokens.\<close>

definition additive_op :: "parser \<Rightarrow> token list \<Rightarrow> string option" where
  "additive_op P ts = (case ts of [] \<Rightarrow> None
   | x # xs \<Rightarrow>
       (if tk_kind x = KOp \<and> tk_text x = ''+'' then Some ''add''
        else if tk_kind x = KOp \<and> tk_text x = ''-'' then Some ''sub''
        else if tk_kind x = KName \<and> lower_text (tk_text x) \<in> set (if ps_ir P then [''div'', ''mod'', ''idiv''] else [''div'', ''mod''])
        then Some (lower_text (tk_text x)) else None))"

definition comparison_op :: "token list \<Rightarrow> string option" where
  "comparison_op ts = (case ts of [] \<Rightarrow> None | x # xs \<Rightarrow> if tk_kind x = KOp then map_of COMPARISONS (tk_text x) else None)"

definition number_value :: "string \<Rightarrow> json" where
  "number_value t = (if contains ''.'' t then (case py_float_of_str t of None \<Rightarrow> JNull | Some x \<Rightarrow> JFloat x) else JInt (int_of_digits 0 t))"

text \<open>What \<open>parse_call\<close> makes of a name and its arguments.\<close>

definition call_node :: "parser \<Rightarrow> string \<Rightarrow> int \<Rightarrow> json list \<Rightarrow> text_error + json" where
  "call_node P name i args =
     (let lowered = lower_text name
      in if lowered = ''not'' then (if length args \<noteq> 1 then Inl (token_error i) else Inr (e_op ''not'' args))
         else if lowered = ''selected'' then (if length args \<noteq> 2 then Inl (token_error i) else Inr (e_op ''selected'' args))
         else if lowered = ''if'' then (if length args \<noteq> 3 then Inl (token_error i) else Inr (e_op ''if'' args))
         else if lowered = ''null'' \<and> ps_ir P then (if args \<noteq> [] then Inl (token_error i) else Inr (e_lit JNull))
         else case function_target P lowered of
           None \<Rightarrow> Inl (ExpressionError (Some lowered) (Some i))
         | Some target \<Rightarrow> Inr (e_call target args))"

text \<open>The methods of \<open>_Parser\<close>, each with the others as \<open>self\<close>. A loop is a goal of its own, with the node it has so far
  where the code has one; \<open>run\<close> ties the knot.\<close>

datatype goal = GOr | GOrMore | GAnd | GAndMore | GComparison | GAdditive | GAdditiveMore json
  | GMultiplicative | GMultiplicativeMore json | GUnary | GPrimary | GArgs | GArgsMore

type_synonym methods = "goal \<Rightarrow> token list \<Rightarrow> text_error + json list \<times> token list"

definition parse_or :: "methods \<Rightarrow> token list \<Rightarrow> text_error + json list \<times> token list" where
  "parse_or self ts = rbind (self GAnd ts) (\<lambda>(a, ts). rbind (self GOrMore ts) (\<lambda>(as, ts).
     Inr (if as = [] then a else [e_op ''or'' (a @ as)], ts)))"

definition or_more :: "methods \<Rightarrow> token list \<Rightarrow> text_error + json list \<times> token list" where
  "or_more self ts = (if at_token KName ''or'' ts
     then rbind (self GAnd (tl ts)) (\<lambda>(a, ts). rbind (self GOrMore ts) (\<lambda>(as, ts). Inr (a @ as, ts)))
     else Inr ([], ts))"

definition parse_and :: "methods \<Rightarrow> token list \<Rightarrow> text_error + json list \<times> token list" where
  "parse_and self ts = rbind (self GComparison ts) (\<lambda>(a, ts). rbind (self GAndMore ts) (\<lambda>(as, ts).
     Inr (if as = [] then a else [e_op ''and'' (a @ as)], ts)))"

definition and_more :: "methods \<Rightarrow> token list \<Rightarrow> text_error + json list \<times> token list" where
  "and_more self ts = (if at_token KName ''and'' ts
     then rbind (self GComparison (tl ts)) (\<lambda>(a, ts). rbind (self GAndMore ts) (\<lambda>(as, ts). Inr (a @ as, ts)))
     else Inr ([], ts))"

definition parse_comparison :: "methods \<Rightarrow> token list \<Rightarrow> text_error + json list \<times> token list" where
  "parse_comparison self ts = rbind (self GAdditive ts) (\<lambda>(a, ts). case comparison_op ts of
     None \<Rightarrow> Inr (a, ts)
   | Some op \<Rightarrow> rbind (self GAdditive (tl ts)) (\<lambda>(b, ts). Inr ([e_op op (a @ b)], ts)))"

definition parse_additive :: "methods \<Rightarrow> token list \<Rightarrow> text_error + json list \<times> token list" where
  "parse_additive self ts = rbind (self GMultiplicative ts) (\<lambda>(a, ts). self (GAdditiveMore (hd a)) ts)"

definition additive_more :: "methods \<Rightarrow> parser \<Rightarrow> json \<Rightarrow> token list \<Rightarrow> text_error + json list \<times> token list" where
  "additive_more self P a ts = (case additive_op P ts of
     None \<Rightarrow> Inr ([a], ts)
   | Some op \<Rightarrow> rbind (self GMultiplicative (tl ts)) (\<lambda>(b, ts). self (GAdditiveMore (e_op op (a # b))) ts))"

definition parse_multiplicative :: "methods \<Rightarrow> token list \<Rightarrow> text_error + json list \<times> token list" where
  "parse_multiplicative self ts = rbind (self GUnary ts) (\<lambda>(a, ts). self (GMultiplicativeMore (hd a)) ts)"

definition multiplicative_more :: "methods \<Rightarrow> json \<Rightarrow> token list \<Rightarrow> text_error + json list \<times> token list" where
  "multiplicative_more self a ts = (if at_token KOp ''*'' ts
     then rbind (self GUnary (tl ts)) (\<lambda>(b, ts). self (GMultiplicativeMore (e_op ''mul'' (a # b))) ts)
     else Inr ([a], ts))"

definition parse_unary :: "methods \<Rightarrow> token list \<Rightarrow> text_error + json list \<times> token list" where
  "parse_unary self ts = (if at_token KOp ''-'' ts
     then rbind (self GUnary (tl ts)) (\<lambda>(a, ts). Inr ([e_op ''neg'' a], ts))
     else self GPrimary ts)"

definition parse_name :: "methods \<Rightarrow> parser \<Rightarrow> token \<Rightarrow> token list \<Rightarrow> text_error + json list \<times> token list" where
  "parse_name self P t ts =
     (let lowered = lower_text (tk_text t)
      in if (lowered = ''true'' \<or> lowered = ''false'') \<and> ts \<noteq> [] \<and> tk_text (hd ts) = ''(''
         then rbind (expect_op P '')'' (tl ts)) (\<lambda>ts. Inr ([e_lit (JBool (lowered = ''true''))], ts))
         else if ts \<noteq> [] \<and> tk_kind (hd ts) = KOp \<and> tk_text (hd ts) = ''(''
         then rbind (self GArgs (tl ts)) (\<lambda>(args, ts).
              rbind (expect_op P '')'' ts) (\<lambda>ts.
              rbind (call_node P (tk_text t) (tk_offset t) args) (\<lambda>node. Inr ([node], ts))))
         else if ps_row P then Inr ([e_ref (ROW_PREFIX @ tk_text t)], ts)
         else Inl (token_error (tk_offset t)))"

definition parse_primary :: "methods \<Rightarrow> parser \<Rightarrow> token list \<Rightarrow> text_error + json list \<times> token list" where
  "parse_primary self P ts = (case ts of
     [] \<Rightarrow> Inl (stuck P [])
   | t # ts \<Rightarrow>
       (case tk_kind t of
          KNumber \<Rightarrow> Inr ([e_lit (number_value (tk_text t))], ts)
        | KString \<Rightarrow> Inr ([e_lit (JStr (tk_text t))], ts)
        | KRef \<Rightarrow> Inr ([e_ref (tk_text t)], ts)
        | KDot \<Rightarrow> (case ps_self P of None \<Rightarrow> Inl (token_error (tk_offset t)) | Some path \<Rightarrow> Inr ([e_ref path], ts))
        | KOp \<Rightarrow> (if tk_text t = ''(''
            then rbind (self GOr ts) (\<lambda>(a, ts). rbind (expect_op P '')'' ts) (\<lambda>ts. Inr (a, ts)))
            else Inl (token_error (tk_offset t)))
        | KName \<Rightarrow> parse_name self P t ts))"

definition parse_args :: "methods \<Rightarrow> token list \<Rightarrow> text_error + json list \<times> token list" where
  "parse_args self ts = (if ts \<noteq> [] \<and> tk_kind (hd ts) = KOp \<and> tk_text (hd ts) = '')'' then Inr ([], ts)
     else rbind (self GOr ts) (\<lambda>(a, ts). rbind (self GArgsMore ts) (\<lambda>(as, ts). Inr (a @ as, ts))))"

definition args_more :: "methods \<Rightarrow> token list \<Rightarrow> text_error + json list \<times> token list" where
  "args_more self ts = (if at_token KOp '','' ts
     then rbind (self GOr (tl ts)) (\<lambda>(a, ts). rbind (self GArgsMore ts) (\<lambda>(as, ts). Inr (a @ as, ts)))
     else Inr ([], ts))"

definition dispatch :: "methods \<Rightarrow> parser \<Rightarrow> methods" where
  "dispatch self P g ts = (case g of
     GOr \<Rightarrow> parse_or self ts
   | GOrMore \<Rightarrow> or_more self ts
   | GAnd \<Rightarrow> parse_and self ts
   | GAndMore \<Rightarrow> and_more self ts
   | GComparison \<Rightarrow> parse_comparison self ts
   | GAdditive \<Rightarrow> parse_additive self ts
   | GAdditiveMore a \<Rightarrow> additive_more self P a ts
   | GMultiplicative \<Rightarrow> parse_multiplicative self ts
   | GMultiplicativeMore a \<Rightarrow> multiplicative_more self a ts
   | GUnary \<Rightarrow> parse_unary self ts
   | GPrimary \<Rightarrow> parse_primary self P ts
   | GArgs \<Rightarrow> parse_args self ts
   | GArgsMore \<Rightarrow> args_more self ts)"

declare dispatch_def [simp]

primrec run :: "nat \<Rightarrow> parser \<Rightarrow> methods" where
  "run 0 P = (\<lambda>g ts. Inl OutOfFuel)"
| "run (Suc n) P = dispatch (run n P) P"

definition parse_tokens :: "parser \<Rightarrow> token list \<Rightarrow> text_error + json" where
  "parse_tokens P ts = rbind (run (9 * length ts + 9) P GOr ts) (\<lambda>(a, ts). if ts = [] then Inr (hd a) else Inl (stuck P ts))"

definition shift_error :: "int \<Rightarrow> text_error \<Rightarrow> text_error" where
  "shift_error lead e = (case e of ExpressionError f (Some i) \<Rightarrow> ExpressionError f (Some (i + lead)) | _ \<Rightarrow> e)"

definition translate :: "string option \<Rightarrow> bool \<Rightarrow> bool \<Rightarrow> string \<Rightarrow> text_error + json" where
  "translate self_path row_scope ir_functions source =
     (let t = strip source; lead = int (length (takeWhile is_space source));
          P = \<lparr>ps_self = self_path, ps_row = row_scope, ps_end = int (length t), ps_ir = ir_functions\<rparr>
      in if t = [] then Inl (ExpressionError None None)
         else case rbind (tokenize 0 t) (parse_tokens P) of Inl e \<Rightarrow> Inl (shift_error lead e) | Inr node \<Rightarrow> Inr node)"

definition parse_text :: "string option \<Rightarrow> bool \<Rightarrow> string \<Rightarrow> text_error + json" where
  "parse_text self_path row_scope source = translate self_path row_scope True source"

end
