(* ===== verification/Expression_Text_Laws.thy ===== *)
theory Expression_Text_Laws
  imports Expression_Text
begin

text \<open>
  What is printed reads back as the node it was printed from: first the calculus of what the parser yields once it has
  enough fuel, then the tokens of a printed text, then the two together over the expressions that have a surface form.
  And the fuel: the parser never runs out of what \<open>parse_tokens\<close> gives it.
\<close>

subsection \<open>What the parser yields\<close>

abbreviation yields :: "(nat \<Rightarrow> text_error + 'a) \<Rightarrow> 'a \<Rightarrow> bool" where
  "yields f r \<equiv> eventually (\<lambda>n. f n = Inr r) sequentially"

lemma yields_Suc: "yields (\<lambda>n. f (Suc n)) r \<Longrightarrow> yields f r"
  using eventually_sequentially_Suc [of "\<lambda>n. f n = Inr r"] by simp

lemmas run_defs = parse_or_def or_more_def parse_and_def and_more_def parse_comparison_def parse_additive_def additive_more_def
  parse_multiplicative_def multiplicative_more_def parse_unary_def parse_primary_def parse_name_def parse_args_def args_more_def

lemma yields_or:
  assumes "yields (\<lambda>n. run n P GAnd ts) ([a], ts1)" "yields (\<lambda>n. run n P GOrMore ts1) (as, ts2)"
  shows "yields (\<lambda>n. run n P GOr ts) ([if as = [] then a else e_op ''or'' (a # as)], ts2)"
  by (rule yields_Suc) (use assms in eventually_elim, simp add: run_defs)

lemma yields_or_more:
  assumes "at_token KName ''or'' ts" "yields (\<lambda>n. run n P GAnd (tl ts)) ([a], ts1)" "yields (\<lambda>n. run n P GOrMore ts1) (as, ts2)"
  shows "yields (\<lambda>n. run n P GOrMore ts) (a # as, ts2)"
  by (rule yields_Suc) (use assms(2,3) in eventually_elim, simp add: run_defs assms(1))

lemma yields_and:
  assumes "yields (\<lambda>n. run n P GComparison ts) ([a], ts1)" "yields (\<lambda>n. run n P GAndMore ts1) (as, ts2)"
  shows "yields (\<lambda>n. run n P GAnd ts) ([if as = [] then a else e_op ''and'' (a # as)], ts2)"
  by (rule yields_Suc) (use assms in eventually_elim, simp add: run_defs)

lemma yields_and_more:
  assumes "at_token KName ''and'' ts" "yields (\<lambda>n. run n P GComparison (tl ts)) ([a], ts1)" "yields (\<lambda>n. run n P GAndMore ts1) (as, ts2)"
  shows "yields (\<lambda>n. run n P GAndMore ts) (a # as, ts2)"
  by (rule yields_Suc) (use assms(2,3) in eventually_elim, simp add: run_defs assms(1))

lemma yields_stop:
  shows "\<not> at_token KName ''or'' ts \<Longrightarrow> yields (\<lambda>n. run n P GOrMore ts) ([], ts)"
    and "\<not> at_token KName ''and'' ts \<Longrightarrow> yields (\<lambda>n. run n P GAndMore ts) ([], ts)"
    and "additive_op P ts = None \<Longrightarrow> yields (\<lambda>n. run n P (GAdditiveMore a) ts) ([a], ts)"
    and "\<not> at_token KOp ''*'' ts \<Longrightarrow> yields (\<lambda>n. run n P (GMultiplicativeMore a) ts) ([a], ts)"
    and "\<not> at_token KOp '','' ts \<Longrightarrow> yields (\<lambda>n. run n P GArgsMore ts) ([], ts)"
  by (rule yields_Suc, simp add: run_defs)+

lemma yields_comparison:
  assumes "yields (\<lambda>n. run n P GAdditive ts) ([a], ts1)" "comparison_op ts1 = Some op" "yields (\<lambda>n. run n P GAdditive (tl ts1)) ([b], ts2)"
  shows "yields (\<lambda>n. run n P GComparison ts) ([e_op op [a, b]], ts2)"
  by (rule yields_Suc) (use assms(1,3) in eventually_elim, simp add: run_defs assms(2))

lemma yields_no_comparison:
  assumes "yields (\<lambda>n. run n P GAdditive ts) ([a], ts1)" "comparison_op ts1 = None"
  shows "yields (\<lambda>n. run n P GComparison ts) ([a], ts1)"
  by (rule yields_Suc) (use assms(1) in eventually_elim, simp add: run_defs assms(2))

lemma yields_additive:
  assumes "yields (\<lambda>n. run n P GMultiplicative ts) ([a], ts1)" "yields (\<lambda>n. run n P (GAdditiveMore a) ts1) r"
  shows "yields (\<lambda>n. run n P GAdditive ts) r"
  by (rule yields_Suc) (use assms in eventually_elim, simp add: run_defs)

lemma yields_additive_more:
  assumes "additive_op P ts = Some op" "yields (\<lambda>n. run n P GMultiplicative (tl ts)) ([b], ts1)"
    and "yields (\<lambda>n. run n P (GAdditiveMore (e_op op [a, b])) ts1) r"
  shows "yields (\<lambda>n. run n P (GAdditiveMore a) ts) r"
  by (rule yields_Suc) (use assms(2,3) in eventually_elim, simp add: run_defs assms(1))

lemma yields_multiplicative:
  assumes "yields (\<lambda>n. run n P GUnary ts) ([a], ts1)" "yields (\<lambda>n. run n P (GMultiplicativeMore a) ts1) r"
  shows "yields (\<lambda>n. run n P GMultiplicative ts) r"
  by (rule yields_Suc) (use assms in eventually_elim, simp add: run_defs)

lemma yields_multiplicative_more:
  assumes "at_token KOp ''*'' ts" "yields (\<lambda>n. run n P GUnary (tl ts)) ([b], ts1)"
    and "yields (\<lambda>n. run n P (GMultiplicativeMore (e_op ''mul'' [a, b])) ts1) r"
  shows "yields (\<lambda>n. run n P (GMultiplicativeMore a) ts) r"
  by (rule yields_Suc) (use assms(2,3) in eventually_elim, simp add: run_defs assms(1))

lemma yields_neg:
  assumes "at_token KOp ''-'' ts" "yields (\<lambda>n. run n P GUnary (tl ts)) ([a], ts1)"
  shows "yields (\<lambda>n. run n P GUnary ts) ([e_op ''neg'' [a]], ts1)"
  by (rule yields_Suc) (use assms(2) in eventually_elim, simp add: run_defs assms(1))

lemma yields_unary:
  assumes "\<not> at_token KOp ''-'' ts" "yields (\<lambda>n. run n P GPrimary ts) r"
  shows "yields (\<lambda>n. run n P GUnary ts) r"
  by (rule yields_Suc) (use assms(2) in eventually_elim, simp add: parse_unary_def assms(1))

lemma yields_paren:
  assumes "tk_kind t = KOp" "tk_text t = ''(''" "yields (\<lambda>n. run n P GOr ts) ([a], ts1)" "expect_op P '')'' ts1 = Inr ts2"
  shows "yields (\<lambda>n. run n P GPrimary (t # ts)) ([a], ts2)"
  by (rule yields_Suc) (use assms(3) in eventually_elim, simp add: run_defs assms(1,2,4))

lemma yields_call:
  assumes "tk_kind t = KName" "lower_text (tk_text t) \<notin> {''true'', ''false''}" "tk_kind l = KOp" "tk_text l = ''(''"
    and "yields (\<lambda>n. run n P GArgs ts) (args, ts1)" "expect_op P '')'' ts1 = Inr ts2" "call_node P (tk_text t) (tk_offset t) args = Inr node"
  shows "yields (\<lambda>n. run n P GPrimary (t # l # ts)) ([node], ts2)"
  by (rule yields_Suc) (use assms(5) in eventually_elim, use assms(1-4,6,7) in \<open>simp add: run_defs Let_def\<close>)

lemma yields_no_args:
  assumes "tk_kind l = KOp" "tk_text l = '')''"
  shows "yields (\<lambda>n. run n P GArgs (l # ts)) ([], l # ts)"
  by (rule yields_Suc) (use assms in \<open>simp add: run_defs\<close>)

lemma yields_args:
  assumes "\<not> (ts \<noteq> [] \<and> tk_kind (hd ts) = KOp \<and> tk_text (hd ts) = '')'')" "yields (\<lambda>n. run n P GOr ts) ([a], ts1)"
    and "yields (\<lambda>n. run n P GArgsMore ts1) (as, ts2)"
  shows "yields (\<lambda>n. run n P GArgs ts) (a # as, ts2)"
  by (rule yields_Suc) (use assms(2,3) in eventually_elim, use assms(1) in \<open>auto simp: run_defs\<close>)

lemma yields_args_more:
  assumes "at_token KOp '','' ts" "yields (\<lambda>n. run n P GOr (tl ts)) ([a], ts1)" "yields (\<lambda>n. run n P GArgsMore ts1) (as, ts2)"
  shows "yields (\<lambda>n. run n P GArgsMore ts) (a # as, ts2)"
  by (rule yields_Suc) (use assms(2,3) in eventually_elim, simp add: run_defs assms(1))

lemma yields_atom:
  shows "tk_kind t = KNumber \<Longrightarrow> yields (\<lambda>n. run n P GPrimary (t # ts)) ([e_lit (number_value (tk_text t))], ts)"
    and "tk_kind t = KString \<Longrightarrow> yields (\<lambda>n. run n P GPrimary (t # ts)) ([e_lit (JStr (tk_text t))], ts)"
    and "tk_kind t = KRef \<Longrightarrow> yields (\<lambda>n. run n P GPrimary (t # ts)) ([e_ref (tk_text t)], ts)"
  by (rule yields_Suc, simp add: parse_primary_def)+

lemma yields_bool:
  assumes "tk_kind t = KName" "tk_text t = (if b then ''true'' else ''false'')" "tk_text l = ''(''" "expect_op P '')'' ts = Inr ts1"
  shows "yields (\<lambda>n. run n P GPrimary (t # l # ts)) ([e_lit (JBool b)], ts1)"
proof -
  have "lower_text ''true'' = ''true''" "lower_text ''false'' = ''false''" by code_simp+
  then show ?thesis by - (rule yields_Suc, use assms in \<open>auto simp: parse_primary_def parse_name_def Let_def\<close>)
qed

lemma yields_row:
  assumes "tk_kind t = KName" "ps_row P" "\<not> (ts \<noteq> [] \<and> tk_text (hd ts) = ''('')"
  shows "yields (\<lambda>n. run n P GPrimary (t # ts)) ([e_ref (ROW_PREFIX @ tk_text t)], ts)"
  by (rule yields_Suc) (use assms in \<open>auto simp: parse_primary_def parse_name_def Let_def\<close>)

subsection \<open>Levels\<close>

text \<open>How tightly a token binds what stands before it: closers and commas not at all, other tokens cannot follow.\<close>

definition binds :: "token \<Rightarrow> nat" where
  "binds t = (let x = lower_text (tk_text t) in case tk_kind t of
     KOp \<Rightarrow> if x \<in> {'')'', '',''} then 0 else if x \<in> set (map fst COMPARISONS) then 3 else if x \<in> {''+'', ''-''} then 4
             else if x = ''*'' then 5 else 9
   | KName \<Rightarrow> if x = ''or'' then 1 else if x = ''and'' then 2 else if x \<in> {''div'', ''mod'', ''idiv''} then 4 else 9
   | _ \<Rightarrow> 9)"

definition stops :: "nat \<Rightarrow> token list \<Rightarrow> bool" where
  "stops p ts \<longleftrightarrow> ts = [] \<or> binds (hd ts) < p"

lemma stops_mono: "stops p ts \<Longrightarrow> p \<le> q \<Longrightarrow> stops q ts"
  by (auto simp: stops_def)

lemma lower_char_code: "lower_char c = c \<or> 97 \<le> (of_char (lower_char c) :: nat)"
proof -
  have "of_char (char_of (of_char c + 32 :: nat)) = (of_char c + 32 :: nat) mod 256" by simp
  then show ?thesis by (auto simp: lower_char_def Let_def simp del: of_char_of)
qed

lemma lower_op: "(of_char x :: nat) < 97 \<Longrightarrow> lower_text t = [x] \<Longrightarrow> t = [x]"
  using lower_char_code by (auto simp: lower_text_def) (metis not_le)

definition kts_of :: "token list \<Rightarrow> (token_kind \<times> string) list" where
  "kts_of ts = map (\<lambda>t. (tk_kind t, tk_text t)) ts"

lemma stops_facts:
  assumes "stops p ts"
  shows "p \<le> 1 \<Longrightarrow> \<not> at_token KName ''or'' ts" "p \<le> 2 \<Longrightarrow> \<not> at_token KName ''and'' ts"
    "p \<le> 3 \<Longrightarrow> comparison_op ts = None" "p \<le> 4 \<Longrightarrow> additive_op P ts = None" "p \<le> 5 \<Longrightarrow> \<not> at_token KOp ''*'' ts"
    "p \<le> 9 \<Longrightarrow> \<not> (ts \<noteq> [] \<and> tk_kind (hd ts) = KOp \<and> tk_text (hd ts) = ''('')" "p \<le> 9 \<Longrightarrow> \<not> (ts \<noteq> [] \<and> tk_text (hd ts) = ''('')"
proof -
  show "p \<le> 1 \<Longrightarrow> \<not> at_token KName ''or'' ts" "p \<le> 2 \<Longrightarrow> \<not> at_token KName ''and'' ts" "p \<le> 5 \<Longrightarrow> \<not> at_token KOp ''*'' ts"
    using assms by (auto simp: stops_def at_token_def binds_def COMPARISONS_def split: list.splits)
  show "p \<le> 3 \<Longrightarrow> comparison_op ts = None"
    using assms by (cases ts) (auto simp: stops_def comparison_op_def binds_def COMPARISONS_def lower_text_def lower_char_def split: if_splits)
  show "p \<le> 4 \<Longrightarrow> additive_op P ts = None"
    using assms by (cases ts) (auto simp: stops_def additive_op_def binds_def COMPARISONS_def lower_text_def lower_char_def split: if_splits)
  show "p \<le> 9 \<Longrightarrow> \<not> (ts \<noteq> [] \<and> tk_text (hd ts) = ''('')"
    using assms by (cases ts) (auto simp: stops_def binds_def Let_def COMPARISONS_def lower_text_def lower_char_def split: if_splits token_kind.splits)
  then show "p \<le> 9 \<Longrightarrow> \<not> (ts \<noteq> [] \<and> tk_kind (hd ts) = KOp \<and> tk_text (hd ts) = ''('')" by blast
qed

text \<open>The tokens \<open>kts\<close> are read as \<open>node\<close> by the parser of level \<open>p\<close>, whatever follows that does not bind tighter. At the
  two levels that associate to the left, what follows may go on with the node just read.\<close>

definition reads :: "parser \<Rightarrow> nat \<Rightarrow> (token_kind \<times> string) list \<Rightarrow> json \<Rightarrow> bool" where
  "reads P p kts node \<longleftrightarrow> kts \<noteq> [] \<and> hd kts \<noteq> (KOp, '')'') \<and> (\<forall>ts rest. kts_of ts = kts \<longrightarrow>
     (if 7 \<le> p then hd kts \<noteq> (KOp, ''-'') \<and> (stops 9 rest \<longrightarrow> yields (\<lambda>n. run n P GPrimary (ts @ rest)) ([node], rest))
      else if p = 6 then stops 9 rest \<longrightarrow> yields (\<lambda>n. run n P GUnary (ts @ rest)) ([node], rest)
      else if p = 5 then stops 6 rest \<longrightarrow> (\<forall>r. yields (\<lambda>n. run n P (GMultiplicativeMore node) rest) r \<longrightarrow>
             yields (\<lambda>n. run n P GMultiplicative (ts @ rest)) r)
      else if p = 4 then stops 5 rest \<longrightarrow> (\<forall>r. yields (\<lambda>n. run n P (GAdditiveMore node) rest) r \<longrightarrow>
             yields (\<lambda>n. run n P GAdditive (ts @ rest)) r)
      else if p = 3 then stops 3 rest \<longrightarrow> yields (\<lambda>n. run n P GComparison (ts @ rest)) ([node], rest)
      else if p = 2 then stops 2 rest \<longrightarrow> yields (\<lambda>n. run n P GAnd (ts @ rest)) ([node], rest)
      else stops 1 rest \<longrightarrow> yields (\<lambda>n. run n P GOr (ts @ rest)) ([node], rest)))"

lemma readsD:
  assumes "reads P p kts node"
  shows "kts \<noteq> []" "hd kts \<noteq> (KOp, '')'')"
    and "kts_of ts = kts \<Longrightarrow> 7 \<le> p \<Longrightarrow> hd kts \<noteq> (KOp, ''-'')"
    and "kts_of ts = kts \<Longrightarrow> 7 \<le> p \<Longrightarrow> stops 9 rest \<Longrightarrow> yields (\<lambda>n. run n P GPrimary (ts @ rest)) ([node], rest)"
    and "kts_of ts = kts \<Longrightarrow> p = 6 \<Longrightarrow> stops 9 rest \<Longrightarrow> yields (\<lambda>n. run n P GUnary (ts @ rest)) ([node], rest)"
    and "kts_of ts = kts \<Longrightarrow> p = 5 \<Longrightarrow> stops 6 rest \<Longrightarrow> yields (\<lambda>n. run n P (GMultiplicativeMore node) rest) r \<Longrightarrow>
      yields (\<lambda>n. run n P GMultiplicative (ts @ rest)) r"
    and "kts_of ts = kts \<Longrightarrow> p = 4 \<Longrightarrow> stops 5 rest \<Longrightarrow> yields (\<lambda>n. run n P (GAdditiveMore node) rest) r \<Longrightarrow>
      yields (\<lambda>n. run n P GAdditive (ts @ rest)) r"
    and "kts_of ts = kts \<Longrightarrow> p = 3 \<Longrightarrow> stops 3 rest \<Longrightarrow> yields (\<lambda>n. run n P GComparison (ts @ rest)) ([node], rest)"
    and "kts_of ts = kts \<Longrightarrow> p = 2 \<Longrightarrow> stops 2 rest \<Longrightarrow> yields (\<lambda>n. run n P GAnd (ts @ rest)) ([node], rest)"
    and "kts_of ts = kts \<Longrightarrow> p \<le> 1 \<Longrightarrow> stops 1 rest \<Longrightarrow> yields (\<lambda>n. run n P GOr (ts @ rest)) ([node], rest)"
proof -
  have A: "if 7 \<le> p then hd kts \<noteq> (KOp, ''-'') \<and> (stops 9 rest \<longrightarrow> yields (\<lambda>n. run n P GPrimary (ts @ rest)) ([node], rest))
      else if p = 6 then stops 9 rest \<longrightarrow> yields (\<lambda>n. run n P GUnary (ts @ rest)) ([node], rest)
      else if p = 5 then stops 6 rest \<longrightarrow> (\<forall>r. yields (\<lambda>n. run n P (GMultiplicativeMore node) rest) r \<longrightarrow>
             yields (\<lambda>n. run n P GMultiplicative (ts @ rest)) r)
      else if p = 4 then stops 5 rest \<longrightarrow> (\<forall>r. yields (\<lambda>n. run n P (GAdditiveMore node) rest) r \<longrightarrow>
             yields (\<lambda>n. run n P GAdditive (ts @ rest)) r)
      else if p = 3 then stops 3 rest \<longrightarrow> yields (\<lambda>n. run n P GComparison (ts @ rest)) ([node], rest)
      else if p = 2 then stops 2 rest \<longrightarrow> yields (\<lambda>n. run n P GAnd (ts @ rest)) ([node], rest)
      else stops 1 rest \<longrightarrow> yields (\<lambda>n. run n P GOr (ts @ rest)) ([node], rest)" if "kts_of ts = kts" for ts rest
    using assms that unfolding reads_def by blast
  show "kts \<noteq> []" "hd kts \<noteq> (KOp, '')'')" using assms unfolding reads_def by blast+
  show "kts_of ts = kts \<Longrightarrow> 7 \<le> p \<Longrightarrow> hd kts \<noteq> (KOp, ''-'')"
    "kts_of ts = kts \<Longrightarrow> 7 \<le> p \<Longrightarrow> stops 9 rest \<Longrightarrow> yields (\<lambda>n. run n P GPrimary (ts @ rest)) ([node], rest)"
    "kts_of ts = kts \<Longrightarrow> p = 6 \<Longrightarrow> stops 9 rest \<Longrightarrow> yields (\<lambda>n. run n P GUnary (ts @ rest)) ([node], rest)"
    "kts_of ts = kts \<Longrightarrow> p = 5 \<Longrightarrow> stops 6 rest \<Longrightarrow> yields (\<lambda>n. run n P (GMultiplicativeMore node) rest) r \<Longrightarrow>
      yields (\<lambda>n. run n P GMultiplicative (ts @ rest)) r"
    "kts_of ts = kts \<Longrightarrow> p = 4 \<Longrightarrow> stops 5 rest \<Longrightarrow> yields (\<lambda>n. run n P (GAdditiveMore node) rest) r \<Longrightarrow>
      yields (\<lambda>n. run n P GAdditive (ts @ rest)) r"
    "kts_of ts = kts \<Longrightarrow> p = 3 \<Longrightarrow> stops 3 rest \<Longrightarrow> yields (\<lambda>n. run n P GComparison (ts @ rest)) ([node], rest)"
    "kts_of ts = kts \<Longrightarrow> p = 2 \<Longrightarrow> stops 2 rest \<Longrightarrow> yields (\<lambda>n. run n P GAnd (ts @ rest)) ([node], rest)"
    "kts_of ts = kts \<Longrightarrow> p \<le> 1 \<Longrightarrow> stops 1 rest \<Longrightarrow> yields (\<lambda>n. run n P GOr (ts @ rest)) ([node], rest)"
    using A [of ts rest] by (simp_all del: split_paired_All)
qed

lemma kts_hd: "kts_of ts = kts \<Longrightarrow> kts \<noteq> [] \<Longrightarrow> ts \<noteq> [] \<and> hd kts = (tk_kind (hd ts), tk_text (hd ts)) \<and> hd (ts @ rest) = hd ts"
  by (cases ts) (auto simp: kts_of_def)

lemma at_token_append: "ts \<noteq> [] \<Longrightarrow> at_token k t (ts @ rest) \<longleftrightarrow> tk_kind (hd ts) = k \<and> lower_text (tk_text (hd ts)) = t"
  by (cases ts) (auto simp: at_token_def)

lemma reads_down:
  assumes r: "reads P (Suc p) kts node" and p: "p \<le> 6"
  shows "reads P p kts node"
proof -
  note D = readsD [OF r]
  have "(if p = 6 then stops 9 rest \<longrightarrow> yields (\<lambda>n. run n P GUnary (ts @ rest)) ([node], rest)
      else if p = 5 then stops 6 rest \<longrightarrow> (\<forall>r. yields (\<lambda>n. run n P (GMultiplicativeMore node) rest) r \<longrightarrow>
             yields (\<lambda>n. run n P GMultiplicative (ts @ rest)) r)
      else if p = 4 then stops 5 rest \<longrightarrow> (\<forall>r. yields (\<lambda>n. run n P (GAdditiveMore node) rest) r \<longrightarrow>
             yields (\<lambda>n. run n P GAdditive (ts @ rest)) r)
      else if p = 3 then stops 3 rest \<longrightarrow> yields (\<lambda>n. run n P GComparison (ts @ rest)) ([node], rest)
      else if p = 2 then stops 2 rest \<longrightarrow> yields (\<lambda>n. run n P GAnd (ts @ rest)) ([node], rest)
      else stops 1 rest \<longrightarrow> yields (\<lambda>n. run n P GOr (ts @ rest)) ([node], rest))" if ts: "kts_of ts = kts" for ts rest
  proof -
    consider "p = 6" | "p = 5" | "p = 4" | "p = 3" | "p = 2" | "p = 1" | "p = 0" using p by linarith
    then show ?thesis
    proof cases
      case 1
      have "\<not> at_token KOp ''-'' (ts @ rest)"
      proof
        assume "at_token KOp ''-'' (ts @ rest)"
        then have "tk_kind (hd ts) = KOp" "tk_text (hd ts) = ''-''"
          using kts_hd [OF ts D(1)] lower_op [of "CHR ''-''" "tk_text (hd ts)"] by (simp_all add: at_token_append)
        then show False using kts_hd [OF ts D(1)] D(3) [OF ts] 1 by simp
      qed
      then show ?thesis using 1 yields_unary D(4) [OF ts] by simp
    next
      case 2
      then show ?thesis using yields_multiplicative [OF D(5) [OF ts _ stops_mono [of 6 rest 9]]] by simp
    next
      case 3
      then show ?thesis
        using yields_additive [OF D(6) [OF ts _ stops_mono [of 5 rest 6] yields_stop(4) [OF stops_facts(5) [of 5]]]] by simp
    next
      case 4
      then show ?thesis
        using yields_no_comparison [OF D(7) [OF ts _ stops_mono [of 3 rest 5] yields_stop(3) [OF stops_facts(4) [of 3]]] stops_facts(3) [of 3]]
        by simp
    next
      case 5
      then show ?thesis
        using yields_and [OF D(8) [OF ts _ stops_mono [of 2 rest 3]] yields_stop(2) [OF stops_facts(2) [of 2]]] by simp
    next
      case 6
      then show ?thesis
        using yields_or [OF D(9) [OF ts _ stops_mono [of 1 rest 2]] yields_stop(1) [OF stops_facts(1) [of 1]]] by simp
    next
      case 7
      then show ?thesis using D(10) [OF ts] by simp
    qed
  qed
  then show ?thesis using D(1,2) p unfolding reads_def by (simp del: split_paired_All)
qed

lemma reads_mono: "reads P q kts node \<Longrightarrow> p \<le> q \<Longrightarrow> q \<le> 7 \<Longrightarrow> reads P p kts node"
proof (induction "q - p" arbitrary: p)
  case (Suc d)
  then have "reads P (Suc p) kts node" by simp
  then show ?case using reads_down [of P p kts node] Suc.hyps(2) Suc.prems by simp
qed simp

subsection \<open>Putting tokens together\<close>

lemma kts_Cons: "kts_of ts = x # k \<Longrightarrow> \<exists>t ts1. ts = t # ts1 \<and> tk_kind t = fst x \<and> tk_text t = snd x \<and> kts_of ts1 = k"
  by (cases ts) (auto simp: kts_of_def)

lemma kts_append: "kts_of ts = k1 @ k2 \<Longrightarrow> \<exists>ts1 ts2. ts = ts1 @ ts2 \<and> kts_of ts1 = k1 \<and> kts_of ts2 = k2"
  by (auto simp: kts_of_def map_eq_append_conv)

lemma kts_middle:
  assumes "kts_of ts = k1 @ x # k2"
  obtains ts1 t ts2 where "ts = ts1 @ t # ts2" "kts_of ts1 = k1" "tk_kind t = fst x" "tk_text t = snd x" "kts_of ts2 = k2"
  using kts_append [OF assms] kts_Cons by blast

lemma lower_closers: "lower_text ''('' = ''(''" "lower_text '')'' = '')''" "lower_text '','' = '',''" "lower_text ''-'' = ''-''"
    "lower_text ''+'' = ''+''" "lower_text ''*'' = ''*''" "lower_text ''or'' = ''or''" "lower_text ''and'' = ''and''"
    "lower_text ''div'' = ''div''" "lower_text ''mod'' = ''mod''" "lower_text ''idiv'' = ''idiv''"
  by code_simp+

lemma lower_comparison: "x \<in> set (map fst COMPARISONS) \<Longrightarrow> lower_text x = x"
  by (auto simp: COMPARISONS_def lower_text_def lower_char_def)

lemma binds_close: "tk_kind t = KOp \<Longrightarrow> tk_text t \<in> {'')'', '',''} \<Longrightarrow> binds t = 0"
  using lower_closers by (auto simp: binds_def Let_def)

lemma at_close: "tk_kind t = k \<Longrightarrow> tk_text t = x \<Longrightarrow> lower_text x = x \<Longrightarrow> at_token k x (t # ts)"
  by (simp add: at_token_def)

lemma not_at_closer: "tk_kind t = KOp \<Longrightarrow> tk_text t = '')'' \<Longrightarrow> \<not> at_token KOp '','' (t # ts)"
  using lower_closers by (simp add: at_token_def)

lemma expect_close: "tk_kind t = KOp \<Longrightarrow> tk_text t = '')'' \<Longrightarrow> expect_op P '')'' (t # ts) = Inr ts"
  using lower_closers by (simp add: expect_op_def at_token_def)

definition kjoin :: "token_kind \<times> string \<Rightarrow> (token_kind \<times> string) list list \<Rightarrow> (token_kind \<times> string) list" where
  "kjoin sep ks = (case ks of [] \<Rightarrow> [] | k # ks \<Rightarrow> k @ concat (map (\<lambda>k. sep # k) ks))"

lemma reads_primary:
  assumes "kts \<noteq> []" "hd kts \<notin> {(KOp, '')''), (KOp, ''-'')}"
    and "\<And>ts rest. kts_of ts = kts \<Longrightarrow> stops 9 rest \<Longrightarrow> yields (\<lambda>n. run n P GPrimary (ts @ rest)) ([node], rest)"
  shows "reads P 7 kts node"
  using assms unfolding reads_def by simp

lemma reads_paren:
  assumes "reads P 0 kts node"
  shows "reads P 7 ((KOp, ''('') # kts @ [(KOp, '')'')]) node"
proof (rule reads_primary)
  fix ts rest assume ts: "kts_of ts = (KOp, ''('') # kts @ [(KOp, '')'')]"
  then obtain t ts1 where t: "ts = t # ts1" "tk_kind t = KOp" "tk_text t = ''(''" "kts_of ts1 = kts @ [(KOp, '')'')]"
    using kts_Cons by fastforce
  obtain ts2 l ts3 where l: "ts1 = ts2 @ l # ts3" "kts_of ts2 = kts" "tk_kind l = KOp" "tk_text l = '')''" "kts_of ts3 = []"
    using kts_middle [OF t(4)] by (metis fst_conv snd_conv)
  have "ts3 = []" using l(5) by (simp add: kts_of_def)
  then have body: "ts @ rest = t # ts2 @ l # rest" using t(1) l(1) by simp
  have "yields (\<lambda>n. run n P GOr (ts2 @ l # rest)) ([node], l # rest)"
    using readsD(10) [OF assms l(2)] binds_close [OF l(3)] l(4) by (simp add: stops_def)
  then show "yields (\<lambda>n. run n P GPrimary (ts @ rest)) ([node], rest)"
    unfolding body by (rule yields_paren [OF t(2,3) _ expect_close [OF l(3,4)]])
qed simp_all

definition ADDITIVE :: "((token_kind \<times> string) \<times> string) list" where
  "ADDITIVE = [((KOp, ''+''), ''add''), ((KOp, ''-''), ''sub''), ((KName, ''div''), ''div''), ((KName, ''mod''), ''mod''), ((KName, ''idiv''), ''idiv'')]"

lemma additive_token:
  assumes "((k, x), op) \<in> set ADDITIVE" "tk_kind t = k" "tk_text t = x" "ps_ir P"
  shows "additive_op P (t # ts) = Some op" "binds t = 4"
  using assms lower_closers by (auto simp: ADDITIVE_def additive_op_def binds_def Let_def COMPARISONS_def)

lemma reads_additive:
  assumes a: "reads P 4 k1 a" and b: "reads P 5 k2 b" and op: "(x, op) \<in> set ADDITIVE" "ps_ir P"
  shows "reads P 4 (k1 @ x # k2) (e_op op [a, b])"
proof -
  have "yields (\<lambda>n. run n P GAdditive (ts @ rest)) r"
    if ts: "kts_of ts = k1 @ x # k2" and rest: "stops 5 rest" and r: "yields (\<lambda>n. run n P (GAdditiveMore (e_op op [a, b])) rest) r" for ts rest r
  proof -
    obtain ts1 t ts2 where t: "ts = ts1 @ t # ts2" "kts_of ts1 = k1" "tk_kind t = fst x" "tk_text t = snd x" "kts_of ts2 = k2"
      by (rule kts_middle [OF ts])
    have o: "additive_op P (t # ts2 @ rest) = Some op" "binds t = 4"
      using additive_token [OF _ t(3,4) op(2)] op(1) by simp_all
    have "yields (\<lambda>n. run n P GMultiplicative (ts2 @ rest)) ([b], rest)"
      by (rule readsD(6) [OF b t(5) refl stops_mono [OF rest] yields_stop(4) [OF stops_facts(5) [OF rest]]]) simp_all
    then have "yields (\<lambda>n. run n P (GAdditiveMore a) (t # ts2 @ rest)) r"
      using yields_additive_more [OF o(1) _ r] by simp
    from readsD(7) [OF a t(2) refl _ this] o(2) show ?thesis by (simp add: t(1) stops_def)
  qed
  then show ?thesis using readsD(1,2) [OF a] unfolding reads_def by (simp del: split_paired_All)
qed

lemma reads_mul:
  assumes a: "reads P 5 k1 a" and b: "reads P 6 k2 b"
  shows "reads P 5 (k1 @ (KOp, ''*'') # k2) (e_op ''mul'' [a, b])"
proof -
  have "yields (\<lambda>n. run n P GMultiplicative (ts @ rest)) r"
    if ts: "kts_of ts = k1 @ (KOp, ''*'') # k2" and rest: "stops 6 rest"
      and r: "yields (\<lambda>n. run n P (GMultiplicativeMore (e_op ''mul'' [a, b])) rest) r" for ts rest r
  proof -
    obtain ts1 t ts2 where t: "ts = ts1 @ t # ts2" "kts_of ts1 = k1" "tk_kind t = KOp" "tk_text t = ''*''" "kts_of ts2 = k2"
      using kts_middle [OF ts] by (metis fst_conv snd_conv)
    have o: "at_token KOp ''*'' (t # ts2 @ rest)" "binds t = 5"
      using t(3,4) lower_closers by (simp_all add: at_token_def binds_def Let_def COMPARISONS_def)
    have "yields (\<lambda>n. run n P GUnary (ts2 @ rest)) ([b], rest)"
      by (rule readsD(5) [OF b t(5) refl stops_mono [OF rest]]) simp
    then have "yields (\<lambda>n. run n P (GMultiplicativeMore a) (t # ts2 @ rest)) r"
      using yields_multiplicative_more [OF o(1) _ r] by simp
    from readsD(6) [OF a t(2) refl _ this] o(2) show ?thesis by (simp add: t(1) stops_def)
  qed
  then show ?thesis using readsD(1,2) [OF a] unfolding reads_def by (simp del: split_paired_All)
qed

lemma reads_comparison:
  assumes a: "reads P 4 k1 a" and b: "reads P 4 k2 b" and op: "(x, op) \<in> set COMPARISONS"
  shows "reads P 3 (k1 @ (KOp, x) # k2) (e_op op [a, b])"
proof -
  have "yields (\<lambda>n. run n P GComparison (ts @ rest)) ([e_op op [a, b]], rest)"
    if ts: "kts_of ts = k1 @ (KOp, x) # k2" and rest: "stops 3 rest" for ts rest
  proof -
    obtain ts1 t ts2 where t: "ts = ts1 @ t # ts2" "kts_of ts1 = k1" "tk_kind t = KOp" "tk_text t = x" "kts_of ts2 = k2"
      using kts_middle [OF ts] by (metis fst_conv snd_conv)
    have x: "x \<in> set (map fst COMPARISONS)" using op by force
    have o: "comparison_op (t # ts2 @ rest) = Some op" "binds t = 3"
      using t(3,4) op lower_comparison [OF x] by (auto simp: comparison_op_def binds_def Let_def COMPARISONS_def)
    have s: "stops 5 (t # ts2 @ rest)" "stops 4 (t # ts2 @ rest)" using o(2) by (simp_all add: stops_def)
    have "yields (\<lambda>n. run n P GAdditive (ts1 @ t # ts2 @ rest)) ([a], t # ts2 @ rest)"
      by (rule readsD(7) [OF a t(2) refl s(1) yields_stop(3) [OF stops_facts(4) [OF s(2)]]]) simp
    moreover have "yields (\<lambda>n. run n P GAdditive (ts2 @ rest)) ([b], rest)"
      by (rule readsD(7) [OF b t(5) refl stops_mono [OF rest] yields_stop(3) [OF stops_facts(4) [OF rest]]]) simp_all
    ultimately show ?thesis using yields_comparison [OF _ o(1)] by (simp add: t(1))
  qed
  then show ?thesis using readsD(1,2) [OF a] unfolding reads_def by (simp del: split_paired_All)
qed

lemma reads_neg:
  assumes a: "reads P 6 k a"
  shows "reads P 6 ((KOp, ''-'') # k) (e_op ''neg'' [a])"
proof -
  have "yields (\<lambda>n. run n P GUnary (ts @ rest)) ([e_op ''neg'' [a]], rest)" if ts: "kts_of ts = (KOp, ''-'') # k" and rest: "stops 9 rest" for ts rest
  proof -
    obtain t ts1 where t: "ts = t # ts1" "tk_kind t = KOp" "tk_text t = ''-''" "kts_of ts1 = k" using kts_Cons [OF ts] by auto
    show ?thesis using yields_neg [of "t # ts1 @ rest"] readsD(5) [OF a t(4) refl rest] at_close [OF t(2,3)] lower_closers by (simp add: t(1))
  qed
  then show ?thesis unfolding reads_def by (simp del: split_paired_All)
qed

text \<open>Lists of operands: the loops of \<open>and\<close>, \<open>or\<close> and of arguments.\<close>

definition tail_kts :: "token_kind \<times> string \<Rightarrow> (token_kind \<times> string) list list \<Rightarrow> (token_kind \<times> string) list" where
  "tail_kts sep ks = concat (map (\<lambda>k. sep # k) ks)"

lemma kjoin_Cons: "kjoin sep (k # ks) = k @ tail_kts sep ks"
  by (simp add: kjoin_def tail_kts_def)

lemma tail_kts_Cons: "tail_kts sep (k # ks) = sep # k @ tail_kts sep ks"
  by (simp add: tail_kts_def)

lemma tail_stops:
  assumes "kts_of ts = tail_kts sep ks" "stops p rest" "\<And>t. tk_kind t = fst sep \<Longrightarrow> tk_text t = snd sep \<Longrightarrow> binds t < p"
  shows "stops p (ts @ rest)"
proof (cases ks)
  case Nil
  then have "ts = []" using assms(1) by (simp add: tail_kts_def kts_of_def)
  then show ?thesis using assms(2) by simp
next
  case (Cons k ks')
  then obtain t ts1 where "ts = t # ts1" "tk_kind t = fst sep" "tk_text t = snd sep"
    using kts_Cons assms(1) unfolding Cons tail_kts_Cons by blast
  then show ?thesis using assms(3) by (simp add: stops_def)
qed

lemma reads_tail:
  assumes "list_all2 (reads P p) ks as" "kts_of ts = tail_kts sep ks" "stops q rest"
    and sep: "\<And>t ts. tk_kind t = fst sep \<Longrightarrow> tk_text t = snd sep \<Longrightarrow> go (t # ts)"
    and bind: "\<And>t. tk_kind t = fst sep \<Longrightarrow> tk_text t = snd sep \<Longrightarrow> binds t < p'"
    and sub: "\<And>k a ts rest. reads P p k a \<Longrightarrow> kts_of ts = k \<Longrightarrow> stops p' rest \<Longrightarrow> yields (\<lambda>n. run n P g (ts @ rest)) ([a], rest)"
    and more: "\<And>ts a ts1 as ts2. go ts \<Longrightarrow> yields (\<lambda>n. run n P g (tl ts)) ([a], ts1) \<Longrightarrow> yields (\<lambda>n. run n P loop ts1) (as, ts2) \<Longrightarrow>
      yields (\<lambda>n. run n P loop ts) (a # as, ts2)"
    and stop: "yields (\<lambda>n. run n P loop rest) ([], rest)" and q: "q \<le> p'"
  shows "yields (\<lambda>n. run n P loop (ts @ rest)) (as, rest)"
  using assms(1,2)
proof (induction ks as arbitrary: ts rule: list_all2_induct)
  case Nil
  then show ?case using stop by (simp add: tail_kts_def kts_of_def)
next
  case (Cons k ks a as)
  obtain t ts1 where t: "ts = t # ts1" "tk_kind t = fst sep" "tk_text t = snd sep" "kts_of ts1 = k @ tail_kts sep ks"
    using kts_Cons Cons.prems unfolding tail_kts_Cons by blast
  obtain ts2 ts3 where s: "ts1 = ts2 @ ts3" "kts_of ts2 = k" "kts_of ts3 = tail_kts sep ks" using kts_append [OF t(4)] by blast
  have "stops p' (ts3 @ rest)" using tail_stops [OF s(3) stops_mono [OF assms(3) q] bind] by blast
  then have "yields (\<lambda>n. run n P g (ts2 @ ts3 @ rest)) ([a], ts3 @ rest)" by (rule sub [OF Cons.hyps(1) s(2)])
  then show ?case using more [OF sep [OF t(2,3), of "ts1 @ rest"]] Cons.IH [OF s(3)] by (simp add: t(1) s(1))
qed

lemma reads_and:
  assumes "list_all2 (reads P 3) (k # ks) (a # as)" "as \<noteq> []"
  shows "reads P 2 (kjoin (KName, ''and'') (k # ks)) (e_op ''and'' (a # as))"
proof -
  have ra: "reads P 3 k a" and rs: "list_all2 (reads P 3) ks as" using assms(1) by simp_all
  have b: "binds t < 3" if "tk_kind t = fst (KName, ''and'')" "tk_text t = snd (KName, ''and'')" for t :: token
    using that lower_closers by (simp add: binds_def Let_def)
  have "yields (\<lambda>n. run n P GAnd (ts @ rest)) ([e_op ''and'' (a # as)], rest)"
    if ts: "kts_of ts = kjoin (KName, ''and'') (k # ks)" and rest: "stops 2 rest" for ts rest
  proof -
    obtain ts1 ts2 where s: "ts = ts1 @ ts2" "kts_of ts1 = k" "kts_of ts2 = tail_kts (KName, ''and'') ks"
      using kts_append ts unfolding kjoin_Cons by blast
    have "yields (\<lambda>n. run n P GAndMore (ts2 @ rest)) (as, rest)"
    proof (rule reads_tail [OF rs s(3) rest _ _ _ _ yields_stop(2) [OF stops_facts(2) [OF rest]]])
      show "at_token KName ''and'' (t # ts)" if "tk_kind t = fst (KName, ''and'')" "tk_text t = snd (KName, ''and'')" for t ts
        using that lower_closers by (simp add: at_token_def)
      show "yields (\<lambda>n. run n P GComparison (ts @ rest)) ([a], rest)" if "reads P 3 k a" "kts_of ts = k" "stops 3 rest" for k a ts rest
        by (rule readsD(8) [OF that(1,2) refl that(3)])
    qed (use b yields_and_more in auto)
    moreover have "yields (\<lambda>n. run n P GComparison (ts1 @ ts2 @ rest)) ([a], ts2 @ rest)"
      using readsD(8) [OF ra s(2) refl] tail_stops [OF s(3) stops_mono [OF rest] b] by simp
    ultimately show ?thesis using yields_and [of P "ts @ rest" a "ts2 @ rest" as rest] assms(2) by (simp add: s(1))
  qed
  then show ?thesis using readsD(1,2) [OF ra] unfolding reads_def kjoin_Cons by (simp del: split_paired_All)
qed

lemma reads_or:
  assumes "list_all2 (reads P 2) (k # ks) (a # as)" "as \<noteq> []"
  shows "reads P 1 (kjoin (KName, ''or'') (k # ks)) (e_op ''or'' (a # as))"
proof -
  have ra: "reads P 2 k a" and rs: "list_all2 (reads P 2) ks as" using assms(1) by simp_all
  have b: "binds t < 2" if "tk_kind t = fst (KName, ''or'')" "tk_text t = snd (KName, ''or'')" for t :: token
    using that lower_closers by (simp add: binds_def Let_def)
  have "yields (\<lambda>n. run n P GOr (ts @ rest)) ([e_op ''or'' (a # as)], rest)"
    if ts: "kts_of ts = kjoin (KName, ''or'') (k # ks)" and rest: "stops 1 rest" for ts rest
  proof -
    obtain ts1 ts2 where s: "ts = ts1 @ ts2" "kts_of ts1 = k" "kts_of ts2 = tail_kts (KName, ''or'') ks"
      using kts_append ts unfolding kjoin_Cons by blast
    have "yields (\<lambda>n. run n P GOrMore (ts2 @ rest)) (as, rest)"
    proof (rule reads_tail [OF rs s(3) rest _ _ _ _ yields_stop(1) [OF stops_facts(1) [OF rest]]])
      show "at_token KName ''or'' (t # ts)" if "tk_kind t = fst (KName, ''or'')" "tk_text t = snd (KName, ''or'')" for t ts
        using that lower_closers by (simp add: at_token_def)
      show "yields (\<lambda>n. run n P GAnd (ts @ rest)) ([a], rest)" if "reads P 2 k a" "kts_of ts = k" "stops 2 rest" for k a ts rest
        by (rule readsD(9) [OF that(1,2) refl that(3)])
    qed (use b yields_or_more in auto)
    moreover have "yields (\<lambda>n. run n P GAnd (ts1 @ ts2 @ rest)) ([a], ts2 @ rest)"
      using readsD(9) [OF ra s(2) refl] tail_stops [OF s(3) stops_mono [OF rest] b] by simp
    ultimately show ?thesis using yields_or [of P "ts @ rest" a "ts2 @ rest" as rest] assms(2) by (simp add: s(1))
  qed
  then show ?thesis using readsD(1,2) [OF ra] unfolding reads_def kjoin_Cons by (simp del: split_paired_All)
qed

lemma reads_args:
  assumes "list_all2 (reads P 0) ks as" "kts_of ts = kjoin (KOp, '','') ks" "tk_kind l = KOp" "tk_text l = '')''"
  shows "yields (\<lambda>n. run n P GArgs (ts @ l # rest)) (as, l # rest)"
proof (cases ks)
  case Nil
  then have "as = []" "ts = []" using assms(1,2) by (simp_all add: kjoin_def kts_of_def)
  then show ?thesis using yields_no_args [OF assms(3,4)] by simp
next
  case (Cons k ks')
  then obtain a as' where as: "as = a # as'" "reads P 0 k a" "list_all2 (reads P 0) ks' as'" using assms(1) by (cases as) auto
  have b: "binds t < 1" if "tk_kind t = fst (KOp, '','')" "tk_text t = snd (KOp, '','')" for t :: token
    using that binds_close by simp
  have rest: "stops 1 (l # rest)" using binds_close [OF assms(3)] assms(4) by (simp add: stops_def)
  obtain ts1 ts2 where s: "ts = ts1 @ ts2" "kts_of ts1 = k" "kts_of ts2 = tail_kts (KOp, '','') ks'"
    using kts_append assms(2) unfolding Cons kjoin_Cons by blast
  have "yields (\<lambda>n. run n P GArgsMore (ts2 @ l # rest)) (as', l # rest)"
  proof (rule reads_tail [OF as(3) s(3) rest _ _ _ _ yields_stop(5) [OF not_at_closer [OF assms(3,4)]]])
    show "at_token KOp '','' (t # ts)" if "tk_kind t = fst (KOp, '','')" "tk_text t = snd (KOp, '','')" for t ts
      using that lower_closers by (simp add: at_token_def)
    show "yields (\<lambda>n. run n P GOr (ts @ rest)) ([a], rest)" if "reads P 0 k a" "kts_of ts = k" "stops 1 rest" for k a ts rest
      by (rule readsD(10) [OF that(1,2) _ that(3)]) simp
  qed (use b yields_args_more in auto)
  moreover have "yields (\<lambda>n. run n P GOr (ts1 @ ts2 @ l # rest)) ([a], ts2 @ l # rest)"
    using readsD(10) [OF as(2) s(2)] tail_stops [OF s(3) rest b] by simp
  moreover have "\<not> (tk_kind (hd (ts @ l # rest)) = KOp \<and> tk_text (hd (ts @ l # rest)) = '')'')"
    using kts_hd [OF s(2) readsD(1) [OF as(2)]] readsD(2) [OF as(2)] by (auto simp: s(1))
  ultimately show ?thesis using yields_args [of "ts @ l # rest"] by (simp add: s(1) as(1))
qed

lemma reads_call:
  assumes "list_all2 (reads P 0) ks as" "lower_text name \<notin> {''true'', ''false''}" "\<And>i. call_node P name i as = Inr node"
  shows "reads P 7 ((KName, name) # (KOp, ''('') # kjoin (KOp, '','') ks @ [(KOp, '')'')]) node"
proof (rule reads_primary)
  fix ts rest assume ts: "kts_of ts = (KName, name) # (KOp, ''('') # kjoin (KOp, '','') ks @ [(KOp, '')'')]"
  then obtain t l ts1 where t: "ts = t # l # ts1" "tk_kind t = KName" "tk_text t = name" "tk_kind l = KOp" "tk_text l = ''(''"
      "kts_of ts1 = kjoin (KOp, '','') ks @ [(KOp, '')'')]"
    using kts_Cons by (metis fst_conv snd_conv)
  obtain ts2 r ts3 where r: "ts1 = ts2 @ r # ts3" "kts_of ts2 = kjoin (KOp, '','') ks" "tk_kind r = KOp" "tk_text r = '')''" "kts_of ts3 = []"
    using kts_middle [OF t(6)] by (metis fst_conv snd_conv)
  have "ts3 = []" using r(5) by (simp add: kts_of_def)
  then have body: "ts @ rest = t # l # ts2 @ r # rest" using t(1) r(1) by simp
  show "yields (\<lambda>n. run n P GPrimary (ts @ rest)) ([node], rest)"
    unfolding body
    by (rule yields_call [OF t(2) _ t(4,5) reads_args [OF assms(1) r(2-4)] expect_close [OF r(3,4)]]) (use assms(2,3) t(3) in simp_all)
qed simp_all

lemma reads_bool: "reads P 7 [(KName, if b then ''true'' else ''false''), (KOp, ''(''), (KOp, '')'')] (e_lit (JBool b))"
proof (rule reads_primary)
  fix ts rest assume "kts_of ts = [(KName, if b then ''true'' else ''false''), (KOp, ''(''), (KOp, '')'')]"
  then obtain t l r where t: "ts = [t, l, r]" "tk_kind t = KName" "tk_text t = (if b then ''true'' else ''false'')" "tk_text l = ''(''"
      "tk_kind r = KOp" "tk_text r = '')''"
    by (auto simp: kts_of_def map_eq_Cons_conv)
  show "yields (\<lambda>n. run n P GPrimary (ts @ rest)) ([e_lit (JBool b)], rest)"
    using yields_bool [OF t(2,3,4) expect_close [OF t(5,6)]] by (simp add: t(1))
qed simp_all

lemma reads_atom:
  shows "reads P 7 [(KNumber, x)] (e_lit (number_value x))" "reads P 7 [(KString, x)] (e_lit (JStr x))" "reads P 7 [(KRef, x)] (e_ref x)"
    "ps_row P \<Longrightarrow> reads P 7 [(KName, x)] (e_ref (ROW_PREFIX @ x))"
proof -
  show "reads P 7 [(KNumber, x)] (e_lit (number_value x))" "reads P 7 [(KString, x)] (e_lit (JStr x))" "reads P 7 [(KRef, x)] (e_ref x)"
    using yields_atom by (auto intro!: reads_primary simp: kts_of_def map_eq_Cons_conv)
  show "ps_row P \<Longrightarrow> reads P 7 [(KName, x)] (e_ref (ROW_PREFIX @ x))"
    using yields_row stops_facts(7) [of 9] by (auto intro!: reads_primary simp: kts_of_def map_eq_Cons_conv)
qed

end
