(* ===== verification/Expression_Roundtrip.thy ===== *)
theory Expression_Roundtrip
  imports Expression_Text_Laws
begin

text \<open>
  The two halves of the surface for expressions together: the parser never runs out of fuel, printed text lexes into the
  tokens the parser wants, and so an expression that has a surface form is read back as itself.
\<close>

subsection \<open>The fuel is enough\<close>

definition less_run :: "text_error + 'a \<Rightarrow> text_error + 'a \<Rightarrow> bool" where
  "less_run x y \<longleftrightarrow> x = Inl OutOfFuel \<or> x = y"

lemma less_run_refl [simp]: "less_run x x" "less_run (Inl OutOfFuel) x"
  by (simp_all add: less_run_def)

lemma less_run_bind: "less_run x y \<Longrightarrow> (\<And>r. less_run (f r) (g r)) \<Longrightarrow> less_run (rbind x f) (rbind y g)"
  by (cases y) (fastforce simp: less_run_def)+

lemma methods_mono:
  assumes s: "\<And>g ts. less_run (s g ts) (s' g ts)"
  shows "less_run (parse_or s ts) (parse_or s' ts)" "less_run (or_more s ts) (or_more s' ts)"
    "less_run (parse_and s ts) (parse_and s' ts)" "less_run (and_more s ts) (and_more s' ts)"
    "less_run (parse_comparison s ts) (parse_comparison s' ts)"
    "less_run (parse_additive s ts) (parse_additive s' ts)" "less_run (additive_more s P a ts) (additive_more s' P a ts)"
    "less_run (parse_multiplicative s ts) (parse_multiplicative s' ts)" "less_run (multiplicative_more s a ts) (multiplicative_more s' a ts)"
    "less_run (parse_unary s ts) (parse_unary s' ts)" "less_run (parse_primary s P ts) (parse_primary s' P ts)"
    "less_run (parse_args s ts) (parse_args s' ts)" "less_run (args_more s ts) (args_more s' ts)"
  by (auto simp: run_defs Let_def intro!: less_run_bind s split: option.split list.split token_kind.split)

lemma run_mono_Suc: "less_run (run n P g ts) (run (Suc n) P g ts)"
proof (induction n arbitrary: g ts)
  case (Suc n)
  have "less_run (dispatch (run n P) P g ts) (dispatch (run (Suc n) P) P g ts)"
    by (cases g) (simp_all add: methods_mono Suc.IH del: run.simps)
  then show ?case by (simp del: dispatch_def)
qed simp

lemma run_mono: "m \<le> n \<Longrightarrow> less_run (run m P g ts) (run n P g ts)"
proof (induction n rule: dec_induct)
  case (step n)
  then show ?case using run_mono_Suc [of n P g ts] by (auto simp: less_run_def)
qed simp

definition level :: "goal \<Rightarrow> nat" where
  "level g = (case g of GOr \<Rightarrow> 7 | GAnd \<Rightarrow> 6 | GComparison \<Rightarrow> 5 | GAdditive \<Rightarrow> 4 | GMultiplicative \<Rightarrow> 3 | GUnary \<Rightarrow> 2 | GArgs \<Rightarrow> 8 | _ \<Rightarrow> 1)"

definition takes :: "goal \<Rightarrow> bool" where
  "takes g \<longleftrightarrow> g \<in> {GOr, GAnd, GComparison, GAdditive, GMultiplicative, GUnary, GPrimary}"

definition ends :: "bool \<Rightarrow> nat \<Rightarrow> text_error + json list \<times> token list \<Rightarrow> bool" where
  "ends b n r = (case r of Inl e \<Rightarrow> e \<noteq> OutOfFuel | Inr (as, ts) \<Rightarrow> if b then length ts < n else length ts \<le> n)"

lemma ends_simps [simp]:
  "ends b n (Inl e) \<longleftrightarrow> e \<noteq> OutOfFuel" "ends b n (Inr (as, ts)) \<longleftrightarrow> (if b then length ts < n else length ts \<le> n)"
  by (simp_all add: ends_def)

lemma ends_bind:
  "ends b1 m x \<Longrightarrow> (\<And>as ts. if b1 then length ts < m else length ts \<le> m \<Longrightarrow> ends b n (f (as, ts))) \<Longrightarrow> ends b n (rbind x f)"
  by (cases x) auto

lemma ends_expect:
  "(\<And>ts'. length ts' < length ts \<Longrightarrow> ends b n (f ts')) \<Longrightarrow> ends b n (rbind (expect_op P t ts) f)"
  by (cases ts) (auto simp: expect_op_def stuck_def at_token_def)

lemma ends_weak: "ends b m x \<Longrightarrow> (if b \<or> \<not> b' then m \<le> n else m < n) \<Longrightarrow> ends b' n x"
  by (cases x) (auto split: if_splits)

lemma call_node_ends: "(\<And>node. ends b n (f node)) \<Longrightarrow> ends b n (rbind (call_node P name i args) f)"
  by (cases "call_node P name i args") (auto simp: call_node_def Let_def token_error_def split: if_splits option.splits)

lemma dispatch_ends:
  assumes IH: "\<And>h us b m. 9 * length us + level h \<le> n \<Longrightarrow> (if takes h \<or> \<not> b then length us \<le> m else length us < m) \<Longrightarrow> ends b m (s h us)"
    and n: "9 * length ts + level g \<le> Suc n"
  shows "ends (takes g) (length ts) (dispatch s P g ts)"
proof -
  have call: "ends b m (rbind (s h us) f)"
    if "9 * length us + level h \<le> n" "\<And>as ts'. (if takes h then length ts' < length us else length ts' \<le> length us) \<Longrightarrow> ends b m (f (as, ts'))"
    for h us b m f
    by (rule ends_bind [OF IH [OF that(1), of "takes h" "length us"]]) (use that(2) in auto)
  have t: "at_token k x us \<Longrightarrow> \<exists>v vs. us = v # vs" "additive_op P us = Some op \<Longrightarrow> \<exists>v vs. us = v # vs"
    "comparison_op us = Some op \<Longrightarrow> \<exists>v vs. us = v # vs" for us k x op
    by (cases us; simp add: at_token_def additive_op_def comparison_op_def)+
  have name: "ends True (Suc (length us)) (parse_name s P v us)" if "9 * length us + 9 \<le> n" for v us
    using that by (auto simp: parse_name_def Let_def token_error_def level_def takes_def intro!: call ends_expect call_node_ends)
  have primary: "ends True (length ts) (parse_primary s P ts)" if "9 * length ts + 1 \<le> Suc n"
    using that
    by (cases ts) (auto simp: parse_primary_def stuck_def token_error_def level_def takes_def
        intro!: call name ends_expect split: token_kind.split option.split)
  show ?thesis using n
    by (cases g) (auto simp: run_defs(1-10,13,14) level_def takes_def intro!: call IH primary split: option.split dest: t)
qed

lemma run_ends: "9 * length ts + level g \<le> n \<Longrightarrow> ends (takes g) (length ts) (run n P g ts)"
proof (induction n arbitrary: g ts)
  case 0
  then show ?case by (simp add: level_def split: goal.splits)
next
  case (Suc n)
  show ?case
    unfolding run.simps(2) by (rule dispatch_ends [OF ends_weak [OF Suc.IH] Suc.prems]) auto
qed

lemma yields_run: "yields (\<lambda>n. run n P GOr ts) r \<Longrightarrow> 9 * length ts + 7 \<le> n \<Longrightarrow> run n P GOr ts = Inr r"
proof -
  assume "yields (\<lambda>n. run n P GOr ts) r" and n: "9 * length ts + 7 \<le> n"
  then obtain m where m: "n \<le> m" "run m P GOr ts = Inr r" unfolding eventually_sequentially by (metis nat_le_linear)
  have "ends True (length ts) (run n P GOr ts)" using run_ends [of ts GOr n P] n by (simp add: level_def takes_def)
  then show ?thesis using run_mono [OF m(1), of P GOr ts] m(2) by (auto simp: less_run_def)
qed

lemma parse_tokens_reads:
  assumes "reads P 0 (kts_of ts) node"
  shows "parse_tokens P ts = Inr node"
proof -
  have "yields (\<lambda>n. run n P GOr ts) ([node], [])" using readsD(10) [OF assms refl, of "[]"] by (simp add: stops_def)
  then show ?thesis using yields_run [of P ts _ "9 * length ts + 9"] by (simp add: parse_tokens_def)
qed

lemma parse_tokens_ends: "parse_tokens P ts \<noteq> Inl OutOfFuel"
  using run_ends [of ts GOr "9 * length ts + 9" P]
  by (cases "run (9 * length ts + 9) P GOr ts") (auto simp: parse_tokens_def level_def stuck_def ends_def split: if_splits)

subsection \<open>Lexing what was printed\<close>

text \<open>What may follow a printed operand, and what it then lexes to.\<close>

definition delim :: "string \<Rightarrow> bool" where
  "delim rest \<longleftrightarrow> rest = [] \<or> hd rest \<in> {CHR '' '', CHR '')'', CHR '',''}"

definition tidy :: "string \<Rightarrow> bool" where
  "tidy t \<longleftrightarrow> t \<noteq> [] \<and> \<not> is_space (hd t) \<and> \<not> is_space (last t)"

definition lexes :: "string \<Rightarrow> (token_kind \<times> string) list \<Rightarrow> bool" where
  "lexes t k \<longleftrightarrow> tidy t \<and> (\<forall>i rest. delim rest \<longrightarrow> (\<exists>ts. kts_of ts = k \<and>
     tokenize i (t @ rest) = rbind (tokenize (i + int (length t)) rest) (\<lambda>us. Inr (ts @ us))))"

lemma lexesI:
  assumes "tidy t"
    and "\<And>i rest. delim rest \<Longrightarrow> \<exists>ts. kts_of ts = k \<and> tokenize i (t @ rest) = rbind (tokenize (i + int (length t)) rest) (\<lambda>us. Inr (ts @ us))"
  shows "lexes t k"
  using assms unfolding lexes_def by blast

lemma lexesD:
  assumes "lexes t k"
  shows "tidy t"
    and "delim rest \<Longrightarrow> \<exists>ts. kts_of ts = k \<and> tokenize i (t @ rest) = rbind (tokenize (i + int (length t)) rest) (\<lambda>us. Inr (ts @ us))"
  using assms unfolding lexes_def by blast+

lemma tidy_append: "tidy t1 \<Longrightarrow> tidy t2 \<Longrightarrow> tidy (t1 @ mid @ t2)"
  by (simp add: tidy_def)

lemma strip_tidy:
  assumes "tidy t"
  shows "strip t = t" "takeWhile is_space t = []"
proof -
  have "dropWhile is_space t = t" using assms by (cases t) (auto simp: tidy_def)
  moreover have "dropWhile is_space (rev t) = rev t" using assms by (cases t rule: rev_cases) (auto simp: tidy_def)
  ultimately show "strip t = t" by (simp add: strip_def)
  show "takeWhile is_space t = []" using assms by (cases t) (auto simp: tidy_def)
qed

lemma rbind_assoc_Inr: "rbind (rbind x (\<lambda>us. Inr (f us))) (\<lambda>us. Inr (g us)) = rbind x (\<lambda>us. Inr (g (f us)))"
  by (cases x) auto

lemma tokenize_token:
  assumes "x \<noteq> []" "\<not> is_space (hd x)" "next_token i (x @ rest) = Inr (t, length x)"
  shows "tokenize i (x @ rest) = rbind (tokenize (i + int (length x)) rest) (\<lambda>us. Inr (t # us))"
  using assms by (subst tokenize.simps) simp

lemma tokenize_space: "tokenize i (CHR '' '' # rest) = tokenize (i + 1) rest"
  by (subst tokenize.simps) (simp add: is_space_def)

lemma next_single:
  "c \<in> {CHR ''('', CHR '')'', CHR '','', CHR ''-'', CHR ''+'', CHR ''*''} \<Longrightarrow> next_token i (c # rest) = Inr (mk_token KOp [c] i, 1)"
  by (cases rest) (auto simp: next_token_def starts_with_def py_isdigit_def is_digit_def)

lemma single_tidy: "c \<in> {CHR ''('', CHR '')'', CHR '','', CHR ''-'', CHR ''+'', CHR ''*''} \<Longrightarrow> \<not> is_space c"
  by (auto simp: is_space_def)

lemma tokenize_single:
  assumes "c \<in> {CHR ''('', CHR '')'', CHR '','', CHR ''-'', CHR ''+'', CHR ''*''}"
  shows "tokenize i (c # rest) = rbind (tokenize (i + 1) rest) (\<lambda>us. Inr (mk_token KOp [c] i # us))"
  using tokenize_token [of "[c]" i rest] next_single [OF assms, of i rest] single_tidy [OF assms] by simp

lemma lexes_token:
  assumes "tidy x" "\<And>i rest. delim rest \<Longrightarrow> next_token i (x @ rest) = Inr (mk_token k v i, length x)"
  shows "lexes x [(k, v)]"
proof (rule lexesI [OF assms(1)])
  fix i rest assume "delim rest"
  then have "tokenize i (x @ rest) = rbind (tokenize (i + int (length x)) rest) (\<lambda>us. Inr ([mk_token k v i] @ us))"
    using tokenize_token [OF _ _ assms(2)] assms(1) by (simp add: tidy_def)
  then show "\<exists>ts. kts_of ts = [(k, v)] \<and> tokenize i (x @ rest) = rbind (tokenize (i + int (length x)) rest) (\<lambda>us. Inr (ts @ us))"
    by (intro exI [of _ "[mk_token k v i]"]) (simp add: kts_of_def mk_token_def)
qed

text \<open>Two printed pieces with something between them that lexes to tokens of its own.\<close>

lemma lexes_glue:
  assumes a: "lexes t1 k1" and b: "lexes t2 k2" and "delim mid" "mid \<noteq> []"
    and m: "\<And>i rest. \<exists>ts. kts_of ts = km \<and> tokenize i (mid @ rest) = rbind (tokenize (i + int (length mid)) rest) (\<lambda>us. Inr (ts @ us))"
  shows "lexes (t1 @ mid @ t2) (k1 @ km @ k2)"
proof (rule lexesI [OF tidy_append [OF lexesD(1) [OF a] lexesD(1) [OF b]]])
  fix i rest assume r: "delim rest"
  have "delim (mid @ t2 @ rest)" using assms(3,4) by (simp add: delim_def)
  then obtain ts1 where 1: "kts_of ts1 = k1"
      "tokenize i (t1 @ mid @ t2 @ rest) = rbind (tokenize (i + int (length t1)) (mid @ t2 @ rest)) (\<lambda>us. Inr (ts1 @ us))"
    using lexesD(2) [OF a] by blast
  obtain tm where 2: "kts_of tm = km" "tokenize (i + int (length t1)) (mid @ t2 @ rest) =
      rbind (tokenize (i + int (length t1) + int (length mid)) (t2 @ rest)) (\<lambda>us. Inr (tm @ us))"
    using m by blast
  obtain ts2 where 3: "kts_of ts2 = k2" "tokenize (i + int (length t1) + int (length mid)) (t2 @ rest) =
      rbind (tokenize (i + int (length t1) + int (length mid) + int (length t2)) rest) (\<lambda>us. Inr (ts2 @ us))"
    using lexesD(2) [OF b r] by blast
  show "\<exists>ts. kts_of ts = k1 @ km @ k2 \<and> tokenize i ((t1 @ mid @ t2) @ rest) =
      rbind (tokenize (i + int (length (t1 @ mid @ t2))) rest) (\<lambda>us. Inr (ts @ us))"
    using 1 2 3 by (intro exI [of _ "ts1 @ tm @ ts2"]) (simp add: rbind_assoc_Inr kts_of_def add.assoc)
qed

lemma rbind_Inr [simp]: "rbind x (\<lambda>us. Inr us) = x"
  by (cases x) auto

lemma lexes_space: "lexes t1 k1 \<Longrightarrow> lexes t2 k2 \<Longrightarrow> lexes (t1 @ '' '' @ t2) (k1 @ k2)"
  by (rule lexes_glue [of t1 k1 t2 k2 "'' ''" "[]", simplified append_Nil])
    (auto simp: delim_def tokenize_space kts_of_def)

lemma tokenize_lead:
  assumes "c \<in> {CHR ''('', CHR '')'', CHR '','', CHR ''-'', CHR ''+'', CHR ''*''}"
  shows "\<exists>ts. kts_of ts = [(KOp, [c])] \<and> tokenize i ([c] @ rest) = rbind (tokenize (i + int (length [c])) rest) (\<lambda>us. Inr (ts @ us))"
  using tokenize_single [OF assms] by (intro exI [of _ "[mk_token KOp [c] i]"]) (simp add: kts_of_def mk_token_def)

lemma lexes_comma: "lexes t1 k1 \<Longrightarrow> lexes t2 k2 \<Longrightarrow> lexes (t1 @ '', '' @ t2) (k1 @ (KOp, '','') # k2)"
proof -
  have m: "\<exists>ts. kts_of ts = [(KOp, '','')] \<and> tokenize i ('', '' @ rest) = rbind (tokenize (i + int (length '', '')) rest) (\<lambda>us. Inr (ts @ us))" for i rest
    by (intro exI [of _ "[mk_token KOp '','' i]"]) (simp add: tokenize_single tokenize_space kts_of_def mk_token_def add_ac)
  assume "lexes t1 k1" "lexes t2 k2"
  then show ?thesis using lexes_glue [of t1 k1 t2 k2 "'', ''", OF _ _ _ _ m] by (simp add: delim_def)
qed

lemma lexes_prefix:
  assumes b: "lexes t2 k2" and t: "tidy (t1 @ t2)"
    and m: "\<And>i rest. \<exists>ts. kts_of ts = k1 \<and> tokenize i (t1 @ t2 @ rest) = rbind (tokenize (i + int (length t1)) (t2 @ rest)) (\<lambda>us. Inr (ts @ us))"
  shows "lexes (t1 @ t2) (k1 @ k2)"
proof (rule lexesI [OF t])
  fix i rest assume r: "delim rest"
  obtain ts1 where 1: "kts_of ts1 = k1" "tokenize i (t1 @ t2 @ rest) = rbind (tokenize (i + int (length t1)) (t2 @ rest)) (\<lambda>us. Inr (ts1 @ us))"
    using m by blast
  obtain ts2 where 2: "kts_of ts2 = k2" "tokenize (i + int (length t1)) (t2 @ rest) =
      rbind (tokenize (i + int (length t1) + int (length t2)) rest) (\<lambda>us. Inr (ts2 @ us))"
    using lexesD(2) [OF b r] by blast
  show "\<exists>ts. kts_of ts = k1 @ k2 \<and> tokenize i ((t1 @ t2) @ rest) = rbind (tokenize (i + int (length (t1 @ t2))) rest) (\<lambda>us. Inr (ts @ us))"
    using 1 2 by (intro exI [of _ "ts1 @ ts2"]) (simp add: rbind_assoc_Inr kts_of_def add.assoc)
qed

lemma lexes_single:
  assumes "lexes t k" "c \<in> {CHR ''('', CHR '')'', CHR '','', CHR ''-'', CHR ''+'', CHR ''*''}"
  shows "lexes ([c] @ t) ((KOp, [c]) # k)"
proof -
  have "tidy ([c] @ t)" using lexesD(1) [OF assms(1)] single_tidy [OF assms(2)] by (simp add: tidy_def)
  from lexes_prefix [OF assms(1) this tokenize_lead [OF assms(2)]] show ?thesis by simp
qed

lemma lexes_neg: "lexes t k \<Longrightarrow> lexes (''-'' @ t) ((KOp, ''-'') # k)"
  and lexes_open: "lexes t k \<Longrightarrow> lexes (''('' @ t) ((KOp, ''('') # k)"
  by (rule lexes_single; simp)+

lemma lexes_close:
  assumes a: "lexes t k"
  shows "lexes (t @ '')'') (k @ [(KOp, '')'')])"
proof (rule lexesI)
  show "tidy (t @ '')'')" using lexesD(1) [OF a] single_tidy [of "CHR '')''"] by (simp add: tidy_def)
  fix i rest
  have "delim ('')'' @ rest)" by (simp add: delim_def)
  then obtain ts where "kts_of ts = k" "tokenize i (t @ '')'' @ rest) = rbind (tokenize (i + int (length t)) ('')'' @ rest)) (\<lambda>us. Inr (ts @ us))"
    using lexesD(2) [OF a] by blast
  then show "\<exists>ts. kts_of ts = k @ [(KOp, '')'')] \<and> tokenize i ((t @ '')'') @ rest) =
      rbind (tokenize (i + int (length (t @ '')''))) rest) (\<lambda>us. Inr (ts @ us))"
    by (intro exI [of _ "ts @ [mk_token KOp '')'' (i + int (length t))]"])
      (simp add: tokenize_single rbind_assoc_Inr kts_of_def mk_token_def add_ac)
qed

lemma lexes_paren: "lexes t k \<Longrightarrow> lexes (''('' @ t @ '')'') ((KOp, ''('') # k @ [(KOp, '')'')])"
  using lexes_open [OF lexes_close] by simp

text \<open>The atoms of the grammar.\<close>

definition name_ok :: "string \<Rightarrow> bool" where
  "name_ok x \<longleftrightarrow> x \<noteq> [] \<and> is_name_start (hd x) \<and> list_all is_name_char x"

lemma name_start_facts:
  assumes "is_name_start c"
  shows "c \<noteq> CHR ''$''" "c \<noteq> CHR 0x27" "c \<noteq> CHR 0x22" "\<not> py_isdigit [c]" "c \<noteq> CHR ''.''" "c \<notin> set ''!=<>+-*(),''"
  using assms by (auto simp: is_name_start_def py_isdigit_def is_digit_def Let_def)

lemma name_char_tidy: "is_name_char c \<Longrightarrow> \<not> is_space c"
  by (auto simp: is_name_char_def is_word_def is_space_def Let_def)

lemma name_tidy: "name_ok x \<Longrightarrow> tidy x"
  by (auto simp: name_ok_def tidy_def list_all_iff name_char_tidy)

lemma next_name:
  assumes x: "name_ok x" and "rest = [] \<or> \<not> is_name_char (hd rest)"
  shows "next_token i (x @ rest) = Inr (mk_token KName x i, length x)"
proof -
  have t: "takeWhile is_name_char (x @ rest) = x" using assms by (cases rest) (auto simp: name_ok_def list_all_iff takeWhile_append)
  obtain c cs where c: "x = c # cs" "is_name_start c" using x by (cases x) (auto simp: name_ok_def)
  note f = name_start_facts [OF c(2)]
  have "take 2 (x @ rest) \<notin> {''!='', ''<='', ''>='', ''==''}" using f(6) by (auto simp: c(1))
  moreover have "\<not> starts_with ''${'' (x @ rest)" using f(1) by (simp add: c(1) starts_with_def)
  ultimately show ?thesis
    using f t unfolding next_token_def Let_def by (simp add: c)
qed

lemma lexes_name: "name_ok x \<Longrightarrow> lexes x [(KName, x)]"
  by (rule lexes_token [OF name_tidy next_name]) (auto simp: delim_def is_name_char_def is_word_def)

lemma lexes_named:
  assumes "name_ok x" "lexes (''('' @ t) k"
  shows "lexes (x @ ''('' @ t) ((KName, x) # k)"
proof -
  have n: "next_token i (x @ (''('' @ t) @ rest) = Inr (mk_token KName x i, length x)" for i rest
    by (rule next_name [OF assms(1)]) (simp add: is_name_char_def is_word_def)
  have x: "x \<noteq> []" "\<not> is_space (hd x)" using name_tidy [OF assms(1)] by (simp_all add: tidy_def)
  have "tidy (x @ ''('' @ t)" using x lexesD(1) [OF assms(2)] by (simp add: tidy_def)
  moreover have "\<exists>ts. kts_of ts = [(KName, x)] \<and> tokenize i (x @ (''('' @ t) @ rest) =
      rbind (tokenize (i + int (length x)) ((''('' @ t) @ rest)) (\<lambda>us. Inr (ts @ us))" for i rest
    using tokenize_token [OF x n, of i rest] by (intro exI [of _ "[mk_token KName x i]"]) (simp add: kts_of_def mk_token_def)
  ultimately show ?thesis using lexes_prefix [OF assms(2), of x "[(KName, x)]"] by simp
qed

lemma next_double:
  assumes c: "c \<in> {CHR ''!'', CHR ''<'', CHR ''>''}"
  shows "next_token i ([c, CHR ''=''] @ rest) = Inr (mk_token KOp [c, CHR ''=''] i, 2)"
proof -
  have "\<not> starts_with ''${'' (c # CHR ''='' # rest)" "\<not> py_isdigit [c]" "c \<noteq> CHR 0x27" "c \<noteq> CHR 0x22" "c \<noteq> CHR ''.''"
      "[c, CHR ''=''] \<in> {''!='', ''<='', ''>='', ''==''}"
    using c by (auto simp: starts_with_def py_isdigit_def is_digit_def)
  then show ?thesis unfolding next_token_def Let_def by simp
qed

lemma next_compare:
  assumes c: "c \<in> {CHR ''='', CHR ''<'', CHR ''>''}" and rest: "delim rest"
  shows "next_token i (c # rest) = Inr (mk_token KOp [c] i, 1)"
proof -
  have "take 2 (c # rest) \<notin> {''!='', ''<='', ''>='', ''==''}" using rest by (cases rest) (auto simp: delim_def)
  moreover have "\<not> starts_with ''${'' (c # rest)" "\<not> py_isdigit [c]" "c \<noteq> CHR 0x27" "c \<noteq> CHR 0x22" "c \<noteq> CHR ''.''" "c \<in> set ''=<>+-*(),''"
    using c by (auto simp: starts_with_def py_isdigit_def is_digit_def)
  ultimately show ?thesis unfolding next_token_def Let_def by simp
qed

lemma lexes_ops:
  shows "c \<in> {CHR ''!'', CHR ''<'', CHR ''>''} \<Longrightarrow> lexes [c, CHR ''=''] [(KOp, [c, CHR ''=''])]"
    and "c \<in> {CHR ''='', CHR ''<'', CHR ''>''} \<Longrightarrow> lexes [c] [(KOp, [c])]"
    and "c \<in> {CHR ''('', CHR '')'', CHR '','', CHR ''-'', CHR ''+'', CHR ''*''} \<Longrightarrow> lexes [c] [(KOp, [c])]"
proof -
  assume c: "c \<in> {CHR ''!'', CHR ''<'', CHR ''>''}"
  then have "tidy [c, CHR ''='']" by (auto simp: tidy_def is_space_def)
  then show "lexes [c, CHR ''=''] [(KOp, [c, CHR ''=''])]" using next_double [OF c] by (intro lexes_token) simp_all
next
  assume c: "c \<in> {CHR ''='', CHR ''<'', CHR ''>''}"
  then have "tidy [c]" by (auto simp: tidy_def is_space_def)
  then show "lexes [c] [(KOp, [c])]" using next_compare [OF c] by (intro lexes_token) simp_all
next
  assume c: "c \<in> {CHR ''('', CHR '')'', CHR '','', CHR ''-'', CHR ''+'', CHR ''*''}"
  then have "tidy [c]" using single_tidy by (simp add: tidy_def)
  then show "lexes [c] [(KOp, [c])]" using next_single [OF c] by (intro lexes_token) simp_all
qed

lemma lexes_symbol:
  assumes "x \<in> set [''='', ''!='', ''<'', ''<='', ''>'', ''>='', ''+'', ''-'', ''*'']"
  shows "lexes x [(KOp, x)]"
proof -
  have "lexes ''='' [(KOp, ''='')]" "lexes ''!='' [(KOp, ''!='')]" "lexes ''<'' [(KOp, ''<'')]" "lexes ''<='' [(KOp, ''<='')]"
    "lexes ''>'' [(KOp, ''>'')]" "lexes ''>='' [(KOp, ''>='')]" "lexes ''+'' [(KOp, ''+'')]" "lexes ''-'' [(KOp, ''-'')]"
    "lexes ''*'' [(KOp, ''*'')]"
    by (rule lexes_ops, simp)+
  then show ?thesis using assms by auto
qed

lemma lexes_string:
  assumes "q \<in> {CHR 0x27, CHR 0x22}" "q \<notin> set t"
  shows "lexes ([q] @ t @ [q]) [(KString, t)]"
proof (rule lexes_token)
  fix i rest
  have t: "takeWhile (\<lambda>d. d \<noteq> q) (t @ q # rest) = t" using assms(2) by (subst takeWhile_append2) auto
  show "next_token i (([q] @ t @ [q]) @ rest) = Inr (mk_token KString t i, length ([q] @ t @ [q]))"
    using assms(1) t by (auto simp: next_token_def starts_with_def)
qed (use assms(1) in \<open>auto simp: tidy_def is_space_def\<close>)

lemma lexes_ref:
  assumes "CHR ''}'' \<notin> set path" "strip path = path"
  shows "lexes (''${'' @ path @ ''}'') [(KRef, path)]"
proof (rule lexes_token)
  fix i rest
  have t: "takeWhile (\<lambda>d. d \<noteq> CHR ''}'') (path @ CHR ''}'' # rest) = path" using assms(1) by (subst takeWhile_append2) auto
  show "next_token i ((''${'' @ path @ ''}'') @ rest) = Inr (mk_token KRef path i, length (''${'' @ path @ ''}''))"
    using assms(2) t by (simp add: next_token_def starts_with_def)
qed (auto simp: tidy_def is_space_def)

subsection \<open>Numbers\<close>

definition is_digits :: "string \<Rightarrow> bool" where "is_digits ds \<longleftrightarrow> ds \<noteq> [] \<and> list_all is_digit ds"

lemma digit_facts:
  assumes "is_digit c"
  shows "c \<noteq> CHR ''$''" "c \<noteq> CHR 0x27" "c \<noteq> CHR 0x22" "py_isdigit [c]" "\<not> is_space c" "c \<noteq> CHR ''.''" "c \<noteq> CHR ''e''" "c \<noteq> CHR ''E''"
  using assms by (auto simp: is_digit_def py_isdigit_def is_space_def Let_def)

lemma digits_tidy: "is_digits ds \<Longrightarrow> tidy ds"
  by (auto simp: is_digits_def tidy_def list_all_iff digit_facts(5))

lemma takeWhile_digits:
  "is_digits ds \<Longrightarrow> rest = [] \<or> \<not> is_digit (hd rest) \<Longrightarrow> takeWhile is_digit (ds @ rest) = ds \<and> dropWhile is_digit (ds @ rest) = rest"
  by (cases rest) (auto simp: is_digits_def list_all_iff takeWhile_append dropWhile_append)

lemma next_number:
  assumes "is_digits (takeWhile is_digit cs)" "number_match cs = Some t"
  shows "next_token i cs = Inr (mk_token KNumber t i, length t)"
proof -
  obtain c r where c: "cs = c # r" "is_digit c" using assms(1) by (cases cs) (auto simp: is_digits_def split: if_splits)
  then have "\<not> starts_with ''${'' cs" using digit_facts(1) [OF c(2)] by (simp add: starts_with_def)
  then show ?thesis using digit_facts [OF c(2)] assms(2) unfolding next_token_def Let_def by (simp add: c(1))
qed

lemma delim_digit: "delim rest \<Longrightarrow> rest = [] \<or> \<not> is_digit (hd rest) \<and> hd rest \<noteq> CHR ''.''"
  by (auto simp: delim_def is_digit_def)

lemma lexes_digits:
  assumes "is_digits ds"
  shows "lexes ds [(KNumber, ds)]"
proof (rule lexes_token [OF digits_tidy [OF assms]])
  fix i rest assume "delim rest"
  note r = delim_digit [OF this]
  have t: "takeWhile is_digit (ds @ rest) = ds" "dropWhile is_digit (ds @ rest) = rest" using takeWhile_digits [OF assms, of rest] r by auto
  then have "number_match (ds @ rest) = Some ds" using assms r by (auto simp: number_match_def Let_def is_digits_def split: list.splits)
  then show "next_token i (ds @ rest) = Inr (mk_token KNumber ds i, length ds)" using next_number [of "ds @ rest"] t(1) assms by simp
qed

lemma lexes_decimal:
  assumes "is_digits a" "is_digits b"
  shows "lexes (a @ ''.'' @ b) [(KNumber, a @ ''.'' @ b)]"
proof (rule lexes_token [OF tidy_append [OF digits_tidy [OF assms(1)] digits_tidy [OF assms(2)]]])
  fix i rest assume "delim rest"
  note r = delim_digit [OF this]
  have t: "takeWhile is_digit (a @ ''.'' @ b @ rest) = a" "dropWhile is_digit (a @ ''.'' @ b @ rest) = ''.'' @ b @ rest"
    using takeWhile_digits [OF assms(1), of "''.'' @ b @ rest"] by (auto simp: is_digit_def)
  have u: "takeWhile is_digit (b @ rest) = b" using takeWhile_digits [OF assms(2), of rest] r by auto
  have "number_match (a @ ''.'' @ b @ rest) = Some (a @ ''.'' @ b)" using assms t u by (auto simp: number_match_def Let_def is_digits_def)
  then show "next_token i ((a @ ''.'' @ b) @ rest) = Inr (mk_token KNumber (a @ ''.'' @ b) i, length (a @ ''.'' @ b))"
    using next_number [of "a @ ''.'' @ b @ rest"] t(1) assms(1) by simp
qed

lemma no_split: "d \<notin> set s \<Longrightarrow> split_first [d] s = None"
  by (induction s) (auto simp: starts_with_def)

lemma split_at: "d \<notin> set a \<Longrightarrow> split_first [d] (a @ d # b) = Some (a, b)"
  by (induction a) (auto simp: starts_with_def)

lemma is_digits_not: "is_digits ds \<Longrightarrow> CHR ''.'' \<notin> set ds" "is_digits ds \<Longrightarrow> CHR ''e'' \<notin> set ds" "is_digits ds \<Longrightarrow> CHR ''E'' \<notin> set ds"
  using digit_facts(6-8) by (auto simp: is_digits_def list_all_iff)

lemma number_value_digits: "is_digits ds \<Longrightarrow> number_value ds = JInt (int_of_digits 0 ds)"
  by (simp add: number_value_def contains_def no_split is_digits_not)

lemma number_value_decimal:
  "is_digits a \<Longrightarrow> py_float_of_str (a @ ''.'' @ b) = Some x \<Longrightarrow> number_value (a @ ''.'' @ b) = JFloat x"
  by (simp add: number_value_def contains_def split_at is_digits_not)

text \<open>What \<open>repr\<close> promises for a float: a decimal or a decimal with an exponent, and \<open>float\<close> reads it back.\<close>

definition point_text :: "string \<Rightarrow> string \<Rightarrow> string" where
  "point_text w p = (if p = [] then w else w @ ''.'' @ p)"

definition float_form :: "string \<Rightarrow> bool" where
  "float_form t \<longleftrightarrow> (\<exists>w p. is_digits w \<and> is_digits p \<and> t = w @ ''.'' @ p) \<or>
     (\<exists>w p sign e. is_digits w \<and> list_all is_digit p \<and> sign \<in> {''-'', ''+''} \<and> is_digits e \<and> t = point_text w p @ ''e'' @ sign @ e)"

definition repr_reads :: "pylib \<Rightarrow> rat \<Rightarrow> bool" where
  "repr_reads L r \<longleftrightarrow> float_form (py_float_repr L (Fin r)) \<and> py_float_of_str (py_float_repr L (Fin r)) = Some (Fin r)"

lemma digit_group_digits: "is_digits ds \<Longrightarrow> digit_group ds = Some ds"
proof (induction ds rule: digit_group.induct)
qed (auto simp: is_digits_def is_digit_def Let_def)

lemma int_of_digits_shift: "int_of_digits acc ds = acc * 10 ^ length ds + int_of_digits 0 ds"
proof (induction ds arbitrary: acc)
  case (Cons c cs)
  show ?case using Cons [of "10 * acc + digit_val c"] Cons [of "digit_val c"] by (simp add: algebra_simps)
qed simp

lemma int_of_digits_trailing: "int_of_digits acc (replicate k (CHR ''0'')) = acc * 10 ^ k"
  by (induction k arbitrary: acc) (simp_all add: digit_val_def)

lemma mantissa_value:
  assumes "is_digits w" "list_all is_digit p"
  shows "parse_mantissa (point_text w p) = Some (of_int (int_of_digits 0 (w @ p)) * 10 powi (- int (length p)))"
proof (cases "p = []")
  case True
  then show ?thesis using assms by (simp add: parse_mantissa_def point_text_def no_split is_digits_not digit_group_digits)
next
  case False
  then have "is_digits p" using assms(2) by (simp add: is_digits_def)
  then show ?thesis
    using assms(1) False by (auto simp: parse_mantissa_def point_text_def split_at is_digits_not digit_group_digits is_digits_def power_int_minus field_simps)
qed

lemma exponent_value: "is_digits e \<Longrightarrow> sign \<in> {''-'', ''+''} \<Longrightarrow>
    parse_exponent (sign @ e) = Some (if sign = ''-'' then - int_of_digits 0 e else int_of_digits 0 e)"
  by (auto simp: parse_exponent_def starts_with_def digit_group_digits)

lemma decimal_value:
  assumes "is_digits w" "list_all is_digit p"
  shows "parse_decimal (point_text w p) = Some (of_int (int_of_digits 0 (w @ p)) * 10 powi (- int (length p)))"
proof -
  have "CHR ''e'' \<notin> set (point_text w p)" using assms digit_facts(7) by (auto simp: point_text_def is_digits_def list_all_iff)
  then show ?thesis using mantissa_value [OF assms] by (simp add: parse_decimal_def no_split)
qed

lemma scientific_value:
  assumes "is_digits w" "list_all is_digit p" "parse_exponent e = Some k"
  shows "parse_decimal (point_text w p @ ''e'' @ e) = Some (of_int (int_of_digits 0 (w @ p)) * 10 powi (k - int (length p)))"
proof -
  have "CHR ''e'' \<notin> set (point_text w p)" using assms digit_facts(7) by (auto simp: point_text_def is_digits_def list_all_iff)
  then have "split_first ''e'' (point_text w p @ ''e'' @ e) = Some (point_text w p, e)" by (simp add: split_at)
  moreover have "(if 0 \<le> k then r * 10 ^ nat k else r / 10 ^ nat (- k)) = r * 10 powi k" for r :: rat
    by (cases "0 \<le> k") (simp_all add: power_int_def field_simps)
  moreover have "r * 10 powi (- int n) * 10 powi k = r * 10 powi (k - int n)" for r :: rat and n
    by (simp add: power_int_diff power_int_minus divide_inverse mult.assoc mult.commute)
  ultimately show ?thesis
    using mantissa_value [OF assms(1,2)] assms(3) by (simp only: parse_decimal_def option.case prod.case)
qed

text \<open>Moving the point changes the text, not the number.\<close>

lemma positional_value:
  assumes w: "is_digits w" and p: "list_all is_digit p" and e: "parse_exponent e = Some k"
    and t: "t = positional (point_text w p @ ''e'' @ e)"
  obtains a b where "is_digits a" "is_digits b" "(if contains ''.'' t then t else t @ ''.0'') = a @ ''.'' @ b"
    "parse_decimal (a @ ''.'' @ b) = parse_decimal (point_text w p @ ''e'' @ e)"
proof -
  define point where "point = int (length w) + k"
  have z: "list_all is_digit (replicate n (CHR ''0''))" "is_digit (CHR ''0'')" for n by (simp_all add: list_all_iff is_digit_def)
  have dot: "CHR ''.'' \<notin> set x" if "list_all is_digit x" for x using that digit_facts(6) by (auto simp: list_all_iff)
  have "CHR ''e'' \<notin> set (point_text w p)" using w p digit_facts(7) by (auto simp: point_text_def is_digits_def list_all_iff)
  moreover have "(case split_first ''.'' (point_text w p) of None \<Rightarrow> (point_text w p, []) | Some x \<Rightarrow> x) = (w, p)"
    using is_digits_not(1) [OF w] by (auto simp: point_text_def no_split split_at)
  ultimately have t: "t = (if point \<le> 0 then ''0.'' @ replicate (nat (- point)) (CHR ''0'') @ w @ p
      else if int (length (w @ p)) \<le> point then (w @ p) @ replicate (nat (point - int (length (w @ p)))) (CHR ''0'')
      else take (nat point) (w @ p) @ ''.'' @ drop (nat point) (w @ p))"
    using e unfolding t positional_def point_def by (simp add: split_at Let_def)
  have wp: "list_all is_digit (w @ p)" "w @ p \<noteq> []" using w p by (simp_all add: is_digits_def)
  have val: "parse_decimal (a @ ''.'' @ b) = Some (of_int (int_of_digits 0 (a @ b)) * 10 powi (- int (length b)))"
    if "is_digits a" "is_digits b" for a b
    using decimal_value [of a b] that by (simp add: point_text_def is_digits_def)
  note goal = scientific_value [OF w p e]
  consider "point \<le> 0" | "0 < point" "int (length (w @ p)) \<le> point" | "0 < point" "point < int (length (w @ p))" by linarith
  then show thesis
  proof cases
    case 1
    let ?b = "replicate (nat (- point)) (CHR ''0'') @ w @ p"
    have t1: "t = ''0.'' @ ?b" using t 1 by (simp only: if_True)
    have ab: "is_digits ''0''" "is_digits ?b" using z wp by (auto simp: is_digits_def)
    have "int_of_digits 0 (''0'' @ ?b) = int_of_digits 0 (w @ p)"
      by (simp only: int_of_digits_append int_of_digits_trailing) (simp add: digit_val_def int_of_digits_trailing)
    moreover have "- int (length ?b) = k - int (length p)" using 1 by (simp add: point_def)
    moreover have "contains ''.'' (''0.'' @ x)" for x using split_at [of "CHR ''.''" "''0''" x] by (simp add: contains_def)
    ultimately have "parse_decimal (''0'' @ ''.'' @ ?b) = parse_decimal (point_text w p @ ''e'' @ e)" "contains ''.'' t"
      using val [OF ab] goal t1 by (simp_all only:)
    then show thesis using that [OF ab] t1 by simp
  next
    case 2
    let ?a = "(w @ p) @ replicate (nat (point - int (length (w @ p)))) (CHR ''0'')"
    have t1: "t = ?a" using t 2 by (simp only: if_True if_False not_le [symmetric] simp_thms)
    have ab: "is_digits ?a" "is_digits ''0''" using z wp by (auto simp: is_digits_def)
    have "int_of_digits 0 (?a @ ''0'') = int_of_digits 0 (w @ p) * 10 ^ nat (k - int (length p)) * 10"
      using 2 by (simp only: int_of_digits_append int_of_digits_trailing) (simp add: digit_val_def int_of_digits_trailing point_def)
    moreover have "0 \<le> k - int (length p)" using 2 by (simp add: point_def)
    moreover have "\<not> contains ''.'' ?a" using dot [of ?a] ab(1) by (simp add: contains_def no_split is_digits_def)
    moreover have "of_int (n * 10 ^ nat z * 10) * 10 powi (- int (length ''0'')) = (of_int n * 10 powi z :: rat)" if "0 \<le> z" for n z
      using that by (simp add: power_int_def)
    ultimately have "parse_decimal (?a @ ''.'' @ ''0'') = parse_decimal (point_text w p @ ''e'' @ e)" "\<not> contains ''.'' t"
      using val [OF ab] goal t1 by (simp_all only: simp_thms)
    then show thesis using that [OF ab] t1 by simp
  next
    case 3
    let ?a = "take (nat point) (w @ p)" and ?b = "drop (nat point) (w @ p)"
    have t1: "t = ?a @ ''.'' @ ?b" using t 3 by (simp only: if_False not_le [symmetric])
    have ab: "is_digits ?a" "is_digits ?b" using wp 3 by (auto simp: is_digits_def list_all_iff dest: in_set_takeD in_set_dropD)
    have "?a @ ?b = w @ p" by (rule append_take_drop_id)
    moreover have "- int (length ?b) = k - int (length p)" using 3 by (simp add: point_def)
    moreover have "contains ''.'' (?a @ ''.'' @ ?b)"
      using split_at [OF dot [of ?a], of ?b] ab(1) by (simp add: contains_def is_digits_def del: take_append drop_append)
    ultimately have "parse_decimal (?a @ ''.'' @ ?b) = parse_decimal (point_text w p @ ''e'' @ e)" "contains ''.'' t"
      using val [OF ab] goal t1 by (simp_all only:)
    then show thesis using that [OF ab] t1 by simp
  qed
qed

text \<open>On a text of digits, point and exponent, \<open>float\<close> is the rounded value.\<close>

definition number_chars :: "string \<Rightarrow> bool" where
  "number_chars t \<longleftrightarrow> t \<noteq> [] \<and> is_digit (hd t) \<and> is_digit (last t) \<and> list_all (\<lambda>c. is_digit c \<or> c \<in> {CHR ''.'', CHR ''e'', CHR ''+'', CHR ''-''}) t"

lemma float_of_number:
  assumes "number_chars t"
  shows "py_float_of_str t = map_option round_double (parse_decimal t)"
proof -
  have "tidy t" using assms digit_facts(5) by (simp add: number_chars_def tidy_def)
  then have s: "strip t = t" by (rule strip_tidy)
  have "ascii_lower t = t"
    using assms unfolding ascii_lower_def number_chars_def list_all_iff
    by (intro map_idI) (auto simp: is_digit_def Let_def)
  moreover have "\<not> starts_with ''-'' t" "\<not> starts_with ''+'' t" "t \<noteq> ''inf''" "t \<noteq> ''infinity''" "t \<noteq> ''nan''"
    using assms by (cases t; auto simp: number_chars_def starts_with_def is_digit_def)+
  ultimately show ?thesis by (simp add: py_float_of_str_def s option.map_ident)
qed

lemma number_chars_forms:
  assumes "is_digits w"
  shows "is_digits p \<Longrightarrow> number_chars (w @ ''.'' @ p)"
    and "list_all is_digit p \<Longrightarrow> is_digits e \<Longrightarrow> sign \<in> {''-'', ''+''} \<Longrightarrow> number_chars (point_text w p @ ''e'' @ sign @ e)"
  using assms by (cases w; auto simp: number_chars_def is_digits_def point_text_def list_all_iff)+

lemma contains_char: "contains [d] s \<longleftrightarrow> d \<in> set s"
proof
  show "contains [d] s \<Longrightarrow> d \<in> set s" by (rule ccontr) (simp add: contains_def no_split)
  assume "d \<in> set s"
  then obtain a b where "s = a @ d # b" "d \<notin> set a" by (meson split_list_first)
  then show "contains [d] s" by (simp add: contains_def split_at)
qed

lemma number_text_reads:
  assumes "repr_reads L r"
  obtains a b where "is_digits a" "is_digits b" "number_text L (JFloat (Fin r)) = Some (a @ ''.'' @ b)"
    "py_float_of_str (a @ ''.'' @ b) = Some (Fin r)"
proof -
  let ?t = "py_float_repr L (Fin r)"
  have reads_back: "py_float_of_str ?t = Some (Fin r)" and shape: "float_form ?t" using assms by (simp_all add: repr_reads_def)
  consider w p where "is_digits w" "is_digits p" "?t = w @ ''.'' @ p"
    | w p sign e where "is_digits w" "list_all is_digit p" "sign \<in> {''-'', ''+''}" "is_digits e" "?t = point_text w p @ ''e'' @ sign @ e"
    using shape unfolding float_form_def by blast
  then show thesis
  proof cases
    case 1
    have "\<not> contains ''e'' ?t" "\<not> contains ''E'' ?t" "contains ''.'' ?t"
      using 1 is_digits_not by (auto simp: contains_char)
    then show thesis using that [OF 1(1,2)] reads_back 1(3) by (simp add: number_text_def Let_def)
  next
    case 2
    have e: "contains ''e'' ?t" using 2(5) by (simp add: contains_char)
    obtain k where k: "parse_exponent (sign @ e) = Some k" using exponent_value [OF 2(4,3)] by blast
    obtain a b where ab: "is_digits a" "is_digits b"
        "(if contains ''.'' (positional ?t) then positional ?t else positional ?t @ ''.0'') = a @ ''.'' @ b"
        "parse_decimal (a @ ''.'' @ b) = parse_decimal ?t"
      using positional_value [OF 2(1,2) k refl] unfolding 2(5) by metis
    have "number_text L (JFloat (Fin r)) = Some (a @ ''.'' @ b)" using e ab(3) by (simp add: number_text_def Let_def split: if_splits)
    moreover have "py_float_of_str (a @ ''.'' @ b) = Some (Fin r)"
      using float_of_number [OF number_chars_forms(1) [OF ab(1,2)]] float_of_number [OF number_chars_forms(2) [OF 2(1,2,4,3)]] ab(4) reads_back
      unfolding 2(5) by simp
    ultimately show thesis by (rule that [OF ab(1,2)])
  qed
qed

subsection \<open>Expressions with a surface form\<close>

text \<open>
  The expressions an author can see as text, each with the expression the text is read back as. \<open>signed\<close> allows literals below
  zero, which the grammar has no spelling for: they come back as the negation of a literal. \<open>row\<close> is the scope of a choice
  filter, where a bare name is a column.
\<close>

inductive surface :: "pylib \<Rightarrow> bool \<Rightarrow> bool \<Rightarrow> json \<Rightarrow> json \<Rightarrow> bool" for L row signed where
  s_bool: "surface L row signed (e_lit (JBool b)) (e_lit (JBool b))"
| s_null: "surface L row signed (e_lit JNull) (e_lit JNull)"
| s_int: "0 \<le> i \<Longrightarrow> surface L row signed (e_lit (JInt i)) (e_lit (JInt i))"
| s_float: "0 \<le> r \<Longrightarrow> repr_reads L r \<Longrightarrow> surface L row signed (e_lit (JFloat (Fin r))) (e_lit (JFloat (Fin r)))"
| s_minus: "signed \<Longrightarrow> i < 0 \<Longrightarrow> surface L row signed (e_lit (JInt i)) (e_op ''neg'' [e_lit (JInt (- i))])"
| s_minus_float: "signed \<Longrightarrow> r < 0 \<Longrightarrow> repr_reads L (- r) \<Longrightarrow>
    surface L row signed (e_lit (JFloat (Fin r))) (e_op ''neg'' [e_lit (JFloat (Fin (- r)))])"
| s_str: "CHR 0x27 \<notin> set t \<or> CHR 0x22 \<notin> set t \<Longrightarrow> surface L row signed (e_lit (JStr t)) (e_lit (JStr t))"
| s_ref: "CHR ''}'' \<notin> set path \<Longrightarrow> strip path = path \<Longrightarrow> \<not> starts_with ROW_PREFIX path \<Longrightarrow> surface L row signed (e_ref path) (e_ref path)"
| s_row: "row \<Longrightarrow> name_ok x \<Longrightarrow> surface L row signed (e_ref (ROW_PREFIX @ x)) (e_ref (ROW_PREFIX @ x))"
| s_binary: "op \<in> set (map fst BINARY) \<Longrightarrow> op \<notin> set NARY \<Longrightarrow> surface L row signed a a' \<Longrightarrow> surface L row signed b b' \<Longrightarrow>
    surface L row signed (e_op op [a, b]) (e_op op [a', b'])"
| s_nary: "op \<in> set NARY \<Longrightarrow> 2 \<le> length as \<Longrightarrow> list_all2 (surface L row signed) as as' \<Longrightarrow>
    surface L row signed (e_op op as) (e_op op as')"
| s_neg: "surface L row signed a a' \<Longrightarrow> surface L row signed (e_op ''neg'' [a]) (e_op ''neg'' [a'])"
| s_form: "(op, n) \<in> set [(''not'', 1), (''selected'', 2), (''if'', 3)] \<Longrightarrow> length as = n \<Longrightarrow> list_all2 (surface L row signed) as as' \<Longrightarrow>
    surface L row signed (e_op op as) (e_op op as')"
| s_call: "f \<in> set (map fst fn_arity) \<Longrightarrow> list_all2 (surface L row signed) as as' \<Longrightarrow> surface L row signed (e_call f as) (e_call f as')"

text \<open>Without such literals the text is read back as the very same expression.\<close>

lemma list_all2_same: "list_all2 (\<lambda>a b. R a b \<and> b = a) xs ys \<Longrightarrow> ys = xs"
  by (induction rule: list_all2_induct) auto

lemma surface_same: "surface L row False a b \<Longrightarrow> b = a"
  by (induction rule: surface.induct) (auto dest!: list_all2_same)

definition printed :: "pylib \<Rightarrow> parser \<Rightarrow> nat \<Rightarrow> json \<Rightarrow> json \<Rightarrow> bool" where
  "printed L P p a b \<longleftrightarrow> (\<exists>t k. render_at L p a = Some t \<and> lexes t k \<and> reads P p k b)"

lemma printedI: "render_at L p a = Some t \<Longrightarrow> lexes t k \<Longrightarrow> reads P p k b \<Longrightarrow> printed L P p a b"
  unfolding printed_def by blast

lemma printed_atom: "render_at L p a = Some t \<Longrightarrow> lexes t k \<Longrightarrow> reads P 7 k b \<Longrightarrow> p \<le> 7 \<Longrightarrow> printed L P p a b"
  by (rule printedI) (auto intro: reads_mono)

text \<open>An operator of precedence \<open>q\<close> where \<open>p\<close> is wanted: in parentheses when it binds less.\<close>

lemma printed_paren:
  assumes "render_at L p a = Some (paren_if (q < p) t)" "lexes t k" "reads P q k b" "p \<le> 7" "q \<le> 7"
  shows "printed L P p a b"
proof (cases "q < p")
  case True
  have "reads P 0 k b" using assms(3,5) by (auto intro: reads_mono)
  then have "reads P p ((KOp, ''('') # k @ [(KOp, '')'')]) b" using assms(4) by (auto intro: reads_mono reads_paren)
  then show ?thesis using assms(1) lexes_paren [OF assms(2)] True by (auto intro: printedI simp: paren_if_def)
next
  case False
  then have "reads P p k b" using assms(3,5) by (auto intro: reads_mono)
  then show ?thesis using assms(1,2) False by (auto intro: printedI simp: paren_if_def)
qed

lemma text_args_op [simp]: "text_args [(''op'', v), (''args'', JList xs)] = Some xs"
    "text_args [(''op'', v), (''fn'', w), (''args'', JList xs)] = Some xs"
  by (auto simp: text_args_def jget_def)

lemma render_at_lit: "render_at L p (e_lit v) = lit_text L p v"
  by (simp add: e_lit_def jget_def)

lemma render_at_ref: "render_at L p (e_ref x) = Some (if starts_with ROW_PREFIX x then drop (length ROW_PREFIX) x else ''${'' @ x @ ''}'')"
  by (simp add: e_ref_def ref_text_def Let_def)

lemma BINARY_not: "map_of BINARY op = Some x \<Longrightarrow> op \<noteq> ''lit'' \<and> op \<noteq> ''ref''"
  by (auto simp: BINARY_def)

lemma render_at_binary:
  assumes "map_of BINARY op = Some (q, x)" "op \<notin> set NARY" "render_at L (if op \<in> set LEFT_ASSOCIATIVE then q else Suc q) a = Some t1"
    "render_at L (Suc q) b = Some t2"
  shows "render_at L p (e_op op [a, b]) = Some (paren_if (q < p) (t1 @ '' '' @ x @ '' '' @ t2))"
  using assms BINARY_not [OF assms(1)] by (simp add: e_op_def)

lemma render_at_nary:
  assumes "map_of BINARY op = Some (q, x)" "op \<in> set NARY" "2 \<le> length as" "all_some (map (render_at L (Suc q)) as) = Some ts"
  shows "render_at L p (e_op op as) = Some (paren_if (q < p) (joined ('' '' @ x @ '' '') ts))"
  using assms BINARY_not [OF assms(1)] by (simp add: e_op_def)

lemma render_at_forms:
  shows "render_at L p (e_op ''neg'' [a]) = map_option (\<lambda>t. paren_if (6 < p) (''-'' @ t)) (render_at L 6 a)"
    "render_at L p (e_op ''not'' [a]) = call_text ''not'' [render_at L 0 a]"
    "render_at L p (e_op ''selected'' [a, b]) = call_text ''selected'' [render_at L 0 a, render_at L 0 b]"
    "render_at L p (e_op ''if'' as) = call_text ''if'' (map (render_at L 0) as)"
    "f \<noteq> ''null'' \<Longrightarrow> render_at L p (e_call f as) = call_text f (map (render_at L 0) as)"
  by (simp_all add: e_op_def e_call_def BINARY_def UNARY_PRECEDENCE_def Let_def)

lemma printed_binary:
  assumes "map_of BINARY op = Some (q, x)" "op \<notin> set NARY"
    and "printed L P (if op \<in> set LEFT_ASSOCIATIVE then q else Suc q) a a'" "printed L P (Suc q) b b'" "lexes x [kx]"
    and r: "\<And>k1 k2. reads P (if op \<in> set LEFT_ASSOCIATIVE then q else Suc q) k1 a' \<Longrightarrow> reads P (Suc q) k2 b' \<Longrightarrow>
      reads P q (k1 @ kx # k2) (e_op op [a', b'])"
    and "p \<le> 7" "q \<le> 7"
  shows "printed L P p (e_op op [a, b]) (e_op op [a', b'])"
proof -
  obtain t1 k1 where 1: "render_at L (if op \<in> set LEFT_ASSOCIATIVE then q else Suc q) a = Some t1" "lexes t1 k1"
      "reads P (if op \<in> set LEFT_ASSOCIATIVE then q else Suc q) k1 a'"
    using assms(3) unfolding printed_def by blast
  obtain t2 k2 where 2: "render_at L (Suc q) b = Some t2" "lexes t2 k2" "reads P (Suc q) k2 b'" using assms(4) unfolding printed_def by blast
  have "lexes (t1 @ '' '' @ x @ '' '' @ t2) (k1 @ kx # k2)" using lexes_space [OF 1(2) lexes_space [OF assms(5) 2(2)]] by simp
  then show ?thesis by (rule printed_paren [OF render_at_binary [OF assms(1,2) 1(1) 2(1)] _ r [OF 1(3) 2(3)] assms(7,8)])
qed

lemma printed_list:
  assumes "list_all2 (printed L P p) as as'"
  obtains ts ks where "all_some (map (render_at L p) as) = Some ts" "list_all2 lexes ts ks" "list_all2 (reads P p) ks as'"
  using assms
proof (induction as as' arbitrary: thesis rule: list_all2_induct)
  case Nil
  then show ?case by simp
next
  case (Cons a as a' as')
  obtain ts ks where "all_some (map (render_at L p) as) = Some ts" "list_all2 lexes ts ks" "list_all2 (reads P p) ks as'" by (rule Cons.IH)
  moreover obtain t k where "render_at L p a = Some t" "lexes t k" "reads P p k a'" using Cons.hyps(1) unfolding printed_def by blast
  ultimately show ?case using Cons.prems [of "t # ts" "k # ks"] by simp
qed

lemma lexes_joined:
  assumes "list_all2 lexes (t # ts) (k # ks)" "\<And>t1 k1 t2 k2. lexes t1 k1 \<Longrightarrow> lexes t2 k2 \<Longrightarrow> lexes (t1 @ sep @ t2) (k1 @ x # k2)"
  shows "lexes (joined sep (t # ts)) (kjoin x (k # ks))"
  using assms(1)
proof (induction ts arbitrary: t k ks)
  case (Cons t' ts)
  then obtain k' ks' where ks: "ks = k' # ks'" by (cases ks) auto
  have "lexes (joined sep (t' # ts)) (kjoin x (k' # ks'))" using Cons ks by simp
  then show ?case using assms(2) [of t k] Cons.prems ks by (simp add: kjoin_def)
qed (simp add: kjoin_def)

end
