(* ===== verification/Expression_Claims.thy ===== *)
theory Expression_Claims
  imports Expression_Roundtrip
begin

text \<open>
  Properties of expressions as text: what \<open>render\<close> prints, \<open>parse\<close> reads back; what comes back has the same value; and
  reading ends on every text. Then the texts where the code and its description part.
\<close>

subsection \<open>Printing each form of expression\<close>

lemma name_ok_words: "name_ok ''and''" "name_ok ''or''" "name_ok ''div''" "name_ok ''mod''" "name_ok ''idiv''" "name_ok ''not''" "name_ok ''selected''"
    "name_ok ''if''" "name_ok ''null''" "name_ok ''true''" "name_ok ''false''"
  by code_simp+

lemma fn_names: "f \<in> set (map fst fn_arity) \<Longrightarrow> name_ok f \<and> lower_text f = f \<and> f \<notin> {''true'', ''false'', ''not'', ''selected'', ''if'', ''null''}"
proof -
  have "list_all (\<lambda>f. name_ok f \<and> lower_text f = f \<and> f \<notin> {''true'', ''false'', ''not'', ''selected'', ''if'', ''null''}) (map fst fn_arity)"
    by code_simp
  then show "f \<in> set (map fst fn_arity) \<Longrightarrow> ?thesis" unfolding list_all_iff by blast
qed

lemma printed_comparison:
  assumes "op \<in> set [''eq'', ''ne'', ''lt'', ''lte'', ''gt'', ''gte'']" "printed L P 4 a a'" "printed L P 4 b b'" "p \<le> 7"
  shows "printed L P p (e_op op [a, b]) (e_op op [a', b'])"
proof -
  obtain x where x: "map_of BINARY op = Some (3, x)" "(x, op) \<in> set COMPARISONS" "x \<in> set [''='', ''!='', ''<'', ''<='', ''>'', ''>='', ''+'', ''-'', ''*'']"
      "op \<notin> set NARY" "op \<notin> set LEFT_ASSOCIATIVE"
    using assms(1) by (auto simp: BINARY_def COMPARISONS_def NARY_def LEFT_ASSOCIATIVE_def)
  show ?thesis
    by (rule printed_binary [OF x(1,4) _ _ lexes_symbol [OF x(3)]]) (use assms x(2,5) reads_comparison in auto)
qed

lemma printed_additive:
  assumes "op \<in> set [''add'', ''sub'', ''div'', ''mod'', ''idiv'']" "printed L P 4 a a'" "printed L P 5 b b'" "p \<le> 7" "ps_ir P"
  shows "printed L P p (e_op op [a, b]) (e_op op [a', b'])"
proof -
  obtain k x where x: "map_of BINARY op = Some (4, x)" "((k, x), op) \<in> set ADDITIVE" "op \<notin> set NARY" "op \<in> set LEFT_ASSOCIATIVE" "lexes x [(k, x)]"
    using assms(1) lexes_symbol [of "''+''"] lexes_symbol [of "''-''"] lexes_name name_ok_words
    by (auto simp: BINARY_def ADDITIVE_def NARY_def LEFT_ASSOCIATIVE_def)
  show ?thesis
    by (rule printed_binary [OF x(1,3) _ _ x(5)]) (use assms x(2,4) reads_additive in auto)
qed

lemma printed_mul:
  assumes "printed L P 5 a a'" "printed L P 6 b b'" "p \<le> 7"
  shows "printed L P p (e_op ''mul'' [a, b]) (e_op ''mul'' [a', b'])"
  by (rule printed_binary [where q = 5 and x = "''*''" and kx = "(KOp, ''*'')"])
    (use assms reads_mul lexes_symbol [of "''*''"] in \<open>auto simp: BINARY_def NARY_def LEFT_ASSOCIATIVE_def\<close>)

lemma lexes_word:
  assumes "name_ok w" "lexes t1 k1" "lexes t2 k2"
  shows "lexes (t1 @ ('' '' @ w @ '' '') @ t2) (k1 @ (KName, w) # k2)"
  using lexes_space [OF assms(2) lexes_space [OF lexes_name [OF assms(1)] assms(3)]] by simp

lemma printed_nary:
  assumes "op \<in> set NARY" "2 \<le> length as" "p \<le> 7" "list_all2 (printed L P (if op = ''and'' then 3 else 2)) as as'"
  shows "printed L P p (e_op op as) (e_op op as')"
proof -
  define q where "q = (if op = ''and'' then 2 else 1 :: nat)"
  have o: "op = ''and'' \<or> op = ''or''" using assms(1) by (simp add: NARY_def)
  have q: "map_of BINARY op = Some (q, op)" "q \<le> 7" using o by (elim disjE; simp add: BINARY_def q_def)+
  have n: "name_ok op" using o name_ok_words by blast
  have "list_all2 (printed L P (Suc q)) as as'" using assms(4) by (simp add: q_def numeral_3_eq_3 numeral_2_eq_2 split: if_splits)
  then obtain ts ks where t: "all_some (map (render_at L (Suc q)) as) = Some ts" "list_all2 lexes ts ks" "list_all2 (reads P (Suc q)) ks as'"
    by (rule printed_list)
  have len: "length ks = length as" using list_all2_lengthD [OF t(3)] list_all2_lengthD [OF assms(4)] by simp
  then obtain k ks' where ks: "ks = k # ks'" "ks' \<noteq> []" using assms(2) by (cases ks; cases "tl ks") auto
  then obtain u ts' a as1 where c: "ts = u # ts'" "as' = a # as1" "as1 \<noteq> []" using t(2,3) by (cases ts; cases as') auto
  have "lexes (joined ('' '' @ op @ '' '') ts) (kjoin (KName, op) ks)"
    using lexes_joined [of u ts' k ks'] t(2) lexes_word [OF n] unfolding ks(1) c(1) by blast
  moreover have "reads P q (kjoin (KName, op) ks) (e_op op as')"
    using o t(3) reads_and [of P k ks' a as1] reads_or [of P k ks' a as1] c(3) unfolding ks(1) c(2) q_def
    by (elim disjE) (simp_all add: numeral_3_eq_3 numeral_2_eq_2)
  ultimately show ?thesis by (rule printed_paren [OF render_at_nary [OF q(1) assms(1,2) t(1)] _ _ assms(3) q(2)])
qed

lemma lexes_call:
  assumes "name_ok f" "list_all2 lexes ts ks"
  shows "lexes (f @ ''('' @ joined '', '' ts @ '')'') ((KName, f) # (KOp, ''('') # kjoin (KOp, '','') ks @ [(KOp, '')'')])"
proof (rule lexes_named [OF assms(1)])
  show "lexes (''('' @ joined '', '' ts @ '')'') ((KOp, ''('') # kjoin (KOp, '','') ks @ [(KOp, '')'')])"
  proof (cases ts)
    case Nil
    then show ?thesis using assms(2) lexes_open [OF lexes_ops(3) [of "CHR '')''"]] by (simp add: kjoin_def)
  next
    case (Cons t ts')
    then obtain k ks' where ks: "ks = k # ks'" using assms(2) by (cases ks) auto
    have "lexes (joined '', '' ts) (kjoin (KOp, '','') ks)"
      using lexes_joined [of t ts' k ks'] assms(2) lexes_comma unfolding Cons ks by blast
    then show ?thesis by (rule lexes_paren)
  qed
qed

lemma printed_call:
  assumes "render_at L p a = call_text f (map (render_at L 0) as)" "list_all2 (printed L P 0) as as'" "p \<le> 7"
    and "name_ok f" "lower_text f \<notin> {''true'', ''false''}" "\<And>i. call_node P f i as' = Inr b"
  shows "printed L P p a b"
proof -
  obtain ts ks where t: "all_some (map (render_at L 0) as) = Some ts" "list_all2 lexes ts ks" "list_all2 (reads P 0) ks as'"
    using printed_list [OF assms(2)] by blast
  have "render_at L p a = Some (f @ ''('' @ joined '', '' ts @ '')'')" using assms(1) t(1) by (simp add: call_text_def)
  then show ?thesis by (rule printed_atom [OF _ lexes_call [OF assms(4) t(2)] reads_call [OF t(3) assms(5,6)] assms(3)])
qed

lemma printed_fn:
  assumes "f \<in> set (map fst fn_arity)" "list_all2 (printed L P 0) as as'" "p \<le> 7" "ps_ir P"
  shows "printed L P p (e_call f as) (e_call f as')"
proof (rule printed_call [OF render_at_forms(5) assms(2,3)])
  show "call_node P f i as' = Inr (e_call f as')" for i
    using fn_names [OF assms(1)] assms(1,4) by (simp add: call_node_def Let_def function_target_def)
qed (use fn_names [OF assms(1)] in auto)

lemma lower_forms: "lower_text ''not'' = ''not''" "lower_text ''selected'' = ''selected''" "lower_text ''if'' = ''if''" "lower_text ''null'' = ''null''"
  by code_simp+

lemma printed_form:
  assumes "(op, n) \<in> set [(''not'', 1), (''selected'', 2), (''if'', 3)]" "length as = n" "list_all2 (printed L P 0) as as'" "p \<le> 7"
  shows "printed L P p (e_op op as) (e_op op as')"
proof (rule printed_call [OF _ assms(3,4)])
  show "render_at L p (e_op op as) = call_text op (map (render_at L 0) as)"
    using assms(1,2) by (auto simp: render_at_forms length_Suc_conv numeral_2_eq_2)
  have "length as' = n" using assms(2) list_all2_lengthD [OF assms(3)] by simp
  then show "call_node P op i as' = Inr (e_op op as')" for i
    using assms(1) lower_forms by (auto simp: call_node_def Let_def)
qed (use assms(1) lower_forms name_ok_words in auto)

lemma printed_neg:
  assumes "printed L P 6 a a'" "p \<le> 7"
  shows "printed L P p (e_op ''neg'' [a]) (e_op ''neg'' [a'])"
proof -
  obtain t k where t: "render_at L 6 a = Some t" "lexes t k" "reads P 6 k a'" using assms(1) unfolding printed_def by blast
  then have "render_at L p (e_op ''neg'' [a]) = Some (paren_if (6 < p) (''-'' @ t))" by (simp add: render_at_forms)
  then show ?thesis by (rule printed_paren [OF _ lexes_neg [OF t(2)] reads_neg [OF t(3)] assms(2)]) simp
qed

lemma lexes_nullary: "name_ok f \<Longrightarrow> lexes (f @ ''()'') [(KName, f), (KOp, ''(''), (KOp, '')'')]"
  using lexes_call [of f "[]" "[]"] by (simp add: kjoin_def)

lemma printed_literal:
  assumes "p \<le> 7"
  shows "printed L P p (e_lit (JBool b)) (e_lit (JBool b))" and "ps_ir P \<Longrightarrow> printed L P p (e_lit JNull) (e_lit JNull)"
    and "0 \<le> i \<Longrightarrow> printed L P p (e_lit (JInt i)) (e_lit (JInt i))"
    and "0 \<le> r \<Longrightarrow> repr_reads L r \<Longrightarrow> printed L P p (e_lit (JFloat (Fin r))) (e_lit (JFloat (Fin r)))"
    and "CHR 0x27 \<notin> set t \<or> CHR 0x22 \<notin> set t \<Longrightarrow> printed L P p (e_lit (JStr t)) (e_lit (JStr t))"
proof -
  note simps = render_at_lit lit_text_def is_negative_number_def literal_text_def
  show "printed L P p (e_lit (JBool b)) (e_lit (JBool b))"
    using lexes_nullary [of "if b then ''true'' else ''false''"] name_ok_words
    by (intro printed_atom [OF _ _ reads_bool assms, where t = "(if b then ''true'' else ''false'') @ ''()''"]) (auto simp: simps)
  show "printed L P p (e_lit JNull) (e_lit JNull)" if "ps_ir P"
    by (rule printed_atom [OF _ lexes_nullary [of "''null''"] reads_call [of P "[]" "[]" "''null''", simplified kjoin_def list.case append_Nil] assms])
      (use that lower_forms name_ok_words in \<open>auto simp: simps call_node_def Let_def\<close>)
  show "printed L P p (e_lit (JInt i)) (e_lit (JInt i))" if "0 \<le> i"
  proof -
    have "is_digits (str_of_int i)" "int_of_digits 0 (str_of_int i) = i" using digits_of_props [OF that] that by (simp_all add: is_digits_def str_of_int_def)
    then show ?thesis
      using that reads_atom(1) [of P "str_of_int i"] number_value_digits
      by (intro printed_atom [OF _ lexes_digits _ assms, where t = "str_of_int i"]) (auto simp: simps number_text_def)
  qed
  show "printed L P p (e_lit (JFloat (Fin r))) (e_lit (JFloat (Fin r)))" if r: "0 \<le> r" "repr_reads L r"
  proof -
    obtain a b where ab: "is_digits a" "is_digits b" "number_text L (JFloat (Fin r)) = Some (a @ ''.'' @ b)" "py_float_of_str (a @ ''.'' @ b) = Some (Fin r)"
      by (rule number_text_reads [OF r(2)])
    have "reads P 7 [(KNumber, a @ ''.'' @ b)] (e_lit (JFloat (Fin r)))"
      using reads_atom(1) [of P "a @ ''.'' @ b"] number_value_decimal [OF ab(1,4)] by simp
    then show ?thesis using r(1) ab(3) by (intro printed_atom [OF _ lexes_decimal [OF ab(1,2)] _ assms]) (simp_all add: simps)
  qed
  show "printed L P p (e_lit (JStr t)) (e_lit (JStr t))" if "CHR 0x27 \<notin> set t \<or> CHR 0x22 \<notin> set t"
  proof -
    define q where "q = (if CHR 0x27 \<notin> set t then CHR 0x27 else CHR 0x22)"
    have "q \<in> {CHR 0x27, CHR 0x22}" "q \<notin> set t" using that by (auto simp: q_def)
    from lexes_string [OF this] show ?thesis
      using that by (intro printed_atom [OF _ _ reads_atom(2) assms, where t = "[q] @ t @ [q]"]) (auto simp: simps q_def Let_def)
  qed
qed

lemma printed_reference:
  assumes "p \<le> 7"
  shows "CHR ''}'' \<notin> set path \<Longrightarrow> strip path = path \<Longrightarrow> \<not> starts_with ROW_PREFIX path \<Longrightarrow> printed L P p (e_ref path) (e_ref path)"
    and "ps_row P \<Longrightarrow> name_ok x \<Longrightarrow> printed L P p (e_ref (ROW_PREFIX @ x)) (e_ref (ROW_PREFIX @ x))"
proof -
  show "CHR ''}'' \<notin> set path \<Longrightarrow> strip path = path \<Longrightarrow> \<not> starts_with ROW_PREFIX path \<Longrightarrow> printed L P p (e_ref path) (e_ref path)"
    by (rule printed_atom [OF _ lexes_ref reads_atom(3) assms]) (simp_all add: render_at_ref)
  show "ps_row P \<Longrightarrow> name_ok x \<Longrightarrow> printed L P p (e_ref (ROW_PREFIX @ x)) (e_ref (ROW_PREFIX @ x))"
    by (rule printed_atom [OF _ lexes_name reads_atom(4) assms]) (simp_all add: render_at_ref starts_with_def)
qed

lemma lit_minus: "v < 0 \<Longrightarrow> render_at L p (e_lit (JInt v)) = render_at L p (e_op ''neg'' [e_lit (JInt (- v))])"
    "r < 0 \<Longrightarrow> render_at L p (e_lit (JFloat (Fin r))) = render_at L p (e_op ''neg'' [e_lit (JFloat (Fin (- r)))])"
  by (simp_all add: render_at_forms render_at_lit lit_text_def is_negative_number_def negated_def UNARY_PRECEDENCE_def)

lemma printed_same_text: "render_at L p a = render_at L p b \<Longrightarrow> printed L P p b c \<Longrightarrow> printed L P p a c"
  by (simp add: printed_def)

lemma binary_groups:
  assumes "op \<in> set (map fst BINARY)" "op \<notin> set NARY"
  obtains "op \<in> set [''eq'', ''ne'', ''lt'', ''lte'', ''gt'', ''gte'']" | "op \<in> set [''add'', ''sub'', ''div'', ''mod'', ''idiv'']" | "op = ''mul''"
proof -
  have "set (map fst BINARY) \<subseteq> set NARY \<union> set [''eq'', ''ne'', ''lt'', ''lte'', ''gt'', ''gte''] \<union> set [''add'', ''sub'', ''div'', ''mod'', ''idiv''] \<union> {''mul''}"
    by code_simp
  then show thesis using assms that by blast
qed

lemma surface_printed:
  assumes "surface L row signed a b" "ps_row P = row" "ps_ir P" "p \<le> 7"
  shows "printed L P p a b"
  using assms(1,4)
proof (induction arbitrary: p rule: surface.induct)
  case (s_minus i)
  then show ?case using printed_same_text [OF lit_minus(1)] printed_neg [OF printed_literal(3)] by simp
next
  case (s_minus_float r)
  then show ?case using printed_same_text [OF lit_minus(2)] printed_neg [OF printed_literal(4)] by simp
next
  case (s_binary op a a' b b')
  consider "op \<in> set [''eq'', ''ne'', ''lt'', ''lte'', ''gt'', ''gte'']" | "op \<in> set [''add'', ''sub'', ''div'', ''mod'', ''idiv'']" | "op = ''mul''"
    using s_binary.hyps(1,2) by (rule binary_groups)
  then show ?case
  proof cases
    case 1
    show ?thesis by (rule printed_comparison [OF 1 _ _ s_binary.prems]; rule s_binary.IH; simp)
  next
    case 2
    show ?thesis by (rule printed_additive [OF 2 _ _ s_binary.prems assms(3)]; rule s_binary.IH; simp)
  next
    case 3
    show ?thesis unfolding 3 by (rule printed_mul [OF _ _ s_binary.prems]; rule s_binary.IH; simp)
  qed
next
  case (s_nary op as as')
  then show ?case by (intro printed_nary) (auto elim: list_all2_mono)
next
  case (s_form op n as as')
  then show ?case by (intro printed_form) (auto elim: list_all2_mono)
next
  case (s_call f as as')
  then show ?case using assms(3) by (intro printed_fn) (auto elim: list_all2_mono)
qed (use assms(2,3) printed_literal printed_reference printed_neg in simp_all)

text \<open>An operator or call sees its arguments only through their values.\<close>

abbreviation same_value :: "pylib \<Rightarrow> eval_ctx \<Rightarrow> json \<Rightarrow> json \<Rightarrow> bool" where
  "same_value L c a b \<equiv> evaluate L c b = evaluate L c a"

lemma mapM_same: "list_all2 (same_value L c) as bs \<Longrightarrow> mapM (evaluate L c) bs = mapM (evaluate L c) as"
  by (induction rule: list_all2_induct) simp_all

lemma node_arg_same:
  assumes "list_all2 (same_value L c) as bs"
  shows "rbind (node_arg [(''op'', v), (''args'', JList bs)] i) (evaluate L c) = rbind (node_arg [(''op'', v), (''args'', JList as)] i) (evaluate L c)"
  using assms by (auto simp: node_arg_def jitem_def list_all2_conv_all_nth)

lemma e_op_same:
  assumes "list_all2 (same_value L c) as bs"
  shows "same_value L c (e_op op as) (e_op op bs)"
proof -
  have "(\<lambda>v. case boolean v of None \<Rightarrow> Inr JNull | Some b \<Rightarrow> rbind (node_arg [(''op'', JStr op), (''args'', JList bs)] (if b then 1 else 2)) (evaluate L c)) =
    (\<lambda>v. case boolean v of None \<Rightarrow> Inr JNull | Some b \<Rightarrow> rbind (node_arg [(''op'', JStr op), (''args'', JList as)] (if b then 1 else 2)) (evaluate L c))"
    by (intro ext) (simp only: node_arg_same [OF assms])
  then show ?thesis
    unfolding e_op_def evaluate.simps
    by (simp add: node_arg_same [OF assms] mapM_same [OF assms] node_args_def node_args_or_empty_def ref_path_def jitem_def call_name_def
        split: option.split)
qed

lemma e_call_same: "list_all2 (same_value L c) as bs \<Longrightarrow> same_value L c (e_call f as) (e_call f bs)"
  unfolding e_call_def evaluate.simps
  by (simp add: mapM_same node_args_or_empty_def binary_op_def call_name_def jitem_def)

lemma neg_value: "evaluate L c (e_op ''neg'' [e_lit (JInt (- i))]) = Inr (JInt i)"
    "evaluate L c (e_op ''neg'' [e_lit (JFloat (Fin (- r)))]) = Inr (JFloat (Fin r))"
  by (simp_all add: e_op_def evaluate.simps(1) node_arg_def jitem_def v_neg_def)

text \<open>Where errors point: to a token, or to the end.\<close>

definition points :: "int set \<Rightarrow> text_error + json list \<times> token list \<Rightarrow> bool" where
  "points S r = (case r of Inl (ExpressionError f (Some i)) \<Rightarrow> i \<in> S | Inl OutOfFuel \<Rightarrow> True | Inl _ \<Rightarrow> False | Inr (as, ts) \<Rightarrow> tk_offset ` set ts \<subseteq> S)"

lemma points_simps [simp]:
  "points S (Inr (as, ts)) \<longleftrightarrow> tk_offset ` set ts \<subseteq> S" "points S (Inl (ExpressionError f (Some i))) \<longleftrightarrow> i \<in> S" "points S (Inl OutOfFuel)"
  by (simp_all add: points_def)

lemma points_bind: "points S x \<Longrightarrow> (\<And>as ts. tk_offset ` set ts \<subseteq> S \<Longrightarrow> points S (f (as, ts))) \<Longrightarrow> points S (rbind x f)"
  by (cases x) (auto simp: points_def)

lemma points_expect:
  "tk_offset ` set ts \<subseteq> S \<Longrightarrow> ps_end P \<in> S \<Longrightarrow> (\<And>ts. tk_offset ` set ts \<subseteq> S \<Longrightarrow> points S (f ts)) \<Longrightarrow> points S (rbind (expect_op P t ts) f)"
  by (cases ts) (auto simp: expect_op_def stuck_def at_token_def)

lemma points_call: "i \<in> S \<Longrightarrow> (\<And>node. points S (f node)) \<Longrightarrow> points S (rbind (call_node P name i args) f)"
  by (cases "call_node P name i args") (auto simp: call_node_def Let_def token_error_def split: if_splits option.splits)

lemma offsets_tl: "tk_offset ` set ts \<subseteq> S \<Longrightarrow> tk_offset ` set (tl ts) \<subseteq> S"
  by (cases ts) auto

lemma dispatch_points:
  assumes s: "\<And>h us. tk_offset ` set us \<subseteq> S \<Longrightarrow> points S (s h us)" and e: "ps_end P \<in> S" and ts: "tk_offset ` set ts \<subseteq> S"
  shows "points S (dispatch s P g ts)"
proof -
  have name: "points S (parse_name s P t us)" if "tk_offset t \<in> S" "tk_offset ` set us \<subseteq> S" for t us
    unfolding parse_name_def Let_def
    using that e offsets_tl [OF that(2)] by (simp add: token_error_def points_bind [OF s] points_expect points_call)
  have primary: "points S (parse_primary s P ts)"
    using ts e by (cases ts) (simp_all add: parse_primary_def stuck_def token_error_def points_bind [OF s] points_expect name
        split: token_kind.split option.split)
  show ?thesis using ts
    by (cases g) (simp_all add: run_defs(1-10,13,14) points_bind [OF s] s primary offsets_tl split: option.split)
qed

lemma run_points: "ps_end P \<in> S \<Longrightarrow> tk_offset ` set ts \<subseteq> S \<Longrightarrow> points S (run n P g ts)"
proof (induction n arbitrary: g ts)
  case (Suc n)
  then show ?case unfolding run.simps(2) by (intro dispatch_points) simp_all
qed simp

definition superscript :: "string \<Rightarrow> bool" where
  "superscript cs \<longleftrightarrow> (\<exists>c \<in> set cs. (of_char c :: nat) \<in> {178, 179, 185})"

lemma next_token_error:
  assumes "next_token i cs = Inl e" "cs \<noteq> []"
  shows "e = token_error i \<or> e = TokenAssertion \<and> superscript cs"
  using assms
  by (cases cs; cases "tl cs") (auto simp: next_token_def Let_def py_isdigit_def number_match_def superscript_def split: if_splits option.splits)

lemma next_token_offset: "next_token i cs = Inr (t, n) \<Longrightarrow> tk_offset t = i"
  by (auto simp: next_token_def mk_token_def Let_def split: if_splits option.splits)

lemma superscript_drop: "superscript (drop n cs) \<Longrightarrow> superscript cs" "superscript (tl cs) \<Longrightarrow> superscript cs"
  unfolding superscript_def by (meson in_set_dropD) (metis list.set_sel(2) tl_Nil)

lemma tokenize_offsets: "tokenize i cs = Inr ts \<Longrightarrow> tk_offset ` set ts \<subseteq> {i ..< i + int (length cs)}"
proof (induction i cs arbitrary: ts rule: tokenize.induct)
  case (1 i cs)
  consider "cs = []" | "cs \<noteq> []" "is_space (hd cs)" | "cs \<noteq> []" "\<not> is_space (hd cs)" by blast
  then show ?case
  proof cases
    case 1
    then show ?thesis using "1.prems" by (simp add: tokenize.simps)
  next
    case 2
    then have "tk_offset ` set ts \<subseteq> {i + 1 ..< i + 1 + int (length (tl cs))}" using 1 by (simp add: tokenize.simps [of i])
    then show ?thesis using 2(1) by (cases cs) auto
  next
    case 3
    then obtain t n us where n: "next_token i cs = Inr (t, n)" "tokenize (i + int n) (drop n cs) = Inr us" "ts = t # us"
      using "1.prems" by (subst (asm) tokenize.simps) (auto simp: rbind_def split: sum.splits)
    have "tk_offset ` set us \<subseteq> {i + int n ..< i + int n + int (length (drop n cs))}"
      using "1.IH"(2) [OF 3(1,2) n(1) refl n(2)] .
    moreover have "int n + int (length (drop n cs)) \<le> int (length cs) \<or> drop n cs = []" by auto
    ultimately show ?thesis using next_token_offset [OF n(1)] 3(1) n(3) by (auto simp: subset_iff)
  qed
qed

lemma tokenize_error:
  "tokenize i cs = Inl e \<Longrightarrow> (\<exists>j \<in> {i ..< i + int (length cs)}. e = token_error j) \<or> e = TokenAssertion \<and> superscript cs"
proof (induction i cs rule: tokenize.induct)
  case (1 i cs)
  consider "cs = []" | "cs \<noteq> []" "is_space (hd cs)" | "cs \<noteq> []" "\<not> is_space (hd cs)" by blast
  then show ?case
  proof cases
    case 1
    then show ?thesis using "1.prems" by (simp add: tokenize.simps)
  next
    case 2
    then have "(\<exists>j \<in> {i + 1 ..< i + 1 + int (length (tl cs))}. e = token_error j) \<or> e = TokenAssertion \<and> superscript (tl cs)"
      using 1 by (simp add: tokenize.simps [of i])
    then show ?thesis using 2(1) superscript_drop(2) by (cases cs) auto
  next
    case 3
    then consider "next_token i cs = Inl e" | t n where "next_token i cs = Inr (t, n)" "tokenize (i + int n) (drop n cs) = Inl e"
      using "1.prems" by (subst (asm) tokenize.simps) (auto simp: rbind_def split: sum.splits)
    then show ?thesis
    proof cases
      case 1
      then show ?thesis using next_token_error [OF 1 3(1)] 3(1) by (auto intro!: bexI [of _ i])
    next
      case n: 2
      have "(\<exists>j \<in> {i + int n ..< i + int n + int (length (drop n cs))}. e = token_error j) \<or> e = TokenAssertion \<and> superscript (drop n cs)"
        using "1.IH"(2) [OF 3(1,2) n(1) refl n(2)] .
      moreover have "int n + int (length (drop n cs)) \<le> int (length cs) \<or> drop n cs = []" by auto
      ultimately show ?thesis using superscript_drop(1) by fastforce
    qed
  qed
qed

lemma strip_parts:
  "int (length (takeWhile is_space s)) + int (length (strip s)) \<le> int (length s)" "set (strip s) \<subseteq> set s"
proof -
  let ?d = "dropWhile is_space s"
  have "length (strip s) \<le> length ?d" "set (strip s) \<subseteq> set ?d"
    using length_dropWhile_le [of is_space "rev ?d"] set_dropWhileD [of _ is_space "rev ?d"] by (auto simp: strip_def)
  moreover have "length (takeWhile is_space s) + length ?d = length s" using takeWhile_dropWhile_id [of is_space s] by (metis length_append)
  ultimately show "int (length (takeWhile is_space s)) + int (length (strip s)) \<le> int (length s)" "set (strip s) \<subseteq> set s"
    using set_dropWhileD [of _ is_space s] by auto
qed

lemma parse_tokens_error:
  assumes "parse_tokens P ts = Inl e" "tk_offset ` set ts \<subseteq> S" "ps_end P \<in> S"
  shows "\<exists>f i. e = ExpressionError f (Some i) \<and> i \<in> S"
proof -
  have p: "points S (run (9 * length ts + 9) P GOr ts)" by (rule run_points [OF assms(3,2)])
  have f: "e \<noteq> OutOfFuel" using parse_tokens_ends assms(1) by metis
  show ?thesis
  proof (cases "run (9 * length ts + 9) P GOr ts")
    case (Inl x)
    then have "x = e" using assms(1) by (simp add: parse_tokens_def)
    then show ?thesis using p f Inl by (auto simp: points_def split: text_error.splits option.splits)
  next
    case (Inr r)
    obtain as us where r: "r = (as, us)" by (cases r)
    then have "e = stuck P us" "us \<noteq> []" using assms(1) Inr by (auto simp: parse_tokens_def split: if_splits)
    then show ?thesis using p Inr r by (cases us) (auto simp: stuck_def)
  qed
qed

subsection \<open>Properties\<close>

lemma read_back:
  assumes "surface L row signed node node'"
  shows "\<exists>text. render_node L node = Some text \<and> parse_text self row text = Inr node'"
proof -
  let ?P = "\<lambda>t. \<lparr>ps_self = self, ps_row = row, ps_end = int (length t), ps_ir = True\<rparr>"
  obtain t0 k0 where t: "render_at L 0 node = Some t0" using surface_printed [OF assms, of "?P []" 0] by (auto simp: printed_def)
  obtain k where k: "lexes t0 k" "reads (?P t0) 0 k node'"
    using surface_printed [OF assms, of "?P t0" 0] t by (auto simp: printed_def)
  obtain ts where ts: "kts_of ts = k" "tokenize 0 t0 = Inr ts"
    using lexesD(2) [OF k(1), of "[]" 0] by (auto simp: delim_def tokenize.simps [of _ "[]"])
  have "parse_tokens (?P t0) ts = Inr node'" using parse_tokens_reads k(2) ts(1) by simp
  then have "parse_text self row t0 = Inr node'"
    using ts(2) lexesD(1) [OF k(1)] strip_tidy [of t0] by (simp add: parse_text_def translate_def tidy_def Let_def)
  then show ?thesis using t by (simp add: render_node_def)
qed

lemma read_back_value:
  assumes "surface L row signed node node'"
  shows "evaluate L c node' = evaluate L c node"
  using assms
proof (induction rule: surface.induct)
  case (s_binary op a a' b b')
  then show ?case by (intro e_op_same) simp
next
  case (s_neg a a')
  then show ?case by (intro e_op_same) simp
qed (auto simp: neg_value intro!: e_op_same e_call_same elim: list_all2_mono)


definition sample_node :: json where
  "sample_node = e_op ''or'' [e_op ''eq'' [e_op ''sub'' [e_ref ''a'', e_op ''sub'' [e_ref ''b'', e_lit (JInt 12)]], e_lit (JFloat (Fin (1 / 2)))],
     e_op ''and'' [e_op ''or'' [e_op ''not'' [e_ref ''c''], e_lit (JBool True)],
       e_call ''contains'' [e_ref (ROW_PREFIX @ ''name''), e_lit (JStr [CHR ''O'', CHR 0x27, CHR ''B''])]]]"

lemma sample_repr: "repr_reads sample_lib (1 / 2)"
proof -
  have "is_digits ''0''" "is_digits ''5''" by code_simp+
  then have "float_form ''0.5''" unfolding float_form_def by (intro disjI1 exI [of _ "''0''"] exI [of _ "''5''"]) simp
  moreover have "py_float_of_str ''0.5'' = Some (Fin (1 / 2))" by code_simp
  ultimately show ?thesis by (simp add: repr_reads_def sample_lib_def)
qed

lemma sample_surface: "surface sample_lib True False sample_node sample_node"
proof -
  have "strip ''a'' = ''a''" "strip ''b'' = ''b''" "strip ''c'' = ''c''" "name_ok ''name''" by code_simp+
  then show ?thesis
    unfolding sample_node_def
    by (intro s_nary s_binary s_call s_form [where n = 1] s_row s_ref s_int s_float s_bool s_str sample_repr list_all2_Cons [THEN iffD2] conjI list_all2_Nil [THEN iffD2])
      (simp_all add: NARY_def BINARY_def fn_arity_def ROW_PREFIX_def starts_with_def)
qed






subsection \<open>Where text and expression part\<close>

text \<open>A column whose name is not a name of the grammar is printed bare all the same: the column \<open>2020\<close> comes back as the number.\<close>

lemma numeric_column_becomes_number:
  "render_node L (e_ref ''$row.2020'') = Some ''2020'' \<and> parse_text None True ''2020'' = Inr (e_lit (JInt 2020))"
proof -
  have "parse_text None True ''2020'' = Inr (e_lit (JInt 2020))" by code_simp
  then show ?thesis by (simp add: render_node_def render_at_ref ROW_PREFIX_def starts_with_def)
qed

text \<open>A literal list is printed as a quoted text and comes back as that text.\<close>

lemma list_literal_becomes_text:
  "render_node sample_lib (e_lit (JList [])) = Some (CHR 0x27 # ''[]'' @ [CHR 0x27]) \<and>
   parse_text None False (CHR 0x27 # ''[]'' @ [CHR 0x27]) = Inr (e_lit (JStr ''[]''))"
proof -
  have "parse_text None False (CHR 0x27 # ''[]'' @ [CHR 0x27]) = Inr (e_lit (JStr ''[]''))" by code_simp
  then show ?thesis by (simp add: render_node_def render_at_lit lit_text_def is_negative_number_def literal_text_def sample_lib_def Let_def)
qed

text \<open>A superscript digit is a digit to \<open>str.isdigit\<close> and not to the pattern: the assertion of the tokenizer fails.\<close>

lemma superscript_fails_assertion: "parse_text None False [CHR 0xB2] = Inl TokenAssertion"
  by code_simp

text \<open>Expressions with a value and no text: \<open>in\<close>, and \<open>and\<close> with one argument.\<close>

lemma evaluated_not_rendered:
  "render_node L (e_op ''in'' [a, b]) = None" "render_node L (e_op ''and'' [a]) = None"
  "evaluate L c (e_op ''and'' [e_lit (JBool True)]) = Inr (JBool True)"
  by (simp_all add: render_node_def e_op_def BINARY_def NARY_def evaluate.simps node_args_def jitem_def v_and_def)

end

