(* ===== verification/Spec2Isabelle.thy ===== *)
theory Spec2Isabelle
  imports Publish_Checks Case_Key Projection_Laws Quality_Rules Media_Claims Expression_Claims
begin

text \<open>
  \<^bold>\<open>DataCollectionLab: a verified model of the form engine and of the server's log.\<close>

  The program collects survey data on devices that are often offline. A form is a JSON document (the
  Form IR). The engine (\<open>form_engine/\<close>) checks and compiles it, holds a live form while a respondent
  answers it, and gives the screens a device shows. What a device does is a log of operations; the server
  (\<open>sync/service.py\<close>) takes batches of operations, folds each submission's log into its present state,
  runs the project's quality rules over it, records review decisions, and hands the stream of operations
  back to other devices. All paths below are under \<open>src/backend/app/modules/\<close>.

  \<^bold>\<open>The engine.\<close>
  \<^item> \<open>Py_Prelude\<close>, \<open>Py_Number\<close>, \<open>Py_Date\<close>: what the sources use of Python: results with exceptions
    (\<open>py_error + 'a\<close>), JSON values, text, integers and exact binary floats, the calendar. What is left
    of the library (regular expressions, trigonometry, the text of a float) is the record \<open>pylib\<close>.
  \<^item> \<open>Expression\<close>, \<open>Expression_Laws\<close> (\<open>expression.py\<close>): the evaluator with its null rules and its static
    analyses. An expression reads only what it references; a static one has one value; 64-bit
    arithmetic is exact or raises; well-formed expressions raise no structural error.
  \<^item> \<open>Expression_Text\<close>, \<open>Expression_Text_Laws\<close>, \<open>Expression_Roundtrip\<close>, \<open>Expression_Claims\<close>
    (\<open>forms/expression_text.py\<close>, \<open>forms/xlsform/expressions.py\<close>): expressions as the text an author edits. The printer
    with its precedences, the tokenizer and the recursive descent. What is printed is read back as itself; a text that
    is refused is refused at a place inside it. \<open>reads\<close> says what the parser of a level makes of some tokens
    whatever follows them, \<open>lexes\<close> what tokens a piece of text gives; the two compose along the precedences.
  \<^item> \<open>Datasets\<close> (\<open>datasets.py\<close>, \<open>rows.py\<close>): option lists from data sets. Splitting a filter into selector
    and residual keeps its meaning (locale \<open>source_contract\<close> and its interpretation on the in-memory source).
  \<^item> \<open>Text_Render\<close> (\<open>text.py\<close>), \<open>Document\<close> (\<open>document.py\<close>): templates with isolated arguments; the gate of
    documents, exact in what it accepts.
  \<^item> \<open>Compile\<close>, \<open>Compile_Laws\<close> (\<open>runtime.py\<close>, \<open>CompiledForm\<close>): walking, compiling and ordering a form. A
    compiled form is well formed; the evaluation order is the greedy topological order; a cycle is refused
    exactly when there is one.
  \<^item> \<open>Instance_Runtime\<close>, \<open>Instance_Laws\<close>, \<open>Instance_Props\<close> (\<open>runtime.py\<close>, \<open>FormInstance\<close>): the live form and its
    operations as a step system (\<open>Step_System\<close>). Every reachable form is well formed and settled: each
    field stands at what its expressions evaluate to; ids are never reused.
  \<^item> \<open>Screens\<close>, \<open>Screen_Laws\<close>, \<open>Screen_Partition\<close> (\<open>screens.py\<close>): every question has one screen, next ends,
    previous undoes next, a form that may be finalised is complete.
  \<^item> \<open>Publish_Checks\<close> (\<open>reachability.py\<close>, \<open>answerability.py\<close>): what blocks publication, and that it is right.
  \<^item> \<open>Projection\<close>, \<open>Projection_Laws\<close> (\<open>projection.py\<close>): what a submission contributes to an export, and the
    closure of what the server cannot read.

  \<^bold>\<open>The server.\<close>
  \<^item> \<open>Fold\<close> (\<open>submissions/fold.py\<close>): the fold of a log is last-writer-wins, and replicas converge.
  \<^item> \<open>Status_Machine\<close> (\<open>submissions/status.py\<close>), \<open>Case_Key\<close> (\<open>entities/case_key.py\<close>): the table of statuses, and
    composite keys as a bijection.
  \<^item> \<open>Quality\<close>, \<open>Quality_Rules\<close> (\<open>quality/service.py\<close>, \<open>quality/rules.py\<close>): running the rules, the flags they
    leave, the rules a project stores. A rule that was not run is never taken for one that passed.
  \<^item> \<open>Sync_Schema\<close>, \<open>Sync_Push\<close> (\<open>sync/schemas.py\<close>, \<open>sync/service.py\<close>): the push, as one transaction: reading the
    batch, the gate of devices, forms and submissions, content keys and nonces, the insert with its
    fallback, tombstones, media references, folding and rules. \<open>check_batch\<close> is what runs before the insert
    and \<open>write_batch\<close> what runs from it on; operations that others commit in between are an argument.
  \<^item> \<open>Sync_Laws\<close>, \<open>Sync_Props\<close>, \<open>Sync_Retry\<close>: what each stage keeps, and then the whole push: the invariant
    \<open>sync_inv\<close>, that nothing is lost, that a retry changes nothing.
  \<^item> \<open>Review\<close> (\<open>quality/review.py\<close>): decisions and the statement of returned work. \<open>server_step\<close> is the system
    of pushes and decisions, an interpretation of the locale \<open>step_system\<close>.
  \<^item> \<open>Sync_Pull\<close>: the pull refines the abstract stream \<open>stream_after\<close>; \<open>Sync_Claims\<close> holds the promises of the
    service with a small concrete server, and the places where it falls short of its comments.
  \<^item> \<open>Media_Upload\<close> (\<open>media/service.py\<close>, \<open>media/schemas.py\<close>, \<open>infrastructure/media_storage.py\<close>): files sent in chunks.
    \<open>Media_Laws\<close> states the contract of the store as the locale \<open>media_store\<close>, discharges it for the file store, and
    proves what each request keeps of the invariant \<open>media_inv\<close>. \<open>Media_Claims\<close> composes uploads, pushes and decisions
    into the system \<open>media_step\<close>: a complete file is whole, a chunk may be sent twice, a resumed upload
    finishes, an encrypted file has a reader.

  \<^bold>\<open>Parameters and hypotheses.\<close> \<open>pylib\<close> (above); \<open>parse\<close>, the validation library that reads an operation
  out of a raw object; the record \<open>server\<close> of what a push only reads (deployed versions, environments,
  project keys, row-level policies, collation, rules, fresh ids) and of the database's report of a violated
  unique index, which the hypothesis \<open>honest\<close> says is given when and only when an index is violated. Fresh
  ids, the clock and the hash of a file are arguments; an upload step has a media id that is a plain file name
  (\<open>safe_name\<close>), which the code does not check. \<open>repr_reads\<close> says of one float that \<open>repr\<close> prints digits which
  \<open>float\<close> reads back.

  \<^bold>\<open>Fuel.\<close> Loops are structural or have a measure, but for the parser of expressions: its methods call each other
  and \<open>run\<close> gives each nested call one unit less. \<open>parse_tokens\<close> starts with nine for each token and nine more; \<open>run_ends\<close>
  shows that this is enough for any tokens, so \<open>OutOfFuel\<close> is never an answer of \<open>translate\<close>.

  \<^bold>\<open>Not modelled.\<close> Publishing, deployment and the XLSForm importer (\<open>forms/service.py\<close>, \<open>forms/xlsform/importer.py\<close>), data set and case
  management (\<open>entities/service.py\<close>, \<open>cases/\<close>), the file formats of an export (\<open>export/\<close>), the cryptography of the envelope
  (a third-party library), people, projects and sessions, dashboards, HTTP routing, settings, migrations,
  and the generators of test vectors. Of the sync service, the manifests of forms, data sets and
  assignments that a pull can carry, and gaps in the sequence left by a failed insert.
\<close>

end
